(* ===== verification/Prelude.thy ===== *)
theory Prelude
  imports Main "HOL-Library.Sublist"
begin

text \<open>
  Shared vocabulary of the development: Python's string methods on character lists, the
  decimal reading and printing of integers, ordered dictionaries, and the collections of
  rewrite rules the component theories use.

  A Python \<open>str\<close> is the list of the bytes of its UTF-8 form.  Case mapping, white space and
  digits are those Python uses for ASCII characters; bytes from 128 on (the parts of other
  characters) are carried through unchanged, are caseless and are neither white space nor digits.
\<close>

named_theorems text_simps \<open>rules about the string operations\<close>
named_theorems inv_intros \<open>introduction rules for invariants\<close>

section \<open>Characters\<close>

definition code_pt :: "char \<Rightarrow> nat" where
  "code_pt c = of_char c"

definition is_space :: "char \<Rightarrow> bool" where
  "is_space c \<longleftrightarrow> code_pt c = 32 \<or> (9 \<le> code_pt c \<and> code_pt c \<le> 13)
     \<or> (28 \<le> code_pt c \<and> code_pt c \<le> 31)"

definition is_digit :: "char \<Rightarrow> bool" where
  "is_digit c \<longleftrightarrow> 48 \<le> code_pt c \<and> code_pt c \<le> 57"

definition lower_char :: "char \<Rightarrow> char" where
  "lower_char c = (if 65 \<le> code_pt c \<and> code_pt c \<le> 90 then char_of (code_pt c + 32) else c)"

definition upper_char :: "char \<Rightarrow> char" where
  "upper_char c = (if 97 \<le> code_pt c \<and> code_pt c \<le> 122 then char_of (code_pt c - 32) else c)"

definition py_lower :: "string \<Rightarrow> string" where
  "py_lower s = map lower_char s"

definition py_upper :: "string \<Rightarrow> string" where
  "py_upper s = map upper_char s"

text \<open>Evaluation of the case mappings on literals.\<close>

lemma char_of_letters [text_simps]:
  "char_of (65 :: nat) = CHR ''A''"
  "char_of (66 :: nat) = CHR ''B''"
  "char_of (67 :: nat) = CHR ''C''"
  "char_of (68 :: nat) = CHR ''D''"
  "char_of (69 :: nat) = CHR ''E''"
  "char_of (70 :: nat) = CHR ''F''"
  "char_of (71 :: nat) = CHR ''G''"
  "char_of (72 :: nat) = CHR ''H''"
  "char_of (73 :: nat) = CHR ''I''"
  "char_of (74 :: nat) = CHR ''J''"
  "char_of (75 :: nat) = CHR ''K''"
  "char_of (76 :: nat) = CHR ''L''"
  "char_of (77 :: nat) = CHR ''M''"
  "char_of (78 :: nat) = CHR ''N''"
  "char_of (79 :: nat) = CHR ''O''"
  "char_of (80 :: nat) = CHR ''P''"
  "char_of (81 :: nat) = CHR ''Q''"
  "char_of (82 :: nat) = CHR ''R''"
  "char_of (83 :: nat) = CHR ''S''"
  "char_of (84 :: nat) = CHR ''T''"
  "char_of (85 :: nat) = CHR ''U''"
  "char_of (86 :: nat) = CHR ''V''"
  "char_of (87 :: nat) = CHR ''W''"
  "char_of (88 :: nat) = CHR ''X''"
  "char_of (89 :: nat) = CHR ''Y''"
  "char_of (90 :: nat) = CHR ''Z''"
  "char_of (97 :: nat) = CHR ''a''"
  "char_of (98 :: nat) = CHR ''b''"
  "char_of (99 :: nat) = CHR ''c''"
  "char_of (100 :: nat) = CHR ''d''"
  "char_of (101 :: nat) = CHR ''e''"
  "char_of (102 :: nat) = CHR ''f''"
  "char_of (103 :: nat) = CHR ''g''"
  "char_of (104 :: nat) = CHR ''h''"
  "char_of (105 :: nat) = CHR ''i''"
  "char_of (106 :: nat) = CHR ''j''"
  "char_of (107 :: nat) = CHR ''k''"
  "char_of (108 :: nat) = CHR ''l''"
  "char_of (109 :: nat) = CHR ''m''"
  "char_of (110 :: nat) = CHR ''n''"
  "char_of (111 :: nat) = CHR ''o''"
  "char_of (112 :: nat) = CHR ''p''"
  "char_of (113 :: nat) = CHR ''q''"
  "char_of (114 :: nat) = CHR ''r''"
  "char_of (115 :: nat) = CHR ''s''"
  "char_of (116 :: nat) = CHR ''t''"
  "char_of (117 :: nat) = CHR ''u''"
  "char_of (118 :: nat) = CHR ''v''"
  "char_of (119 :: nat) = CHR ''w''"
  "char_of (120 :: nat) = CHR ''x''"
  "char_of (121 :: nat) = CHR ''y''"
  "char_of (122 :: nat) = CHR ''z''"
  by code_simp+

lemma code_pt_char_of [simp]: "code_pt (char_of n) = n mod 256"
  by (simp add: code_pt_def)

lemma char_of_code_pt [simp]: "char_of (code_pt c) = c"
  by (simp add: code_pt_def)

lemma code_pt_less [simp]: "code_pt c < 256"
  using of_char_mod_256 [where 'a = nat, of c] by (simp add: code_pt_def)

lemma code_pt_upper_char [simp]:
  "code_pt (upper_char c) = (if 97 \<le> code_pt c \<and> code_pt c \<le> 122 then code_pt c - 32 else code_pt c)"
  by (auto simp: upper_char_def intro!: mod_less)

lemma code_pt_lower_char [simp]:
  "code_pt (lower_char c) = (if 65 \<le> code_pt c \<and> code_pt c \<le> 90 then code_pt c + 32 else code_pt c)"
  by (auto simp: lower_char_def intro!: mod_less)

lemma char_eq_iff_code_pt: "c = d \<longleftrightarrow> code_pt c = code_pt d"
  by (metis char_of_code_pt)

lemma upper_char_idem [simp]: "upper_char (upper_char c) = upper_char c"
  by (auto simp: char_eq_iff_code_pt)

lemma lower_char_idem [simp]: "lower_char (lower_char c) = lower_char c"
  by (auto simp: char_eq_iff_code_pt)

lemma lower_upper_char [simp]: "lower_char (upper_char c) = lower_char c"
  by (auto simp: char_eq_iff_code_pt)

lemma is_space_upper_char [simp]: "is_space (upper_char c) = is_space c"
  by (auto simp: is_space_def)

lemma py_upper_simps [simp]:
  "py_upper [] = []"
  "py_upper (c # s) = upper_char c # py_upper s"
  "py_upper (s @ t) = py_upper s @ py_upper t"
  "py_upper (py_upper s) = py_upper s"
  "py_upper s = [] \<longleftrightarrow> s = []"
  "length (py_upper s) = length s"
  by (simp_all add: py_upper_def comp_def)

lemma py_lower_simps [simp]:
  "py_lower [] = []"
  "py_lower (c # s) = lower_char c # py_lower s"
  "py_lower (s @ t) = py_lower s @ py_lower t"
  "py_lower (py_lower s) = py_lower s"
  "py_lower (py_upper s) = py_lower s"
  "py_lower s = [] \<longleftrightarrow> s = []"
  "length (py_lower s) = length s"
  by (simp_all add: py_lower_def py_upper_def comp_def)

section \<open>Splitting, stripping, joining, replacing\<close>

definition sp :: char where
  "sp = CHR '' ''"

abbreviation dquote :: char where
  "dquote \<equiv> CHR 0x22"

abbreviation bslash :: char where
  "bslash \<equiv> CHR 0x5C"

fun split_ws :: "string \<Rightarrow> string \<Rightarrow> string list" where
  "split_ws cur [] = (if cur = [] then [] else [cur])"
| "split_ws cur (c # cs) =
     (if is_space c then (if cur = [] then split_ws [] cs else cur # split_ws [] cs)
      else split_ws (cur @ [c]) cs)"

definition py_split :: "string \<Rightarrow> string list" where
  "py_split s = split_ws [] s"

fun split_char :: "char \<Rightarrow> string \<Rightarrow> string \<Rightarrow> string list" where
  "split_char d cur [] = [cur]"
| "split_char d cur (c # cs) =
     (if c = d then cur # split_char d [] cs else split_char d (cur @ [c]) cs)"

definition py_split_on :: "char \<Rightarrow> string \<Rightarrow> string list" where
  "py_split_on d s = split_char d [] s"

definition lstrip_if :: "(char \<Rightarrow> bool) \<Rightarrow> string \<Rightarrow> string" where
  "lstrip_if P s = dropWhile P s"

definition rstrip_if :: "(char \<Rightarrow> bool) \<Rightarrow> string \<Rightarrow> string" where
  "rstrip_if P s = rev (dropWhile P (rev s))"

definition strip_if :: "(char \<Rightarrow> bool) \<Rightarrow> string \<Rightarrow> string" where
  "strip_if P s = rstrip_if P (lstrip_if P s)"

abbreviation py_strip :: "string \<Rightarrow> string" where
  "py_strip \<equiv> strip_if is_space"

fun py_join :: "string \<Rightarrow> string list \<Rightarrow> string" where
  "py_join sep [] = []"
| "py_join sep [x] = x"
| "py_join sep (x # y # ys) = x @ sep @ py_join sep (y # ys)"

fun py_replace :: "string \<Rightarrow> string \<Rightarrow> string \<Rightarrow> string" where
  "py_replace old new [] = []"
| "py_replace old new (c # cs) =
     (if old \<noteq> [] \<and> take (length old) (c # cs) = old
      then new @ py_replace old new (drop (length old - 1) cs)
      else c # py_replace old new cs)"

definition py_startswith :: "string \<Rightarrow> string \<Rightarrow> bool" where
  "py_startswith s p \<longleftrightarrow> take (length p) s = p"

definition py_endswith :: "string \<Rightarrow> string \<Rightarrow> bool" where
  "py_endswith s p \<longleftrightarrow> py_startswith (rev s) (rev p)"

lemma is_space_sp [simp]: "is_space sp"
  by (simp add: is_space_def sp_def code_pt_def)

lemma split_ws_tokens:
  "\<forall>c \<in> set cur. \<not> is_space c \<Longrightarrow> w \<in> set (split_ws cur s) \<Longrightarrow>
     w \<noteq> [] \<and> (\<forall>c \<in> set w. \<not> is_space c)"
proof (induction s arbitrary: cur)
  case Nil
  then show ?case by (simp split: if_splits)
next
  case (Cons c s)
  show ?case
  proof (cases "is_space c")
    case True
    with Cons.prems consider "w = cur" "cur \<noteq> []" | "w \<in> set (split_ws [] s)"
      by (auto split: if_splits)
    then show ?thesis using Cons.prems(1) Cons.IH [of "[]"] by cases simp_all
  next
    case False
    with Cons.prems Cons.IH [of "cur @ [c]"] show ?thesis by simp
  qed
qed

lemma py_split_tokens:
  assumes "w \<in> set (py_split s)"
  shows "w \<noteq> []" and "\<forall>c \<in> set w. \<not> is_space c"
  using split_ws_tokens [of "[]" w s] assms by (auto simp: py_split_def)

text \<open>When a line's only white space is the space character, Python's \<open>split()\<close> and the
  protocol's splitting at single spaces agree.\<close>

definition only_sp :: "string \<Rightarrow> bool" where
  "only_sp s \<longleftrightarrow> list_all (\<lambda>c. is_space c \<longrightarrow> c = sp) s"

definition sp_words :: "string \<Rightarrow> string list" where
  "sp_words s = filter (\<lambda>w. w \<noteq> []) (py_split_on sp s)"

lemma split_ws_only_sp:
  "only_sp s \<Longrightarrow> split_ws cur s = filter (\<lambda>w. w \<noteq> []) (split_char sp cur s)"
  by (induction cur s rule: split_ws.induct) (auto simp: only_sp_def)

lemma py_split_only_sp: "only_sp s \<Longrightarrow> py_split s = sp_words s"
  by (simp add: py_split_def sp_words_def py_split_on_def split_ws_only_sp)

lemma split_ws_append_token:
  "\<forall>c \<in> set w. \<not> is_space c \<Longrightarrow> split_ws cur (w @ s) = split_ws (cur @ w) s"
  by (induction w arbitrary: cur) auto

lemma py_split_join:
  assumes "\<forall>w \<in> set ws. w \<noteq> [] \<and> (\<forall>c \<in> set w. \<not> is_space c)"
  shows "py_split (py_join [sp] ws) = ws"
  using assms
proof (induction ws rule: induct_list012)
  case (2 w)
  then show ?case using split_ws_append_token [of w "[]" "[]"] by (simp add: py_split_def)
next
  case (3 x y zs)
  then show ?case
    using split_ws_append_token [of x "[]" "sp # py_join [sp] (y # zs)"]
    by (simp add: py_split_def)
qed (simp add: py_split_def)

section \<open>Decimal numbers\<close>

definition digit_val :: "char \<Rightarrow> nat" where
  "digit_val c = code_pt c - 48"

fun num_acc :: "nat \<Rightarrow> string \<Rightarrow> nat" where
  "num_acc n [] = n"
| "num_acc n (c # cs) = num_acc (10 * n + digit_val c) cs"

definition py_isdigit :: "string \<Rightarrow> bool" where
  "py_isdigit s \<longleftrightarrow> s \<noteq> [] \<and> list_all is_digit s"

text \<open>\<open>int(s)\<close> on a string of decimal digits; the callers check \<open>isdigit\<close> or match \<open>\d+\<close> first.\<close>

definition nat_of_str :: "string \<Rightarrow> nat" where
  "nat_of_str s = num_acc 0 s"

fun str_of_nat :: "nat \<Rightarrow> string" where
  "str_of_nat n =
     (if n < 10 then [char_of (48 + n)] else str_of_nat (n div 10) @ [char_of (48 + n mod 10)])"

declare str_of_nat.simps [simp del]

definition str_of_int :: "int \<Rightarrow> string" where
  "str_of_int i = (if i < 0 then CHR ''-'' # str_of_nat (nat (- i)) else str_of_nat (nat i))"

lemma num_acc_append: "num_acc k (s @ t) = num_acc (num_acc k s) t"
  by (induction k s rule: num_acc.induct) auto

lemma nat_of_str_of_nat [simp]: "nat_of_str (str_of_nat n) = n"
proof (induction n rule: str_of_nat.induct)
  case (1 n)
  show ?case
  proof (cases "n < 10")
    case True
    then show ?thesis by (simp add: str_of_nat.simps [of n] nat_of_str_def digit_val_def)
  next
    case False
    then have "num_acc 0 (str_of_nat (n div 10)) = n div 10"
      using 1 by (simp add: nat_of_str_def)
    moreover have "digit_val (char_of (48 + n mod 10)) = n mod 10"
      by (simp add: digit_val_def)
    ultimately show ?thesis using False
      by (simp add: str_of_nat.simps [of n] nat_of_str_def num_acc_append)
  qed
qed

lemma str_of_nat_digits: "str_of_nat n \<noteq> [] \<and> list_all is_digit (str_of_nat n)"
proof (induction n rule: str_of_nat.induct)
  case (1 n)
  then show ?case
    by (cases "n < 10") (auto simp: str_of_nat.simps [of n] is_digit_def)
qed

lemma str_of_nat_nonempty [simp]: "str_of_nat n \<noteq> []"
  and str_of_nat_all_digits [simp]: "list_all is_digit (str_of_nat n)"
  using str_of_nat_digits by auto

lemma py_isdigit_str_of_nat [simp]: "py_isdigit (str_of_nat n)"
  by (simp add: py_isdigit_def)

lemma takeWhile_append_stop:
  "list_all P xs \<Longrightarrow> ys = [] \<or> \<not> P (hd ys) \<Longrightarrow>
     takeWhile P (xs @ ys) = xs \<and> dropWhile P (xs @ ys) = ys"
  by (induction xs) (cases ys; auto)+

lemma while_char_stop:
  "c \<notin> set s \<Longrightarrow> takeWhile (\<lambda>d. d \<noteq> c) (s @ c # t) = s"
  "c \<notin> set s \<Longrightarrow> dropWhile (\<lambda>d. d \<noteq> c) (s @ c # t) = c # t"
  "c \<notin> set s \<Longrightarrow> takeWhile (\<lambda>d. d \<noteq> c) s = s"
  "c \<notin> set s \<Longrightarrow> dropWhile (\<lambda>d. d \<noteq> c) s = []"
  by (induction s) auto

section \<open>Quoting\<close>

text \<open>The quoted-string form of a name (RFC 3501): the characters \<open>"\<close> and \<open>\\<close> escaped.\<close>

fun quote_body :: "string \<Rightarrow> string" where
  "quote_body [] = []"
| "quote_body (c # s) =
     (if c = dquote \<or> c = bslash then bslash # c # quote_body s else c # quote_body s)"

definition imap_quote :: "string \<Rightarrow> string" where
  "imap_quote s = dquote # quote_body s @ [dquote]"

fun double_bslash :: "string \<Rightarrow> string" where
  "double_bslash [] = []"
| "double_bslash (c # s) = (if c = bslash then c # c # double_bslash s else c # double_bslash s)"

lemma quote_body_hd: "quote_body s = dquote # r \<Longrightarrow> False"
  by (cases s) (auto split: if_splits)

lemma py_replace_quote_body:
  "py_replace [bslash, dquote] [dquote] (quote_body s) = double_bslash s"
proof (induction s)
  case (Cons c s)
  consider "c = bslash" | "c = dquote" | "c \<noteq> bslash" "c \<noteq> dquote" by blast
  then show ?case
  proof cases
    case 1
    then show ?thesis using Cons quote_body_hd [of s] by (cases "quote_body s") auto
  qed (use Cons in simp_all)
qed simp

lemma py_replace_double_bslash:
  "py_replace [bslash, bslash] [bslash] (double_bslash s) = s"
  by (induction s) auto

section \<open>Words without syntax\<close>

text \<open>A word that the command tokenizer reads as one atom.\<close>

definition plain_char :: "char \<Rightarrow> bool" where
  "plain_char c \<longleftrightarrow> \<not> is_space c \<and> c \<notin> {dquote, CHR ''('', CHR ''{'', CHR ''[''}"

definition plain_word :: "string \<Rightarrow> bool" where
  "plain_word w \<longleftrightarrow> w \<noteq> [] \<and> list_all plain_char w"

lemma plain_charD:
  "plain_char c \<Longrightarrow>
     c \<noteq> sp \<and> c \<noteq> dquote \<and> c \<noteq> CHR ''('' \<and> c \<noteq> CHR ''{'' \<and> c \<noteq> CHR ''['' \<and> \<not> is_space c"
  by (auto simp: plain_char_def)

lemma plain_word_token:
  "plain_word w \<Longrightarrow> w \<noteq> [] \<and> (\<forall>c \<in> set w. \<not> is_space c \<and> c \<noteq> sp)"
  by (auto simp: plain_word_def list_all_iff dest: plain_charD)

lemma py_join_Cons: "py_join sep (w # ws) = w @ (if ws = [] then [] else sep @ py_join sep ws)"
  by (cases ws) auto

lemma py_split_words_then:
  assumes "list_all plain_word ws" "t = [] \<or> hd t = sp"
  shows "py_split (py_join [sp] ws @ t) = ws @ py_split t"
  using assms
proof (induction ws)
  case (Cons w ws)
  have w: "\<forall>c \<in> set w. \<not> is_space c" "w \<noteq> []"
    using Cons.prems plain_word_token [of w] by auto
  show ?case
  proof (cases "ws = []")
    case True
    then show ?thesis using w Cons.prems split_ws_append_token [of w "[]" t]
      by (cases t) (auto simp: py_split_def)
  next
    case False
    then show ?thesis using w Cons split_ws_append_token [of w "[]" "sp # py_join [sp] ws @ t"]
      by (simp add: py_split_def py_join_Cons)
  qed
qed (simp add: py_split_def)

lemma digit_not_brace: "list_all is_digit s \<Longrightarrow> list_all (\<lambda>c. c \<noteq> CHR ''}'') s"
  by (auto simp: list_all_iff is_digit_def code_pt_def)

lemma digit_not_space: "is_digit c \<Longrightarrow> \<not> is_space c"
  by (auto simp: is_digit_def is_space_def)

text \<open>The state after an operation that may raise: unchanged when it does.\<close>

definition the_default :: "'a \<Rightarrow> 'a option \<Rightarrow> 'a" where
  "the_default d x = (case x of Some y \<Rightarrow> y | None \<Rightarrow> d)"

end
