(* ===== verification/Utf8.thy ===== *)
theory Utf8
  imports Prelude
begin

text \<open>
  Text as its UTF-8 bytes: what Python's lossy decoding makes of arbitrary bytes, and lengths counted in
  characters.
\<close>

section \<open>Decoding\<close>

text \<open>
  \<open>bytes.decode("utf-8", errors="replace")\<close>, back in UTF-8: well-formed sequences stay, each maximal
  ill-formed prefix of one becomes U+FFFD.  A lead byte fixes the number of continuation bytes and the
  range of the first of them.
\<close>

definition REPLACEMENT :: string where
  "REPLACEMENT = [CHR 0xEF, CHR 0xBF, CHR 0xBD]"

definition continuation :: "char \<Rightarrow> bool" where
  "continuation c \<longleftrightarrow> 128 \<le> code_pt c \<and> code_pt c \<le> 191"

definition lead_range :: "nat \<Rightarrow> (nat \<times> nat \<times> nat) option" where
  "lead_range n =
     (if 194 \<le> n \<and> n \<le> 223 then Some (1, 128, 191)
      else if n = 224 then Some (2, 160, 191)
      else if n = 237 then Some (2, 128, 159)
      else if 225 \<le> n \<and> n \<le> 239 then Some (2, 128, 191)
      else if n = 240 then Some (3, 144, 191)
      else if 241 \<le> n \<and> n \<le> 243 then Some (3, 128, 191)
      else if n = 244 then Some (3, 128, 143)
      else None)"

definition tail_bytes :: "nat \<times> nat \<times> nat \<Rightarrow> string \<Rightarrow> nat" where
  "tail_bytes rng s =
     (case rng of (n, lo, hi) \<Rightarrow>
       (case s of
          [] \<Rightarrow> 0
        | d # t \<Rightarrow> if lo \<le> code_pt d \<and> code_pt d \<le> hi
                   then Suc (length (takeWhile continuation (take (n - 1) t))) else 0))"

function py_decode :: "string \<Rightarrow> string" where
  "py_decode [] = []"
| "py_decode (c # s) =
     (if code_pt c < 128 then c # py_decode s
      else case lead_range (code_pt c) of
        None \<Rightarrow> REPLACEMENT @ py_decode s
      | Some rng \<Rightarrow>
          (if tail_bytes rng s = fst rng then c # take (fst rng) s @ py_decode (drop (fst rng) s)
           else REPLACEMENT @ py_decode (drop (tail_bytes rng s) s)))"
  by pat_completeness auto
termination by (relation "measure length") auto

text \<open>The first \<open>n\<close> characters, and how many there are: a character starts at any byte that continues none.\<close>

fun utf8_take :: "nat \<Rightarrow> string \<Rightarrow> string" where
  "utf8_take n [] = []"
| "utf8_take n (c # s) =
     (if continuation c then c # utf8_take n s
      else case n of 0 \<Rightarrow> [] | Suc m \<Rightarrow> c # utf8_take m s)"

definition utf8_length :: "string \<Rightarrow> nat" where
  "utf8_length s = length (filter (\<lambda>c. \<not> continuation c) s)"

lemma utf8_length_simps [simp]:
  "utf8_length [] = 0" "utf8_length (c # s) = (if continuation c then 0 else 1) + utf8_length s"
  "utf8_length (s @ t) = utf8_length s + utf8_length t"
  by (simp_all add: utf8_length_def)

lemma utf8_take_length: "utf8_length (utf8_take n s) = min n (utf8_length s)"
  by (induction n s rule: utf8_take.induct) (auto split: nat.split)

section \<open>Lemmas\<close>

lemma py_decode_ascii: "list_all (\<lambda>c. code_pt c < 128) s \<Longrightarrow> py_decode s = s"
  by (induction s) simp_all

text \<open>Decoding is local: it does not look past an ASCII byte, and leaves ASCII bytes as they are.\<close>

lemma tail_bytes_ascii:
  assumes "lead_range n = Some rng"
  shows "tail_bytes rng s \<le> length s" "tail_bytes rng s \<le> fst rng"
    "x \<in> set (take (tail_bytes rng s) s) \<Longrightarrow> \<not> code_pt x < 128"
    "code_pt c < 128 \<Longrightarrow> tail_bytes rng (s @ c # b) = tail_bytes rng s"
proof -
  obtain m lo hi where rng: "rng = (m, lo, hi)" by (cases rng)
  then have lo: "128 \<le> lo" "0 < m" using assms by (auto simp: lead_range_def split: if_splits)
  show "tail_bytes rng s \<le> length s" "tail_bytes rng s \<le> fst rng"
    using lo length_takeWhile_le [of continuation "take (m - 1) (tl s)"]
    by (auto simp: tail_bytes_def rng split: list.split)
  show "\<not> code_pt x < 128" if "x \<in> set (take (tail_bytes rng s) s)"
  proof (cases s)
    case (Cons d t)
    have "x = d \<or> x \<in> set (take (length (takeWhile continuation (take (m - 1) t))) t)"
      and "lo \<le> code_pt d"
      using that by (auto simp: tail_bytes_def rng Cons split: if_splits)
    moreover have "take (length (takeWhile continuation (take (m - 1) t))) t = takeWhile continuation (take (m - 1) t)"
      using length_takeWhile_le [of continuation "take (m - 1) t"]
      by (metis min.absorb1 min.bounded_iff length_take take_take takeWhile_eq_take)
    ultimately show ?thesis using lo set_takeWhileD [of x continuation] by (auto simp: continuation_def)
  qed (use that in \<open>simp add: tail_bytes_def rng\<close>)
  show "tail_bytes rng (s @ c # b) = tail_bytes rng s" if "code_pt c < 128"
  proof -
    have "takeWhile continuation (take k (t @ c # b)) = takeWhile continuation (take k t)" for k t
    proof (cases "k \<le> length t")
      case False
      then have "take k (t @ c # b) = t @ c # take (k - Suc (length t)) b"
        by (simp add: take_Cons' )
      then show ?thesis using that False by (simp add: continuation_def takeWhile_tail)
    qed simp
    then show ?thesis using that lo by (cases s) (auto simp: tail_bytes_def rng simp del: take_append)
  qed
qed

lemma py_decode_append:
  assumes "code_pt c < 128"
  shows "py_decode (a @ c # b) = py_decode a @ c # py_decode b"
proof (induction a rule: py_decode.induct)
  case 1
  then show ?case using assms by simp
next
  case (2 d s)
  show ?case
  proof (cases "lead_range (code_pt d)")
    case (Some rng)
    note tb = tail_bytes_ascii [OF Some]
    show ?thesis
      using 2 Some tb(1,2) [of s] tb(4) [OF assms, of s b] by (cases "code_pt d < 128") auto
  qed (use 2 in auto)
qed

lemma py_decode_cons [simp]: "code_pt c < 128 \<Longrightarrow> py_decode (c # b) = c # py_decode b"
  by simp

lemma ascii_in_decode:
  assumes "code_pt c < 128" shows "c \<in> set (py_decode s) \<longleftrightarrow> c \<in> set s"
proof (induction s rule: py_decode.induct)
  case (2 d s)
  have r: "c \<notin> set REPLACEMENT" using assms by (auto simp: REPLACEMENT_def code_pt_def)
  show ?case
  proof (cases "lead_range (code_pt d)")
    case (Some rng)
    note tb = tail_bytes_ascii [OF Some]
    have "c \<in> set s \<longleftrightarrow> c \<in> set (drop (tail_bytes rng s) s)"
      using tb(3) [of c s] assms by (metis Un_iff append_take_drop_id set_append)
    moreover have "c \<notin> set (take (tail_bytes rng s) s)" using tb(3) [of c s] assms by blast
    ultimately show ?thesis using 2 Some r assms by auto
  qed (use 2 r assms in auto)
qed simp

lemma py_decode_all_ascii:
  "list_all (\<lambda>c. code_pt c < 128) (py_decode s) \<Longrightarrow> py_decode s = s"
proof (induction s rule: py_decode.induct)
  case (2 d s)
  then show ?case
    by (auto simp: REPLACEMENT_def code_pt_def split: if_splits option.splits)
qed simp

lemma py_decode_Nil_iff [simp]: "py_decode s = [] \<longleftrightarrow> s = []"
  by (cases s) (auto simp: REPLACEMENT_def split: option.split)

end
