(* ===== verification/Regex.thy ===== *)
theory Regex
  imports Prelude
begin

text \<open>
  A backtracking matcher for the fragment of Python's regular expressions the code uses:
  character classes, greedy and lazy repetition of one class, optional groups, alternatives,
  capturing groups, the end anchor and the word boundary.  A pattern is a list of items; the
  matcher tries the choices in the order the \<open>re\<close> module does and returns the captures of the
  first success together with the unread text.
\<close>

section \<open>Patterns\<close>

datatype rx =
    One "char \<Rightarrow> bool"
  | Many "char \<Rightarrow> bool"
  | Lazy "char \<Rightarrow> bool"
  | Opt "rx list"
  | Alt "rx list" "rx list"
  | Cap nat "rx list"
  | EndCap nat string
  | Eol
  | WordB

type_synonym captures = "(nat \<times> string) list"

definition is_word :: "char \<Rightarrow> bool" where
  "is_word c \<longleftrightarrow> is_digit c \<or> c = CHR ''_''
     \<or> (65 \<le> code_pt c \<and> code_pt c \<le> 90) \<or> (97 \<le> code_pt c \<and> code_pt c \<le> 122)"

definition word_at :: "char option \<Rightarrow> bool" where
  "word_at c = (case c of Some d \<Rightarrow> is_word d | None \<Rightarrow> False)"

definition head_opt :: "string \<Rightarrow> char option" where
  "head_opt s = (case s of [] \<Rightarrow> None | c # _ \<Rightarrow> Some c)"

function (sequential) rx_match ::
  "rx list \<Rightarrow> char option \<Rightarrow> string \<Rightarrow> captures \<Rightarrow> (captures \<times> string) option" where
  "rx_match [] prev s g = Some (g, s)"
| "rx_match (One p # k) prev s g =
     (case s of [] \<Rightarrow> None | c # cs \<Rightarrow> if p c then rx_match k (Some c) cs g else None)"
| "rx_match (Many p # k) prev s g =
     (case s of [] \<Rightarrow> rx_match k prev s g
      | c # cs \<Rightarrow>
          (case (if p c then rx_match (Many p # k) (Some c) cs g else None) of
             Some r \<Rightarrow> Some r | None \<Rightarrow> rx_match k prev s g))"
| "rx_match (Lazy p # k) prev s g =
     (case rx_match k prev s g of
        Some r \<Rightarrow> Some r
      | None \<Rightarrow> (case s of [] \<Rightarrow> None
          | c # cs \<Rightarrow> if p c then rx_match (Lazy p # k) (Some c) cs g else None))"
| "rx_match (Opt r # k) prev s g =
     (case rx_match (r @ k) prev s g of Some r \<Rightarrow> Some r | None \<Rightarrow> rx_match k prev s g)"
| "rx_match (Alt r q # k) prev s g =
     (case rx_match (r @ k) prev s g of Some r \<Rightarrow> Some r | None \<Rightarrow> rx_match (q @ k) prev s g)"
| "rx_match (Cap n r # k) prev s g = rx_match (r @ EndCap n s # k) prev s g"
| "rx_match (EndCap n t # k) prev s g =
     rx_match k prev s ((n, take (length t - length s) t) # g)"
| "rx_match (Eol # k) prev s g =
     (if s = [] \<or> s = [CHR 0x0A] then rx_match k prev s g else None)"
| "rx_match (WordB # k) prev s g =
     (if word_at prev \<noteq> word_at (head_opt s) then rx_match k prev s g else None)"
  by pat_completeness auto

fun rx_weight :: "rx \<Rightarrow> nat" where
  "rx_weight (Opt r) = Suc (sum_list (map rx_weight r))"
| "rx_weight (Alt r q) = Suc (sum_list (map rx_weight r) + sum_list (map rx_weight q))"
| "rx_weight (Cap n r) = Suc (Suc (sum_list (map rx_weight r)))"
| "rx_weight _ = 1"

termination rx_match
  by (relation "measures [\<lambda>(k, prev, s, g). length s, \<lambda>(k, prev, s, g). sum_list (map rx_weight k)]")
    auto

declare rx_match.simps(3,4) [simp del]

section \<open>Building patterns\<close>

definition rx_lit :: "string \<Rightarrow> rx list" where
  "rx_lit s = map (\<lambda>c. One (\<lambda>d. d = c)) s"

text \<open>Literal text under \<open>re.IGNORECASE\<close>.\<close>

definition rx_ilit :: "string \<Rightarrow> rx list" where
  "rx_ilit s = map (\<lambda>c. One (\<lambda>d. lower_char d = lower_char c)) s"

abbreviation rx_some :: "(char \<Rightarrow> bool) \<Rightarrow> rx list" where
  "rx_some p \<equiv> [One p, Many p]"

abbreviation rx_digits :: "rx list" where
  "rx_digits \<equiv> rx_some is_digit"

definition rx_any :: "char \<Rightarrow> bool" where
  "rx_any c \<longleftrightarrow> c \<noteq> CHR 0x0A"

definition rx_not :: "string \<Rightarrow> char \<Rightarrow> bool" where
  "rx_not s c \<longleftrightarrow> c \<notin> set s"

section \<open>Matching at the start, searching, finding all\<close>

definition re_match :: "rx list \<Rightarrow> string \<Rightarrow> captures option" where
  "re_match r s = map_option fst (rx_match r None s [])"

fun rx_search :: "rx list \<Rightarrow> char option \<Rightarrow> string \<Rightarrow> (captures \<times> string) option" where
  "rx_search r prev [] = rx_match r prev [] []"
| "rx_search r prev (c # s) =
     (case rx_match r prev (c # s) [] of Some x \<Rightarrow> Some x | None \<Rightarrow> rx_search r (Some c) s)"

definition re_search :: "rx list \<Rightarrow> string \<Rightarrow> captures option" where
  "re_search r s = map_option fst (rx_search r None s)"

definition rx_grp :: "captures \<Rightarrow> nat \<Rightarrow> string option" where
  "rx_grp g n = map_of g n"

definition rx_group :: "captures \<Rightarrow> nat \<Rightarrow> string" where
  "rx_group g n = (case map_of g n of Some s \<Rightarrow> s | None \<Rightarrow> [])"

text \<open>\<open>finditer\<close> for a pattern whose matches are never empty: the search resumes after each match.\<close>

function (sequential) rx_finditer :: "rx list \<Rightarrow> char option \<Rightarrow> string \<Rightarrow> captures list" where
  "rx_finditer r prev [] = []"
| "rx_finditer r prev (c # s) =
     (case rx_match r prev (c # s) [] of
        None \<Rightarrow> rx_finditer r (Some c) s
      | Some (g, rest) \<Rightarrow>
          if length rest \<le> length s
          then g # rx_finditer r (Some ((c # s) ! (length s - length rest))) rest
          else rx_finditer r (Some c) s)"
  by pat_completeness auto
termination by (relation "measure (\<lambda>(r, prev, s). length s)") auto

definition re_finditer :: "rx list \<Rightarrow> string \<Rightarrow> captures list" where
  "re_finditer r s = rx_finditer r None s"

definition re_findall :: "rx list \<Rightarrow> nat \<Rightarrow> string \<Rightarrow> string list" where
  "re_findall r n s = map (\<lambda>g. rx_group g n) (re_finditer r s)"

section \<open>Lemmas\<close>

lemma rx_lit_Nil [simp]: "rx_lit [] = []" and rx_lit_Cons [simp]:
  "rx_lit (c # s) = One (\<lambda>d. d = c) # rx_lit s"
  by (simp_all add: rx_lit_def)

lemma rx_ilit_Nil [simp]: "rx_ilit [] = []" and rx_ilit_Cons [simp]:
  "rx_ilit (c # s) = One (\<lambda>d. lower_char d = lower_char c) # rx_ilit s"
  by (simp_all add: rx_ilit_def)

definition last_opt :: "char option \<Rightarrow> string \<Rightarrow> char option" where
  "last_opt prev s = (if s = [] then prev else Some (last s))"

lemma last_opt_simps [simp]:
  "last_opt prev [] = prev"
  "last_opt prev (c # s) = last_opt (Some c) s"
  by (simp_all add: last_opt_def)

lemma rx_match_lit:
  "rx_match (rx_lit t @ k) prev (t @ s) g = rx_match k (last_opt prev t) s g"
  by (induction t arbitrary: prev) auto

lemma rx_match_ilit:
  "rx_match (rx_ilit t @ k) prev (t @ s) g = rx_match k (last_opt prev t) s g"
  by (induction t arbitrary: prev) auto

lemma rx_match_lit_iff:
  "rx_match (rx_lit t @ k) prev s g =
     (if py_startswith s t then rx_match k (last_opt prev t) (drop (length t) s) g else None)"
proof (induction t arbitrary: prev s)
  case (Cons c t)
  then show ?case by (cases s) (auto simp: py_startswith_def)
qed (simp add: py_startswith_def)

lemma rx_match_many_greedy:
  assumes "list_all p ds" "s = [] \<or> \<not> p (hd s)"
    and "rx_match k (last_opt prev ds) s g = Some r"
  shows "rx_match (Many p # k) prev (ds @ s) g = Some r"
  using assms
proof (induction ds arbitrary: prev)
  case Nil
  then show ?case by (cases s) (simp_all add: rx_match.simps(3))
next
  case (Cons c ds)
  then show ?case by (simp add: rx_match.simps(3))
qed

lemma rx_match_some_greedy:
  assumes "list_all p ds" "ds \<noteq> []" "s = [] \<or> \<not> p (hd s)"
    and "rx_match k (last_opt prev ds) s g = Some r"
  shows "rx_match (One p # Many p # k) prev (ds @ s) g = Some r"
  using assms by (cases ds) (auto intro!: rx_match_many_greedy)

text \<open>When what follows a repetition cannot start inside the repeated class, the repetition is
  deterministic: it takes the longest run.\<close>

lemma rx_match_many_det:
  assumes "list_all p ds" "s = [] \<or> \<not> p (hd s)"
    and "\<And>c cs prev. p c \<Longrightarrow> rx_match k prev (c # cs) g = None"
  shows "rx_match (Many p # k) prev (ds @ s) g = rx_match k (last_opt prev ds) s g"
  using assms(1)
proof (induction ds arbitrary: prev)
  case Nil
  then show ?case using assms(2) by (cases s) (simp_all add: rx_match.simps(3))
next
  case (Cons c ds)
  then show ?case using assms(3) by (simp add: rx_match.simps(3) split: option.splits)
qed

lemma rx_match_ilit_iff:
  "rx_match (rx_ilit t @ k) prev s g =
     (if py_startswith (py_lower s) (py_lower t)
      then rx_match k (last_opt prev (take (length t) s)) (drop (length t) s) g else None)"
proof (induction t arbitrary: prev s)
  case (Cons c t)
  then show ?case by (cases s) (auto simp: py_startswith_def)
qed (simp add: py_startswith_def)

lemma rx_match_ilit_only:
  "rx_match (rx_ilit t) prev s g =
     (if py_startswith (py_lower s) (py_lower t) then Some (g, drop (length t) s) else None)"
  using rx_match_ilit_iff [of t "[]"] by simp

text \<open>A number between two literals, the shape of most response lines.\<close>

lemma re_match_number:
  assumes "list_all is_digit ds" "ds \<noteq> []" "s = [] \<or> \<not> is_digit (hd s)"
    and "post \<noteq> []" "\<And>d. is_digit d \<Longrightarrow> lower_char d \<noteq> lower_char (hd post)"
  shows "re_match (rx_ilit pre @ [Cap 1 rx_digits] @ rx_ilit post) (pre @ ds @ s)
    = (if py_startswith (py_lower s) (py_lower post) then Some [(1, ds)] else None)"
proof -
  obtain d ds' where ds: "ds = d # ds'" "is_digit d" "list_all is_digit ds'"
    using assms(1,2) by (cases ds) auto
  obtain q qs where post: "post = q # qs" using assms(4) by (cases post) auto
  have "rx_match (Many is_digit # EndCap 1 (ds @ s) # rx_ilit post) (Some d) (ds' @ s) []
      = rx_match (EndCap 1 (ds @ s) # rx_ilit post) (last_opt (Some d) ds') s []"
    by (rule rx_match_many_det) (use ds assms(3,5) post in auto)
  then show ?thesis
    using ds by (simp add: re_match_def rx_match_ilit rx_match_ilit_only)
qed

text \<open>How many characters a match consumes at least.\<close>

fun rx_min :: "rx \<Rightarrow> nat" where
  "rx_min (One p) = 1"
| "rx_min (Alt r q) = min (sum_list (map rx_min r)) (sum_list (map rx_min q))"
| "rx_min (Cap n r) = sum_list (map rx_min r)"
| "rx_min _ = 0"

lemma rx_match_consumes:
  "rx_match k prev s g = Some (g', r) \<Longrightarrow> length r + sum_list (map rx_min k) \<le> length s"
proof (induction k prev s g arbitrary: g' r rule: rx_match.induct)
  case (3 p k prev s g)
  show ?case
  proof (cases s)
    case Nil
    then show ?thesis using 3 by (simp add: rx_match.simps(3))
  next
    case (Cons c cs)
    then show ?thesis using 3 by (fastforce simp: rx_match.simps(3) split: if_splits option.splits)
  qed
next
  case (4 p k prev s g)
  then show ?case
    by (cases s) (fastforce simp: rx_match.simps(4) split: if_splits option.splits)+
qed (fastforce split: list.splits if_splits option.splits)+

end
