(* ===== verification/Imap_Parser.thy ===== *)
theory Imap_Parser
  imports Prelude
begin

text \<open>
  The IMAP command line parser (\<open>gateway/imap_parser.py\<close>).  A line (already stripped of its
  CRLF) becomes a \<open>parsed_command\<close>, or \<open>None\<close> when it ends in a synchronizing literal.

  The tokenizer's index loops are recursions on the unread suffix of the line; each scanning
  function returns the text it collected and the suffix it left unread.
\<close>

section \<open>Data\<close>

record parsed_command =
  pc_tag :: string
  pc_command :: string
  pc_uid :: bool
  pc_args :: "string list"
  pc_raw :: string

section \<open>Skipping the first tokens of the raw line\<close>

fun skip_tokens :: "nat \<Rightarrow> string \<Rightarrow> string" where
  "skip_tokens 0 s = s"
| "skip_tokens (Suc n) s = skip_tokens n (dropWhile (\<lambda>c. c \<noteq> sp) (dropWhile (\<lambda>c. c = sp) s))"

definition skip_n_tokens :: "string \<Rightarrow> nat \<Rightarrow> string" where
  "skip_n_tokens line n = dropWhile (\<lambda>c. c = sp) (skip_tokens n line)"

section \<open>The tokenizer\<close>

text \<open>A quoted string, after its opening quote: backslash escapes any following character.\<close>

fun lex_quoted :: "string \<Rightarrow> string \<times> string" where
  "lex_quoted [] = ([], [])"
| "lex_quoted [c] = (if c = dquote then ([], []) else ([c], []))"
| "lex_quoted (c # d # s) =
     (if c = bslash then (case lex_quoted s of (b, r) \<Rightarrow> (d # b, r))
      else if c = dquote then ([], d # s)
      else (case lex_quoted (d # s) of (b, r) \<Rightarrow> (c # b, r)))"

text \<open>A parenthesised list from its opening parenthesis, kept with its parentheses.\<close>

fun lex_paren :: "int \<Rightarrow> string \<Rightarrow> string \<times> string" where
  "lex_paren depth [] = ([], [])"
| "lex_paren depth (c # s) =
     (if c = CHR ''('' then (case lex_paren (depth + 1) s of (b, r) \<Rightarrow> (c # b, r))
      else if c = CHR '')'' then
        (if depth - 1 = 0 then ([c], s)
         else (case lex_paren (depth - 1) s of (b, r) \<Rightarrow> (c # b, r)))
      else (case lex_paren depth s of (b, r) \<Rightarrow> (c # b, r)))"

text \<open>A literal marker, after its opening brace.\<close>

definition lex_literal :: "string \<Rightarrow> string \<times> string" where
  "lex_literal s =
     (case dropWhile (\<lambda>c. c \<noteq> CHR ''}'') s of
        [] \<Rightarrow> (CHR ''{'' # s, [])
      | _ # r \<Rightarrow> (CHR ''{'' # takeWhile (\<lambda>c. c \<noteq> CHR ''}'') s @ [CHR ''}''], r))"

text \<open>A bracket extension, after its opening bracket.\<close>

fun lex_bracket :: "nat \<Rightarrow> string \<Rightarrow> string \<times> string" where
  "lex_bracket 0 s = ([], s)"
| "lex_bracket (Suc depth) [] = ([], [])"
| "lex_bracket (Suc depth) (c # s) =
     (let depth' = (if c = CHR ''['' then Suc (Suc depth)
                    else if c = CHR '']'' then depth else Suc depth)
      in case lex_bracket depth' s of (b, r) \<Rightarrow> (c # b, r))"

lemma lex_quoted_length: "length (snd (lex_quoted s)) \<le> length s"
  by (induction s rule: lex_quoted.induct) (auto split: prod.splits)

lemma lex_paren_length: "length (snd (lex_paren d s)) \<le> length s"
  by (induction d s rule: lex_paren.induct) (auto split: prod.splits)

lemma lex_literal_length: "length (snd (lex_literal s)) \<le> length s"
proof -
  have "length (dropWhile (\<lambda>c. c \<noteq> CHR ''}'') s) \<le> length s"
    by (rule length_dropWhile_le)
  then show ?thesis by (auto simp: lex_literal_def split: list.splits)
qed

lemma lex_bracket_length: "length (snd (lex_bracket d s)) \<le> length s"
  by (induction d s rule: lex_bracket.induct) (auto simp: Let_def split: prod.splits)

lemmas lex_lengths = lex_quoted_length lex_paren_length lex_literal_length lex_bracket_length

text \<open>An atom: everything up to a space; a bracket extension may contain spaces.\<close>

function (sequential) lex_atom :: "string \<Rightarrow> string \<times> string" where
  "lex_atom [] = ([], [])"
| "lex_atom (c # s) =
     (if c = sp then ([], c # s)
      else if c = CHR ''['' then
        (let b = lex_bracket 1 s; a = lex_atom (snd b) in (c # fst b @ fst a, snd a))
      else (let a = lex_atom s in (c # fst a, snd a)))"
  by pat_completeness auto
termination
  by (relation "measure length") (auto simp: lex_bracket_length less_Suc_eq_le)

lemma lex_atom_length: "length (snd (lex_atom s)) \<le> length s"
proof (induction s rule: lex_atom.induct)
  case (2 c s)
  then show ?case using lex_bracket_length [of 1 s]
    by (cases "lex_bracket 1 s") (auto simp: Let_def)
qed simp

lemma lex_atom_length_less:
  assumes "c \<noteq> sp" shows "length (snd (lex_atom (c # s))) < Suc (length s)"
proof -
  have "length (snd (lex_atom (snd (lex_bracket 1 s)))) \<le> length s"
    using lex_atom_length lex_bracket_length order_trans by blast
  moreover have "length (snd (lex_atom s)) \<le> length s" by (rule lex_atom_length)
  ultimately show ?thesis using assms by (simp add: Let_def)
qed

function (sequential) tokenize_args :: "string \<Rightarrow> string list" where
  "tokenize_args [] = []"
| "tokenize_args (c # s) =
     (if c = sp then tokenize_args s
      else if c = dquote then (let t = lex_quoted s in fst t # tokenize_args (snd t))
      else if c = CHR ''('' then (let t = lex_paren 0 (c # s) in fst t # tokenize_args (snd t))
      else if c = CHR ''{'' then (let t = lex_literal s in fst t # tokenize_args (snd t))
      else (let t = lex_atom (c # s) in fst t # tokenize_args (snd t)))"
  by pat_completeness auto

lemma lex_paren_open_length: "length (snd (lex_paren 0 (CHR ''('' # s))) < Suc (length s)"
  using lex_paren_length [of 1 s] by (auto split: prod.splits)

termination tokenize_args
  by (relation "measure length")
    (auto simp: lex_quoted_length lex_literal_length lex_atom_length_less less_Suc_eq_le
      simp del: lex_paren.simps lex_atom.simps
      intro: lex_paren_open_length [unfolded less_Suc_eq_le]
             lex_atom_length_less [unfolded less_Suc_eq_le])

section \<open>Synchronizing literals\<close>

text \<open>\<open>re.match(r"^~?\{\d+\}$", tok)\<close>: the \<open>$\<close> also matches before a final newline.\<close>

definition re_digits_then :: "(string \<Rightarrow> bool) \<Rightarrow> string \<Rightarrow> bool" where
  "re_digits_then k s \<longleftrightarrow> takeWhile is_digit s \<noteq> [] \<and> k (dropWhile is_digit s)"

definition re_end :: "string \<Rightarrow> bool" where
  "re_end s \<longleftrightarrow> s = [] \<or> s = [CHR 0x0A]"

definition sync_literal_re :: "string \<Rightarrow> bool" where
  "sync_literal_re tok =
     (let s = (case tok of c # r \<Rightarrow> if c = CHR ''~'' then r else tok | [] \<Rightarrow> [])
      in case s of
           c # r \<Rightarrow> c = CHR ''{'' \<and>
             re_digits_then (\<lambda>t. case t of d # e \<Rightarrow> d = CHR ''}'' \<and> re_end e | [] \<Rightarrow> False) r
         | [] \<Rightarrow> False)"

section \<open>Parsing a line\<close>

definition parse_line :: "string \<Rightarrow> parsed_command option" where
  "parse_line line =
     (let tokens = py_split line in
      if length tokens < 2 then
        Some \<lparr>pc_tag = py_strip line, pc_command = [], pc_uid = False, pc_args = [], pc_raw = line\<rparr>
      else
        let uid = (length tokens \<ge> 3 \<and> py_upper (tokens ! 1) = ''UID'');
            command = (if uid then py_upper (tokens ! 2) else py_upper (tokens ! 1));
            rest = (if uid then skip_n_tokens line 3 else skip_n_tokens line 2);
            args = tokenize_args rest
        in if args \<noteq> [] \<and> sync_literal_re (last args) then None
           else Some \<lparr>pc_tag = tokens ! 0, pc_command = command, pc_uid = uid, pc_args = args,
                      pc_raw = line\<rparr>)"

section \<open>Lemmas\<close>

lemma parse_line_raw: "parse_line line = Some p \<Longrightarrow> pc_raw p = line"
  by (auto simp: parse_line_def Let_def split: if_splits)

lemma parse_line_command_upper: "parse_line line = Some p \<Longrightarrow> py_upper (pc_command p) = pc_command p"
  by (auto simp: parse_line_def Let_def split: if_splits)

lemma lex_atom_plain:
  "list_all plain_char w \<Longrightarrow> s = [] \<or> hd s = sp \<Longrightarrow> lex_atom (w @ s) = (w, s)"
proof (induction w)
  case Nil
  then show ?case by (cases s) simp_all
next
  case (Cons c w)
  then show ?case by (simp add: plain_charD)
qed

lemma tokenize_args_atom:
  "plain_word w \<Longrightarrow> s = [] \<or> hd s = sp \<Longrightarrow> tokenize_args (w @ s) = w # tokenize_args s"
proof -
  assume w: "plain_word w" and s: "s = [] \<or> hd s = sp"
  then obtain c w' where c: "w = c # w'" "plain_char c" by (cases w) (auto simp: plain_word_def)
  have "lex_atom (c # w' @ s) = (w, s)"
    using w s c lex_atom_plain [of w s] by (simp add: plain_word_def)
  with c show ?thesis by (simp add: plain_charD del: lex_atom.simps)
qed

lemma tokenize_args_plain:
  "list_all plain_word ws \<Longrightarrow> tokenize_args (py_join [sp] ws) = ws"
proof (induction ws rule: induct_list012)
  case (2 w)
  then show ?case using tokenize_args_atom [of w "[]"] by simp
next
  case (3 x y zs)
  then show ?case using tokenize_args_atom [of x "sp # py_join [sp] (y # zs)"] by simp
qed simp

lemma lex_quoted_quote_body:
  "lex_quoted (quote_body s @ dquote # r) = (s, r)"
proof (induction s)
  case Nil
  then show ?case by (cases r) simp_all
next
  case (Cons c s)
  show ?case
  proof (cases "c = dquote \<or> c = bslash")
    case True
    then show ?thesis using Cons by (auto split: prod.splits)
  next
    case False
    then show ?thesis using Cons
      by (cases "quote_body s @ dquote # r") (auto split: prod.splits)
  qed
qed

lemma tokenize_args_quoted:
  "tokenize_args (imap_quote s @ r) = s # tokenize_args r"
  using lex_quoted_quote_body [of s r] by (simp add: imap_quote_def sp_def)

lemma skip_tokens_word:
  assumes "plain_word w" "s = [] \<or> hd s = sp"
  shows "skip_tokens (Suc n) (w @ s) = skip_tokens n s"
proof -
  obtain c w' where w: "w = c # w'" "c \<noteq> sp"
    using assms plain_word_token [of w] by (cases w) auto
  have "dropWhile (\<lambda>c. c \<noteq> sp) (w @ s) = s"
    using assms plain_word_token [of w] takeWhile_append_stop [of "\<lambda>c. c \<noteq> sp" w s]
    by (auto simp: list_all_iff)
  with w show ?thesis by simp
qed

lemma skip_tokens_sp: "skip_tokens (Suc n) (sp # s) = skip_tokens (Suc n) s"
  by simp

section \<open>Well-formed lines\<close>


definition lit_marker :: "nat \<Rightarrow> string" where
  "lit_marker n = CHR ''{'' # str_of_nat n @ ''}''"

lemma tokenize_args_literal:
  "tokenize_args (lit_marker n @ s) = lit_marker n # tokenize_args s"
proof -
  have "takeWhile (\<lambda>c. c \<noteq> CHR ''}'') (str_of_nat n @ CHR ''}'' # s) = str_of_nat n
      \<and> dropWhile (\<lambda>c. c \<noteq> CHR ''}'') (str_of_nat n @ CHR ''}'' # s) = CHR ''}'' # s"
    by (rule takeWhile_append_stop) (simp_all add: digit_not_brace)
  then show ?thesis by (simp add: lit_marker_def lex_literal_def sp_def)
qed

lemma sync_literal_marker: "sync_literal_re (lit_marker n)"
proof -
  have "takeWhile is_digit (str_of_nat n @ ''}'') = str_of_nat n
      \<and> dropWhile is_digit (str_of_nat n @ ''}'') = ''}''"
    by (rule takeWhile_append_stop) (simp_all add: is_digit_def code_pt_def)
  then show ?thesis
    by (simp add: sync_literal_re_def lit_marker_def re_digits_then_def re_end_def)
qed

lemma sync_literal_brace: "sync_literal_re t \<Longrightarrow> CHR ''{'' \<in> set t"
  by (auto simp: sync_literal_re_def Let_def split: list.splits if_splits)

lemma plain_not_sync: "plain_word w \<Longrightarrow> \<not> sync_literal_re w"
  by (auto simp: plain_word_def list_all_iff dest!: sync_literal_brace dest: plain_charD)

lemma skip_tokens_dropWhile_sp:
  "dropWhile (\<lambda>c. c = sp) (skip_tokens n (dropWhile (\<lambda>c. c = sp) s))
     = dropWhile (\<lambda>c. c = sp) (skip_tokens n s)"
  by (cases n) (simp_all del: dropWhile.simps)

lemma skip_tokens_plain:
  assumes "list_all plain_word ws" "t = [] \<or> hd t = sp"
  shows "skip_n_tokens (py_join [sp] ws @ t) (length ws) = dropWhile (\<lambda>c. c = sp) t"
  using assms
proof (induction ws)
  case (Cons w ws)
  have "skip_tokens (Suc (length ws)) (w @ (if ws = [] then t else sp # py_join [sp] ws @ t))
      = skip_tokens (length ws) (if ws = [] then t else sp # py_join [sp] ws @ t)"
    using Cons.prems by (intro skip_tokens_word) auto
  also have "dropWhile (\<lambda>c. c = sp) \<dots>
      = dropWhile (\<lambda>c. c = sp) (skip_tokens (length ws) (py_join [sp] ws @ t))"
    using skip_tokens_dropWhile_sp [of "length ws" "sp # py_join [sp] ws @ t"]
      skip_tokens_dropWhile_sp [of "length ws" "py_join [sp] ws @ t"] by simp
  finally show ?case using Cons
    by (cases "ws = []") (simp_all add: skip_n_tokens_def py_join_Cons del: skip_tokens.simps)
qed (simp add: skip_n_tokens_def)

text \<open>The wire form of an argument: an atom as it is, anything else as a quoted string.\<close>

definition wire_arg :: "string \<Rightarrow> string" where
  "wire_arg w = (if plain_word w then w else imap_quote w)"

definition wire_line :: "string \<Rightarrow> bool \<Rightarrow> string \<Rightarrow> string list \<Rightarrow> string" where
  "wire_line tag uid verb args =
     py_join [sp] (tag # (if uid then [''UID''] else []) @ verb # map wire_arg args)"

lemma tokenize_args_wire_arg:
  "t = [] \<or> hd t = sp \<Longrightarrow> tokenize_args (wire_arg w @ t) = w # tokenize_args t"
  by (simp add: wire_arg_def tokenize_args_atom tokenize_args_quoted)

lemma tokenize_args_wire_then:
  "t = [] \<or> hd t = sp \<Longrightarrow> tokenize_args (py_join [sp] (map wire_arg ws) @ t) = ws @ tokenize_args t"
proof (induction ws)
  case (Cons w ws)
  then show ?case
    using tokenize_args_wire_arg [of t w]
      tokenize_args_wire_arg [of "sp # py_join [sp] (map wire_arg ws) @ t" w]
    by (auto simp: py_join_Cons)
qed simp

lemma tokenize_args_wire: "tokenize_args (py_join [sp] (map wire_arg ws)) = ws"
  using tokenize_args_wire_then [of "[]" ws] by simp

lemma wire_arg_hd: "wire_arg w \<noteq> [] \<and> hd (wire_arg w) \<noteq> sp"
  using plain_word_token [of w] by (cases w) (auto simp: wire_arg_def imap_quote_def sp_def)

lemma dropWhile_sp_wire_append:
  "ws \<noteq> [] \<Longrightarrow> dropWhile (\<lambda>c. c = sp) (py_join [sp] (map wire_arg ws) @ t)
     = py_join [sp] (map wire_arg ws) @ t"
  using wire_arg_hd [of "hd ws"] by (cases ws; cases "wire_arg (hd ws)") (auto simp: py_join_Cons)

lemma dropWhile_sp_wire:
  "dropWhile (\<lambda>c. c = sp) (py_join [sp] (map wire_arg ws)) = py_join [sp] (map wire_arg ws)"
  using dropWhile_sp_wire_append [of ws "[]"] by (cases "ws = []") simp_all

definition parsed :: "string \<Rightarrow> string \<Rightarrow> bool \<Rightarrow> string list \<Rightarrow> string \<Rightarrow> parsed_command option" where
  "parsed tag cmd uid args line =
     (if args \<noteq> [] \<and> sync_literal_re (last args) then None
      else Some \<lparr>pc_tag = tag, pc_command = cmd, pc_uid = uid, pc_args = args, pc_raw = line\<rparr>)"

lemma parse_line_head:
  assumes "plain_word tag" "plain_word verb" "t = [] \<or> hd t = sp" "py_upper verb \<noteq> ''UID''"
  shows "parse_line (py_join [sp] [tag, verb] @ t) =
    parsed tag (py_upper verb) False (tokenize_args (dropWhile (\<lambda>c. c = sp) t))
      (py_join [sp] [tag, verb] @ t)"
proof -
  have "py_split (py_join [sp] [tag, verb] @ t) = [tag, verb] @ py_split t"
    by (rule py_split_words_then) (use assms in auto)
  moreover have "skip_n_tokens (py_join [sp] [tag, verb] @ t) (length [tag, verb])
      = dropWhile (\<lambda>c. c = sp) t"
    by (rule skip_tokens_plain) (use assms in auto)
  ultimately show ?thesis
    using assms(4) by (simp add: parse_line_def parsed_def Let_def numeral_2_eq_2)
qed

lemma parse_line_uid_head:
  assumes "plain_word tag" "plain_word verb" "t = [] \<or> hd t = sp"
  shows "parse_line (py_join [sp] [tag, ''UID'', verb] @ t) =
    parsed tag (py_upper verb) True (tokenize_args (dropWhile (\<lambda>c. c = sp) t))
      (py_join [sp] [tag, ''UID'', verb] @ t)"
proof -
  have uid: "plain_word ''UID''" "py_upper ''UID'' = ''UID''" by code_simp+
  have "py_split (py_join [sp] [tag, ''UID'', verb] @ t) = [tag, ''UID'', verb] @ py_split t"
    by (rule py_split_words_then) (use assms uid in auto)
  moreover have "skip_n_tokens (py_join [sp] [tag, ''UID'', verb] @ t) (length [tag, ''UID'', verb])
      = dropWhile (\<lambda>c. c = sp) t"
    by (rule skip_tokens_plain) (use assms uid in auto)
  ultimately show ?thesis
    using uid by (simp add: parse_line_def parsed_def Let_def eval_nat_numeral del: py_upper_simps)
qed

lemma parse_wire_line:
  assumes "plain_word tag" "plain_word verb" "uid \<or> py_upper verb \<noteq> ''UID''"
  shows "parse_line (wire_line tag uid verb args) =
    parsed tag (py_upper verb) uid args (wire_line tag uid verb args)"
proof -
  define t where "t = (if args = [] then [] else sp # py_join [sp] (map wire_arg args))"
  have t: "t = [] \<or> hd t = sp" "tokenize_args (dropWhile (\<lambda>c. c = sp) t) = args"
    using tokenize_args_wire [of args] dropWhile_sp_wire [of args] by (auto simp: t_def)
  have "wire_line tag uid verb args
      = py_join [sp] (if uid then [tag, ''UID'', verb] else [tag, verb]) @ t"
    by (simp add: wire_line_def t_def py_join_Cons)
  then show ?thesis
    using parse_line_head [OF assms(1,2) t(1)] parse_line_uid_head [OF assms(1,2) t(1)] assms(3) t(2)
    by (cases uid) auto
qed

section \<open>Properties\<close>



text \<open>C13: a line whose last token announces a synchronizing literal \<open>{n}\<close> is never taken for a
  complete command.\<close>

theorem parse_line_sync_literal:
  assumes "plain_word tag" "plain_word verb" "uid \<or> py_upper verb \<noteq> ''UID''"
  shows "parse_line (wire_line tag uid verb args @ sp # lit_marker n) = None"
proof -
  let ?head = "if uid then [tag, ''UID'', verb] else [tag, verb]"
  define t where "t = (if args = [] then [] else sp # py_join [sp] (map wire_arg args)) @ sp # lit_marker n"
  have lit: "tokenize_args (lit_marker n) = [lit_marker n]"
    using tokenize_args_literal [of n "[]"] by simp
  have "tokenize_args (dropWhile (\<lambda>c. c = sp) t) = args @ [lit_marker n]"
  proof (cases "args = []")
    case True
    then show ?thesis using lit by (simp add: t_def lit_marker_def sp_def)
  next
    case False
    then show ?thesis using tokenize_args_wire_then [of "sp # lit_marker n" args] lit dropWhile_sp_wire_append [of args]
      by (simp add: t_def)
  qed
  moreover have "t = [] \<or> hd t = sp" by (simp add: t_def)
  moreover have "wire_line tag uid verb args @ sp # lit_marker n = py_join [sp] ?head @ t"
    by (simp add: wire_line_def t_def py_join_Cons)
  ultimately show ?thesis
    using parse_line_head [OF assms(1,2), of t] parse_line_uid_head [OF assms(1,2), of t] assms(3)
    by (cases uid) (auto simp: parsed_def sync_literal_marker)
qed

lemma parse_line_sync_literal_witness:
  "parse_line (wire_line ''a1'' False ''APPEND'' [''Drafts''] @ sp # lit_marker 310) = None"
  by (rule parse_line_sync_literal) code_simp+

end
