(* ===== verification/Command_Router.thy ===== *)
theory Command_Router
  imports Imap_Parser
begin

text \<open>
  The command classifier (\<open>gateway/command_router.py\<close>): which verbs the proxy forwards,
  stages, swallows or rejects, and the capability and literal filters that keep the wire
  framing inspectable.
\<close>

section \<open>The verb tables\<close>

definition READ_COMMANDS :: "string list" where
  "READ_COMMANDS =
     [''SELECT'', ''EXAMINE'', ''FETCH'', ''SEARCH'', ''LIST'', ''LSUB'', ''STATUS'', ''NOOP'',
      ''CAPABILITY'', ''ID'', ''LOGOUT'', ''CHECK'', ''SUBSCRIBE'', ''UNSUBSCRIBE'', ''NAMESPACE'',
      ''IDLE'', ''UNSELECT'', ''ENABLE'', ''SORT'', ''THREAD'', ''ESEARCH'', ''GETQUOTA'',
      ''GETQUOTAROOT'', ''GETACL'', ''MYRIGHTS'', ''LISTRIGHTS'', ''GETMETADATA'', ''XLIST'']"

definition WRITE_COMMANDS :: "string list" where
  "WRITE_COMMANDS = [''STORE'', ''COPY'', ''MOVE'', ''APPEND'', ''CREATE'', ''RENAME'']"

definition BLOCKED_COMMANDS :: "string list" where
  "BLOCKED_COMMANDS = [''EXPUNGE'', ''DELETE'', ''CLOSE'']"

definition HIDDEN_CAPABILITIES :: "string list" where
  "HIDDEN_CAPABILITIES =
     [''LITERAL+'', ''LITERAL-'', ''REPLACE'', ''STARTTLS'', ''IMAP4REV2'', ''BINARY'',
      ''MULTIAPPEND'']"

definition HIDDEN_CAPABILITY_PREFIXES :: "string list" where
  "HIDDEN_CAPABILITY_PREFIXES = [''COMPRESS='']"

definition ENABLE_ALLOWED :: "string list" where
  "ENABLE_ALLOWED = [''CONDSTORE'']"

section \<open>Classification\<close>

datatype action = Read | Write | Blocked | Rejected

definition classify :: "parsed_command \<Rightarrow> action" where
  "classify cmd =
     (if pc_command cmd \<in> set BLOCKED_COMMANDS then Blocked
      else if pc_command cmd \<in> set WRITE_COMMANDS then Write
      else if pc_command cmd \<in> set READ_COMMANDS then Read
      else if pc_command cmd = [] \<and> py_upper (pc_tag cmd) = ''DONE'' then Read
      else Rejected)"

section \<open>Capabilities and ENABLE\<close>

definition filter_enable_args :: "string list \<Rightarrow> string list" where
  "filter_enable_args args = filter (\<lambda>a. py_upper a \<in> set ENABLE_ALLOWED) args"

definition keep_capability :: "string \<Rightarrow> bool" where
  "keep_capability atom =
     (let u = py_upper atom
      in if u \<in> set HIDDEN_CAPABILITIES then False
         else \<not> list_ex (py_startswith u) HIDDEN_CAPABILITY_PREFIXES)"

definition filter_atoms :: "string \<Rightarrow> string" where
  "filter_atoms atoms = py_join [sp] (filter keep_capability (py_split atoms))"

definition istartswith :: "string \<Rightarrow> string \<Rightarrow> bool" where
  "istartswith s p = py_startswith (py_upper s) (py_upper p)"

text \<open>\<open>(.* )$\<close> after the untagged prefix: no newline, but for one at the very end.\<close>

definition dot_line :: "string \<Rightarrow> string option" where
  "dot_line s =
     (let h = takeWhile (\<lambda>c. c \<noteq> CHR 0x0A) s
      in if re_end (drop (length h) s) then Some h else None)"

fun sub_capability_code :: "string \<Rightarrow> string" where
  "sub_capability_code [] = []"
| "sub_capability_code (c # s) =
     (let body = drop 12 (c # s);
          inner = takeWhile (\<lambda>d. d \<noteq> CHR '']'') body
      in if istartswith (c # s) ''[CAPABILITY '' \<and> length inner < length body
         then take 12 (c # s) @ filter_atoms inner @ [CHR '']'']
                @ sub_capability_code (drop (Suc (length inner)) body)
         else c # sub_capability_code s)"

definition filter_capabilities :: "string \<Rightarrow> string" where
  "filter_capabilities line =
     (case (if istartswith line ''* CAPABILITY '' then dot_line (drop 13 line) else None) of
        Some atoms \<Rightarrow> take 13 line @ filter_atoms atoms
      | None \<Rightarrow> sub_capability_code line)"

section \<open>Non-synchronizing literals\<close>

text \<open>
  \<open>re.search(r"~?\{(\d+)[+-]\}$", line.rstrip())\<close>.  The marker is read backwards from the end
  of the stripped line: closing brace, sign, digits, opening brace.
\<close>

definition nonsync_literal_size :: "string \<Rightarrow> nat option" where
  "nonsync_literal_size line =
     (case rev (rstrip_if is_space line) of
        b # sign # r \<Rightarrow>
          (let digits = takeWhile is_digit r; rest = dropWhile is_digit r
           in if b = CHR ''}'' \<and> (sign = CHR ''+'' \<or> sign = CHR ''-'') \<and> digits \<noteq> []
                 \<and> rest \<noteq> [] \<and> hd rest = CHR ''{''
              then Some (nat_of_str (rev digits)) else None)
      | _ \<Rightarrow> None)"

section \<open>Lemmas\<close>

lemma verb_tables_disjoint:
  "set BLOCKED_COMMANDS \<inter> set WRITE_COMMANDS = {}"
  "set BLOCKED_COMMANDS \<inter> set READ_COMMANDS = {}"
  "set WRITE_COMMANDS \<inter> set READ_COMMANDS = {}"
  "[] \<notin> set BLOCKED_COMMANDS" "[] \<notin> set WRITE_COMMANDS" "[] \<notin> set READ_COMMANDS"
  by (simp_all add: BLOCKED_COMMANDS_def WRITE_COMMANDS_def READ_COMMANDS_def)

text \<open>The verb of a line as a server sees it that splits at single spaces.\<close>

definition server_verb :: "string \<Rightarrow> string" where
  "server_verb line =
     (case sp_words line of
        _ # v # ws \<Rightarrow> (case ws of w # _ \<Rightarrow> if py_upper v = ''UID'' then py_upper w else py_upper v
                       | [] \<Rightarrow> py_upper v)
      | _ \<Rightarrow> [])"

lemma parse_line_server_verb:
  assumes "only_sp line" "parse_line line = Some p"
  shows "pc_command p = server_verb line"
proof -
  have split: "py_split line = sp_words line" by (rule py_split_only_sp) (rule assms)
  show ?thesis
  proof (cases "sp_words line")
    case Nil
    then show ?thesis using assms(2) split by (auto simp: parse_line_def server_verb_def)
  next
    case (Cons tag r)
    then show ?thesis using assms(2) split
      by (cases r; cases "tl r")
        (auto simp: parse_line_def server_verb_def Let_def split: if_splits)
  qed
qed

lemma filter_atoms_split: "py_split (filter_atoms s) = filter keep_capability (py_split s)"
  unfolding filter_atoms_def by (rule py_split_join) (auto dest: py_split_tokens)

lemma filter_atoms_idem: "filter_atoms (filter_atoms s) = filter_atoms s"
  by (simp add: filter_atoms_def [of "filter_atoms s"] filter_atoms_split)
    (simp add: filter_atoms_def)

lemma sub_capability_code_none:
  "CHR ''['' \<notin> set s \<Longrightarrow> sub_capability_code s = s"
proof (induction s)
  case (Cons c s)
  have "upper_char c = CHR ''['' \<longleftrightarrow> c = CHR ''[''"
    by (auto simp: char_eq_iff_code_pt) (auto simp: code_pt_def)
  then have "\<not> istartswith (c # s) ''[CAPABILITY ''"
    using Cons by (auto simp: istartswith_def py_startswith_def upper_char_def code_pt_def)
  then show ?case using Cons by (simp add: Let_def)
qed simp

lemma sub_capability_code_prefix:
  "CHR ''['' \<notin> set pre \<Longrightarrow> sub_capability_code (pre @ s) = pre @ sub_capability_code s"
proof (induction pre)
  case (Cons c pre)
  have "upper_char c = CHR ''['' \<longleftrightarrow> c = CHR ''[''"
    by (auto simp: char_eq_iff_code_pt) (auto simp: code_pt_def)
  then have "\<not> istartswith (c # pre @ s) ''[CAPABILITY ''"
    using Cons by (auto simp: istartswith_def py_startswith_def upper_char_def code_pt_def)
  then show ?case using Cons by (simp add: Let_def)
qed simp

lemma nonsync_marker:
  assumes "sign = CHR ''+'' \<or> sign = CHR ''-''"
  shows "nonsync_literal_size (pre @ CHR ''{'' # str_of_nat n @ [sign, CHR ''}'']) = Some n"
proof -
  let ?ds = "rev (str_of_nat n)"
  have "\<not> is_space (CHR ''}'')" by code_simp
  then have r: "rstrip_if is_space (pre @ CHR ''{'' # str_of_nat n @ [sign, CHR ''}''])
      = pre @ CHR ''{'' # str_of_nat n @ [sign, CHR ''}'']"
    by (simp add: rstrip_if_def)
  have "takeWhile is_digit (?ds @ CHR ''{'' # rev pre) = ?ds
      \<and> dropWhile is_digit (?ds @ CHR ''{'' # rev pre) = CHR ''{'' # rev pre"
    by (rule takeWhile_append_stop) (use str_of_nat_all_digits [of n] in
      \<open>auto simp: list_all_iff is_digit_def code_pt_def\<close>)
  moreover have "\<not> is_digit (CHR ''{'')" by code_simp
  ultimately show ?thesis using assms by (auto simp: nonsync_literal_size_def r)
qed

section \<open>Properties\<close>

text \<open>C8: the classifier fails closed.  The four classes are exactly the three verb tables and
  everything else; only the listed read verbs and a bare \<open>DONE\<close> line are forwarded.\<close>

theorem classify_table:
  "classify p =
    (if pc_command p \<in> set READ_COMMANDS \<or> (pc_command p = [] \<and> py_upper (pc_tag p) = ''DONE'')
     then Read
     else if pc_command p \<in> set WRITE_COMMANDS then Write
     else if pc_command p \<in> set BLOCKED_COMMANDS then Blocked
     else Rejected)"
  using verb_tables_disjoint unfolding classify_def by (auto simp: disjoint_iff)

text \<open>When the only white space of a line is the space character, a line the classifier lets
  through as a read carries, for a server that splits the line at single spaces, a read verb:
  never EXPUNGE, DELETE, CLOSE or a write verb, with or without the UID prefix.\<close>

theorem read_line_server_verb:
  assumes "only_sp line" "parse_line line = Some p" "classify p = Read"
  shows "server_verb line \<in> set READ_COMMANDS \<union> {[]}
    \<and> server_verb line \<notin> set BLOCKED_COMMANDS \<union> set WRITE_COMMANDS"
proof (rule conjI)
  show "server_verb line \<in> set READ_COMMANDS \<union> {[]}"
    using assms(3) parse_line_server_verb [OF assms(1,2)]
    by (auto simp: classify_def split: if_splits)
  then show "server_verb line \<notin> set BLOCKED_COMMANDS \<union> set WRITE_COMMANDS"
    using verb_tables_disjoint by (auto simp: disjoint_iff)
qed

lemma read_line_server_verb_witness:
  "server_verb ''a1 uid fetch 1:* (FLAGS)'' \<in> set READ_COMMANDS \<union> {[]} \<and>
   server_verb ''a1 uid fetch 1:* (FLAGS)'' \<notin> set BLOCKED_COMMANDS \<union> set WRITE_COMMANDS"
proof -
  let ?p = "the (parse_line ''a1 uid fetch 1:* (FLAGS)'')"
  have "only_sp ''a1 uid fetch 1:* (FLAGS)''" "parse_line ''a1 uid fetch 1:* (FLAGS)'' = Some ?p"
    "classify ?p = Read"
    by code_simp+
  then show ?thesis by (rule read_line_server_verb)
qed

text \<open>The hypothesis on white space is needed: Python splits at a TAB, the server does not.\<close>

lemma tab_line_misread:
  "\<exists>p. parse_line (''a'' @ [CHR 0x09] @ ''NOOP EXPUNGE'') = Some p \<and> classify p = Read
     \<and> server_verb (''a'' @ [CHR 0x09] @ ''NOOP EXPUNGE'') = ''EXPUNGE''"
proof -
  let ?line = "''a'' @ [CHR 0x09] @ ''NOOP EXPUNGE''"
  have "parse_line ?line = Some (the (parse_line ?line)) \<and> classify (the (parse_line ?line)) = Read
     \<and> server_verb ?line = ''EXPUNGE''"
    by code_simp
  then show ?thesis by blast
qed

text \<open>The untagged capability line the agent sees lists exactly the upstream atoms that are not
  hidden, in order, and filtering it again changes nothing.\<close>

theorem filter_capabilities_untagged:
  assumes "istartswith line ''* CAPABILITY ''" "CHR 0x0A \<notin> set line"
  shows "py_split (drop 13 (filter_capabilities line)) = filter keep_capability (py_split (drop 13 line))
    \<and> filter_capabilities (filter_capabilities line) = filter_capabilities line"
proof (rule conjI)
  have dl: "dot_line s = Some s" if "CHR 0x0A \<notin> set s" for s
    using that by (simp add: dot_line_def re_end_def while_char_stop)
  have nl: "CHR 0x0A \<notin> set (drop 13 line)" using assms(2) by (meson in_set_dropD)
  have len: "13 \<le> length line" "length (take 13 line) = 13"
  proof -
    have "length (take (length ''* CAPABILITY '') (py_upper line)) = 13"
      using assms(1) by (simp add: istartswith_def py_startswith_def)
    then show "13 \<le> length line" by simp
    then show "length (take 13 line) = 13" by simp
  qed
  have out: "filter_capabilities line = take 13 line @ filter_atoms (drop 13 line)"
    using assms(1) dl [OF nl] by (simp add: filter_capabilities_def)
  then show "py_split (drop 13 (filter_capabilities line)) = filter keep_capability (py_split (drop 13 line))"
    using len by (simp add: filter_atoms_split)
  have pre: "istartswith (take 13 line @ s) ''* CAPABILITY ''" for s
    using assms(1) len by (simp add: istartswith_def py_startswith_def py_upper_def take_map)
  have "CHR 0x0A \<notin> set (filter_atoms (drop 13 line))"
  proof -
    have "set (py_join [sp] ws) \<subseteq> {sp} \<union> (\<Union>w \<in> set ws. set w)" for ws
      by (induction ws) (auto simp: py_join_Cons)
    moreover have "CHR 0x0A \<notin> set w" if "w \<in> set (py_split (drop 13 line))" for w
      using py_split_tokens(2) [OF that] by (auto simp: is_space_def code_pt_def)
    ultimately show ?thesis unfolding filter_atoms_def sp_def by fastforce
  qed
  with out dl pre len show "filter_capabilities (filter_capabilities line) = filter_capabilities line"
    by (simp add: filter_capabilities_def filter_atoms_idem)
qed

lemma filter_capabilities_untagged_witness:
  "py_split (drop 13 (filter_capabilities ''* CAPABILITY IMAP4rev1 LITERAL+ IDLE''))
     = filter keep_capability (py_split (drop 13 ''* CAPABILITY IMAP4rev1 LITERAL+ IDLE''))
   \<and> filter_capabilities (filter_capabilities ''* CAPABILITY IMAP4rev1 LITERAL+ IDLE'')
     = filter_capabilities ''* CAPABILITY IMAP4rev1 LITERAL+ IDLE''"
  by (rule filter_capabilities_untagged) code_simp+

text \<open>A capability response code anywhere in a response line is filtered in place: the text
  before it and the closing bracket stay, the atoms inside are the ones not hidden.\<close>

theorem filter_capabilities_code:
  assumes "CHR ''['' \<notin> set pre" "CHR '']'' \<notin> set atoms" "CHR ''['' \<notin> set post"
    and "\<not> istartswith (pre @ ''[CAPABILITY '' @ atoms @ '']'' @ post) ''* CAPABILITY ''"
  shows "filter_capabilities (pre @ ''[CAPABILITY '' @ atoms @ '']'' @ post)
    = pre @ ''[CAPABILITY '' @ filter_atoms atoms @ '']'' @ post"
proof -
  have tw: "takeWhile (\<lambda>d. d \<noteq> CHR '']'') (atoms @ CHR '']'' # post) = atoms"
    using assms(2) by (rule while_char_stop)
  have st: "istartswith (''[CAPABILITY '' @ s) ''[CAPABILITY ''" for s
    by (simp add: istartswith_def py_startswith_def)
  have "sub_capability_code (''[CAPABILITY '' @ atoms @ '']'' @ post)
      = ''[CAPABILITY '' @ filter_atoms atoms @ '']'' @ sub_capability_code post"
    using st [of "atoms @ '']'' @ post"] tw by (simp add: Let_def)
  then show ?thesis
    using assms(4) sub_capability_code_prefix [OF assms(1)] sub_capability_code_none [OF assms(3)]
    by (simp add: filter_capabilities_def)
qed

lemma filter_capabilities_code_witness:
  "filter_capabilities (''a1 OK '' @ ''[CAPABILITY '' @ ''IDLE COMPRESS=DEFLATE'' @ '']'' @ '' done'')
    = ''a1 OK '' @ ''[CAPABILITY '' @ filter_atoms ''IDLE COMPRESS=DEFLATE'' @ '']'' @ '' done''"
  by (rule filter_capabilities_code) code_simp+

text \<open>A line that ends in a non-synchronizing literal marker of either sign reports that
  literal's byte count, so the proxy can consume it; trailing white space does not hide it.\<close>

theorem nonsync_literal_detected:
  assumes "sign = CHR ''+'' \<or> sign = CHR ''-''" "list_all is_space trail"
  shows "nonsync_literal_size (pre @ CHR ''{'' # str_of_nat n @ [sign, CHR ''}''] @ trail) = Some n"
proof -
  have "rstrip_if is_space (s @ trail) = rstrip_if is_space s" for s
    using assms(2) takeWhile_append_stop [of is_space "rev trail" "[]"]
    by (simp add: rstrip_if_def dropWhile_append list_all_iff)
  then have "nonsync_literal_size (s @ trail) = nonsync_literal_size s" for s
    by (simp add: nonsync_literal_size_def)
  from this [of "pre @ CHR ''{'' # str_of_nat n @ [sign, CHR ''}'']"] nonsync_marker [OF assms(1)]
  show ?thesis by simp
qed

lemma nonsync_literal_detected_witness:
  "nonsync_literal_size (''a1 APPEND x '' @ CHR ''{'' # str_of_nat 12 @ [CHR ''+'', CHR ''}''] @ '' '') = Some 12"
  by (rule nonsync_literal_detected) code_simp+

end
