(* ===== verification/Response_Parser.thy ===== *)
theory Response_Parser
  imports Regex
begin

text \<open>
  The parser for upstream IMAP responses (\<open>gateway/imap_response_parser.py\<close>): SELECT statistics,
  LIST folders and single-line FETCH responses.  Every regular expression of the module is an
  \<open>rx\<close> pattern below.  For the headers of a message literal, Python's email package is a parameter:
  how a header block reads, and how an encoded word decodes.
\<close>

section \<open>Data\<close>

record select_info =
  si_exists :: "nat option"
  si_recent :: "nat option"
  si_uidvalidity :: "nat option"
  si_uidnext :: "nat option"
  si_unseen :: "nat option"

record listed_folder =
  lf_name :: string
  lf_attributes :: "string list"

record fetch_info =
  fi_seq_num :: nat
  fi_uid :: "nat option"
  fi_flags :: "string list"
  fi_subject :: "string option"
  fi_sender :: "string option"
  fi_date_str :: "string option"
  fi_size :: "nat option"
  fi_message_id :: "string option"

section \<open>Patterns\<close>

definition RE_EXISTS :: "rx list" where
  "RE_EXISTS = rx_ilit ''* '' @ [Cap 1 rx_digits] @ rx_ilit '' EXISTS''"

definition RE_RECENT :: "rx list" where
  "RE_RECENT = rx_ilit ''* '' @ [Cap 1 rx_digits] @ rx_ilit '' RECENT''"

definition rx_ok_code :: "string \<Rightarrow> rx list" where
  "rx_ok_code name = rx_ilit (''* OK ['' @ name @ '' '') @ [Cap 1 rx_digits] @ rx_ilit '']''"

definition RE_UIDVALIDITY :: "rx list" where "RE_UIDVALIDITY = rx_ok_code ''UIDVALIDITY''"
definition RE_UIDNEXT :: "rx list" where "RE_UIDNEXT = rx_ok_code ''UIDNEXT''"
definition RE_UNSEEN :: "rx list" where "RE_UNSEEN = rx_ok_code ''UNSEEN''"

definition RE_LIST :: "rx list" where
  "RE_LIST = rx_ilit ''* LIST'' @ rx_some is_space @ rx_lit ''('' @ [Cap 1 [Many (rx_not '')'')]]
     @ rx_lit '')'' @ rx_some is_space @ rx_lit [dquote] @ [Many (rx_not [dquote])] @ rx_lit [dquote]
     @ rx_some is_space @ [Cap 2 (rx_some rx_any), Eol]"

definition RE_FETCH_START :: "rx list" where
  "RE_FETCH_START = rx_ilit ''* '' @ [Cap 1 rx_digits] @ rx_ilit '' FETCH (''
     @ [Cap 2 (rx_some (\<lambda>_. True))] @ rx_lit '')'' @ [Eol]"

definition RE_FETCH_LITERAL :: "rx list" where
  "RE_FETCH_LITERAL = rx_ilit ''* '' @ [Cap 1 rx_digits] @ rx_ilit '' FETCH (''
     @ [Lazy rx_any, WordB] @ rx_ilit ''UID '' @ [Cap 2 rx_digits, WordB, Many rx_any]
     @ rx_lit ''{'' @ [Cap 3 rx_digits] @ rx_lit ''}'' @ [Opt (rx_lit '')''), Many is_space, Eol]"

definition RE_UID :: "rx list" where
  "RE_UID = [WordB] @ rx_ilit ''UID '' @ [Cap 1 rx_digits, WordB]"

definition RE_FLAGS :: "rx list" where
  "RE_FLAGS = [WordB] @ rx_ilit ''FLAGS ('' @ [Cap 1 [Many (rx_not '')'')]] @ rx_lit '')''"

definition RE_SIZE :: "rx list" where
  "RE_SIZE = [WordB] @ rx_ilit ''RFC822.SIZE '' @ [Cap 1 rx_digits, WordB]"

definition RE_ENVELOPE :: "rx list" where
  "RE_ENVELOPE = [WordB] @ rx_ilit ''ENVELOPE'' @ rx_some is_space @ rx_lit ''('' @ [Many is_space]
     @ rx_lit [dquote] @ [Cap 1 [Many (rx_not [dquote])]] @ rx_lit [dquote]"

definition RE_ENV_SUBJECT :: "rx list" where
  "RE_ENV_SUBJECT = [WordB] @ rx_ilit ''ENVELOPE'' @ rx_some is_space @ rx_lit ''('' @ rx_lit [dquote]
     @ [Many (rx_not [dquote])] @ rx_lit [dquote] @ rx_some is_space @ rx_lit [dquote]
     @ [Cap 1 [Many (rx_not [dquote])]] @ rx_lit [dquote]"

definition RE_ENV_MSGID :: "rx list" where
  "RE_ENV_MSGID = rx_lit [dquote] @ [Cap 1 (rx_lit ''<'' @ rx_some (rx_not [dquote, CHR ''>''])
     @ rx_lit ''@'' @ rx_some (rx_not [dquote, CHR ''>'']) @ rx_lit ''>'')] @ rx_lit [dquote]"

definition rx_nil :: "rx list" where
  "rx_nil = [WordB] @ rx_ilit ''NIL'' @ [WordB]"

definition rx_string :: "rx list" where
  "rx_string = rx_lit [dquote] @ [Many (rx_not [dquote])] @ rx_lit [dquote]"

definition rx_string_cap :: "nat \<Rightarrow> rx list" where
  "rx_string_cap n = rx_lit [dquote] @ [Cap n [Many (rx_not [dquote])]] @ rx_lit [dquote]"

definition RE_ADDR_STRUCT :: "rx list" where
  "RE_ADDR_STRUCT = rx_lit ''('' @ [Alt (rx_string_cap 1) rx_nil] @ rx_some is_space
     @ [Alt rx_string rx_nil] @ rx_some is_space @ rx_string_cap 2 @ rx_some is_space
     @ rx_string_cap 3 @ rx_lit '')''"

section \<open>SELECT\<close>

definition empty_select :: select_info where
  "empty_select = \<lparr>si_exists = None, si_recent = None, si_uidvalidity = None, si_uidnext = None,
                   si_unseen = None\<rparr>"

definition rx_num :: "captures \<Rightarrow> nat" where
  "rx_num g = nat_of_str (rx_group g 1)"

definition select_line :: "select_info \<Rightarrow> string \<Rightarrow> select_info" where
  "select_line info line =
     (case re_match RE_EXISTS line of Some g \<Rightarrow> info\<lparr>si_exists := Some (rx_num g)\<rparr>
      | None \<Rightarrow>
      (case re_match RE_RECENT line of Some g \<Rightarrow> info\<lparr>si_recent := Some (rx_num g)\<rparr>
      | None \<Rightarrow>
      (case re_match RE_UIDVALIDITY line of Some g \<Rightarrow> info\<lparr>si_uidvalidity := Some (rx_num g)\<rparr>
      | None \<Rightarrow>
      (case re_match RE_UIDNEXT line of Some g \<Rightarrow> info\<lparr>si_uidnext := Some (rx_num g)\<rparr>
      | None \<Rightarrow>
      (case re_match RE_UNSEEN line of Some g \<Rightarrow> info\<lparr>si_unseen := Some (rx_num g)\<rparr>
      | None \<Rightarrow> info)))))"

definition parse_select_response :: "string list \<Rightarrow> select_info" where
  "parse_select_response lines = foldl select_line empty_select lines"

section \<open>LIST\<close>

definition parse_list_line :: "string \<Rightarrow> listed_folder option" where
  "parse_list_line line =
     (case re_match RE_LIST line of None \<Rightarrow> None
      | Some g \<Rightarrow>
          let raw = py_strip (rx_group g 2);
              name = (if py_startswith raw [dquote] \<and> py_endswith raw [dquote]
                      then butlast (tl raw) else raw)
          in Some \<lparr>lf_name = name, lf_attributes = py_split (rx_group g 1)\<rparr>)"

definition parse_list_folders :: "string list \<Rightarrow> listed_folder list" where
  "parse_list_folders lines = List.map_filter parse_list_line lines"

definition parse_list_response :: "string list \<Rightarrow> string list" where
  "parse_list_response lines = map lf_name (parse_list_folders lines)"

section \<open>FETCH\<close>

definition fetch_flags :: "string \<Rightarrow> string list" where
  "fetch_flags payload =
     (case re_search RE_FLAGS payload of None \<Rightarrow> [] | Some g \<Rightarrow> py_split (py_strip (rx_group g 1)))"

definition fetch_num :: "rx list \<Rightarrow> string \<Rightarrow> nat option" where
  "fetch_num r payload = map_option rx_num (re_search r payload)"

definition or_none :: "string \<Rightarrow> string option" where
  "or_none s = (if s = [] then None else Some s)"

definition fetch_subject :: "string \<Rightarrow> string option" where
  "fetch_subject payload =
     (case re_search RE_ENV_SUBJECT payload of None \<Rightarrow> None
      | Some g \<Rightarrow> if py_upper (rx_group g 1) \<noteq> ''NIL'' then Some (rx_group g 1) else None)"

definition fetch_sender :: "string \<Rightarrow> string option" where
  "fetch_sender payload =
     (case re_search RE_ADDR_STRUCT payload of None \<Rightarrow> None
      | Some g \<Rightarrow>
          let email = rx_group g 2 @ ''@'' @ rx_group g 3
          in case rx_grp g 1 of
               Some display \<Rightarrow>
                 if display \<noteq> [] \<and> py_upper display \<noteq> ''NIL''
                 then Some (display @ '' <'' @ email @ ''>'') else Some email
             | None \<Rightarrow> Some email)"

definition fetch_message_id :: "string \<Rightarrow> string option" where
  "fetch_message_id payload =
     (let ids = re_findall RE_ENV_MSGID 1 payload
      in if re_search RE_ENVELOPE payload \<noteq> None \<and> ids \<noteq> [] then Some (last ids) else None)"

definition parse_fetch_line :: "string \<Rightarrow> fetch_info option" where
  "parse_fetch_line line =
     (case re_match RE_FETCH_START line of None \<Rightarrow> None
      | Some g \<Rightarrow>
          let payload = rx_group g 2
          in Some \<lparr>fi_seq_num = nat_of_str (rx_group g 1),
                   fi_uid = fetch_num RE_UID payload,
                   fi_flags = fetch_flags payload,
                   fi_subject = fetch_subject payload,
                   fi_sender = fetch_sender payload,
                   fi_date_str = (case re_search RE_ENVELOPE payload of
                       None \<Rightarrow> None | Some e \<Rightarrow> or_none (rx_group e 1)),
                   fi_size = fetch_num RE_SIZE payload,
                   fi_message_id = fetch_message_id payload\<rparr>)"

section \<open>RFC 822 headers\<close>

fun py_find :: "string \<Rightarrow> string \<Rightarrow> nat option" where
  "py_find pat [] = (if pat = [] then Some 0 else None)"
| "py_find pat (c # s) = (if py_startswith (c # s) pat then Some 0 else map_option Suc (py_find pat s))"

definition HEADER_READ_LIMIT :: nat where
  "HEADER_READ_LIMIT = 16 * 1024"

definition header_block :: "string \<Rightarrow> string" where
  "header_block data =
     (case py_find [CHR 0x0D, CHR 0x0A, CHR 0x0D, CHR 0x0A] data of
        Some n \<Rightarrow> take n data
      | None \<Rightarrow> (case py_find [CHR 0x0A, CHR 0x0A] data of Some n \<Rightarrow> take n data | None \<Rightarrow> data))"

text \<open>
  \<open>words raw\<close>: the decoded text of a header value, or nothing when the email package raises;
  \<open>mail block\<close>: what \<open>get(name, "")\<close> answers for the header block, or nothing when reading it raises.
\<close>

definition decode_header :: "(string \<Rightarrow> string option) \<Rightarrow> string \<Rightarrow> string" where
  "decode_header words raw = py_strip (case words raw of Some s \<Rightarrow> s | None \<Rightarrow> raw)"

definition extract_headers_from_rfc822 ::
  "(string \<Rightarrow> (string \<Rightarrow> string) option) \<Rightarrow> (string \<Rightarrow> string option) \<Rightarrow> string
     \<Rightarrow> string option \<times> string option \<times> string option" where
  "extract_headers_from_rfc822 mail words data =
     (case mail (header_block data @ [CHR 0x0D, CHR 0x0A, CHR 0x0D, CHR 0x0A]) of
        None \<Rightarrow> (None, None, None)
      | Some get \<Rightarrow>
          let field = (\<lambda>f raw. if raw = [] then None else or_none (f raw))
          in (field (decode_header words) (get ''From''), field (decode_header words) (get ''Subject''),
              field py_strip (get ''Message-ID'')))"

section \<open>Lemmas\<close>

lemma digit_caseless: "is_digit d \<Longrightarrow> lower_char d = d"
  by (auto simp: is_digit_def lower_char_def)

lemma digit_neq: "is_digit d \<Longrightarrow> \<not> is_digit c \<Longrightarrow> d \<noteq> c"
  by auto

lemma not_digit_syntax [simp]:
  "\<not> is_digit (CHR '' '')" "\<not> is_digit (CHR '']'')" "\<not> is_digit (CHR ''O'')"
  by code_simp+

lemma count_line_match:
  "re_match (rx_ilit ''* '' @ [Cap 1 rx_digits] @ rx_ilit (CHR '' '' # w)) (''* '' @ str_of_nat n @ CHR '' '' # v)
     = (if py_startswith (py_lower v) (py_lower w) then Some [(1, str_of_nat n)] else None)"
proof -
  have "lower_char d \<noteq> lower_char (hd (CHR '' '' # w))" if "is_digit d" for d
  proof -
    have "lower_char (CHR '' '') = CHR '' ''" by code_simp
    then show ?thesis using that digit_neq [OF that] by (auto simp: digit_caseless)
  qed
  then show ?thesis
    using re_match_number [of "str_of_nat n" "CHR '' '' # v" "CHR '' '' # w" "''* ''"]
    by (simp add: py_startswith_def)
qed

lemma code_line_match:
  "re_match (rx_ok_code name) (''* OK ['' @ name @ '' '' @ str_of_nat n @ CHR '']'' # v)
     = Some [(1, str_of_nat n)]"
proof -
  have "lower_char d \<noteq> lower_char (hd '']'')" if "is_digit d" for d
  proof -
    have "lower_char (CHR '']'') = CHR '']''" by code_simp
    then show ?thesis using that digit_neq [OF that] by (auto simp: digit_caseless)
  qed
  then show ?thesis
    using re_match_number [of "str_of_nat n" "CHR '']'' # v" "'']''" "''* OK ['' @ name @ '' ''"]
    by (simp add: py_startswith_def rx_ok_code_def)
qed

lemma code_line_not_count:
  "re_match RE_EXISTS (''* OK'' @ v) = None" "re_match RE_RECENT (''* OK'' @ v) = None"
  by (simp_all add: re_match_def RE_EXISTS_def RE_RECENT_def)

lemma code_line_mismatch:
  assumes "\<not> py_startswith (py_lower v) (py_lower name)"
  shows "re_match (rx_ok_code name) (''* OK ['' @ v) = None"
proof -
  have "\<not> py_startswith (py_lower v) (py_lower (name @ '' ''))"
    using assms by (auto simp: py_startswith_def dest: arg_cong [of _ _ "take (length name)"])
  then have "rx_match (rx_ilit (name @ '' '') @ k) prev v g = None" for k prev g
    by (subst rx_match_ilit_iff) simp
  moreover have "rx_ilit (s @ t) = rx_ilit s @ rx_ilit t" for s t
    by (simp add: rx_ilit_def)
  ultimately show ?thesis by (simp add: re_match_def rx_ok_code_def)
qed

section \<open>Properties\<close>

text \<open>Each of the five statistics a SELECT reports is read back from the line that carries it,
  whatever its value and whatever follows, and touches no other field.\<close>

theorem select_line_reads:
  "select_line info (''* '' @ str_of_nat n @ '' EXISTS'' @ v) = info\<lparr>si_exists := Some n\<rparr>
   \<and> select_line info (''* '' @ str_of_nat n @ '' RECENT'' @ v) = info\<lparr>si_recent := Some n\<rparr>
   \<and> select_line info (''* OK [UIDVALIDITY '' @ str_of_nat n @ CHR '']'' # v) = info\<lparr>si_uidvalidity := Some n\<rparr>
   \<and> select_line info (''* OK [UIDNEXT '' @ str_of_nat n @ CHR '']'' # v) = info\<lparr>si_uidnext := Some n\<rparr>
   \<and> select_line info (''* OK [UNSEEN '' @ str_of_nat n @ CHR '']'' # v) = info\<lparr>si_unseen := Some n\<rparr>"
proof (intro conjI)
  show "select_line info (''* '' @ str_of_nat n @ '' EXISTS'' @ v) = info\<lparr>si_exists := Some n\<rparr>"
    using count_line_match [of "''EXISTS''" n "''EXISTS'' @ v"]
    by (simp add: select_line_def RE_EXISTS_def rx_num_def rx_group_def py_startswith_def)
  show "select_line info (''* '' @ str_of_nat n @ '' RECENT'' @ v) = info\<lparr>si_recent := Some n\<rparr>"
    using count_line_match [of "''EXISTS''" n "''RECENT'' @ v"]
      count_line_match [of "''RECENT''" n "''RECENT'' @ v"]
    by (simp add: select_line_def RE_EXISTS_def RE_RECENT_def rx_num_def rx_group_def
        py_startswith_def lower_char_def code_pt_def text_simps)
  show "select_line info (''* OK [UIDVALIDITY '' @ str_of_nat n @ CHR '']'' # v) = info\<lparr>si_uidvalidity := Some n\<rparr>"
    using code_line_match [of "''UIDVALIDITY''" n v]
      code_line_not_count [of "'' [UIDVALIDITY '' @ str_of_nat n @ CHR '']'' # v"]
    by (simp add: select_line_def RE_UIDVALIDITY_def rx_num_def rx_group_def)
  show "select_line info (''* OK [UIDNEXT '' @ str_of_nat n @ CHR '']'' # v) = info\<lparr>si_uidnext := Some n\<rparr>"
    using code_line_match [of "''UIDNEXT''" n v]
      code_line_not_count [of "'' [UIDNEXT '' @ str_of_nat n @ CHR '']'' # v"]
      code_line_mismatch [of "''UIDNEXT '' @ str_of_nat n @ CHR '']'' # v" "''UIDVALIDITY''"]
    by (simp add: select_line_def RE_UIDVALIDITY_def RE_UIDNEXT_def rx_num_def rx_group_def
        py_startswith_def lower_char_def code_pt_def text_simps)
  show "select_line info (''* OK [UNSEEN '' @ str_of_nat n @ CHR '']'' # v) = info\<lparr>si_unseen := Some n\<rparr>"
    using code_line_match [of "''UNSEEN''" n v]
      code_line_not_count [of "'' [UNSEEN '' @ str_of_nat n @ CHR '']'' # v"]
      code_line_mismatch [of "''UNSEEN '' @ str_of_nat n @ CHR '']'' # v" "''UIDVALIDITY''"]
      code_line_mismatch [of "''UNSEEN '' @ str_of_nat n @ CHR '']'' # v" "''UIDNEXT''"]
    by (simp add: select_line_def RE_UIDVALIDITY_def RE_UIDNEXT_def RE_UNSEEN_def rx_num_def rx_group_def
        py_startswith_def lower_char_def code_pt_def text_simps)
qed

text \<open>A LIST line with a quoted mailbox name yields that name, brackets, blanks and inner quotes
  included, and the attributes of the parenthesised list in order.\<close>

theorem parse_list_line_reads:
  assumes "CHR '')'' \<notin> set attrs" "dquote \<notin> set delim" "CHR 0x0A \<notin> set name"
  shows "parse_list_line (''* LIST ('' @ attrs @ '') '' @ dquote # delim @ dquote # sp # dquote # name @ [dquote])
    = Some \<lparr>lf_name = name, lf_attributes = py_split attrs\<rparr>"
proof -
  let ?name = "dquote # name @ [dquote]"
  let ?k3 = "[Cap 2 (rx_some rx_any), Eol]"
  let ?k2 = "One (\<lambda>d. d = dquote) # rx_some is_space @ ?k3"
  let ?k1 = "One (\<lambda>d. d = CHR '')'') # rx_some is_space @ rx_lit [dquote]
     @ [Many (rx_not [dquote])] @ ?k2"
  have any: "list_all rx_any ?name" using assms(3) by (auto simp: rx_any_def list_all_iff code_pt_def)
  have nsp: "\<not> is_space dquote" "\<not> is_space (CHR ''('')" by code_simp+
  have k3: "rx_match ?k3 prev ?name g = Some ((2, ?name) # g, [])" for prev g
    using any rx_match_many_greedy [of rx_any "name @ [dquote]" "[]" "[EndCap 2 ?name, Eol]"]
    by simp
  have k2: "rx_match ?k2 prev (dquote # sp # ?name) g = Some ((2, ?name) # g, [])" for prev g
    using nsp k3 by (simp add: rx_match.simps(3))
  have delim: "rx_match (Many (rx_not [dquote]) # ?k2) prev (delim @ dquote # sp # ?name) g
      = Some ((2, ?name) # g, [])" for prev g
    by (rule rx_match_many_greedy) (use assms(2) k2 in \<open>auto simp: rx_not_def list_all_iff\<close>)
  have k1: "rx_match ?k1 prev ('') '' @ dquote # delim @ dquote # sp # ?name) g = Some ((2, ?name) # g, [])"
    for prev g
    using nsp delim by (simp add: rx_match.simps(3) sp_def [symmetric])
  have "rx_match (Many (rx_not '')'') # EndCap 1 (attrs @ '') '' @ dquote # delim @ dquote # sp # ?name) # ?k1)
        prev (attrs @ '') '' @ dquote # delim @ dquote # sp # ?name) g
      = Some ((2, ?name) # (1, attrs) # g, [])" for prev g
    by (rule rx_match_many_greedy)
      (use assms(1) k1 in \<open>auto simp: rx_not_def list_all_iff\<close>)
  then have "re_match RE_LIST (''* LIST ('' @ attrs @ '') '' @ dquote # delim @ dquote # sp # ?name)
      = Some [(2, ?name), (1, attrs)]"
    using nsp by (simp add: re_match_def RE_LIST_def rx_match.simps(3) sp_def [symmetric])
  moreover have "py_strip ?name = ?name" using nsp by (simp add: strip_if_def lstrip_if_def rstrip_if_def)
  ultimately show ?thesis
    by (simp add: parse_list_line_def rx_group_def py_startswith_def py_endswith_def)
qed

lemma parse_list_line_reads_witness:
  "parse_list_line (''* LIST ('' @ ''HasNoChildren Trash'' @ '') '' @ dquote # ''/'' @ dquote # sp # dquote # ''[Gmail]/Old bin'' @ [dquote])
    = Some \<lparr>lf_name = ''[Gmail]/Old bin'', lf_attributes = py_split ''HasNoChildren Trash''\<rparr>"
  by (rule parse_list_line_reads) code_simp+

end
