(* ===== verification/Provider_Profiles.thy ===== *)
theory Provider_Profiles
  imports Prelude
begin

text \<open>
  Provider profiles (\<open>gateway/provider_profiles.py\<close>): the folders with a special role at each
  provider, detection by host name, and the two rewrite helpers.
\<close>

record provider_profile =
  pp_name :: string
  pp_archive_folder :: "string option"
  pp_trash_folder :: "string option"
  pp_junk_folder :: "string option"
  pp_sent_suppress_folders :: "string list"
  pp_sent_folder :: "string option"
  pp_move_capable :: bool

definition GMAIL_PROFILE :: provider_profile where
  "GMAIL_PROFILE =
     \<lparr>pp_name = ''Gmail'', pp_archive_folder = Some ''[Gmail]/All Mail'',
      pp_trash_folder = Some ''[Gmail]/Trash'', pp_junk_folder = Some ''[Gmail]/Spam'',
      pp_sent_suppress_folders = [''[Gmail]/Sent Mail''], pp_sent_folder = None,
      pp_move_capable = True\<rparr>"

definition ICLOUD_PROFILE :: provider_profile where
  "ICLOUD_PROFILE =
     \<lparr>pp_name = ''iCloud Mail'', pp_archive_folder = Some ''Archive'',
      pp_trash_folder = Some ''Deleted Messages'', pp_junk_folder = Some ''Junk'',
      pp_sent_suppress_folders = [''Sent Messages''], pp_sent_folder = Some ''Sent Messages'',
      pp_move_capable = True\<rparr>"

definition OUTLOOK_PROFILE :: provider_profile where
  "OUTLOOK_PROFILE =
     \<lparr>pp_name = ''Outlook/Microsoft 365'', pp_archive_folder = None,
      pp_trash_folder = Some ''Deleted Items'', pp_junk_folder = Some ''Junk Email'',
      pp_sent_suppress_folders = [''Sent Items'', ''Sent''], pp_sent_folder = None,
      pp_move_capable = True\<rparr>"

definition GENERIC_PROFILE :: provider_profile where
  "GENERIC_PROFILE =
     \<lparr>pp_name = ''Generic IMAP'', pp_archive_folder = None, pp_trash_folder = None,
      pp_junk_folder = None, pp_sent_suppress_folders = [], pp_sent_folder = Some ''Sent'',
      pp_move_capable = False\<rparr>"

definition DETECTION_TABLE :: "(string \<times> provider_profile) list" where
  "DETECTION_TABLE =
     [(''gmail.com'', GMAIL_PROFILE), (''googlemail.com'', GMAIL_PROFILE),
      (''mail.me.com'', ICLOUD_PROFILE), (''mac.com'', ICLOUD_PROFILE),
      (''outlook.com'', OUTLOOK_PROFILE), (''outlook.office365.com'', OUTLOOK_PROFILE),
      (''hotmail.com'', OUTLOOK_PROFILE), (''live.com'', OUTLOOK_PROFILE)]"

definition host_matches :: "string \<Rightarrow> string \<Rightarrow> bool" where
  "host_matches host sfx \<longleftrightarrow> host = sfx \<or> py_endswith host (CHR ''.'' # sfx)"

definition detect_provider :: "string \<Rightarrow> provider_profile" where
  "detect_provider upstream_host =
     (case List.find (\<lambda>e. host_matches (py_lower upstream_host) (fst e)) DETECTION_TABLE of
        Some e \<Rightarrow> snd e
      | None \<Rightarrow> GENERIC_PROFILE)"

record pending_copy_intent =
  pci_tag :: string
  pci_uid_set :: string
  pci_destination :: string

definition should_suppress_append :: "string \<Rightarrow> provider_profile \<Rightarrow> bool" where
  "should_suppress_append folder profile =
     list_ex (\<lambda>f. py_lower f = py_lower folder) (pp_sent_suppress_folders profile)"

definition copy_archive_intent :: "string \<Rightarrow> provider_profile \<Rightarrow> string option" where
  "copy_archive_intent copy_destination profile =
     (case List.find (\<lambda>special. case special of Some f \<Rightarrow> f \<noteq> [] \<and> py_lower copy_destination = py_lower f
                                      | None \<Rightarrow> False)
            [pp_archive_folder profile, pp_trash_folder profile, pp_junk_folder profile] of
        Some f \<Rightarrow> f
      | None \<Rightarrow> None)"

section \<open>Lemmas\<close>

lemma copy_archive_intent_Some:
  "copy_archive_intent dest profile = Some f \<Longrightarrow>
     py_lower dest = py_lower f \<and>
     Some f \<in> {pp_archive_folder profile, pp_trash_folder profile, pp_junk_folder profile}"
  by (auto simp: copy_archive_intent_def split: if_splits option.splits)

text \<open>A host belongs to a provider only when the suffix stands at a domain-label boundary.\<close>

lemma host_matches_boundary:
  "host_matches host sfx \<longleftrightarrow> host = sfx \<or> (\<exists>sub. host = sub @ CHR ''.'' # sfx)"
proof -
  have "py_endswith host s \<longleftrightarrow> (\<exists>sub. host = sub @ s)" for s
  proof
    assume "py_endswith host s"
    then have "rev host = rev s @ drop (length s) (rev host)"
      by (metis append_take_drop_id length_rev py_endswith_def py_startswith_def)
    then show "\<exists>sub. host = sub @ s" by (metis rev_append rev_rev_ident)
  qed (auto simp: py_endswith_def py_startswith_def)
  then show ?thesis by (simp add: host_matches_def)
qed

end
