(* ===== verification/Operation_Parser.thy ===== *)
theory Operation_Parser
  imports Prelude
begin

text \<open>
  Write commands as structured operations (\<open>gateway/operation_parser.py\<close>): the logical mailbox
  name, one parser per verb, and the human-readable descriptions shown to the reviewer.
\<close>

section \<open>Mailbox names\<close>

definition unquote_mailbox :: "string \<Rightarrow> string" where
  "unquote_mailbox name =
     (if length name \<ge> 2 \<and> hd name = dquote \<and> last name = dquote
      then py_replace [bslash, bslash] [bslash]
             (py_replace [bslash, dquote] [dquote] (butlast (tl name)))
      else name)"

section \<open>Operations\<close>

record parsed_operation =
  po_tag :: string
  po_op_type :: string
  po_imap_command :: string
  po_description :: string
  po_message_ids :: "string list"
  po_folder_from :: "string option"
  po_folder_to :: "string option"
  po_flags_add :: "string list"
  po_flags_remove :: "string list"
  po_verb :: "string option"

definition new_operation :: "string \<Rightarrow> string \<Rightarrow> string \<Rightarrow> string \<Rightarrow> parsed_operation" where
  "new_operation tag op_type imap_command description =
     \<lparr>po_tag = tag, po_op_type = op_type, po_imap_command = imap_command,
      po_description = description, po_message_ids = [], po_folder_from = None,
      po_folder_to = None, po_flags_add = [], po_flags_remove = [], po_verb = None\<rparr>"

definition norm_flag :: "string \<Rightarrow> string" where
  "norm_flag f = py_lower (lstrip_if (\<lambda>c. c = bslash) f)"

definition STORE_FLAG_SEMANTICS :: "(string \<times> (string \<times> string) \<times> (string \<times> string)) list" where
  "STORE_FLAG_SEMANTICS =
     [(''seen'', (''mark_read'', ''Mark as read''), (''mark_unread'', ''Mark as unread'')),
      (''flagged'', (''flag'', ''Star''), (''unflag'', ''Unstar'')),
      (''answered'', (''store'', ''Mark as replied''), (''store'', ''Unmark as replied''))]"

definition recognised_flags :: "bool \<Rightarrow> string list \<Rightarrow> (string \<times> string) list" where
  "recognised_flags adding flags =
     map (\<lambda>(name, add_sem, remove_sem). if adding then add_sem else remove_sem)
       (filter (\<lambda>(name, add_sem, remove_sem). name \<in> set (map norm_flag flags)) STORE_FLAG_SEMANTICS)"

definition store_op :: "string \<Rightarrow> string" where
  "store_op flags_op = py_replace ''.SILENT'' [] (py_upper flags_op)"

definition paren_flags :: "string list \<Rightarrow> string" where
  "paren_flags flags = ''('' @ py_join '' '' flags @ '')''"

definition parse_store ::
  "string \<Rightarrow> bool \<Rightarrow> string \<Rightarrow> string \<Rightarrow> string list \<Rightarrow> parsed_operation" where
  "parse_store tag uid_mode uid_set flags_op flags =
     (let op = store_op flags_op;
          cmd = (if uid_mode then ''UID '' else []) @ ''STORE '' @ uid_set @ '' '' @ flags_op @ '' ''
                  @ paren_flags flags;
          adding = (op = ''+FLAGS'');
          rec = recognised_flags adding flags
      in if op = ''+FLAGS'' \<and> ''deleted'' \<in> set (map norm_flag flags) then
           (new_operation tag ''trash'' cmd (''Move to Trash: '' @ uid_set))
             \<lparr>po_message_ids := [uid_set], po_flags_add := flags\<rparr>
         else if (op = ''+FLAGS'' \<or> op = ''-FLAGS'') \<and> rec \<noteq> [] then
           (let verb_phrase = py_join '' and '' (snd (hd rec) # map (\<lambda>r. py_lower (snd r)) (tl rec))
            in (new_operation tag (fst (hd rec)) cmd (verb_phrase @ '': '' @ uid_set))
                 \<lparr>po_message_ids := [uid_set],
                  po_flags_add := if adding then flags else [],
                  po_flags_remove := if adding then [] else flags,
                  po_verb := Some verb_phrase\<rparr>)
         else
           (new_operation tag ''store'' cmd
              (''Flag update on '' @ uid_set @ '': '' @ flags_op @ '' '' @ paren_flags flags))
             \<lparr>po_message_ids := [uid_set],
              po_flags_add := if op = ''+FLAGS'' then flags else [],
              po_flags_remove := if op = ''-FLAGS'' then flags else []\<rparr>)"

definition parse_move :: "string \<Rightarrow> string \<Rightarrow> string \<Rightarrow> parsed_operation" where
  "parse_move tag uid_set destination_folder =
     (let dest = unquote_mailbox destination_folder
      in (new_operation tag ''move'' (''MOVE '' @ uid_set @ '' '' @ dest)
            (''Move '' @ uid_set @ '' to '' @ dest))
           \<lparr>po_message_ids := [uid_set], po_folder_to := Some dest\<rparr>)"

definition parse_copy :: "string \<Rightarrow> string \<Rightarrow> string \<Rightarrow> parsed_operation" where
  "parse_copy tag uid_set destination_folder =
     (let dest = unquote_mailbox destination_folder
      in (new_operation tag ''copy'' (''COPY '' @ uid_set @ '' '' @ dest)
            (''Copy '' @ uid_set @ '' to '' @ dest))
           \<lparr>po_message_ids := [uid_set], po_folder_to := Some dest\<rparr>)"

text \<open>\<open>name.rsplit(d, 1)[-1]\<close>\<close>

definition last_segment :: "char \<Rightarrow> string \<Rightarrow> string" where
  "last_segment d name = last (py_split_on d name)"

definition is_drafts_append :: "string \<Rightarrow> string list \<Rightarrow> bool" where
  "is_drafts_append folder flags \<longleftrightarrow>
     list_ex (\<lambda>f. norm_flag f = ''draft'') flags \<or>
     last_segment (CHR ''.'') (last_segment (CHR ''/'') (py_lower (strip_if (\<lambda>c. c = dquote) folder)))
       \<in> {''drafts'', ''draft''}"

definition parse_append :: "string \<Rightarrow> string \<Rightarrow> string list \<Rightarrow> nat \<Rightarrow> parsed_operation" where
  "parse_append tag folder flags message_size =
     (let dest = unquote_mailbox folder;
          size = str_of_nat message_size;
          cmd = ''APPEND '' @ dest @ '' '' @ paren_flags flags @ '' {'' @ size @ ''}'';
          description = (if is_drafts_append dest flags then ''Save draft to '' else ''Add message to '')
             @ dest @ '' ('' @ size @ '' bytes)''
      in (new_operation tag ''append'' cmd description)
           \<lparr>po_folder_to := Some dest, po_flags_add := flags\<rparr>)"

section \<open>Rich descriptions\<close>

record msg_meta =
  mm_uid :: int
  mm_sender :: "string option"
  mm_subject :: "string option"

definition OP_VERB :: "(string \<times> string) list" where
  "OP_VERB =
     [(''move'', ''Move''), (''copy'', ''Copy''), (''trash'', ''Move to Trash''),
      (''mark_read'', ''Mark as read''), (''mark_unread'', ''Mark as unread''), (''flag'', ''Star''),
      (''unflag'', ''Unstar''), (''store'', ''Update flags on''), (''append'', ''Save draft''),
      (''create'', ''Create folder''), (''rename'', ''Rename folder''), (''smtp_send'', ''Send email'')]"

definition INTENT_VERBS :: "(string \<times> string) list" where
  "INTENT_VERBS =
     [(''archive'', ''Archive''), (''delete'', ''Move to Trash''), (''mark_spam'', ''Mark as spam''),
      (''not_spam'', ''Not spam '' @ [CHR 0xE2, CHR 0x80, CHR 0x94] @ '' move to Inbox''),
      (''restore_from_trash'', ''Restore from Trash''), (''unarchive'', ''Move back to Inbox''),
      (''mark_answered'', ''Mark as replied''), (''save_draft'', ''Save draft''),
      (''import_message'', ''Add message'')]"

definition TRASH_FALLBACK_VERB :: string where
  "TRASH_FALLBACK_VERB = ''Mark deleted (no Trash folder found)''"

definition INTENT_IMPLIES_DEST :: "string list" where
  "INTENT_IMPLIES_DEST = [''archive'', ''delete'', ''mark_spam'', ''not_spam'', ''unarchive'']"

definition py_capitalize :: "string \<Rightarrow> string" where
  "py_capitalize s = (case s of [] \<Rightarrow> [] | c # r \<Rightarrow> upper_char c # py_lower r)"

definition str_or :: "string option \<Rightarrow> string \<Rightarrow> string" where
  "str_or o1 d = (case o1 of Some s \<Rightarrow> if s \<noteq> [] then s else d | None \<Rightarrow> d)"

definition rich_verb :: "parsed_operation \<Rightarrow> string option \<Rightarrow> string" where
  "rich_verb parsed_op intent_label =
     (if po_op_type parsed_op = ''trash'' \<and> str_or (po_folder_to parsed_op) [] = []
      then TRASH_FALLBACK_VERB
      else str_or (map_of INTENT_VERBS (str_or intent_label []))
             (str_or (po_verb parsed_op)
               (case map_of OP_VERB (po_op_type parsed_op) of Some v \<Rightarrow> v
                | None \<Rightarrow> py_capitalize (py_replace ''_'' '' '' (po_op_type parsed_op)))))"

definition folder_suffix :: "parsed_operation \<Rightarrow> string option \<Rightarrow> string" where
  "folder_suffix parsed_op intent_label =
     (case po_folder_to parsed_op of
        Some dest \<Rightarrow>
          if po_op_type parsed_op \<in> {''move'', ''copy''} \<and> dest \<noteq> [] then
            (if (\<exists>i \<in> set INTENT_IMPLIES_DEST. intent_label = Some i)
                \<or> (intent_label = Some ''restore_from_trash''
                   \<and> py_upper (strip_if (\<lambda>c. c = dquote) dest) = ''INBOX'')
             then [] else '' to '' @ dest)
          else []
      | None \<Rightarrow> [])"

definition quoted_subject :: "string \<Rightarrow> string" where
  "quoted_subject s = dquote # s @ [dquote]"

text \<open>\<open>{s for s in senders if s}\<close>, in order of first occurrence.\<close>

definition unique_senders :: "msg_meta list \<Rightarrow> string list" where
  "unique_senders metadata = remdups (filter (\<lambda>s. s \<noteq> []) (map (\<lambda>m. str_or (mm_sender m) []) metadata))"

definition no_metadata_description :: "parsed_operation \<Rightarrow> string option \<Rightarrow> string" where
  "no_metadata_description parsed_op intent_label =
     (case intent_label of
        Some i \<Rightarrow> if map_of INTENT_VERBS i \<noteq> None
          then rich_verb parsed_op intent_label @ '': ''
                 @ (case po_message_ids parsed_op of m # _ \<Rightarrow> m | [] \<Rightarrow> [])
                 @ folder_suffix parsed_op intent_label
          else po_description parsed_op
      | None \<Rightarrow> po_description parsed_op)"

definition single_parts :: "msg_meta \<Rightarrow> string list" where
  "single_parts msg =
     (let subject = str_or (mm_subject msg) []; sender = str_or (mm_sender msg) []
      in (if subject \<noteq> [] then [quoted_subject subject] else [])
         @ (if sender \<noteq> [] then [''from '' @ sender] else []))"

definition build_rich_description ::
  "parsed_operation \<Rightarrow> msg_meta list \<Rightarrow> string option \<Rightarrow> string" where
  "build_rich_description parsed_op metadata intent_label =
     (let verb = rich_verb parsed_op intent_label;
          suffix = folder_suffix parsed_op intent_label;
          total = str_of_nat (length metadata)
      in if po_op_type parsed_op \<in> {''append'', ''create'', ''rename'', ''smtp_send''}
         then po_description parsed_op
         else case metadata of
           [] \<Rightarrow> no_metadata_description parsed_op intent_label
         | [msg] \<Rightarrow>
             (if single_parts msg \<noteq> []
              then verb @ '': '' @ py_join '' '' (single_parts msg) @ suffix
              else no_metadata_description parsed_op intent_label)
         | first # _ \<Rightarrow>
             (case unique_senders metadata of
                [sender] \<Rightarrow> verb @ '' '' @ total @ '' messages from '' @ sender @ suffix
              | _ \<Rightarrow>
                 (let subject = str_or (mm_subject first) []
                  in if subject \<noteq> []
                     then verb @ '' '' @ quoted_subject subject @ '' and ''
                            @ str_of_nat (length metadata - 1) @ '' more'' @ suffix
                     else verb @ '' '' @ total @ '' messages'' @ suffix)))"

section \<open>Lemmas\<close>

lemma unquote_imap_quote [simp]: "unquote_mailbox (imap_quote s) = s"
  by (simp add: unquote_mailbox_def imap_quote_def py_replace_quote_body py_replace_double_bslash)

lemma unquote_unquoted: "hd s \<noteq> dquote \<or> s = [] \<Longrightarrow> unquote_mailbox s = s"
  by (auto simp: unquote_mailbox_def)

section \<open>Properties\<close>

text \<open>Quoting is undone exactly: the logical name of a quoted mailbox argument is the name that
  was quoted, so the name a MOVE, COPY or APPEND stores is the one execution quotes again.\<close>

theorem stored_folder_is_logical:
  "unquote_mailbox (imap_quote f) = f
   \<and> po_folder_to (parse_move tag uids (imap_quote f)) = Some f
   \<and> po_folder_to (parse_copy tag uids (imap_quote f)) = Some f
   \<and> po_folder_to (parse_append tag (imap_quote f) flags n) = Some f"
  by (simp add: parse_move_def parse_copy_def parse_append_def Let_def new_operation_def)

text \<open>C32: what a STORE stages.  \<open>+FLAGS\<close> with \<open>\\Deleted\<close> among the flags is always a trash
  operation; otherwise the first recognised flag decides; a replacing \<open>FLAGS\<close> keeps neither added
  nor removed flags.  Every variant names the UID set it was given.\<close>

theorem parse_store_branches:
  "po_message_ids (parse_store tag um uids flags_op flags) = [uids]
   \<and> (po_op_type (parse_store tag um uids flags_op flags) = ''trash''
       \<longleftrightarrow> store_op flags_op = ''+FLAGS'' \<and> ''deleted'' \<in> set (map norm_flag flags))
   \<and> po_flags_add (parse_store tag um uids flags_op flags) = (if store_op flags_op = ''+FLAGS'' then flags else [])
   \<and> po_flags_remove (parse_store tag um uids flags_op flags) = (if store_op flags_op = ''-FLAGS'' then flags else [])
   \<and> po_op_type (parse_store tag um uids flags_op flags) \<in>
       {''trash'', ''mark_read'', ''mark_unread'', ''flag'', ''unflag'', ''store''}"
proof -
  have rec: "fst x \<in> {''mark_read'', ''mark_unread'', ''flag'', ''unflag'', ''store''}"
    if "x \<in> set (recognised_flags adding flags)" for x adding
    using that by (auto simp: recognised_flags_def STORE_FLAG_SEMANTICS_def split: if_splits)
  have hd_rec: "recognised_flags adding flags \<noteq> [] \<Longrightarrow>
      fst (hd (recognised_flags adding flags)) \<in> {''mark_read'', ''mark_unread'', ''flag'', ''unflag'', ''store''}"
    for adding by (rule rec [OF hd_in_set])
  have tr: "''trash'' \<notin> {''mark_read'', ''mark_unread'', ''flag'', ''unflag'', ''store''}" by simp
  show ?thesis
    using hd_rec [of True] hd_rec [of False] tr
    by (auto simp: parse_store_def new_operation_def Let_def)
qed

end
