(* ===== verification/Intent.thy ===== *)
theory Intent
  imports Regex Operation_Parser Provider_Profiles
begin

text \<open>
  Intent derivation (\<open>gateway/intent.py\<close>): the role of a folder and the semantic label of a
  staged operation.  A confidence is kept in tenths: 10 for \<open>1.0\<close>, 8 for \<open>0.8\<close>, 0 for \<open>0.0\<close>.
\<close>

type_synonym special_use = "string \<rightharpoonup> string"

definition PROFILE_CONFIDENCE :: nat where "PROFILE_CONFIDENCE = 10"
definition HEURISTIC_CONFIDENCE :: nat where "HEURISTIC_CONFIDENCE = 8"

section \<open>Folder roles\<close>

definition NAME_ROLES :: "(string \<times> string list) list" where
  "NAME_ROLES =
     [(''archive'', [''archive'', ''archives'', ''all mail'']),
      (''trash'', [''trash'', ''deleted items'', ''deleted messages'', ''deleted'', ''bin'', ''wastebasket'']),
      (''junk'', [''junk'', ''junk email'', ''junk e-mail'', ''spam'', ''bulk mail'']),
      (''drafts'', [''drafts'', ''draft''])]"

definition SPECIAL_USE_TO_ROLE :: "(string \<times> string) list" where
  "SPECIAL_USE_TO_ROLE =
     [(bslash # ''archive'', ''archive''), (bslash # ''all'', ''archive''), (bslash # ''trash'', ''trash''),
      (bslash # ''junk'', ''junk''), (bslash # ''drafts'', ''drafts''), (bslash # ''sent'', ''sent'')]"

fun role_from_list_attributes :: "string list \<Rightarrow> string option" where
  "role_from_list_attributes [] = None"
| "role_from_list_attributes (a # as) =
     (case map_of SPECIAL_USE_TO_ROLE (py_lower a) of
        Some role \<Rightarrow> Some role
      | None \<Rightarrow> role_from_list_attributes as)"

fun name_role :: "string list \<Rightarrow> string option" where
  "name_role [] = None"
| "name_role (cand # cands) =
     (case List.find (\<lambda>e. cand \<in> set (snd e)) NAME_ROLES of
        Some e \<Rightarrow> Some (fst e)
      | None \<Rightarrow> name_role cands)"

definition is_profile_folder :: "string option \<Rightarrow> string \<Rightarrow> bool" where
  "is_profile_folder f name = (case f of Some s \<Rightarrow> s \<noteq> [] \<and> name = py_lower s | None \<Rightarrow> False)"

definition profile_role :: "provider_profile option \<Rightarrow> string \<Rightarrow> string option" where
  "profile_role profile name =
     (case profile of None \<Rightarrow> None
      | Some p \<Rightarrow>
          if is_profile_folder (pp_archive_folder p) name then Some ''archive''
          else if is_profile_folder (pp_trash_folder p) name then Some ''trash''
          else if is_profile_folder (pp_junk_folder p) name then Some ''junk''
          else None)"

definition folder_key :: "string \<Rightarrow> string" where
  "folder_key folder = py_lower (strip_if (\<lambda>c. c = dquote) (py_strip folder))"

definition classify_folder ::
  "string option \<Rightarrow> provider_profile option \<Rightarrow> special_use \<Rightarrow> string option \<times> nat" where
  "classify_folder folder profile special_use =
     (let name = folder_key (str_or folder []);
          server_role = str_or (special_use name) []
      in if name = [] then (None, 0)
         else if name = ''inbox'' then (Some ''inbox'', PROFILE_CONFIDENCE)
         else if server_role \<noteq> [] then (Some server_role, PROFILE_CONFIDENCE)
         else case profile_role profile name of
           Some role \<Rightarrow> (Some role, PROFILE_CONFIDENCE)
         | None \<Rightarrow>
             (case name_role [name, last_segment (CHR ''/'') name, last_segment (CHR ''.'') name] of
                Some role \<Rightarrow> (Some role, HEURISTIC_CONFIDENCE)
              | None \<Rightarrow> (None, 0)))"

section \<open>Outgoing mail\<close>

definition RE_MSGID :: "rx list" where
  "RE_MSGID = [Cap 0 (rx_lit ''<'' @ rx_some (\<lambda>c. rx_not ''<>'' c \<and> \<not> is_space c) @ rx_lit ''@''
     @ rx_some (\<lambda>c. rx_not ''<>'' c \<and> \<not> is_space c) @ rx_lit ''>'')]"

fun rx_alts :: "rx list list \<Rightarrow> rx list" where
  "rx_alts [] = []"
| "rx_alts [r] = r"
| "rx_alts (r # q # rs) = [Alt r (rx_alts (q # rs))]"

definition rx_counter :: "rx list" where
  "rx_counter = [Opt (rx_lit ''['' @ rx_digits @ rx_lit '']'')]"

definition rx_prefix :: "rx list list \<Rightarrow> rx list" where
  "rx_prefix words = [Many is_space] @ rx_alts words @ rx_counter @ [Many is_space] @ rx_lit '':''"

definition reply_words :: "rx list list" where
  "reply_words = map rx_ilit [''re'', ''sv'', ''aw'', ''antw'']"

definition forward_words :: "rx list list" where
  "forward_words = [rx_ilit ''fw'' @ [Opt (rx_ilit ''d'')], rx_ilit ''wg'', rx_ilit ''vs'']"

definition RE_REPLY_PREFIX :: "rx list" where "RE_REPLY_PREFIX = rx_prefix reply_words"
definition RE_FORWARD_PREFIX :: "rx list" where "RE_FORWARD_PREFIX = rx_prefix forward_words"
definition RE_ANY_PREFIX :: "rx list" where
  "RE_ANY_PREFIX = rx_prefix (reply_words @ forward_words) @ [Many is_space]"

definition extract_message_ids :: "string option \<Rightarrow> string list" where
  "extract_message_ids header_value = re_findall RE_MSGID 0 (str_or header_value [])"

text \<open>A match of the prefix pattern is never empty, so the loop of \<open>strip_subject_prefixes\<close>
  shortens its string; the test on the length is always true when there is a match.\<close>

function strip_prefixes :: "string \<Rightarrow> string" where
  "strip_prefixes s =
     (case rx_match RE_ANY_PREFIX None s [] of
        None \<Rightarrow> s
      | Some (g, rest) \<Rightarrow> if length rest < length s then strip_prefixes rest else s)"
  by pat_completeness auto
termination by (relation "measure length") auto

declare strip_prefixes.simps [simp del]

definition strip_subject_prefixes :: "string option \<Rightarrow> string" where
  "strip_subject_prefixes subject = strip_prefixes (py_strip (str_or subject []))"

definition derive_send_intent ::
  "string option \<Rightarrow> string option \<Rightarrow> string option \<Rightarrow> bool \<Rightarrow> (string \<times> nat) option" where
  "derive_send_intent subject in_reply_to references original_found =
     (let subj = str_or subject [];
          conf = (if original_found then PROFILE_CONFIDENCE else HEURISTIC_CONFIDENCE)
      in if re_match RE_FORWARD_PREFIX subj \<noteq> None then Some (''forward'', conf)
         else if str_or in_reply_to [] \<noteq> [] then Some (''reply'', conf)
         else if str_or references [] \<noteq> [] \<and> re_match RE_REPLY_PREFIX subj \<noteq> None
         then Some (''reply'', conf)
         else None)"

section \<open>Staged operations\<close>

definition move_intent :: "string option \<times> nat \<Rightarrow> string option \<times> nat \<Rightarrow> (string \<times> nat) option" where
  "move_intent src dest =
     (if fst dest = Some ''archive'' then Some (''archive'', snd dest)
      else if fst dest = Some ''trash'' then Some (''delete'', snd dest)
      else if fst dest = Some ''junk'' then Some (''mark_spam'', snd dest)
      else if fst src = Some ''junk'' \<and> fst dest = Some ''inbox''
      then Some (''not_spam'', min (snd src) (snd dest))
      else if fst src = Some ''trash'' then Some (''restore_from_trash'', snd src)
      else if fst src = Some ''archive'' \<and> fst dest = Some ''inbox''
      then Some (''unarchive'', min (snd src) (snd dest))
      else None)"

definition derive_intent ::
  "parsed_operation \<Rightarrow> provider_profile option \<Rightarrow> string option \<Rightarrow> special_use \<Rightarrow> (string \<times> nat) option" where
  "derive_intent parsed_op profile folder_from special_use =
     (let op_type = po_op_type parsed_op;
          dest = classify_folder (po_folder_to parsed_op) profile special_use
      in if op_type = ''trash'' then Some (''delete'', 10)
         else if op_type = ''append'' then
           (if ''draft'' \<in> set (map norm_flag (po_flags_add parsed_op)) then Some (''save_draft'', 10)
            else if fst dest = Some ''drafts'' then Some (''save_draft'', snd dest)
            else Some (''import_message'', 10))
         else if op_type = ''store'' then
           (if set (map norm_flag (po_flags_add parsed_op)) = {''answered''}
               \<and> po_flags_remove parsed_op = []
            then Some (''mark_answered'', 10) else None)
         else if op_type = ''move'' then
           (let src = (if str_or folder_from [] \<noteq> [] then folder_from else po_folder_from parsed_op)
            in move_intent (classify_folder src profile special_use) dest)
         else None)"

section \<open>Lemmas\<close>

lemma rx_min_alts_nonneg: "rx_match (RE_ANY_PREFIX) prev s g = Some (g', r) \<Longrightarrow> length r < length s"
  by (drule rx_match_consumes) (simp add: RE_ANY_PREFIX_def rx_prefix_def sum_list_addf)

lemma NAME_ROLES_roles: "name_role cs \<noteq> Some []"
  by (induction cs) (auto simp: NAME_ROLES_def split: option.splits if_splits)

section \<open>Properties\<close>

text \<open>Stripping a subject ends with no reply or forward prefix left, and stripping again changes
  nothing.\<close>

theorem strip_prefixes_complete:
  "re_match RE_ANY_PREFIX (strip_prefixes s) = None \<and> strip_prefixes (strip_prefixes s) = strip_prefixes s"
proof -
  have "rx_match RE_ANY_PREFIX None (strip_prefixes s) [] = None" for s
  proof (induction s rule: strip_prefixes.induct)
    case (1 s)
    then show ?case
      by (subst strip_prefixes.simps) (auto split: option.splits dest: rx_min_alts_nonneg)
  qed
  then show ?thesis by (simp add: re_match_def strip_prefixes.simps [of "strip_prefixes s"])
qed

text \<open>How sure the gateway is of a folder's role.  The inbox, a role the server declared and a
  folder of the provider profile are certain, in that order of precedence; a guess from the name
  is never certain; an unknown folder has no role and no confidence.\<close>

theorem classify_folder_confidence:
  "(snd (classify_folder folder profile su) = PROFILE_CONFIDENCE \<longleftrightarrow>
      folder_key (str_or folder []) \<noteq> [] \<and>
      (folder_key (str_or folder []) = ''inbox'' \<or> str_or (su (folder_key (str_or folder []))) [] \<noteq> []
       \<or> profile_role profile (folder_key (str_or folder [])) \<noteq> None))
   \<and> snd (classify_folder folder profile su) \<in> {0, HEURISTIC_CONFIDENCE, PROFILE_CONFIDENCE}
   \<and> (snd (classify_folder folder profile su) = 0 \<longleftrightarrow> fst (classify_folder folder profile su) = None)
   \<and> (folder_key (str_or folder []) \<noteq> ''inbox'' \<and> str_or (su (folder_key (str_or folder []))) [] \<noteq> []
        \<and> folder_key (str_or folder []) \<noteq> []
      \<longrightarrow> fst (classify_folder folder profile su) = su (folder_key (str_or folder [])))"
  by (auto simp: classify_folder_def Let_def PROFILE_CONFIDENCE_def
      HEURISTIC_CONFIDENCE_def str_or_def split: option.splits if_splits)

lemma classify_folder_confidence_witness:
  "fst (classify_folder (Some ''Archive'') (Some ICLOUD_PROFILE) [''archive'' \<mapsto> ''trash'']) = Some ''trash''"
proof -
  have "folder_key (str_or (Some ''Archive'') []) = ''archive''" by code_simp
  with classify_folder_confidence [of "Some ''Archive''" "Some ICLOUD_PROFILE" "[''archive'' \<mapsto> ''trash'']"]
  show ?thesis by (simp add: str_or_def)
qed

text \<open>The delete intent is given exactly to trash operations and to moves into a folder that
  classifies as the trash folder.\<close>

theorem delete_intent_iff:
  "(\<exists>c. derive_intent op profile src su = Some (''delete'', c)) \<longleftrightarrow>
     po_op_type op = ''trash'' \<or>
     (po_op_type op = ''move'' \<and> fst (classify_folder (po_folder_to op) profile su) = Some ''trash'')"
  by (auto simp: derive_intent_def move_intent_def Let_def)

end
