(* ===== verification/Db_Schema.thy ===== *)
theory Db_Schema
  imports Prelude
begin

text \<open>
  The SQLite database the gateway's processes share (the \<open>SCHEMA\<close> strings of
  \<open>gateway/state_db.py\<close>).  A table is the list of its rows in rowid order; an AUTOINCREMENT key
  has its own counter, so an id is never reused.  A column that holds a JSON document is kept as
  the decoded value; NULL is \<open>None\<close>.  Times are the integers the code stores.
\<close>

section \<open>Rows\<close>

record folder_row =
  fo_id :: nat
  fo_user_id :: "nat option"
  fo_name :: string
  fo_uidvalidity :: "nat option"
  fo_uidnext :: "nat option"
  fo_exists_count :: "nat option"
  fo_recent_count :: "nat option"
  fo_unseen_count :: "nat option"
  fo_last_synced :: int
  fo_special_use :: "string option"

record message_row =
  me_folder_id :: nat
  me_uid :: int
  me_sequence_num :: "nat option"
  me_message_id :: "string option"
  me_subject :: "string option"
  me_sender :: "string option"
  me_date_sent :: "int option"
  me_size :: "nat option"
  me_flags :: "string list"
  me_last_updated :: int

text \<open>
  One entry of a pre-operation snapshot (\<open>snapshot_messages\<close>).  Its key in the stored dict is the
  UID in decimal, or, where the proxy made the entry up from a UID set, a text that \<open>int()\<close> rejects.
\<close>

record snap_entry =
  se_uid :: int
  se_flags :: "string list"
  se_seq_num :: "nat option"
  se_folder_id :: nat
  se_sender :: "string option"
  se_subject :: "string option"
  se_bad_key :: "string option"

datatype status =
  Pending | Approved | Rejected_op | Executed | Failed | Expired | Reverted | Cancelled

text \<open>The SMTP envelope staged with a send.\<close>

record envelope =
  env_from :: string
  env_to :: "string list"
  env_subject :: string
  env_body :: "string option"
  env_body_rendered :: "string option"
  env_body_preview :: "string option"
  env_in_reply_to :: "string option"
  env_original :: "(string option \<times> string option) option"

record op_row =
  op_id :: string
  op_created_at :: int
  op_expires_at :: int
  op_status :: status
  op_type :: string
  op_protocol :: string
  op_imap_command :: "string option"
  op_smtp_envelope :: "envelope option"
  op_description :: string
  op_agent_id :: "nat option"
  op_message_ids :: "string list option"
  op_folder_from :: "string option"
  op_folder_to :: "string option"
  op_flags_add :: "string list option"
  op_flags_remove :: "string list option"
  op_snapshot :: "snap_entry list option"
  op_append_message :: "string option"
  op_is_urgent :: bool
  op_batch_id :: "string option"
  op_intent_label :: "string option"
  op_intent_confidence :: "nat option"
  op_decided_at :: "int option"
  op_decided_by :: "string option"
  op_executed_at :: "int option"
  op_undo_expires_at :: "int option"
  op_scheduled_execute_at :: "int option"
  op_rejection_notified :: bool
  op_body_scrubbed_at :: "int option"
  op_error :: "string option"

text \<open>The JSON documents the audit log's detail column holds.\<close>

datatype detail =
    D_error string
  | D_recipients nat
  | D_destination nat string
  | D_trash_fallback string
  | D_rate nat nat nat nat
  | D_rule "nat option" "string option"
  | D_rule_delay "nat option" "string option" int int
  | D_text string

record audit_row =
  au_id :: nat
  au_timestamp :: int
  au_operation_id :: "string option"
  au_event :: string
  au_actor :: "string option"
  au_agent_id :: "nat option"
  au_op_type :: "string option"
  au_detail :: "detail option"
  au_user_id :: "nat option"
  au_intent_label :: "string option"
  au_prev_hash :: string
  au_entry_hash :: "string option"

record user_row =
  us_id :: nat
  us_email :: string
  us_display_name :: "string option"
  us_hashed_password :: string
  us_api_token :: "string option"
  us_api_token_created_at :: "int option"
  us_api_token_last_used_at :: "int option"
  us_reset_token :: "string option"
  us_reset_token_expires_at :: "int option"
  us_created_at :: int
  us_deleted_at :: "int option"
  us_suspended_at :: "int option"

record agent_row =
  ag_id :: nat
  ag_user_id :: nat
  ag_label :: string
  ag_agent_username :: string
  ag_hashed_token :: string
  ag_upstream_host :: string
  ag_upstream_smtp_host :: "string option"
  ag_upstream_imap_port :: nat
  ag_upstream_smtp_port :: nat
  ag_upstream_user :: string
  ag_upstream_password :: "string option"
  ag_oauth2_provider :: "string option"
  ag_oauth2_refresh_token :: "string option"
  ag_oauth2_client_id :: "string option"
  ag_oauth2_client_secret :: "string option"
  ag_oauth2_access_token :: "string option"
  ag_oauth2_access_token_expires_at :: "int option"
  ag_sent_folder :: "string option"
  ag_created_at :: int
  ag_revoked_at :: "int option"

record revert_row =
  rv_id :: nat
  rv_operation_id :: string
  rv_folder_id :: nat
  rv_uid :: int
  rv_true_flags :: "string list"
  rv_created_at :: int
  rv_delivered_at :: "int option"

record invite_row =
  in_id :: nat
  in_code_hash :: string
  in_created_at :: int
  in_expires_at :: "int option"
  in_note :: "string option"
  in_redeemed_at :: "int option"
  in_redeemed_by_email :: "string option"
  in_revoked_at :: "int option"

record push_row =
  pu_id :: nat
  pu_user_id :: "nat option"
  pu_endpoint :: string
  pu_p256dh :: string
  pu_auth :: string
  pu_created_at :: int

record rule_row =
  ru_id :: nat
  ru_user_id :: "nat option"
  ru_enabled :: bool
  ru_priority :: int
  ru_op_type :: "string option"
  ru_sender_pattern :: "string option"
  ru_folder_from :: "string option"
  ru_action :: string
  ru_description :: string
  ru_created_at :: int

section \<open>The database\<close>

record db =
  db_folders :: "folder_row list"
  db_messages :: "message_row list"
  db_ops :: "op_row list"
  db_audit :: "audit_row list"
  db_users :: "user_row list"
  db_agents :: "agent_row list"
  db_reverts :: "revert_row list"
  db_invites :: "invite_row list"
  db_push :: "push_row list"
  db_rules :: "rule_row list"
  db_folder_seq :: nat
  db_audit_seq :: nat
  db_user_seq :: nat
  db_agent_seq :: nat
  db_revert_seq :: nat
  db_invite_seq :: nat
  db_push_seq :: nat

definition empty_db :: db where
  "empty_db =
     \<lparr>db_folders = [], db_messages = [], db_ops = [], db_audit = [], db_users = [], db_agents = [],
      db_reverts = [], db_invites = [], db_push = [], db_rules = [], db_folder_seq = 0,
      db_audit_seq = 0, db_user_seq = 0, db_agent_seq = 0, db_revert_seq = 0, db_invite_seq = 0,
      db_push_seq = 0\<rparr>"

section \<open>Queries and updates on a table\<close>

text \<open>\<open>UPDATE t SET f WHERE P\<close> and its row count; \<open>SELECT ... WHERE P\<close> and its first row.\<close>

definition upd :: "('r \<Rightarrow> bool) \<Rightarrow> ('r \<Rightarrow> 'r) \<Rightarrow> 'r list \<Rightarrow> 'r list" where
  "upd P f rows = map (\<lambda>r. if P r then f r else r) rows"

definition rowcount :: "('r \<Rightarrow> bool) \<Rightarrow> 'r list \<Rightarrow> nat" where
  "rowcount P rows = length (filter P rows)"

lemma upd_simps [simp]:
  "upd P f [] = []"
  "upd P f (r # rows) = (if P r then f r else r) # upd P f rows"
  "length (upd P f rows) = length rows"
  "upd P f (rows @ rows') = upd P f rows @ upd P f rows'"
  by (simp_all add: upd_def)

lemma set_upd: "set (upd P f rows) = (\<lambda>r. if P r then f r else r) ` set rows"
  by (auto simp: upd_def)

lemma map_upd_key:
  "(\<And>r. P r \<Longrightarrow> k (f r) = k r) \<Longrightarrow> map k (upd P f rows) = map k rows"
  by (simp add: upd_def)

lemma find_upd_key:
  assumes "\<And>r. Q (if P r then f r else r) = Q r"
  shows "List.find Q (upd P f rows) = map_option (\<lambda>r. if P r then f r else r) (List.find Q rows)"
  by (induction rows) (simp_all add: assms)

lemma filter_upd_key:
  assumes "\<And>r. Q (if P r then f r else r) = Q r"
  shows "filter Q (upd P f rows) = upd P f (filter Q rows)"
  by (induction rows) (simp_all add: assms)

lemma upd_none: "\<forall>r \<in> set rows. \<not> P r \<Longrightarrow> upd P f rows = rows"
  by (induction rows) auto

lemma find_append: "List.find P (xs @ ys) = (case List.find P xs of Some x \<Rightarrow> Some x | None \<Rightarrow> List.find P ys)"
  by (induction xs) auto

lemma find_Some_in: "List.find P xs = Some x \<Longrightarrow> x \<in> set xs \<and> P x"
  by (induction xs) (auto split: if_splits)

lemma find_None_all: "List.find P xs = None \<longleftrightarrow> (\<forall>x \<in> set xs. \<not> P x)"
  by (induction xs) auto

text \<open>A table with a key holds at most one row per key.\<close>

lemma find_distinct_key:
  assumes "distinct (map k rows)" "r \<in> set rows"
  shows "List.find (\<lambda>x. k x = k r) rows = Some r"
  using assms by (induction rows) (auto simp: image_iff)

lemma filter_distinct_key:
  assumes "distinct (map k rows)" "r \<in> set rows"
  shows "filter (\<lambda>x. k x = k r) rows = [r]"
  using assms
proof (induction rows)
  case (Cons a rows)
  then show ?case
    by (cases "a = r") (auto simp: filter_empty_conv image_iff)
qed simp

section \<open>A sample account\<close>

text \<open>One account with one live agent; the concrete instances of the development start from it.\<close>

definition sample_user :: user_row where
  "sample_user =
     \<lparr>us_id = 1, us_email = ''a@b.example'', us_display_name = None, us_hashed_password = ''h'',
      us_api_token = Some ''th'', us_api_token_created_at = Some 0, us_api_token_last_used_at = None,
      us_reset_token = None, us_reset_token_expires_at = None, us_created_at = 0,
      us_deleted_at = None, us_suspended_at = None\<rparr>"

definition sample_agent :: agent_row where
  "sample_agent =
     \<lparr>ag_id = 1, ag_user_id = 1, ag_label = ''bot'', ag_agent_username = ''nuvrail_1a'',
      ag_hashed_token = ''t0k'', ag_upstream_host = ''imap.b.example'', ag_upstream_smtp_host = None,
      ag_upstream_imap_port = 993, ag_upstream_smtp_port = 465, ag_upstream_user = ''a@b.example'',
      ag_upstream_password = Some ''pw'', ag_oauth2_provider = None, ag_oauth2_refresh_token = None,
      ag_oauth2_client_id = None, ag_oauth2_client_secret = None,
      ag_oauth2_access_token = None, ag_oauth2_access_token_expires_at = None, ag_sent_folder = None,
      ag_created_at = 0, ag_revoked_at = None\<rparr>"

definition sample_auth_db :: db where
  "sample_auth_db = empty_db\<lparr>db_users := [sample_user], db_agents := [sample_agent]\<rparr>"

end
