(* ===== verification/Interfaces.thy ===== *)
theory Interfaces
  imports Main "HOL-Library.Sublist"
begin

text \<open>
  The contracts between the components, as locales: a store whose proposed changes can be taken
  back, a table whose rows are claimed at most once, and an append-only hash-chained log.  Each is
  interpreted on the model's own definitions in the theory that provides them.
\<close>

section \<open>Revertible proposals\<close>

text \<open>
  A store of observable view \<open>view\<close> in which a change is proposed under a snapshot of the keys it
  touches; restoring the snapshot undoes the change as far as the view can tell.
\<close>

locale revertible =
  fixes snap :: "'k \<Rightarrow> 's \<Rightarrow> 'snap"
    and change :: "'c \<Rightarrow> 'k \<Rightarrow> 's \<Rightarrow> 's"
    and restore :: "'snap \<Rightarrow> 's \<Rightarrow> 's"
    and view :: "'s \<Rightarrow> 'v"
    and inv :: "'s \<Rightarrow> bool"
  assumes restore_change: "inv s \<Longrightarrow> view (restore (snap k s) (change c k s)) = view s"
    and restore_cong: "inv s \<Longrightarrow> inv t \<Longrightarrow> view s = view t \<Longrightarrow> view (restore z s) = view (restore z t)"
    and inv_change: "inv s \<Longrightarrow> inv (change c k s)"
    and inv_restore: "inv s \<Longrightarrow> inv (restore z s)"
begin

text \<open>Proposals staged one after the other, each with the snapshot taken just before it.\<close>

fun stage_all :: "('c \<times> 'k) list \<Rightarrow> 's \<Rightarrow> 'snap list \<times> 's" where
  "stage_all [] s = ([], s)"
| "stage_all ((c, k) # ps) s =
     (let (zs, t) = stage_all ps (change c k s) in (snap k s # zs, t))"

fun restore_all :: "'snap list \<Rightarrow> 's \<Rightarrow> 's" where
  "restore_all [] s = s"
| "restore_all (z # zs) s = restore z (restore_all zs s)"

lemma inv_restore_all: "inv s \<Longrightarrow> inv (restore_all zs s)"
  by (induction zs) (auto intro: inv_restore)

lemma inv_stage_all: "inv s \<Longrightarrow> inv (snd (stage_all ps s))"
proof (induction ps arbitrary: s)
  case (Cons p ps)
  then show ?case using inv_change by (cases p) (auto simp: Let_def split: prod.splits, metis snd_conv)
qed simp

text \<open>Rejecting every proposal, the latest first, brings the view back.\<close>

lemma restore_all_staged:
  "inv s \<Longrightarrow> view (restore_all (fst (stage_all ps s)) (snd (stage_all ps s))) = view s"
proof (induction ps arbitrary: s)
  case (Cons p ps)
  obtain c k where p: "p = (c, k)" by fastforce
  obtain zs t where st: "stage_all ps (change c k s) = (zs, t)" by fastforce
  have ch: "inv (change c k s)" using Cons.prems by (rule inv_change)
  have t: "inv t" using inv_stage_all [OF ch, of ps] st by simp
  have "view (restore_all zs t) = view (change c k s)" using Cons.IH [OF ch] st by simp
  then have "view (restore (snap k s) (restore_all zs t)) = view (restore (snap k s) (change c k s))"
    using restore_cong inv_restore_all [OF t] ch by blast
  then show ?case using p st restore_change [OF Cons.prems] by simp
qed simp

end

section \<open>Claiming a row\<close>

text \<open>
  A guarded update: \<open>claim k x s\<close> succeeds only on a key that is not spent, and spends it.  A spent
  key stays spent under every operation of the table.
\<close>

locale claimable =
  fixes spent :: "'k \<Rightarrow> 's \<Rightarrow> bool"
    and claim :: "'k \<Rightarrow> 'c \<Rightarrow> 's \<Rightarrow> bool \<times> 's"
    and other :: "'o \<Rightarrow> 's \<Rightarrow> 's"
    and inv :: "'s \<Rightarrow> bool"
  assumes claim_fresh: "inv s \<Longrightarrow> fst (claim k x s) \<Longrightarrow> \<not> spent k s"
    and claim_spends: "inv s \<Longrightarrow> fst (claim k x s) \<Longrightarrow> spent k (snd (claim k x s))"
    and claim_keeps: "inv s \<Longrightarrow> spent k s \<Longrightarrow> spent k (snd (claim j x s))"
    and other_keeps: "inv s \<Longrightarrow> spent k s \<Longrightarrow> spent k (other y s)"
    and inv_claim: "inv s \<Longrightarrow> inv (snd (claim k x s))"
    and inv_other: "inv s \<Longrightarrow> inv (other y s)"
begin

text \<open>How many claims of a key succeed in a sequence of claims (left) and other operations (right).\<close>

fun wins :: "'k \<Rightarrow> ('k \<times> 'c + 'o) list \<Rightarrow> 's \<Rightarrow> nat" where
  "wins k [] s = 0"
| "wins k (Inl (j, x) # es) s =
     (if j = k \<and> fst (claim j x s) then 1 else 0) + wins k es (snd (claim j x s))"
| "wins k (Inr y # es) s = wins k es (other y s)"

lemma wins_spent: "inv s \<Longrightarrow> spent k s \<Longrightarrow> wins k es s = 0"
proof (induction k es s rule: wins.induct)
  case (2 k j x es s)
  then show ?case using claim_fresh claim_keeps inv_claim by auto
next
  case (3 k y es s)
  then show ?case using other_keeps inv_other by auto
qed simp

lemma wins_at_most_once: "inv s \<Longrightarrow> wins k es s \<le> 1"
proof (induction k es s rule: wins.induct)
  case (2 k j x es s)
  show ?case
  proof (cases "j = k \<and> fst (claim j x s)")
    case True
    then have "wins k es (snd (claim j x s)) = 0"
      using 2 claim_spends inv_claim by (intro wins_spent) auto
    then show ?thesis by simp
  next
    case False
    then show ?thesis using 2 inv_claim by auto
  qed
next
  case (3 k y es s)
  then show ?case using inv_other by simp
qed simp

end

section \<open>Hash chains\<close>

text \<open>
  A log whose entries carry the hash of their own payload and the hash of the entry before.  The
  payload determines the previous hash (for hashes of the good form, which the hash function
  produces).
\<close>

locale hash_chain =
  fixes H :: "'p \<Rightarrow> 'h"
    and payload :: "'h \<Rightarrow> 'e \<Rightarrow> 'p"
    and good :: "'h \<Rightarrow> bool"
  assumes good_H: "good (H p)"
    and payload_prev: "good h \<Longrightarrow> good h' \<Longrightarrow> payload h e = payload h' e' \<Longrightarrow> h = h'"
begin

fun linked :: "'h \<Rightarrow> ('h \<times> 'e \<times> 'h) list \<Rightarrow> bool" where
  "linked h [] = True"
| "linked h ((p, e, x) # ls) \<longleftrightarrow> p = h \<and> x = H (payload p e) \<and> linked x ls"

definition payloads :: "('h \<times> 'e \<times> 'h) list \<Rightarrow> 'p list" where
  "payloads ls = map (\<lambda>(p, e, x). payload p e) ls"

definition head :: "'h \<Rightarrow> ('h \<times> 'e \<times> 'h) list \<Rightarrow> 'h" where
  "head h ls = (if ls = [] then h else snd (snd (last ls)))"

definition colliding :: "'p list \<Rightarrow> 'p list \<Rightarrow> bool" where
  "colliding xs ys \<longleftrightarrow> (\<exists>x \<in> set xs. \<exists>y \<in> set ys. x \<noteq> y \<and> H x = H y)"

lemma payloads_simps [simp]:
  "payloads [] = []"
  "payloads ((p, e, x) # ls) = payload p e # payloads ls"
  "payloads (ls @ ms) = payloads ls @ payloads ms"
  by (simp_all add: payloads_def)

lemma head_simps [simp]:
  "head h [] = h"
  "head h (ls @ [l]) = snd (snd l)"
  by (simp_all add: head_def)

lemma linked_append: "linked h (ls @ ms) \<longleftrightarrow> linked h ls \<and> linked (head h ls) ms"
proof (induction ls arbitrary: h)
  case (Cons l ls)
  then show ?case by (cases l; cases ls) (auto simp: head_def)
qed simp

lemma linked_prefix: "linked h ls \<Longrightarrow> prefix ms ls \<Longrightarrow> linked h ms"
  by (auto simp: prefix_def linked_append)

lemma good_head: "linked h ls \<Longrightarrow> good h \<Longrightarrow> good (head h ls)"
  by (induction ls rule: rev_induct) (auto simp: linked_append good_H)

lemma linked_entry:
  "linked h ls \<Longrightarrow> good h \<Longrightarrow> (p, e, x) \<in> set ls \<Longrightarrow> x = H (payload p e) \<and> good p"
proof (induction ls arbitrary: h)
  case (Cons l ls)
  obtain p' e' x' where l: "l = (p', e', x')" by (cases l)
  then have "good x'" using Cons.prems(1) good_H by auto
  then show ?case using Cons l by auto
qed simp

lemma linked_suffix:
  "linked h (ls @ ms) \<Longrightarrow> ms \<noteq> [] \<Longrightarrow> linked (fst (hd ms)) ms"
  by (cases ms) (auto simp: linked_append)

lemma colliding_mono:
  "colliding xs ys \<Longrightarrow> set xs \<subseteq> set xs' \<Longrightarrow> set ys \<subseteq> set ys' \<Longrightarrow> colliding xs' ys'"
  by (auto simp: colliding_def)

text \<open>Two logs with the same head agree backwards from it, unless two payloads collide.\<close>

lemma same_head_agree:
  assumes "linked h ls" "linked h' ls'" "good h" "good h'" "ls \<noteq> []" "ls' \<noteq> []"
    and "head h ls = head h' ls'"
  shows "colliding (payloads ls) (payloads ls') \<or> suffix (payloads ls) (payloads ls')
    \<or> suffix (payloads ls') (payloads ls)"
  using assms
proof (induction ls arbitrary: ls' rule: rev_induct)
  case (snoc l ls)
  obtain p e x where l: "l = (p, e, x)" by (cases l)
  obtain ms p' e' x' where ls': "ls' = ms @ [(p', e', x')]"
    using snoc.prems(6) by (metis prod_cases3 rev_exhaust)
  have eqs: "p = head h ls" "x = H (payload p e)" "p' = head h' ms" "x' = H (payload p' e')" "x = x'"
    using snoc.prems(1,2,7) l ls' by (auto simp: linked_append)
  have lk: "linked h ls" "linked h' ms" using snoc.prems(1,2) ls' by (auto simp: linked_append)
  show ?case
  proof (cases "payload p e = payload p' e'")
    case False
    then have "colliding [payload p e] [payload p' e']" using eqs by (simp add: colliding_def)
    then have "colliding (payloads (ls @ [l])) (payloads ls')"
      by (rule colliding_mono) (auto simp: l ls')
    then show ?thesis ..
  next
    case True
    have "good p" "good p'" using eqs lk snoc.prems(3,4) by (simp_all add: good_head)
    then have pp: "p = p'" using True by (rule payload_prev)
    show ?thesis
    proof (cases "ls = [] \<or> ms = []")
      case True
      then show ?thesis
        using \<open>payload p e = payload p' e'\<close> by (auto simp: l ls' suffix_def)
    next
      case False
      then have "colliding (payloads ls) (payloads ms) \<or> suffix (payloads ls) (payloads ms)
          \<or> suffix (payloads ms) (payloads ls)"
        using snoc.IH [OF lk] snoc.prems(3,4) pp eqs by auto
      then show ?thesis
      proof (elim disjE)
        assume "colliding (payloads ls) (payloads ms)"
        then have "colliding (payloads (ls @ [l])) (payloads ls')"
          by (rule colliding_mono) (auto simp: ls')
        then show ?thesis ..
      qed (use True in \<open>auto simp: l ls' suffix_def\<close>)
    qed
  qed
qed simp

end

section \<open>Rolling-window limits\<close>

text \<open>
  A log in which admitted events are recorded with their cost, and a gate that admits a costly
  event only when the cost already logged within the window leaves room for it.
\<close>

locale window_limit =
  fixes count :: "'log \<Rightarrow> int \<Rightarrow> nat"
    and put :: "'ev \<Rightarrow> 'log \<Rightarrow> 'log"
    and admit :: "'ev \<Rightarrow> 'log \<Rightarrow> bool"
    and ev_time :: "'ev \<Rightarrow> int"
    and cost :: "'ev \<Rightarrow> 'log \<Rightarrow> nat"
    and cap :: nat
    and window :: int
  assumes admit_bound:
      "0 < cap \<Longrightarrow> admit e l \<Longrightarrow> cost e l > 0 \<Longrightarrow> count l (ev_time e - window) + cost e l \<le> cap"
    and count_put: "count (put e l) s \<le> count l s + cost e l"
    and count_antimono: "s \<le> s' \<Longrightarrow> count l s' \<le> count l s"
begin

fun run :: "'ev list \<Rightarrow> 'log \<Rightarrow> 'log" where
  "run [] l = l"
| "run (e # es) l = run es (if admit e l then put e l else l)"

lemma step_bound:
  assumes "0 < cap" "count l (t0 - window) \<le> cap" "t0 \<le> ev_time e" "ev_time e \<le> t"
  shows "count (if admit e l then put e l else l) (t - window) \<le> cap"
proof (cases "admit e l \<and> cost e l > 0")
  case True
  have "count (put e l) (t - window) \<le> count l (t - window) + cost e l" by (rule count_put)
  also have "\<dots> \<le> count l (ev_time e - window) + cost e l"
    using count_antimono [of "ev_time e - window" "t - window" l] assms(4) by simp
  also have "\<dots> \<le> cap" using True admit_bound assms(1) by blast
  finally show ?thesis using True by simp
next
  case False
  have "count l (t - window) \<le> cap"
    using count_antimono [of "t0 - window" "t - window" l] assms by simp
  then show ?thesis using False count_put [of e l "t - window"] by auto
qed

text \<open>However the events are spread, the window never holds more than the cap.\<close>

lemma run_bound:
  "0 < cap \<Longrightarrow> sorted (t0 # map ev_time es @ [t]) \<Longrightarrow> count l (t0 - window) \<le> cap \<Longrightarrow>
     count (run es l) (t - window) \<le> cap"
proof (induction es arbitrary: t0 l)
  case Nil
  then show ?case using count_antimono [of "t0 - window" "t - window" l] by simp
next
  case (Cons e es)
  have "count (if admit e l then put e l else l) (ev_time e - window) \<le> cap"
    by (rule step_bound [OF Cons.prems(1,3)]) (use Cons.prems(2) in auto)
  then show ?case using Cons.IH [of "ev_time e"] Cons.prems(1,2) by simp
qed

end

end
