(* ===== verification/State_Db.thy ===== *)
theory State_Db
  imports Db_Schema
begin

text \<open>
  The mailbox mirror (\<open>gateway/state_db.py\<close>): tenant-scoped folders, messages addressed by UID
  sets, snapshots with their optimistic updates and reverts, the pending reverts, and the
  single-use invite codes.  Every function is one transaction on the database; \<open>now\<close> is
  \<open>int(time.time())\<close>.
\<close>

section \<open>Folders\<close>

definition is_folder :: "nat option \<Rightarrow> string \<Rightarrow> folder_row \<Rightarrow> bool" where
  "is_folder user_id name f \<longleftrightarrow> fo_user_id f = user_id \<and> fo_name f = name"

definition new_folder :: "nat \<Rightarrow> nat option \<Rightarrow> string \<Rightarrow> int \<Rightarrow> folder_row" where
  "new_folder i user_id name now =
     \<lparr>fo_id = i, fo_user_id = user_id, fo_name = name, fo_uidvalidity = None, fo_uidnext = None,
      fo_exists_count = None, fo_recent_count = None, fo_unseen_count = None,
      fo_last_synced = now, fo_special_use = None\<rparr>"

definition get_or_create_folder :: "string \<Rightarrow> nat option \<Rightarrow> int \<Rightarrow> db \<Rightarrow> nat \<times> db" where
  "get_or_create_folder name user_id now d =
     (case List.find (is_folder user_id name) (db_folders d) of
        Some f \<Rightarrow> (fo_id f, d)
      | None \<Rightarrow>
          let i = Suc (db_folder_seq d)
          in (i, d\<lparr>db_folders := db_folders d @ [new_folder i user_id name now],
                   db_folder_seq := i\<rparr>))"

definition set_opt :: "'a option \<Rightarrow> 'a option \<Rightarrow> 'a option" where
  "set_opt v old = (case v of None \<Rightarrow> old | Some _ \<Rightarrow> v)"

definition update_folder_stats ::
  "string \<Rightarrow> nat option \<Rightarrow> nat option \<Rightarrow> nat option \<Rightarrow> nat option \<Rightarrow> nat option \<Rightarrow> nat option
     \<Rightarrow> int \<Rightarrow> db \<Rightarrow> nat \<times> db" where
  "update_folder_stats name user_id ex rec uidv uidn uns now d =
     (let (i, d1) = get_or_create_folder name user_id now d
      in (i, d1\<lparr>db_folders := upd (\<lambda>f. fo_id f = i)
                (\<lambda>f. f\<lparr>fo_last_synced := now,
                       fo_exists_count := set_opt ex (fo_exists_count f),
                       fo_recent_count := set_opt rec (fo_recent_count f),
                       fo_uidvalidity := set_opt uidv (fo_uidvalidity f),
                       fo_uidnext := set_opt uidn (fo_uidnext f),
                       fo_unseen_count := set_opt uns (fo_unseen_count f)\<rparr>)
                (db_folders d1)\<rparr>))"

fun upsert_folders_from_list ::
  "string list \<Rightarrow> nat option \<Rightarrow> (string \<rightharpoonup> string) \<Rightarrow> int \<Rightarrow> db \<Rightarrow> db" where
  "upsert_folders_from_list [] user_id special_use now d = d"
| "upsert_folders_from_list (name # names) user_id special_use now d =
     (let (i, d1) = get_or_create_folder name user_id now d;
          d2 = (case special_use name of
                  Some role \<Rightarrow>
                    if role \<noteq> [] then
                      d1\<lparr>db_folders := upd (\<lambda>f. fo_id f = i) (\<lambda>f. f\<lparr>fo_special_use := Some role\<rparr>)
                                         (db_folders d1)\<rparr>
                    else d1
                | None \<Rightarrow> d1)
      in upsert_folders_from_list names user_id special_use now d2)"

text \<open>Built in row order: a later row with the same lower-cased name wins.\<close>

definition get_special_use_folders :: "nat option \<Rightarrow> db \<Rightarrow> (string \<rightharpoonup> string)" where
  "get_special_use_folders user_id d =
     foldl (\<lambda>m f. case fo_special_use f of
                    Some role \<Rightarrow> if fo_user_id f = user_id then m(py_lower (fo_name f) \<mapsto> role) else m
                  | None \<Rightarrow> m)
       Map.empty (db_folders d)"

text \<open>\<open>ORDER BY name LIMIT 1\<close> under SQLite's byte-wise collation.\<close>

fun str_less_eq :: "string \<Rightarrow> string \<Rightarrow> bool" where
  "str_less_eq [] t = True"
| "str_less_eq (c # s) [] = False"
| "str_less_eq (c # s) (e # t) =
     (code_pt c < code_pt e \<or> (code_pt c = code_pt e \<and> str_less_eq s t))"

fun least_name :: "string list \<Rightarrow> string option" where
  "least_name [] = None"
| "least_name (n # ns) =
     (case least_name ns of None \<Rightarrow> Some n | Some m \<Rightarrow> Some (if str_less_eq n m then n else m))"

definition get_trash_folder :: "nat option \<Rightarrow> db \<Rightarrow> string option" where
  "get_trash_folder user_id d =
     least_name (map fo_name (filter (\<lambda>f. fo_user_id f = user_id \<and> fo_special_use f = Some ''trash'')
                                (db_folders d)))"

section \<open>Messages\<close>

definition at_uid :: "nat \<Rightarrow> int \<Rightarrow> message_row \<Rightarrow> bool" where
  "at_uid folder_id uid m \<longleftrightarrow> me_folder_id m = folder_id \<and> me_uid m = uid"

definition upsert_message ::
  "nat \<Rightarrow> int \<Rightarrow> nat option \<Rightarrow> string list option \<Rightarrow> string option \<Rightarrow> string option \<Rightarrow> int option
     \<Rightarrow> nat option \<Rightarrow> string option \<Rightarrow> int \<Rightarrow> db \<Rightarrow> db" where
  "upsert_message folder_id uid seq_num flags subject sender date_sent msg_size message_id now d =
     (if List.find (at_uid folder_id uid) (db_messages d) = None then
        d\<lparr>db_messages := db_messages d @
            [\<lparr>me_folder_id = folder_id, me_uid = uid, me_sequence_num = seq_num,
              me_message_id = message_id, me_subject = subject, me_sender = sender,
              me_date_sent = date_sent, me_size = msg_size,
              me_flags = (case flags of Some fs \<Rightarrow> fs | None \<Rightarrow> []),
              me_last_updated = now\<rparr>]\<rparr>
      else
        d\<lparr>db_messages := upd (at_uid folder_id uid)
            (\<lambda>m. m\<lparr>me_last_updated := now,
                   me_sequence_num := set_opt seq_num (me_sequence_num m),
                   me_flags := (case flags of Some fs \<Rightarrow> fs | None \<Rightarrow> me_flags m),
                   me_subject := set_opt subject (me_subject m),
                   me_sender := set_opt sender (me_sender m),
                   me_date_sent := set_opt date_sent (me_date_sent m),
                   me_size := set_opt msg_size (me_size m),
                   me_message_id := set_opt message_id (me_message_id m)\<rparr>)
            (db_messages d)\<rparr>)"

definition get_message :: "nat \<Rightarrow> int \<Rightarrow> db \<Rightarrow> message_row option" where
  "get_message folder_id uid d = List.find (at_uid folder_id uid) (db_messages d)"

text \<open>
  \<open>find_message_by_message_id\<close>: the stored id may or may not carry its angle brackets; the most
  recently updated row of the tenant wins (the earliest of equals, in row order).
\<close>

fun newest :: "message_row list \<Rightarrow> message_row option" where
  "newest [] = None"
| "newest (m # ms) =
     (case newest ms of
        None \<Rightarrow> Some m
      | Some n \<Rightarrow> Some (if me_last_updated m \<ge> me_last_updated n then m else n))"

definition folder_owner :: "db \<Rightarrow> nat \<Rightarrow> nat option option" where
  "folder_owner d i = map_option fo_user_id (List.find (\<lambda>f. fo_id f = i) (db_folders d))"

definition find_message_by_message_id :: "string \<Rightarrow> nat option \<Rightarrow> db \<Rightarrow> message_row option" where
  "find_message_by_message_id message_id user_id d =
     (let bare = strip_if (\<lambda>c. c = CHR ''<'' \<or> c = CHR ''>'') (py_strip message_id)
      in if message_id = [] \<or> bare = [] then None
         else newest (filter (\<lambda>m. folder_owner d (me_folder_id m) = Some user_id
                 \<and> (me_message_id m = Some bare \<or> me_message_id m = Some (CHR ''<'' # bare @ ''>'')))
               (db_messages d)))"

section \<open>UID sets\<close>

text \<open>\<open>int(s)\<close>: surrounding white space, a sign, digits with single underscores between them.\<close>

definition py_int :: "string \<Rightarrow> int option" where
  "py_int s =
     (let t = py_strip s;
          neg = (t \<noteq> [] \<and> hd t = CHR ''-'');
          body = (if t \<noteq> [] \<and> (hd t = CHR ''-'' \<or> hd t = CHR ''+'') then tl t else t);
          parts = py_split_on (CHR ''_'') body
      in if list_all py_isdigit parts
         then Some (if neg then - int (nat_of_str (concat parts)) else int (nat_of_str (concat parts)))
         else None)"

definition uid_bound :: "int \<Rightarrow> string \<Rightarrow> int option" where
  "uid_bound max_uid s = (if s = ''*'' then Some max_uid else py_int s)"

definition split_colon :: "string \<Rightarrow> (string \<times> string) option" where
  "split_colon s =
     (case dropWhile (\<lambda>c. c \<noteq> CHR '':'') s of
        [] \<Rightarrow> None
      | _ # r \<Rightarrow> Some (takeWhile (\<lambda>c. c \<noteq> CHR '':'') s, r))"

text \<open>The UIDs one part of a set selects; \<open>None\<close> where \<open>int()\<close> raises.\<close>

definition expand_part :: "int list \<Rightarrow> string \<Rightarrow> int list option" where
  "expand_part known p =
     (let part = py_strip p; max_uid = Max (set known)
      in case split_colon part of
           Some (low_str, high_str) \<Rightarrow>
             (case (uid_bound max_uid low_str, uid_bound max_uid high_str) of
                (Some low, Some high) \<Rightarrow>
                  Some (filter (\<lambda>u. min low high \<le> u \<and> u \<le> max low high) known)
              | _ \<Rightarrow> None)
         | None \<Rightarrow>
             (if part = ''*'' then Some [max_uid]
              else (case py_int part of
                      Some uid \<Rightarrow> Some (filter (\<lambda>u. u = uid) known)
                    | None \<Rightarrow> None)))"

definition those_parts :: "int list \<Rightarrow> string \<Rightarrow> int list list option" where
  "those_parts known s = those (map (expand_part known) (py_split_on (CHR '','') s))"

definition expand_uid_set :: "string \<Rightarrow> int list \<Rightarrow> int list option" where
  "expand_uid_set s known =
     (if known = [] then Some []
      else map_option (\<lambda>ps. sort (remdups (concat ps))) (those_parts known s))"

definition folder_uids :: "nat \<Rightarrow> db \<Rightarrow> int list" where
  "folder_uids folder_id d = sort (map me_uid (filter (\<lambda>m. me_folder_id m = folder_id) (db_messages d)))"

definition get_messages_by_uid_set :: "nat \<Rightarrow> string \<Rightarrow> db \<Rightarrow> message_row list option" where
  "get_messages_by_uid_set folder_id s d =
     map_option
       (\<lambda>uids. sort_key me_uid
          (filter (\<lambda>m. me_folder_id m = folder_id \<and> me_uid m \<in> set uids) (db_messages d)))
       (expand_uid_set s (folder_uids folder_id d))"

section \<open>Snapshots and optimistic updates\<close>

definition remove_messages_from_folder :: "nat \<Rightarrow> string \<Rightarrow> db \<Rightarrow> db option" where
  "remove_messages_from_folder folder_id s d =
     map_option
       (\<lambda>rows. d\<lparr>db_messages := filter (\<lambda>m. \<not> (me_folder_id m = folder_id \<and> me_uid m \<in> set (map me_uid rows)))
                 (db_messages d)\<rparr>)
       (get_messages_by_uid_set folder_id s d)"

definition snap_of :: "message_row \<Rightarrow> snap_entry" where
  "snap_of m =
     \<lparr>se_uid = me_uid m, se_flags = me_flags m, se_seq_num = me_sequence_num m,
      se_folder_id = me_folder_id m, se_sender = me_sender m, se_subject = me_subject m,
      se_bad_key = None\<rparr>"

definition snapshot_messages :: "nat \<Rightarrow> string \<Rightarrow> db \<Rightarrow> snap_entry list option" where
  "snapshot_messages folder_id s d =
     map_option (map snap_of) (get_messages_by_uid_set folder_id s d)"

fun insert_str :: "string \<Rightarrow> string list \<Rightarrow> string list" where
  "insert_str s [] = [s]"
| "insert_str s (t # ts) = (if s = t then t # ts else if str_less_eq s t then s # t # ts else t # insert_str s ts)"

definition sorted_strs :: "string list \<Rightarrow> string list" where
  "sorted_strs xs = foldr insert_str xs []"

definition merge_flags :: "string list \<Rightarrow> string list \<Rightarrow> string list \<Rightarrow> string list" where
  "merge_flags flags_add flags_remove flags =
     sorted_strs (filter (\<lambda>f. f \<notin> set flags_remove) (flags @ flags_add))"

definition apply_optimistic_flag_update ::
  "nat \<Rightarrow> string \<Rightarrow> string list \<Rightarrow> string list \<Rightarrow> int \<Rightarrow> db \<Rightarrow> db option" where
  "apply_optimistic_flag_update folder_id s flags_add flags_remove now d =
     map_option
       (\<lambda>rows. d\<lparr>db_messages := upd (\<lambda>m. me_folder_id m = folder_id \<and> me_uid m \<in> set (map me_uid rows))
                 (\<lambda>m. m\<lparr>me_flags := merge_flags flags_add flags_remove (me_flags m),
                        me_last_updated := now\<rparr>)
                 (db_messages d)\<rparr>)
       (get_messages_by_uid_set folder_id s d)"

section \<open>Reverting a proposal\<close>

definition has_op :: "string \<Rightarrow> op_row \<Rightarrow> bool" where
  "has_op i r \<longleftrightarrow> op_id r = i"

definition find_op :: "string \<Rightarrow> db \<Rightarrow> op_row option" where
  "find_op i d = List.find (has_op i) (db_ops d)"

definition restore_message :: "int \<Rightarrow> snap_entry \<Rightarrow> message_row list \<Rightarrow> message_row list" where
  "restore_message now e ms =
     (if List.find (at_uid (se_folder_id e) (se_uid e)) ms \<noteq> None then
        upd (at_uid (se_folder_id e) (se_uid e))
          (\<lambda>m. m\<lparr>me_flags := se_flags e, me_last_updated := now\<rparr>) ms
      else
        ms @ [\<lparr>me_folder_id = se_folder_id e, me_uid = se_uid e, me_sequence_num = se_seq_num e,
               me_message_id = None, me_subject = se_subject e, me_sender = se_sender e,
               me_date_sent = None, me_size = None, me_flags = se_flags e, me_last_updated = now\<rparr>])"

definition restore_entries :: "int \<Rightarrow> snap_entry list \<Rightarrow> message_row list \<Rightarrow> message_row list" where
  "restore_entries now es ms = foldl (\<lambda>ms e. restore_message now e ms) ms es"

record revert =
  re_operation_id :: string
  re_folder_id :: nat
  re_uid :: int
  re_true_flags :: "string list"

definition revert_of :: "string \<Rightarrow> snap_entry \<Rightarrow> revert" where
  "revert_of i e =
     \<lparr>re_operation_id = i, re_folder_id = se_folder_id e, re_uid = se_uid e, re_true_flags = se_flags e\<rparr>"

text \<open>A key that is no integer raises; the transaction is not committed and every caller goes on as
  if nothing had been stored.\<close>

definition restore_from_snapshot :: "string \<Rightarrow> int \<Rightarrow> db \<Rightarrow> revert list \<times> db" where
  "restore_from_snapshot i now d =
     (case find_op i d of
        None \<Rightarrow> ([], d)
      | Some r \<Rightarrow>
          (case op_snapshot r of
             None \<Rightarrow> ([], d)
           | Some es \<Rightarrow>
               if list_ex (\<lambda>e. se_bad_key e \<noteq> None) es then ([], d)
               else (map (revert_of i) es, d\<lparr>db_messages := restore_entries now es (db_messages d)\<rparr>)))"

fun insert_pending_reverts :: "revert list \<Rightarrow> int \<Rightarrow> db \<Rightarrow> db" where
  "insert_pending_reverts [] now d = d"
| "insert_pending_reverts (r # rs) now d =
     (let i = Suc (db_revert_seq d)
      in insert_pending_reverts rs now
           (d\<lparr>db_reverts := db_reverts d @
                [\<lparr>rv_id = i, rv_operation_id = re_operation_id r, rv_folder_id = re_folder_id r,
                  rv_uid = re_uid r, rv_true_flags = re_true_flags r, rv_created_at = now,
                  rv_delivered_at = None\<rparr>],
              db_revert_seq := i\<rparr>))"

definition get_pending_reverts :: "nat \<Rightarrow> db \<Rightarrow> revert_row list" where
  "get_pending_reverts folder_id d =
     sort_key rv_created_at
       (filter (\<lambda>r. rv_folder_id r = folder_id \<and> rv_delivered_at r = None) (db_reverts d))"

definition mark_reverts_delivered :: "nat list \<Rightarrow> int \<Rightarrow> db \<Rightarrow> db" where
  "mark_reverts_delivered ids now d =
     d\<lparr>db_reverts := upd (\<lambda>r. rv_id r \<in> set ids) (\<lambda>r. r\<lparr>rv_delivered_at := Some now\<rparr>) (db_reverts d)\<rparr>"

section \<open>What an agent's pending operations hide or change\<close>

text \<open>The UIDs of a stored \<open>message_ids\<close> entry that the pending-move filter recognises.\<close>

definition digits_range :: "string \<Rightarrow> (int \<times> int) option" where
  "digits_range s =
     (case py_split_on (CHR '':'') s of
        [lo, hi] \<Rightarrow> if py_isdigit lo \<and> py_isdigit hi
                     then Some (int (nat_of_str lo), int (nat_of_str hi)) else None
      | _ \<Rightarrow> None)"

definition entry_has_uid :: "int \<Rightarrow> string \<Rightarrow> bool" where
  "entry_has_uid uid entry =
     (let s = py_strip entry
      in if py_isdigit s then int (nat_of_str s) = uid
         else case digits_range s of Some (lo, hi) \<Rightarrow> lo \<le> uid \<and> uid \<le> hi | None \<Rightarrow> False)"

definition FLAG_OP_TYPES :: "string list" where
  "FLAG_OP_TYPES = [''store'', ''trash'', ''mark_read'', ''mark_unread'', ''flag'', ''unflag'']"

definition pending_of_agent :: "string \<Rightarrow> nat option \<Rightarrow> op_row \<Rightarrow> bool" where
  "pending_of_agent folder agent_id r \<longleftrightarrow>
     op_status r = Pending \<and> op_folder_from r = Some folder \<and> op_agent_id r = agent_id"

definition list_or_empty :: "'a list option \<Rightarrow> 'a list" where
  "list_or_empty xs = (case xs of Some ys \<Rightarrow> ys | None \<Rightarrow> [])"

text \<open>\<open>uid in get_pending_move_uids_for_folder(folder, agent_id)\<close>; the set itself may hold a whole
  range and is only ever tested for membership.\<close>

definition pending_move_uid :: "string \<Rightarrow> nat option \<Rightarrow> int \<Rightarrow> db \<Rightarrow> bool" where
  "pending_move_uid folder agent_id uid d \<longleftrightarrow>
     list_ex (\<lambda>r. pending_of_agent folder agent_id r \<and> op_type r = ''move''
                 \<and> list_ex (entry_has_uid uid) (list_or_empty (op_message_ids r))) (db_ops d)"

definition get_pending_flag_changes_for_uid ::
  "string \<Rightarrow> int \<Rightarrow> nat option \<Rightarrow> db \<Rightarrow> string list \<times> string list" where
  "get_pending_flag_changes_for_uid folder uid agent_id d =
     (let rows = filter (\<lambda>r. pending_of_agent folder agent_id r \<and> op_type r \<in> set FLAG_OP_TYPES
                    \<and> list_ex (entry_has_uid uid) (list_or_empty (op_message_ids r))) (db_ops d)
      in (concat (map (\<lambda>r. list_or_empty (op_flags_add r)) rows),
          concat (map (\<lambda>r. list_or_empty (op_flags_remove r)) rows)))"

section \<open>Invite codes\<close>

definition insert_invite_code :: "string \<Rightarrow> int option \<Rightarrow> string option \<Rightarrow> int \<Rightarrow> db \<Rightarrow> (nat \<times> db) option" where
  "insert_invite_code code_hash expires_at note now d =
     (if list_ex (\<lambda>r. in_code_hash r = code_hash) (db_invites d) then None
      else let i = Suc (db_invite_seq d)
        in Some (i, d\<lparr>db_invites := db_invites d @
             [\<lparr>in_id = i, in_code_hash = code_hash, in_created_at = now, in_expires_at = expires_at,
               in_note = note, in_redeemed_at = None, in_redeemed_by_email = None,
               in_revoked_at = None\<rparr>], db_invite_seq := i\<rparr>))"

definition invite_valid :: "string \<Rightarrow> int \<Rightarrow> invite_row \<Rightarrow> bool" where
  "invite_valid code_hash now r \<longleftrightarrow>
     in_code_hash r = code_hash \<and> in_redeemed_at r = None \<and> in_revoked_at r = None
     \<and> (case in_expires_at r of None \<Rightarrow> True | Some e \<Rightarrow> e > now)"

definition redeem_invite_code :: "string \<Rightarrow> string \<Rightarrow> int \<Rightarrow> db \<Rightarrow> bool \<times> db" where
  "redeem_invite_code code_hash email now d =
     (rowcount (invite_valid code_hash now) (db_invites d) = 1,
      d\<lparr>db_invites := upd (invite_valid code_hash now)
          (\<lambda>r. r\<lparr>in_redeemed_at := Some now, in_redeemed_by_email := Some email\<rparr>) (db_invites d)\<rparr>)"

definition invite_open :: "string \<Rightarrow> invite_row \<Rightarrow> bool" where
  "invite_open code_hash r \<longleftrightarrow>
     in_code_hash r = code_hash \<and> in_redeemed_at r = None \<and> in_revoked_at r = None"

definition revoke_invite_code :: "string \<Rightarrow> int \<Rightarrow> db \<Rightarrow> bool \<times> db" where
  "revoke_invite_code code_hash now d =
     (rowcount (invite_open code_hash) (db_invites d) = 1,
      d\<lparr>db_invites := upd (invite_open code_hash) (\<lambda>r. r\<lparr>in_revoked_at := Some now\<rparr>) (db_invites d)\<rparr>)"

definition list_invite_codes :: "db \<Rightarrow> invite_row list" where
  "list_invite_codes d = rev (sort_key in_created_at (rev (db_invites d)))"

end
