(* ===== verification/Mirror.thy ===== *)
theory Mirror
  imports State_Db Interfaces
begin

text \<open>
  The laws of the mailbox mirror (\<open>State_Db\<close>): its invariant and that every operation keeps it,
  tenant isolation, the meaning of UID sets, and that a proposal taken back leaves the agent's
  view as it was.  The mirror interprets the \<open>revertible\<close> contract and the invite table the
  \<open>claimable\<close> one.
\<close>

section \<open>The mirror's invariant\<close>

definition folders_wf :: "db \<Rightarrow> bool" where
  "folders_wf d \<longleftrightarrow> distinct (map fo_id (db_folders d))
     \<and> (\<forall>f \<in> set (db_folders d). fo_id f \<le> db_folder_seq d)
     \<and> distinct (map (\<lambda>f. (fo_user_id f, fo_name f)) (db_folders d))"

definition msg_key :: "message_row \<Rightarrow> nat \<times> int" where
  "msg_key m = (me_folder_id m, me_uid m)"

definition messages_wf :: "db \<Rightarrow> bool" where
  "messages_wf d \<longleftrightarrow> distinct (map msg_key (db_messages d))"

definition mirror_wf :: "db \<Rightarrow> bool" where
  "mirror_wf d \<longleftrightarrow> folders_wf d \<and> messages_wf d"

lemma at_uid_key: "at_uid f u m \<longleftrightarrow> msg_key m = (f, u)"
  by (auto simp: at_uid_def msg_key_def)

lemma is_folder_key: "is_folder u n f \<longleftrightarrow> (fo_user_id f, fo_name f) = (u, n)"
  by (auto simp: is_folder_def)

lemma folders_wf_get_or_create [inv_intros]:
  "folders_wf d \<Longrightarrow> folders_wf (snd (get_or_create_folder n u now d))"
  by (auto simp: folders_wf_def get_or_create_folder_def Let_def new_folder_def find_None_all
      is_folder_def split: option.splits)

lemma folders_wf_upd [inv_intros]:
  assumes "folders_wf d" "\<And>f. fo_id (g f) = fo_id f" "\<And>f. fo_user_id (g f) = fo_user_id f"
    "\<And>f. fo_name (g f) = fo_name f"
  shows "folders_wf (d\<lparr>db_folders := upd P g (db_folders d)\<rparr>)"
proof -
  have "map fo_id (upd P g (db_folders d)) = map fo_id (db_folders d)"
    by (rule map_upd_key) (rule assms)
  moreover have "map (\<lambda>f. (fo_user_id f, fo_name f)) (upd P g (db_folders d))
      = map (\<lambda>f. (fo_user_id f, fo_name f)) (db_folders d)"
    by (rule map_upd_key) (simp add: assms)
  ultimately show ?thesis using assms(1,2) by (auto simp: folders_wf_def set_upd)
qed

lemma folders_wf_stats [inv_intros]:
  "folders_wf d \<Longrightarrow> folders_wf (snd (update_folder_stats n u a b c e g now d))"
  using folders_wf_get_or_create [of d n u now]
  by (auto simp: update_folder_stats_def Let_def split: prod.splits intro!: folders_wf_upd)

lemma folders_wf_upsert_list [inv_intros]:
  "folders_wf d \<Longrightarrow> folders_wf (upsert_folders_from_list names u su now d)"
proof (induction names arbitrary: d)
  case (Cons name names)
  obtain i d1 where g: "get_or_create_folder name u now d = (i, d1)" by fastforce
  have "folders_wf d1"
    using folders_wf_get_or_create [OF Cons.prems, of name u now] g by simp
  then show ?case
    using g by (auto simp: Let_def split: option.splits intro!: Cons.IH folders_wf_upd)
qed simp

lemma messages_wf_upd [inv_intros]:
  "messages_wf d \<Longrightarrow> (\<And>m. P m \<Longrightarrow> msg_key (g m) = msg_key m) \<Longrightarrow>
     messages_wf (d\<lparr>db_messages := upd P g (db_messages d)\<rparr>)"
  by (simp add: messages_wf_def map_upd_key)

lemma messages_wf_filter [inv_intros]:
  "messages_wf d \<Longrightarrow> messages_wf (d\<lparr>db_messages := filter P (db_messages d)\<rparr>)"
  by (simp add: messages_wf_def distinct_map_filter)

lemma messages_wf_upsert [inv_intros]:
  "messages_wf d \<Longrightarrow> messages_wf (upsert_message f u a b c e g h i now d)"
  unfolding upsert_message_def
  by (auto simp: messages_wf_def find_None_all at_uid_key msg_key_def map_upd_key)

lemma restore_message_keys:
  "distinct (map msg_key ms) \<Longrightarrow> distinct (map msg_key (restore_message now e ms))"
  by (auto simp: restore_message_def at_uid_key msg_key_def map_upd_key find_None_all)

lemma restore_entries_keys:
  "distinct (map msg_key ms) \<Longrightarrow> distinct (map msg_key (restore_entries now es ms))"
  unfolding restore_entries_def
  by (induction es arbitrary: ms) (auto intro: restore_message_keys)

lemma messages_wf_restore [inv_intros]:
  "messages_wf d \<Longrightarrow> messages_wf (snd (restore_from_snapshot i now d))"
  by (auto simp: restore_from_snapshot_def messages_wf_def restore_entries_keys split: option.splits)


lemma get_or_create_messages [simp]:
  "db_messages (snd (get_or_create_folder n u now d)) = db_messages d"
  by (auto simp: get_or_create_folder_def Let_def split: option.splits)

lemma update_stats_messages [simp]:
  "db_messages (snd (update_folder_stats n u a b c e g now d)) = db_messages d"
  by (auto simp: update_folder_stats_def Let_def split: prod.splits)
    (metis get_or_create_messages snd_conv)

section \<open>Tenant scope\<close>

lemma get_or_create_found:
  assumes "folders_wf d"
  shows "\<exists>f \<in> set (db_folders (snd (get_or_create_folder n u now d))).
    fo_id f = fst (get_or_create_folder n u now d) \<and> fo_user_id f = u \<and> fo_name f = n"
  by (auto simp: get_or_create_folder_def Let_def new_folder_def is_folder_def
      split: option.splits dest!: find_Some_in)

lemma get_or_create_keeps:
  "f \<in> set (db_folders d) \<Longrightarrow> f \<in> set (db_folders (snd (get_or_create_folder n u now d)))"
  by (auto simp: get_or_create_folder_def Let_def split: option.splits)

lemma folder_id_unique:
  "folders_wf d \<Longrightarrow> f \<in> set (db_folders d) \<Longrightarrow> g \<in> set (db_folders d) \<Longrightarrow> fo_id f = fo_id g \<Longrightarrow> f = g"
  by (auto simp: folders_wf_def dest: inj_onD [OF distinct_map [THEN iffD1, THEN conjunct2]])

lemma folder_key_unique:
  "folders_wf d \<Longrightarrow> f \<in> set (db_folders d) \<Longrightarrow> g \<in> set (db_folders d) \<Longrightarrow>
     fo_user_id f = fo_user_id g \<Longrightarrow> fo_name f = fo_name g \<Longrightarrow> f = g"
  unfolding folders_wf_def distinct_map by (elim conjE inj_onD) auto

text \<open>Two folder lookups get the same mirror row exactly when they name the same folder of the
  same tenant; a second tenant's folder of the same name is another row.\<close>

theorem folder_rows_isolated:
  assumes "folders_wf d"
  shows "fst (get_or_create_folder n v now' (snd (get_or_create_folder m u now d)))
      = fst (get_or_create_folder m u now d) \<longleftrightarrow> u = v \<and> m = n"
proof -
  let ?d1 = "snd (get_or_create_folder m u now d)"
  let ?d2 = "snd (get_or_create_folder n v now' ?d1)"
  have wf: "folders_wf ?d1" "folders_wf ?d2"
    using assms by (auto intro: folders_wf_get_or_create)
  obtain f where f: "f \<in> set (db_folders ?d1)" "fo_id f = fst (get_or_create_folder m u now d)"
      "fo_user_id f = u" "fo_name f = m"
    using get_or_create_found [OF assms] by blast
  obtain g where g: "g \<in> set (db_folders ?d2)" "fo_id g = fst (get_or_create_folder n v now' ?d1)"
      "fo_user_id g = v" "fo_name g = n"
    using get_or_create_found [OF wf(1)] by blast
  have f2: "f \<in> set (db_folders ?d2)" using f(1) by (rule get_or_create_keeps)
  show ?thesis
  proof
    assume "fst (get_or_create_folder n v now' ?d1) = fst (get_or_create_folder m u now d)"
    then have "f = g" using folder_id_unique [OF wf(2) f2 g(1)] f g by simp
    then show "u = v \<and> m = n" using f g by simp
  next
    assume "u = v \<and> m = n"
    then have "f = g" using folder_key_unique [OF wf(2) f2 g(1)] f g by simp
    then show "fst (get_or_create_folder n v now' ?d1) = fst (get_or_create_folder m u now d)"
      using f g by simp
  qed
qed

lemma folder_rows_isolated_witness:
  "fst (get_or_create_folder ''INBOX'' (Some 2) 9 (snd (get_or_create_folder ''INBOX'' (Some 1) 5 empty_db)))
      = fst (get_or_create_folder ''INBOX'' (Some 1) 5 empty_db)
    \<longleftrightarrow> Some 1 = Some (2 :: nat) \<and> ''INBOX'' = ''INBOX''"
  by (rule folder_rows_isolated) (simp add: folders_wf_def empty_db_def)

lemma newest_in: "newest ms = Some m \<Longrightarrow> m \<in> set ms"
  by (induction ms arbitrary: m) (auto split: option.splits if_splits)

text \<open>A Message-ID lookup only ever returns a message of a folder the asking tenant owns.\<close>

theorem message_lookup_scoped:
  "find_message_by_message_id mid u d = Some m \<Longrightarrow>
     m \<in> set (db_messages d) \<and> folder_owner d (me_folder_id m) = Some u"
  by (auto simp: find_message_by_message_id_def Let_def dest!: newest_in split: if_splits)

section \<open>UID sets as predicates\<close>

text \<open>What a part of a UID set means: a range in either order, the highest UID, or one UID.\<close>

definition part_selects :: "int \<Rightarrow> string \<Rightarrow> int \<Rightarrow> bool" where
  "part_selects highest p u \<longleftrightarrow>
     (case split_colon (py_strip p) of
        Some (a, b) \<Rightarrow>
          (\<exists>low high. uid_bound highest a = Some low \<and> uid_bound highest b = Some high
             \<and> min low high \<le> u \<and> u \<le> max low high)
      | None \<Rightarrow> if py_strip p = ''*'' then u = highest else py_int (py_strip p) = Some u)"

lemma expand_part_mem:
  assumes "known \<noteq> []" "expand_part known p = Some us"
  shows "u \<in> set us \<longleftrightarrow> u \<in> set known \<and> part_selects (Max (set known)) p u"
  using assms Max_in [of "set known"]
  by (auto simp: expand_part_def part_selects_def Let_def split: option.splits prod.splits if_splits)

lemma those_map_defined: "those (map f xs) = Some ys \<Longrightarrow> x \<in> set xs \<Longrightarrow> \<exists>y. f x = Some y"
  by (induction xs arbitrary: ys) (auto split: option.splits)

lemma those_map_union:
  "those (map f xs) = Some ys \<Longrightarrow> set (concat ys) = (\<Union>x \<in> set xs. set (the (f x)))"
proof (induction xs arbitrary: ys)
  case (Cons a xs)
  then obtain y zs where y: "f a = Some y" "those (map f xs) = Some zs" "ys = y # zs"
    by (auto split: option.splits)
  show ?case using Cons.IH [OF y(2)] y by (simp del: set_concat)
qed simp

text \<open>C26: expanding a UID set against the known UIDs gives, in ascending order and without
  repetition, exactly the known UIDs that some part of the set selects.\<close>

theorem expand_uid_set_correct:
  assumes "expand_uid_set s known = Some us"
  shows "sorted us \<and> distinct us \<and>
    (\<forall>u. u \<in> set us \<longleftrightarrow>
       u \<in> set known \<and> list_ex (\<lambda>p. part_selects (Max (set known)) p u) (py_split_on (CHR '','') s))"
proof (cases "known = []")
  case True
  then show ?thesis using assms by (simp add: expand_uid_set_def)
next
  case False
  then obtain ps where ps: "those (map (expand_part known) (py_split_on (CHR '','') s)) = Some ps"
    and us: "us = sort (remdups (concat ps))"
    using assms by (auto simp: expand_uid_set_def those_parts_def)
  have "u \<in> set us \<longleftrightarrow> u \<in> set known \<and>
      (\<exists>p \<in> set (py_split_on (CHR '','') s). part_selects (Max (set known)) p u)" for u
  proof -
    have "u \<in> set us \<longleftrightarrow> (\<exists>p \<in> set (py_split_on (CHR '','') s). u \<in> set (the (expand_part known p)))"
      using those_map_union [OF ps] us by auto
    then show ?thesis
      using those_map_defined [OF ps] expand_part_mem [OF False] by fastforce
  qed
  then show ?thesis using us by (simp add: list_ex_iff)
qed

lemma expand_uid_set_correct_witness:
  "sorted [3, 5, 7, 9 :: int] \<and> distinct [3, 5, 7, 9 :: int] \<and>
    (\<forall>u. u \<in> set [3, 5, 7, 9] \<longleftrightarrow>
       u \<in> set [9, 5, 7, 3] \<and> list_ex (\<lambda>p. part_selects (Max (set [9, 5, 7, 3])) p u) (py_split_on (CHR '','') ''7:4, *,3''))"
  by (rule expand_uid_set_correct) code_simp

lemma expand_all_uids:
  "\<forall>u \<in> set known. 1 \<le> u \<Longrightarrow> expand_uid_set ''1:*'' known = Some (sort (remdups known))"
proof (cases "known = []")
  case False
  assume k: "\<forall>u \<in> set known. 1 \<le> u"
  have s: "py_split_on (CHR '','') ''1:*'' = [''1:*'']" "py_strip ''1:*'' = ''1:*''"
    "split_colon ''1:*'' = Some (''1'', ''*'')" "py_int ''1'' = Some 1"
    by code_simp+
  have "1 \<le> Max (set known)" using k False Max_in [of "set known"] by auto
  then have "filter (\<lambda>u. min 1 (Max (set known)) \<le> u \<and> u \<le> max 1 (Max (set known))) known = known"
    using k by (auto simp: filter_id_conv)
  then show ?thesis using False
    by (simp add: expand_uid_set_def those_parts_def s expand_part_def uid_bound_def)
qed (simp add: expand_uid_set_def)

section \<open>Taking proposals back\<close>

text \<open>What the agent sees of a message, and the mirror as a map from (folder, UID).\<close>

type_synonym msg_core = "string list \<times> nat option \<times> string option \<times> string option"

definition core :: "message_row \<Rightarrow> msg_core" where
  "core m = (me_flags m, me_sequence_num m, me_sender m, me_subject m)"

definition mview :: "message_row list \<Rightarrow> (nat \<times> int \<Rightarrow> msg_core option)" where
  "mview ms k = map_option core (List.find (\<lambda>m. msg_key m = k) ms)"

text \<open>The two kinds of optimistic change, on the rows selected by a list of keys.\<close>

datatype proposal = Flag_change "string list" "string list" int | Removal

definition propose :: "proposal \<Rightarrow> (nat \<times> int) list \<Rightarrow> message_row list \<Rightarrow> message_row list" where
  "propose p ks ms =
     (case p of
        Flag_change add rem now \<Rightarrow>
          upd (\<lambda>m. msg_key m \<in> set ks)
            (\<lambda>m. m\<lparr>me_flags := merge_flags add rem (me_flags m), me_last_updated := now\<rparr>) ms
      | Removal \<Rightarrow> filter (\<lambda>m. msg_key m \<notin> set ks) ms)"

definition snap_keys :: "(nat \<times> int) list \<Rightarrow> message_row list \<Rightarrow> snap_entry list" where
  "snap_keys ks ms = map snap_of (filter (\<lambda>m. msg_key m \<in> set ks) ms)"

definition snap_key :: "snap_entry \<Rightarrow> nat \<times> int" where
  "snap_key e = (se_folder_id e, se_uid e)"

definition core_after :: "snap_entry \<Rightarrow> msg_core option \<Rightarrow> msg_core" where
  "core_after e c =
     (case c of Some (fl, sq, sd, sj) \<Rightarrow> (se_flags e, sq, sd, sj)
      | None \<Rightarrow> (se_flags e, se_seq_num e, se_sender e, se_subject e))"

lemma snap_key_of [simp]: "snap_key (snap_of m) = msg_key m"
  by (simp add: snap_key_def snap_of_def msg_key_def)

lemma mview_None: "mview ms k = None \<longleftrightarrow> k \<notin> msg_key ` set ms"
  by (auto simp: mview_def find_None_all)

lemma mview_Some:
  "distinct (map msg_key ms) \<Longrightarrow> m \<in> set ms \<Longrightarrow> mview ms (msg_key m) = Some (core m)"
  by (simp add: mview_def find_distinct_key)

lemma mview_restore_message:
  "mview (restore_message now e ms) = (mview ms)(snap_key e \<mapsto> core_after e (mview ms (snap_key e)))"
proof
  fix k
  have upd: "List.find (\<lambda>m. msg_key m = k)
      (upd (at_uid (se_folder_id e) (se_uid e)) (\<lambda>m. m\<lparr>me_flags := se_flags e, me_last_updated := now\<rparr>) ms)
    = map_option (\<lambda>m. if at_uid (se_folder_id e) (se_uid e) m
          then m\<lparr>me_flags := se_flags e, me_last_updated := now\<rparr> else m)
        (List.find (\<lambda>m. msg_key m = k) ms)"
    by (rule find_upd_key) (simp add: msg_key_def)
  show "mview (restore_message now e ms) k
      = ((mview ms)(snap_key e \<mapsto> core_after e (mview ms (snap_key e)))) k"
  proof (cases "List.find (\<lambda>m. msg_key m = snap_key e) ms")
    case None
    then have "List.find (at_uid (se_folder_id e) (se_uid e)) ms = None"
      by (simp add: find_None_all at_uid_key snap_key_def)
    with None show ?thesis
      by (auto simp: restore_message_def mview_def find_append core_after_def snap_key_def msg_key_def
          core_def split: option.splits)
  next
    case (Some m)
    then have "List.find (at_uid (se_folder_id e) (se_uid e)) ms = Some m"
      by (simp add: at_uid_key [abs_def] snap_key_def)
    then have r: "restore_message now e ms =
        upd (at_uid (se_folder_id e) (se_uid e)) (\<lambda>m. m\<lparr>me_flags := se_flags e, me_last_updated := now\<rparr>) ms"
      by (simp add: restore_message_def)
    show ?thesis
    proof (cases "k = snap_key e")
      case True
      then show ?thesis using Some find_Some_in [OF Some]
        by (simp add: r mview_def upd [unfolded True snap_key_def] at_uid_key snap_key_def
            core_after_def core_def)
    next
      case False
      then show ?thesis
        by (auto simp: r mview_def upd at_uid_key snap_key_def option.map_comp
            dest!: find_Some_in intro!: option.map_cong)
    qed
  qed
qed

lemma mview_restore_cong:
  "mview ms = mview ns \<Longrightarrow> mview (restore_entries now es ms) = mview (restore_entries now es ns)"
  unfolding restore_entries_def
  by (induction es arbitrary: ms ns) (auto simp: mview_restore_message)

lemma mview_restore_other:
  "k \<notin> snap_key ` set es \<Longrightarrow> mview (restore_entries now es ms) k = mview ms k"
  unfolding restore_entries_def
  by (induction es arbitrary: ms) (auto simp: mview_restore_message)


text \<open>Restoring entries that all stem from one well-keyed table puts their values back.\<close>

lemma mview_restore_entry:
  assumes "distinct (map snap_key es)" "e \<in> set es"
  shows "mview (restore_entries now es ms) (snap_key e) = Some (core_after e (mview ms (snap_key e)))"
  using assms
proof (induction es arbitrary: ms)
  case (Cons e' es)
  have step: "restore_entries now (e' # es) ms = restore_entries now es (restore_message now e' ms)"
    by (simp add: restore_entries_def)
  show ?case
  proof (cases "e = e'")
    case True
    then have "snap_key e \<notin> snap_key ` set es" using Cons.prems by auto
    then show ?thesis using True by (simp add: step mview_restore_other mview_restore_message)
  next
    case False
    then have "snap_key e \<noteq> snap_key e'" using Cons.prems by (auto simp: image_iff)
    then show ?thesis using Cons False by (simp add: step mview_restore_message)
  qed
qed simp

lemma snap_keys_distinct:
  "distinct (map msg_key ms) \<Longrightarrow> distinct (map snap_key (snap_keys ks ms))"
  by (simp add: snap_keys_def snap_key_def snap_of_def msg_key_def comp_def distinct_map_filter
      flip: msg_key_def)

lemma snap_keys_set:
  "snap_key ` set (snap_keys ks ms) = set ks \<inter> msg_key ` set ms"
  by (auto simp: snap_keys_def image_image)

lemma mview_propose_other: "k \<notin> set ks \<Longrightarrow> mview (propose p ks ms) k = mview ms k"
proof (cases p)
  case (Flag_change add rem now)
  assume k: "k \<notin> set ks"
  have "List.find (\<lambda>m. msg_key m = k) (upd (\<lambda>m. msg_key m \<in> set ks)
      (\<lambda>m. m\<lparr>me_flags := merge_flags add rem (me_flags m), me_last_updated := now\<rparr>) ms)
    = map_option (\<lambda>m. if msg_key m \<in> set ks
        then m\<lparr>me_flags := merge_flags add rem (me_flags m), me_last_updated := now\<rparr> else m)
        (List.find (\<lambda>m. msg_key m = k) ms)"
    by (rule find_upd_key) (simp add: msg_key_def)
  then show ?thesis using Flag_change k
    by (auto simp: propose_def mview_def option.map_comp dest!: find_Some_in intro!: option.map_cong)
next
  case Removal
  assume "k \<notin> set ks"
  then have "List.find (\<lambda>m. msg_key m = k) (filter (\<lambda>m. msg_key m \<notin> set ks) ms)
      = List.find (\<lambda>m. msg_key m = k) ms"
    by (induction ms) auto
  then show ?thesis using Removal by (simp add: propose_def mview_def)
qed

lemma propose_core:
  assumes "distinct (map msg_key ms)" "m \<in> set ms" "msg_key m \<in> set ks"
  shows "core_after (snap_of m) (mview (propose p ks ms) (msg_key m)) = core m"
proof (cases p)
  case (Flag_change add rem now)
  let ?f = "\<lambda>m. m\<lparr>me_flags := merge_flags add rem (me_flags m), me_last_updated := now\<rparr>"
  have keys: "map msg_key (upd (\<lambda>m. msg_key m \<in> set ks) ?f ms) = map msg_key ms"
    by (rule map_upd_key) (simp add: msg_key_def)
  have "?f m \<in> set (upd (\<lambda>m. msg_key m \<in> set ks) ?f ms)" using assms by (auto simp: set_upd)
  moreover have "msg_key (?f m) = msg_key m" by (simp add: msg_key_def)
  ultimately have "mview (upd (\<lambda>m. msg_key m \<in> set ks) ?f ms) (msg_key m) = Some (core (?f m))"
    using mview_Some [of "upd (\<lambda>m. msg_key m \<in> set ks) ?f ms" "?f m"] keys assms(1) by simp
  then show ?thesis using Flag_change
    by (simp add: propose_def core_after_def core_def snap_of_def)
next
  case Removal
  then have "mview (propose p ks ms) (msg_key m) = None"
    using assms by (auto simp: mview_None propose_def)
  then show ?thesis by (simp add: core_after_def core_def snap_of_def)
qed

lemma propose_keys: "distinct (map msg_key ms) \<Longrightarrow> distinct (map msg_key (propose p ks ms))"
  by (cases p) (auto simp: propose_def map_upd_key msg_key_def distinct_map_filter)

lemma mview_revert:
  assumes "distinct (map msg_key ms)"
  shows "mview (restore_entries now (snap_keys ks ms) (propose p ks ms)) = mview ms"
proof
  fix k
  show "mview (restore_entries now (snap_keys ks ms) (propose p ks ms)) k = mview ms k"
  proof (cases "k \<in> snap_key ` set (snap_keys ks ms)")
    case True
    then obtain m where m: "m \<in> set ms" "msg_key m \<in> set ks" "k = msg_key m"
        "snap_of m \<in> set (snap_keys ks ms)"
      by (auto simp: snap_keys_def snap_key_def snap_of_def msg_key_def)
    have "snap_key (snap_of m) = msg_key m" by (simp add: snap_key_def snap_of_def msg_key_def)
    then have "mview (restore_entries now (snap_keys ks ms) (propose p ks ms)) k
        = Some (core_after (snap_of m) (mview (propose p ks ms) (msg_key m)))"
      using mview_restore_entry [OF snap_keys_distinct [OF assms] m(4), of now "propose p ks ms"] m
      by simp
    then show ?thesis using propose_core [OF assms m(1,2)] mview_Some [OF assms m(1)] m(3) by simp
  next
    case False
    then have k: "k \<notin> set ks \<or> k \<notin> msg_key ` set ms" by (auto simp: snap_keys_set)
    have "mview (propose p ks ms) k = mview ms k"
    proof (cases "k \<in> set ks")
      case True
      then have "k \<notin> msg_key ` set ms" using k by blast
      moreover from this have "k \<notin> msg_key ` set (propose p ks ms)"
        by (cases p) (auto simp: propose_def set_upd msg_key_def image_iff)
      ultimately show ?thesis by (simp add: mview_None [THEN iffD2])
    qed (simp add: mview_propose_other)
    then show ?thesis using False by (simp add: mview_restore_other)
  qed
qed


interpretation mirror: revertible snap_keys propose "restore_entries now" mview
    "\<lambda>ms. distinct (map msg_key ms)" for now :: int
  by unfold_locales (auto intro: mview_revert mview_restore_cong propose_keys restore_entries_keys)

section \<open>The database operations as proposals\<close>

lemma uid_set_rows:
  assumes "get_messages_by_uid_set f s d = Some rows"
  shows "set rows = {m \<in> set (db_messages d). msg_key m \<in> set (map msg_key rows)}"
    and "m \<in> set (db_messages d) \<Longrightarrow>
      (me_folder_id m = f \<and> me_uid m \<in> set (map me_uid rows)) \<longleftrightarrow> msg_key m \<in> set (map msg_key rows)"
  using assms by (auto simp: get_messages_by_uid_set_def msg_key_def)

lemma optimistic_is_proposal:
  assumes "get_messages_by_uid_set f s d = Some rows"
  shows "apply_optimistic_flag_update f s add rem now d
    = Some (d\<lparr>db_messages := propose (Flag_change add rem now) (map msg_key rows) (db_messages d)\<rparr>)"
proof -
  have "upd (\<lambda>m. me_folder_id m = f \<and> me_uid m \<in> set (map me_uid rows)) g (db_messages d)
      = upd (\<lambda>m. msg_key m \<in> set (map msg_key rows)) g (db_messages d)" for g
    unfolding upd_def by (rule map_cong [OF refl]) (simp only: uid_set_rows(2) [OF assms])
  then show ?thesis by (simp add: apply_optimistic_flag_update_def assms propose_def)
qed

lemma removal_is_proposal:
  assumes "get_messages_by_uid_set f s d = Some rows"
  shows "remove_messages_from_folder f s d
    = Some (d\<lparr>db_messages := propose Removal (map msg_key rows) (db_messages d)\<rparr>)"
proof -
  have "filter (\<lambda>m. \<not> (me_folder_id m = f \<and> me_uid m \<in> set (map me_uid rows))) (db_messages d)
      = filter (\<lambda>m. msg_key m \<notin> set (map msg_key rows)) (db_messages d)"
    by (rule filter_cong [OF refl]) (simp only: uid_set_rows(2) [OF assms])
  then show ?thesis by (simp add: remove_messages_from_folder_def assms propose_def)
qed

text \<open>The order of the entries of a well-keyed snapshot does not matter.\<close>

lemma mview_restore_set:
  assumes "distinct (map snap_key es)" "distinct (map snap_key es')" "set es = set es'"
  shows "mview (restore_entries now es ms) = mview (restore_entries now es' ms)"
proof
  fix k
  show "mview (restore_entries now es ms) k = mview (restore_entries now es' ms) k"
  proof (cases "k \<in> snap_key ` set es")
    case True
    then obtain e where "e \<in> set es" "k = snap_key e" by blast
    then show ?thesis using assms mview_restore_entry by metis
  next
    case False
    then show ?thesis using assms(3) by (simp add: mview_restore_other)
  qed
qed

lemma snapshot_is_snap:
  assumes "messages_wf d" "get_messages_by_uid_set f s d = Some rows"
  shows "mview (restore_entries now (map snap_of rows) ms)
    = mview (restore_entries now (snap_keys (map msg_key rows) (db_messages d)) ms)"
proof (rule mview_restore_set)
  have wf: "distinct (map msg_key (db_messages d))" using assms(1) by (simp add: messages_wf_def)
  then show "distinct (map snap_key (snap_keys (map msg_key rows) (db_messages d)))"
    by (rule snap_keys_distinct)
  have "set rows = {m \<in> set (db_messages d). msg_key m \<in> set (map msg_key rows)}"
    by (rule uid_set_rows(1) [OF assms(2)])
  then show "set (map snap_of rows) = set (snap_keys (map msg_key rows) (db_messages d))"
    by (auto simp: snap_keys_def)
  have "distinct (map msg_key rows)"
    using wf assms(2) by (auto simp: get_messages_by_uid_set_def distinct_map inj_on_def)
  then show "distinct (map snap_key (map snap_of rows))" by (simp add: comp_def)
qed

text \<open>A staged flag change that is rejected leaves no trace in the agent's view: restoring the
  snapshot taken before the optimistic update gives back every message's flags, sequence number,
  sender and subject, for every UID set.\<close>

theorem flag_change_reverts:
  assumes "messages_wf d" "snapshot_messages f s d = Some es"
    and "apply_optimistic_flag_update f s add rem now d = Some d'"
    and "find_op i d'' = Some r" "op_snapshot r = Some es" "db_messages d'' = db_messages d'"
  shows "mview (db_messages (snd (restore_from_snapshot i now' d''))) = mview (db_messages d)"
proof -
  obtain rows where rows: "get_messages_by_uid_set f s d = Some rows" "es = map snap_of rows"
    using assms(2) by (auto simp: snapshot_messages_def)
  have d': "db_messages d' = propose (Flag_change add rem now) (map msg_key rows) (db_messages d)"
    using assms(3) optimistic_is_proposal [OF rows(1)] by auto
  have "mview (restore_entries now' es (db_messages d')) = mview (db_messages d)"
    using snapshot_is_snap [OF assms(1) rows(1)] mirror.restore_change assms(1)
    by (simp add: rows(2) d' messages_wf_def)
  then show ?thesis using assms(4-6) rows(2) by (simp add: restore_from_snapshot_def list_ex_iff snap_of_def)
qed

text \<open>The same for a staged MOVE, whose messages leave the source folder's mirror at once:
  rejecting it puts every message back as the agent saw it.\<close>

theorem removal_reverts:
  assumes "messages_wf d" "snapshot_messages f s d = Some es"
    and "remove_messages_from_folder f s d = Some d'"
    and "find_op i d'' = Some r" "op_snapshot r = Some es" "db_messages d'' = db_messages d'"
  shows "mview (db_messages (snd (restore_from_snapshot i now' d''))) = mview (db_messages d)"
proof -
  obtain rows where rows: "get_messages_by_uid_set f s d = Some rows" "es = map snap_of rows"
    using assms(2) by (auto simp: snapshot_messages_def)
  have d': "db_messages d' = propose Removal (map msg_key rows) (db_messages d)"
    using assms(3) removal_is_proposal [OF rows(1)] by auto
  have "mview (restore_entries now' es (db_messages d')) = mview (db_messages d)"
    using snapshot_is_snap [OF assms(1) rows(1)] mirror.restore_change assms(1)
    by (simp add: rows(2) d' messages_wf_def)
  then show ?thesis using assms(4-6) rows(2) by (simp add: restore_from_snapshot_def list_ex_iff snap_of_def)
qed

section \<open>Pending reverts\<close>

lemma insert_pending_reverts_other [simp]:
  "db_messages (insert_pending_reverts rs now d) = db_messages d"
  "db_ops (insert_pending_reverts rs now d) = db_ops d"
  "db_folders (insert_pending_reverts rs now d) = db_folders d"
  "db_audit (insert_pending_reverts rs now d) = db_audit d"
  by (induction rs now d rule: insert_pending_reverts.induct) (simp_all add: Let_def)

definition reverts_wf :: "db \<Rightarrow> bool" where
  "reverts_wf d \<longleftrightarrow> distinct (map rv_id (db_reverts d)) \<and> (\<forall>r \<in> set (db_reverts d). rv_id r \<le> db_revert_seq d)"

lemma reverts_wf_insert: "reverts_wf d \<Longrightarrow> reverts_wf (insert_pending_reverts rs now d)"
proof (induction rs now d rule: insert_pending_reverts.induct)
  case (2 r rs now d)
  show ?case unfolding insert_pending_reverts.simps Let_def
    by (rule 2(1)) (use 2(2) in \<open>auto simp: reverts_wf_def\<close>)
qed simp

lemma reverts_wf_mark: "reverts_wf d \<Longrightarrow> reverts_wf (mark_reverts_delivered ids now d)"
  by (auto simp: reverts_wf_def mark_reverts_delivered_def map_upd_key set_upd)

lemma mem_pending_reverts:
  "r \<in> set (get_pending_reverts f d) \<longleftrightarrow> r \<in> set (db_reverts d) \<and> rv_folder_id r = f \<and> rv_delivered_at r = None"
  by (auto simp: get_pending_reverts_def)

text \<open>A revert is delivered once: after the rows a folder had pending are marked, none is pending
  there, and the pending rows of every other folder are untouched.\<close>

theorem reverts_delivered_once:
  assumes "reverts_wf d"
  shows "get_pending_reverts f (mark_reverts_delivered (map rv_id (get_pending_reverts f d)) now d) = []
    \<and> (\<forall>g. g \<noteq> f \<longrightarrow> get_pending_reverts g
          (mark_reverts_delivered (map rv_id (get_pending_reverts f d)) now d) = get_pending_reverts g d)"
proof (intro conjI allI impI)
  let ?ids = "map rv_id (get_pending_reverts f d)"
  let ?mark = "\<lambda>r. r\<lparr>rv_delivered_at := Some now\<rparr>"
  have "rv_delivered_at r \<noteq> None" if r: "r \<in> set (db_reverts (mark_reverts_delivered ?ids now d))"
      "rv_folder_id r = f" for r
  proof -
    obtain q where q: "q \<in> set (db_reverts d)" "r = (if rv_id q \<in> set ?ids then ?mark q else q)"
      using r(1) by (auto simp: mark_reverts_delivered_def set_upd)
    show ?thesis
    proof (cases "rv_id q \<in> set ?ids")
      case False
      then have "q \<notin> set (get_pending_reverts f d)" by auto
      then show ?thesis using q r(2) False by (auto simp: mem_pending_reverts)
    qed (simp add: q)
  qed
  then show "get_pending_reverts f (mark_reverts_delivered ?ids now d) = []"
    using mem_pending_reverts [of _ f "mark_reverts_delivered ?ids now d"]
    by (metis last_in_set)
next
  fix g assume g: "g \<noteq> f"
  let ?ids = "map rv_id (get_pending_reverts f d)"
  have no: "rv_id q \<notin> set ?ids" if "q \<in> set (db_reverts d)" "rv_folder_id q = g" for q
  proof
    assume "rv_id q \<in> set ?ids"
    then obtain p where p: "p \<in> set (db_reverts d)" "rv_folder_id p = f" "rv_id p = rv_id q"
      by (auto simp: mem_pending_reverts)
    then have "p = q" using that assms by (auto simp: reverts_wf_def distinct_map dest: inj_onD)
    then show False using p that g by simp
  qed
  have "filter (\<lambda>r. rv_folder_id r = g \<and> rv_delivered_at r = None)
        (upd (\<lambda>r. rv_id r \<in> set ?ids) (\<lambda>r. r\<lparr>rv_delivered_at := Some now\<rparr>) rows)
      = filter (\<lambda>r. rv_folder_id r = g \<and> rv_delivered_at r = None) rows"
    if "set rows \<subseteq> set (db_reverts d)" for rows
    using that
  proof (induction rows)
    case (Cons a rows)
    then show ?case using no [of a] by (cases "rv_folder_id a = g") simp_all
  qed simp
  then show "get_pending_reverts g (mark_reverts_delivered ?ids now d) = get_pending_reverts g d"
    by (simp add: get_pending_reverts_def mark_reverts_delivered_def)
qed

section \<open>Invite codes are spent once\<close>

datatype invite_other = Mint string "int option" "string option" int | Revoke string int

definition invite_other_step :: "invite_other \<Rightarrow> db \<Rightarrow> db" where
  "invite_other_step e d =
     (case e of
        Mint c ex note now \<Rightarrow> (case insert_invite_code c ex note now d of Some (i, d') \<Rightarrow> d' | None \<Rightarrow> d)
      | Revoke c now \<Rightarrow> snd (revoke_invite_code c now d))"

definition redeem_at :: "string \<Rightarrow> string \<times> int \<Rightarrow> db \<Rightarrow> bool \<times> db" where
  "redeem_at c x d = redeem_invite_code c (fst x) (snd x) d"

definition invites_wf :: "db \<Rightarrow> bool" where
  "invites_wf d \<longleftrightarrow> distinct (map in_code_hash (db_invites d))"

definition code_spent :: "string \<Rightarrow> db \<Rightarrow> bool" where
  "code_spent c d \<longleftrightarrow> list_ex (\<lambda>r. in_code_hash r = c \<and> in_redeemed_at r \<noteq> None) (db_invites d)"

lemma code_spent_upd:
  assumes "code_spent c d" "\<And>r. in_code_hash (g r) = in_code_hash r"
    and "\<And>r. P r \<Longrightarrow> in_redeemed_at r \<noteq> None \<Longrightarrow> in_redeemed_at (g r) \<noteq> None"
  shows "code_spent c (d\<lparr>db_invites := upd P g (db_invites d)\<rparr>)"
  using assms unfolding code_spent_def list_ex_iff by (auto simp: set_upd split: if_splits) blast

lemma rowcount_pos: "rowcount P rows = 1 \<Longrightarrow> \<exists>r \<in> set rows. P r"
  by (metis One_nat_def filter_False length_0_conv nat.simps(3) rowcount_def)

interpretation invites: claimable code_spent redeem_at invite_other_step invites_wf
proof
  show "invites_wf d \<Longrightarrow> fst (redeem_at c x d) \<Longrightarrow> \<not> code_spent c d" for c x d
  proof
    assume wf: "invites_wf d" and ok: "fst (redeem_at c x d)" and sp: "code_spent c d"
    obtain r where r: "r \<in> set (db_invites d)" "invite_valid c (snd x) r"
      using ok rowcount_pos by (fastforce simp: redeem_at_def redeem_invite_code_def)
    obtain q where q: "q \<in> set (db_invites d)" "in_code_hash q = c" "in_redeemed_at q \<noteq> None"
      using sp by (auto simp: code_spent_def list_ex_iff)
    have "r = q" using wf r q by (auto simp: invites_wf_def distinct_map invite_valid_def dest: inj_onD)
    then show False using r q by (simp add: invite_valid_def)
  qed
  show "invites_wf d \<Longrightarrow> fst (redeem_at c x d) \<Longrightarrow> code_spent c (snd (redeem_at c x d))" for c x d
  proof -
    assume "fst (redeem_at c x d)"
    then obtain r where r: "r \<in> set (db_invites d)" "invite_valid c (snd x) r"
      using rowcount_pos by (fastforce simp: redeem_at_def redeem_invite_code_def)
    let ?g = "\<lambda>r. r\<lparr>in_redeemed_at := Some (snd x), in_redeemed_by_email := Some (fst x)\<rparr>"
    have "?g r \<in> set (upd (invite_valid c (snd x)) ?g (db_invites d))"
      using r by (auto simp: set_upd)
    moreover have "in_code_hash (?g r) = c" using r(2) by (simp add: invite_valid_def)
    ultimately show "code_spent c (snd (redeem_at c x d))"
      unfolding code_spent_def redeem_at_def redeem_invite_code_def list_ex_iff by fastforce
  qed
  show "invites_wf d \<Longrightarrow> code_spent c d \<Longrightarrow> code_spent c (snd (redeem_at j x d))" for c j x d
    unfolding redeem_at_def redeem_invite_code_def snd_conv by (rule code_spent_upd) auto
  show "invites_wf d \<Longrightarrow> code_spent c d \<Longrightarrow> code_spent c (invite_other_step y d)" for c y d
  proof (cases y)
    case (Mint c' ex nt now)
    assume "code_spent c d"
    then show ?thesis
      by (auto simp: Mint code_spent_def invite_other_step_def insert_invite_code_def Let_def)
  next
    case (Revoke c' now)
    assume "code_spent c d"
    then show ?thesis
      unfolding Revoke invite_other_step_def revoke_invite_code_def invite_other.case snd_conv
      by (rule code_spent_upd) auto
  qed
  show "invites_wf d \<Longrightarrow> invites_wf (snd (redeem_at c x d))" for c x d
    by (simp add: invites_wf_def redeem_at_def redeem_invite_code_def map_upd_key)
  show "invites_wf d \<Longrightarrow> invites_wf (invite_other_step y d)" for y d
    by (cases y) (auto simp: invites_wf_def invite_other_step_def insert_invite_code_def Let_def
        revoke_invite_code_def map_upd_key list_ex_iff)
qed

text \<open>An invite code admits at most one registration, whatever redemptions, mints and revocations
  are interleaved.\<close>

theorem invite_single_use:
  assumes "invites_wf d"
  shows "invites.wins c es d \<le> 1"
  using assms by (rule invites.wins_at_most_once)

lemma invite_single_use_witness:
  "invites.wins ''h'' [Inr (Mint ''h'' None None 1), Inl (''h'', ''a@x'', 2), Inl (''h'', ''b@x'', 3)] empty_db \<le> 1"
  by (rule invite_single_use) (simp add: invites_wf_def empty_db_def)

section \<open>Every operation keeps the mirror well-formed\<close>

lemma upsert_list_messages [simp]:
  "db_messages (upsert_folders_from_list names u su now d) = db_messages d"
proof (induction names arbitrary: d)
  case (Cons name names)
  obtain i d1 where g: "get_or_create_folder name u now d = (i, d1)" by fastforce
  then have "db_messages d1 = db_messages d" using get_or_create_messages [of name u now d] by simp
  then show ?case using g Cons by (simp add: Let_def split: option.splits)
qed simp

text \<open>Folder ids are unique and below their counter, a tenant has one row per folder name and a
  folder one row per UID; every operation on the mirror keeps this.\<close>

theorem mirror_wf_preserved:
  assumes "mirror_wf d"
  shows "mirror_wf (snd (get_or_create_folder n u now d))
    \<and> mirror_wf (snd (update_folder_stats n u ex rec uidv uidn uns now d))
    \<and> mirror_wf (upsert_folders_from_list names u su now d)
    \<and> mirror_wf (upsert_message f uid sq fl sj sd dt sz mid now d)
    \<and> mirror_wf (snd (restore_from_snapshot i now d))
    \<and> mirror_wf (the_default d (apply_optimistic_flag_update f s add rem now d))
    \<and> mirror_wf (the_default d (remove_messages_from_folder f s d))"
proof (intro conjI)
  have wf: "folders_wf d" "messages_wf d" using assms by (auto simp: mirror_wf_def)
  have cong: "folders_wf d1 = folders_wf d2"
    if "db_folders d1 = db_folders d2" "db_folder_seq d1 = db_folder_seq d2" for d1 d2
    using that by (simp add: folders_wf_def)
  show "mirror_wf (snd (get_or_create_folder n u now d))"
    using folders_wf_get_or_create [OF wf(1)] wf(2) by (simp add: mirror_wf_def messages_wf_def)
  show "mirror_wf (snd (update_folder_stats n u ex rec uidv uidn uns now d))"
    using folders_wf_stats [OF wf(1)] wf(2) by (simp add: mirror_wf_def messages_wf_def)
  show "mirror_wf (upsert_folders_from_list names u su now d)"
    using folders_wf_upsert_list [OF wf(1)] wf(2) by (simp add: mirror_wf_def messages_wf_def)
  have "folders_wf (upsert_message f uid sq fl sj sd dt sz mid now d) = folders_wf d"
    by (rule cong) (auto simp: upsert_message_def)
  then show "mirror_wf (upsert_message f uid sq fl sj sd dt sz mid now d)"
    using wf messages_wf_upsert by (simp add: mirror_wf_def)
  have "folders_wf (snd (restore_from_snapshot i now d)) = folders_wf d"
    by (rule cong) (auto simp: restore_from_snapshot_def split: option.splits)
  then show "mirror_wf (snd (restore_from_snapshot i now d))"
    using wf messages_wf_restore by (simp add: mirror_wf_def)
  have "folders_wf (d\<lparr>db_messages := ms\<rparr>)" for ms
    by (subst cong [of _ d]) (simp_all add: wf(1))
  then have put: "mirror_wf (d\<lparr>db_messages := propose p ks (db_messages d)\<rparr>)" for p ks
    using wf(2) propose_keys [of "db_messages d" p ks] by (simp add: mirror_wf_def messages_wf_def)
  show "mirror_wf (the_default d (apply_optimistic_flag_update f s add rem now d))"
  proof (cases "get_messages_by_uid_set f s d")
    case None
    then show ?thesis using assms by (simp add: apply_optimistic_flag_update_def the_default_def)
  next
    case (Some rows)
    then show ?thesis using put optimistic_is_proposal [OF Some] by (simp add: the_default_def)
  qed
  show "mirror_wf (the_default d (remove_messages_from_folder f s d))"
  proof (cases "get_messages_by_uid_set f s d")
    case None
    then show ?thesis using assms by (simp add: remove_messages_from_folder_def the_default_def)
  next
    case (Some rows)
    then show ?thesis using put removal_is_proposal [OF Some] by (simp add: the_default_def)
  qed
qed

section \<open>Witnesses and boundaries\<close>

definition sample_message :: message_row where
  "sample_message =
     \<lparr>me_folder_id = 1, me_uid = 7, me_sequence_num = Some 2, me_message_id = Some ''<a@x>'',
      me_subject = Some ''Hi'', me_sender = Some ''bob@x'', me_date_sent = None, me_size = Some 90,
      me_flags = [''Seen''], me_last_updated = 10\<rparr>"

definition sample_op :: op_row where
  "sample_op =
     \<lparr>op_id = ''op_1'', op_created_at = 10, op_expires_at = 20, op_status = Pending, op_type = ''store'',
      op_protocol = ''imap'', op_imap_command = None, op_smtp_envelope = None, op_description = [],
      op_agent_id = Some 1, op_message_ids = Some [''7''], op_folder_from = Some ''INBOX'', op_folder_to = None,
      op_flags_add = None, op_flags_remove = None, op_snapshot = Some [snap_of sample_message],
      op_append_message = None, op_is_urgent = False, op_batch_id = None, op_intent_label = None,
      op_intent_confidence = None, op_decided_at = None, op_decided_by = None, op_executed_at = None,
      op_undo_expires_at = None, op_scheduled_execute_at = None, op_rejection_notified = False,
      op_body_scrubbed_at = None, op_error = None\<rparr>"

definition sample_db :: db where
  "sample_db = empty_db\<lparr>db_messages := [sample_message]\<rparr>"

lemma sample_snapshot: "snapshot_messages 1 ''7'' sample_db = Some [snap_of sample_message]"
  by code_simp

lemma mirror_wf_preserved_witness:
  "mirror_wf (upsert_message 1 7 None None None None None None None 5 empty_db)
    \<and> mirror_wf (snd (restore_from_snapshot ''op_1'' 5 empty_db))"
proof -
  have "mirror_wf empty_db" by (simp add: mirror_wf_def folders_wf_def messages_wf_def empty_db_def)
  from mirror_wf_preserved [OF this, where n = "[]" and u = None and now = 5 and ex = None
      and rec = None and uidv = None and uidn = None and uns = None and names = "[]"
      and su = Map.empty and f = 1 and uid = 7 and sq = None and fl = None and sj = None
      and sd = None and dt = None and sz = None and mid = None and i = "''op_1''" and s = "[]"
      and add = "[]" and rem = "[]"]
  show ?thesis by blast
qed

lemma sample_wf: "messages_wf sample_db"
  by (simp add: messages_wf_def sample_db_def)

lemma flag_change_reverts_witness:
  "mview (db_messages (snd (restore_from_snapshot ''op_1'' 12
     ((the (apply_optimistic_flag_update 1 ''7'' [''Flagged''] [''Seen''] 11 sample_db))\<lparr>db_ops := [sample_op]\<rparr>))))
   = mview (db_messages sample_db)"
proof (rule flag_change_reverts [OF sample_wf sample_snapshot, where r = sample_op])
  let ?d = "the (apply_optimistic_flag_update 1 ''7'' [''Flagged''] [''Seen''] 11 sample_db)"
  obtain rows where "get_messages_by_uid_set 1 ''7'' sample_db = Some rows"
    using sample_snapshot by (auto simp: snapshot_messages_def)
  then show "apply_optimistic_flag_update 1 ''7'' [''Flagged''] [''Seen''] 11 sample_db = Some ?d"
    by (simp add: optimistic_is_proposal)
qed (simp_all add: find_op_def has_op_def sample_op_def)

lemma removal_reverts_witness:
  "mview (db_messages (snd (restore_from_snapshot ''op_1'' 12
     ((the (remove_messages_from_folder 1 ''7'' sample_db))\<lparr>db_ops := [sample_op]\<rparr>))))
   = mview (db_messages sample_db)"
proof (rule removal_reverts [OF sample_wf sample_snapshot, where r = sample_op])
  let ?d = "the (remove_messages_from_folder 1 ''7'' sample_db)"
  obtain rows where "get_messages_by_uid_set 1 ''7'' sample_db = Some rows"
    using sample_snapshot by (auto simp: snapshot_messages_def)
  then show "remove_messages_from_folder 1 ''7'' sample_db = Some ?d"
    by (simp add: removal_is_proposal)
qed (simp_all add: find_op_def has_op_def sample_op_def)

lemma message_lookup_scoped_witness:
  "sample_message \<in> set (db_messages (sample_db\<lparr>db_folders := [new_folder 1 (Some 5) ''INBOX'' 3]\<rparr>)) \<and>
   folder_owner (sample_db\<lparr>db_folders := [new_folder 1 (Some 5) ''INBOX'' 3]\<rparr>) (me_folder_id sample_message) = Some (Some 5)"
  by (rule message_lookup_scoped [of "''a@x''"]) code_simp

definition sample_pending :: db where
  "sample_pending = insert_pending_reverts [revert_of ''op_1'' (snap_of sample_message)] 12 sample_db"

lemma reverts_delivered_once_witness:
  "get_pending_reverts 1 (mark_reverts_delivered (map rv_id (get_pending_reverts 1 sample_pending)) 13
       sample_pending) = []
    \<and> get_pending_reverts 2 (mark_reverts_delivered (map rv_id (get_pending_reverts 1 sample_pending)) 13
       sample_pending) = get_pending_reverts 2 sample_pending"
proof -
  have "reverts_wf sample_pending"
    unfolding sample_pending_def
    by (rule reverts_wf_insert) (simp add: reverts_wf_def sample_db_def empty_db_def)
  from reverts_delivered_once [OF this, of 1 13] show ?thesis by simp
qed

text \<open>The view does not include the Message-ID, and a rejected MOVE does lose it: the re-inserted row
  has none, so a later reply can no longer be matched to the message.\<close>

lemma move_revert_loses_message_id:
  "map me_message_id (restore_entries 12 [snap_of sample_message]
     (propose Removal [(1, 7)] [sample_message])) = [None]"
  by code_simp

text \<open>A pending MOVE of a comma set hides none of its messages, although the set expands to them.\<close>

lemma comma_set_not_pending:
  "\<not> entry_has_uid 3 ''1,3,5'' \<and> expand_uid_set ''1,3,5'' [1, 3, 5] = Some [1, 3, 5]
   \<and> \<not> entry_has_uid 3 ''5:1'' \<and> expand_uid_set ''5:1'' [1, 3, 5] = Some [1, 3, 5]"
  by code_simp

end
