(* ===== verification/Audit_Log.thy ===== *)
theory Audit_Log
  imports Db_Schema Interfaces
begin

text \<open>
  The hash-chained audit log (\<open>gateway/audit.py\<close>): insertion, verification, the chain head and
  the external anchors.  \<open>digest\<close> stands for SHA-256 and is a parameter: nothing is assumed of it,
  so tamper evidence is stated up to an explicit pair of colliding payloads.
\<close>

section \<open>JSON text of the detail column\<close>

definition hex_char :: "nat \<Rightarrow> char" where
  "hex_char n = (if n < 10 then char_of (48 + n) else char_of (87 + n))"

definition json_char :: "char \<Rightarrow> string" where
  "json_char c =
     (let n = code_pt c in
      if c = dquote \<or> c = bslash then [bslash, c]
      else if n = 10 then bslash # ''n'' else if n = 13 then bslash # ''r''
      else if n = 9 then bslash # ''t'' else if n = 8 then bslash # ''b''
      else if n = 12 then bslash # ''f''
      else if n < 32 then bslash # ''u00'' @ [hex_char (n div 16), hex_char (n mod 16)]
      else [c])"

definition json_str :: "string \<Rightarrow> string" where
  "json_str s = dquote # concat (map json_char s) @ [dquote]"

definition json_opt :: "('a \<Rightarrow> string) \<Rightarrow> 'a option \<Rightarrow> string" where
  "json_opt f v = (case v of Some x \<Rightarrow> f x | None \<Rightarrow> ''null'')"

definition json_obj :: "(string \<times> string) list \<Rightarrow> string" where
  "json_obj kvs = ''{'' @ py_join '', '' (map (\<lambda>(k, v). json_str k @ '': '' @ v) kvs) @ ''}''"

fun detail_text :: "detail \<Rightarrow> string" where
  "detail_text (D_error s) = json_obj [(''error'', json_str s)]"
| "detail_text (D_recipients n) = json_obj [(''recipient_count'', str_of_nat n)]"
| "detail_text (D_destination v us) =
     json_obj [(''dest_uidvalidity'', str_of_nat v), (''dest_uids'', json_str us)]"
| "detail_text (D_trash_fallback f) =
     json_obj [(''trash_fallback'', json_str ''no_move_capability''), (''trash_folder'', json_str f)]"
| "detail_text (D_rate used requested cap window) =
     json_obj [(''used'', str_of_nat used), (''requested'', str_of_nat requested),
               (''cap'', str_of_nat cap), (''window_seconds'', str_of_nat window)]"
| "detail_text (D_rule i descr) =
     json_obj [(''rule_id'', json_opt str_of_nat i), (''rule_description'', json_opt json_str descr)]"
| "detail_text (D_rule_delay i descr delay at) =
     json_obj [(''rule_id'', json_opt str_of_nat i), (''rule_description'', json_opt json_str descr),
               (''delay_seconds'', str_of_int delay), (''scheduled_execute_at'', str_of_int at)]"
| "detail_text (D_text s) = s"

section \<open>Entry hashes\<close>

abbreviation unit_sep :: char where
  "unit_sep \<equiv> CHR 0x1F"

definition GENESIS_HASH :: string where
  "GENESIS_HASH = replicate 64 (CHR ''0'')"

definition opt_text :: "('a \<Rightarrow> string) \<Rightarrow> 'a option \<Rightarrow> string" where
  "opt_text f v = (case v of Some x \<Rightarrow> f x | None \<Rightarrow> [])"

text \<open>The hashed fields of a row; the intent label is not among them.\<close>

record audit_fields =
  af_id :: nat
  af_timestamp :: int
  af_operation_id :: "string option"
  af_event :: string
  af_actor :: "string option"
  af_agent_id :: "nat option"
  af_op_type :: "string option"
  af_detail :: "detail option"
  af_user_id :: "nat option"

definition fields_text :: "audit_fields \<Rightarrow> string list" where
  "fields_text e =
     [str_of_nat (af_id e), str_of_int (af_timestamp e), opt_text id (af_operation_id e), af_event e,
      opt_text id (af_actor e), opt_text str_of_nat (af_agent_id e), opt_text id (af_op_type e),
      opt_text detail_text (af_detail e), opt_text str_of_nat (af_user_id e)]"

definition entry_payload :: "string \<Rightarrow> audit_fields \<Rightarrow> string" where
  "entry_payload prev_hash e = py_join [unit_sep] (prev_hash # fields_text e)"

definition hexdigest :: "nat list \<Rightarrow> string" where
  "hexdigest bs = concat (map (\<lambda>b. [hex_char (b div 16 mod 16), hex_char (b mod 16)]) bs)"

definition compute_entry_hash :: "(string \<Rightarrow> nat list) \<Rightarrow> string \<Rightarrow> audit_fields \<Rightarrow> string" where
  "compute_entry_hash digest prev_hash e = hexdigest (digest (entry_payload prev_hash e))"

definition fields_of :: "audit_row \<Rightarrow> audit_fields" where
  "fields_of r =
     \<lparr>af_id = au_id r, af_timestamp = au_timestamp r, af_operation_id = au_operation_id r,
      af_event = au_event r, af_actor = au_actor r, af_agent_id = au_agent_id r,
      af_op_type = au_op_type r, af_detail = au_detail r, af_user_id = au_user_id r\<rparr>"

section \<open>Insertion\<close>

record audit_event =
  ev_timestamp :: int
  ev_event :: string
  ev_actor :: "string option"
  ev_operation_id :: "string option"
  ev_agent_id :: "nat option"
  ev_op_type :: "string option"
  ev_detail :: "detail option"
  ev_user_id :: "nat option"
  ev_intent_label :: "string option"

definition hashed :: "audit_row list \<Rightarrow> (audit_row \<times> string) list" where
  "hashed rows = List.map_filter (\<lambda>r. map_option (\<lambda>h. (r, h)) (au_entry_hash r)) rows"

definition get_chain_head :: "db \<Rightarrow> string option" where
  "get_chain_head d = (case rev (hashed (db_audit d)) of [] \<Rightarrow> None | (r, h) # _ \<Rightarrow> Some h)"

definition read_prev_hash :: "db \<Rightarrow> string" where
  "read_prev_hash d = (case get_chain_head d of Some h \<Rightarrow> h | None \<Rightarrow> GENESIS_HASH)"

definition event_row :: "nat \<Rightarrow> string \<Rightarrow> audit_event \<Rightarrow> audit_row" where
  "event_row i prev_hash e =
     \<lparr>au_id = i, au_timestamp = ev_timestamp e, au_operation_id = ev_operation_id e,
      au_event = ev_event e, au_actor = ev_actor e, au_agent_id = ev_agent_id e,
      au_op_type = ev_op_type e, au_detail = ev_detail e, au_user_id = ev_user_id e,
      au_intent_label = ev_intent_label e, au_prev_hash = prev_hash, au_entry_hash = None\<rparr>"

text \<open>The insertion proper, once the previous hash has been read.\<close>

definition insert_with_prev :: "(string \<Rightarrow> nat list) \<Rightarrow> string \<Rightarrow> audit_event \<Rightarrow> db \<Rightarrow> db" where
  "insert_with_prev digest prev_hash e d =
     (let i = Suc (db_audit_seq d); r = event_row i prev_hash e
      in d\<lparr>db_audit := db_audit d @
              [r\<lparr>au_entry_hash := Some (compute_entry_hash digest prev_hash (fields_of r))\<rparr>],
           db_audit_seq := i\<rparr>)"

definition insert_audit_event :: "(string \<Rightarrow> nat list) \<Rightarrow> audit_event \<Rightarrow> db \<Rightarrow> db" where
  "insert_audit_event digest e d = insert_with_prev digest (read_prev_hash d) e d"

section \<open>Verification\<close>

datatype audit_error = Prev_mismatch nat | Hash_mismatch nat

fun verify_walk :: "(string \<Rightarrow> nat list) \<Rightarrow> string \<Rightarrow> (audit_row \<times> string) list \<Rightarrow> audit_error list" where
  "verify_walk digest expected_prev [] = []"
| "verify_walk digest expected_prev ((r, h) # rows) =
     (if au_prev_hash r \<noteq> expected_prev
      then Prev_mismatch (au_id r) # verify_walk digest h rows
      else (if compute_entry_hash digest (au_prev_hash r) (fields_of r) \<noteq> h
            then [Hash_mismatch (au_id r)] else [])
           @ verify_walk digest h rows)"

definition verify_rows :: "(string \<Rightarrow> nat list) \<Rightarrow> audit_row list \<Rightarrow> audit_error list" where
  "verify_rows digest rows =
     (case hashed rows of
        [] \<Rightarrow> []
      | (r, h) # rs \<Rightarrow> verify_walk digest (au_prev_hash r) ((r, h) # rs))"

definition verify_audit_chain :: "(string \<Rightarrow> nat list) \<Rightarrow> db \<Rightarrow> bool \<times> audit_error list" where
  "verify_audit_chain digest d =
     (verify_rows digest (db_audit d) = [], verify_rows digest (db_audit d))"

section \<open>Anchors\<close>

text \<open>The sink is an append-only file of lines; a torn or malformed line is \<open>None\<close>.\<close>

record anchor =
  an_anchored_at :: int
  an_chain_head :: string
  an_row_count :: nat

definition anchor_chain_head :: "int \<Rightarrow> db \<Rightarrow> anchor option list \<Rightarrow> anchor option list" where
  "anchor_chain_head now d sink =
     (case get_chain_head d of
        None \<Rightarrow> sink
      | Some h \<Rightarrow>
          sink @ [Some \<lparr>an_anchored_at = now, an_chain_head = h,
                        an_row_count = length (hashed (db_audit d))\<rparr>])"

definition read_last_anchor :: "anchor option list \<Rightarrow> anchor option" where
  "read_last_anchor sink =
     (case rev (List.map_filter id sink) of [] \<Rightarrow> None | a # _ \<Rightarrow> Some a)"

definition verify_against_anchor :: "anchor option list \<Rightarrow> db \<Rightarrow> bool" where
  "verify_against_anchor sink d =
     (case read_last_anchor sink of
        None \<Rightarrow> True
      | Some a \<Rightarrow> list_ex (\<lambda>r. au_entry_hash r = Some (an_chain_head a)) (db_audit d))"

text \<open>One pass of \<open>run_audit_verification_loop\<close>: the head is anchored only when both checks pass.\<close>

definition verification_pass ::
  "(string \<Rightarrow> nat list) \<Rightarrow> int \<Rightarrow> db \<Rightarrow> anchor option list \<Rightarrow> (bool \<times> nat) \<times> anchor option list" where
  "verification_pass digest now d sink =
     (let (ok, errors) = verify_audit_chain digest d;
          anchor_ok = verify_against_anchor sink d
      in ((ok \<and> anchor_ok, length errors + (if anchor_ok then 0 else 1)),
          if ok \<and> anchor_ok then anchor_chain_head now d sink else sink))"

section \<open>The log as a hash chain\<close>

definition good_hash :: "string \<Rightarrow> bool" where
  "good_hash h \<longleftrightarrow> unit_sep \<notin> set h"

lemma hex_char_good: "hex_char (n mod 16) \<noteq> unit_sep"
proof -
  have "n mod 16 < 16" by simp
  then have "code_pt (hex_char (n mod 16)) \<noteq> 31" by (auto simp: hex_char_def)
  then show ?thesis by (auto simp: code_pt_def)
qed

lemma hexdigest_good [simp]: "good_hash (hexdigest bs)"
  using hex_char_good by (fastforce simp: good_hash_def hexdigest_def)

lemma genesis_good [simp]: "good_hash GENESIS_HASH"
  by (simp add: good_hash_def GENESIS_HASH_def)

lemma append_sep_eq:
  "c \<notin> set xs \<Longrightarrow> c \<notin> set ys \<Longrightarrow> xs @ c # zs = ys @ c # ws \<longleftrightarrow> xs = ys \<and> zs = ws"
proof (induction xs arbitrary: ys)
  case Nil
  then show ?case by (cases ys) auto
next
  case (Cons x xs)
  then show ?case by (cases ys) auto
qed

lemma payload_prev_hash:
  "good_hash h \<Longrightarrow> good_hash h' \<Longrightarrow> entry_payload h e = entry_payload h' e' \<Longrightarrow> h = h'"
  by (simp add: entry_payload_def fields_text_def good_hash_def append_sep_eq)

text \<open>The payload determines every covered field's text when no field contains the separator.\<close>

lemma py_join_inj:
  assumes "\<forall>w \<in> set ws. c \<notin> set w" "\<forall>w \<in> set vs. c \<notin> set w" "length ws = length vs"
    "py_join [c] ws = py_join [c] vs"
  shows "ws = vs"
  using assms(3,1,2,4)
proof (induction ws vs rule: list_induct2)
  case (Cons w ws v vs)
  then show ?case
    by (cases ws; cases vs) (auto simp: append_sep_eq)
qed simp

interpretation audit: hash_chain "\<lambda>p. hexdigest (digest p)" entry_payload good_hash
  for digest :: "string \<Rightarrow> nat list"
  by unfold_locales (auto intro: payload_prev_hash)



definition links :: "audit_row list \<Rightarrow> (string \<times> audit_fields \<times> string) list" where
  "links rows = map (\<lambda>(r, h). (au_prev_hash r, fields_of r, h)) (hashed rows)"

definition first_prev :: "audit_row list \<Rightarrow> string" where
  "first_prev rows = (case hashed rows of [] \<Rightarrow> GENESIS_HASH | (r, h) # _ \<Rightarrow> au_prev_hash r)"

lemma verify_walk_linked:
  "verify_walk digest p rs = [] \<longleftrightarrow>
     audit.linked digest p (map (\<lambda>(r, h). (au_prev_hash r, fields_of r, h)) rs)"
  by (induction digest p rs rule: verify_walk.induct) (auto simp: compute_entry_hash_def)

lemma verify_rows_linked:
  "verify_rows digest rows = [] \<longleftrightarrow> audit.linked digest (first_prev rows) (links rows)"
proof (cases "hashed rows")
  case Nil
  then show ?thesis by (simp add: verify_rows_def links_def)
next
  case (Cons a rs)
  obtain r h where "a = (r, h)" by fastforce
  with Cons show ?thesis
    using verify_walk_linked [of digest "au_prev_hash r" "(r, h) # rs"]
    by (simp add: verify_rows_def links_def first_prev_def del: verify_walk.simps)
qed

lemma hashed_simps [simp]:
  "hashed [] = []"
  "hashed (rows @ rows') = hashed rows @ hashed rows'"
  "hashed [r] = (case au_entry_hash r of None \<Rightarrow> [] | Some h \<Rightarrow> [(r, h)])"
  by (simp_all add: hashed_def List.map_filter_def split: option.splits)

lemma links_simps [simp]:
  "links [] = []"
  "links (rows @ rows') = links rows @ links rows'"
  by (simp_all add: links_def)

lemma chain_head_links:
  "get_chain_head d = (if links (db_audit d) = [] then None else Some (audit.head h (links (db_audit d))))"
  by (cases "hashed (db_audit d)" rule: rev_cases)
    (auto simp: get_chain_head_def links_def audit.head_def split: prod.splits)

lemma read_prev_links:
  "links (db_audit d) \<noteq> [] \<Longrightarrow> read_prev_hash d = audit.head h (links (db_audit d))"
  "links (db_audit d) = [] \<Longrightarrow> read_prev_hash d = GENESIS_HASH"
  by (simp_all add: read_prev_hash_def chain_head_links [of d h])

lemma links_insert:
  "links (db_audit (insert_with_prev digest p e d)) = links (db_audit d) @
     [(p, fields_of (event_row (Suc (db_audit_seq d)) p e),
       compute_entry_hash digest p (fields_of (event_row (Suc (db_audit_seq d)) p e)))]"
  by (simp add: insert_with_prev_def Let_def links_def event_row_def fields_of_def)

lemma first_prev_links: "links rows \<noteq> [] \<Longrightarrow> first_prev rows = fst (hd (links rows))"
  by (auto simp: first_prev_def links_def split: list.splits)

lemma first_prev_nil: "links rows = [] \<Longrightarrow> first_prev rows = GENESIS_HASH"
  by (auto simp: first_prev_def links_def split: list.splits)

lemma insert_keeps_verified:
  assumes "fst (verify_audit_chain digest d)"
  shows "fst (verify_audit_chain digest (insert_audit_event digest e d))"
proof -
  have ok: "audit.linked digest (first_prev (db_audit d)) (links (db_audit d))"
    using assms by (simp add: verify_audit_chain_def verify_rows_linked)
  show ?thesis
  proof (cases "links (db_audit d) = []")
    case True
    then show ?thesis
      by (simp add: verify_audit_chain_def verify_rows_linked insert_audit_event_def links_insert
          first_prev_links read_prev_links(2) compute_entry_hash_def)
  next
    case False
    then have "first_prev (db_audit (insert_audit_event digest e d)) = first_prev (db_audit d)"
      by (simp add: first_prev_links insert_audit_event_def links_insert)
    then show ?thesis using ok False
      by (simp add: verify_audit_chain_def verify_rows_linked insert_audit_event_def links_insert
          audit.linked_append read_prev_links(1) [OF False, of "first_prev (db_audit d)"]
          compute_entry_hash_def)
  qed
qed

text \<open>Appending an event keeps the log verified, whatever the event and the digest function.\<close>

theorem audit_insert_verifies:
  assumes "fst (verify_audit_chain digest d)"
  shows "fst (verify_audit_chain digest (insert_audit_event digest e d))"
  using assms by (rule insert_keeps_verified)

lemma audit_insert_verifies_witness:
  "fst (verify_audit_chain (\<lambda>p. [length p])
     (insert_audit_event (\<lambda>p. [length p]) \<lparr>ev_timestamp = 5, ev_event = ''staged'', ev_actor = Some ''ai_agent'',
        ev_operation_id = Some ''op_1'', ev_agent_id = Some 1, ev_op_type = Some ''move'', ev_detail = None,
        ev_user_id = None, ev_intent_label = None\<rparr> empty_db))"
  by (rule audit_insert_verifies) (simp add: verify_audit_chain_def verify_rows_def empty_db_def)

text \<open>The text covered by the chain, oldest row first.\<close>

definition covered :: "audit_row list \<Rightarrow> string list" where
  "covered rows = map (\<lambda>(r, h). entry_payload (au_prev_hash r) (fields_of r)) (hashed rows)"

lemma covered_payloads: "covered rows = audit.payloads (links rows)"
  by (simp add: covered_def audit.payloads_def links_def split_def comp_def)

text \<open>C14: tamper evidence.  Two verified logs with the same chain head cover the same rows backwards
  from that head, or else two different payloads with equal digests are among them: a row can be
  neither altered nor removed from the middle without breaking verification, moving the head or
  finding a collision.\<close>

theorem audit_tamper_evident:
  assumes "fst (verify_audit_chain digest d)" "fst (verify_audit_chain digest d')"
    and "get_chain_head d = Some h" "get_chain_head d' = Some h"
    and "good_hash (first_prev (db_audit d))" "good_hash (first_prev (db_audit d'))"
  shows "suffix (covered (db_audit d)) (covered (db_audit d'))
    \<or> suffix (covered (db_audit d')) (covered (db_audit d))
    \<or> (\<exists>x \<in> set (covered (db_audit d)). \<exists>y \<in> set (covered (db_audit d')).
         x \<noteq> y \<and> hexdigest (digest x) = hexdigest (digest y))"
proof -
  let ?f = "first_prev (db_audit d)" and ?f' = "first_prev (db_audit d')"
  have ne: "links (db_audit d) \<noteq> []" "links (db_audit d') \<noteq> []"
    using assms(3,4) chain_head_links by (metis option.distinct(1))+
  have hd: "audit.head ?f (links (db_audit d)) = audit.head ?f' (links (db_audit d'))"
    using assms(3,4) chain_head_links [of d ?f] chain_head_links [of d' ?f'] ne by simp
  have "audit.colliding digest (covered (db_audit d)) (covered (db_audit d'))
      \<or> suffix (covered (db_audit d)) (covered (db_audit d'))
      \<or> suffix (covered (db_audit d')) (covered (db_audit d))"
    unfolding covered_payloads
    by (rule audit.same_head_agree [of digest ?f _ ?f'])
      (use assms(1,2,5,6) ne hd in \<open>simp_all add: verify_audit_chain_def verify_rows_linked\<close>)
  then show ?thesis by (auto simp: audit.colliding_def)
qed

section \<open>Truncation\<close>

lemma entry_payload_id:
  assumes "good_hash p" "good_hash p'" "af_id e \<noteq> af_id e'"
  shows "entry_payload p e \<noteq> entry_payload p' e'"
proof
  assume "entry_payload p e = entry_payload p' e'"
  moreover have "unit_sep \<notin> set (str_of_nat n)" for n
  proof -
    have "\<not> is_digit unit_sep" by code_simp
    then show ?thesis using str_of_nat_all_digits [of n] by (auto simp: list_all_iff)
  qed
  ultimately have "str_of_nat (af_id e) = str_of_nat (af_id e')"
    using assms(1,2) by (simp add: entry_payload_def fields_text_def good_hash_def append_sep_eq)
  then have "nat_of_str (str_of_nat (af_id e)) = nat_of_str (str_of_nat (af_id e'))" by simp
  then show False using assms(3) by simp
qed

lemma mem_hashed: "(r, h) \<in> set (hashed rows) \<longleftrightarrow> r \<in> set rows \<and> au_entry_hash r = Some h"
  by (auto simp: hashed_def List.map_filter_def image_iff)

lemma last_anchor_after: "get_chain_head d = Some h \<Longrightarrow>
    map_option an_chain_head (read_last_anchor (anchor_chain_head now d sink)) = Some h"
  by (simp add: anchor_chain_head_def read_last_anchor_def List.map_filter_def)

text \<open>Dropping the newest rows of a verified log leaves a log that still verifies, so the chain
  alone cannot show it; the external anchor of the old head does, unless two covered payloads have
  equal digests.\<close>

theorem tail_truncation_anchored:
  assumes "fst (verify_audit_chain digest d)" "good_hash (first_prev (db_audit d))"
    and "db_audit d = keep @ lost @ [r]" "au_entry_hash r = Some h" "distinct (map au_id (db_audit d))"
  shows "fst (verify_audit_chain digest (d\<lparr>db_audit := keep\<rparr>))
    \<and> (\<not> verify_against_anchor (anchor_chain_head now d sink) (d\<lparr>db_audit := keep\<rparr>)
       \<or> (\<exists>x \<in> set (covered (db_audit d)). \<exists>y \<in> set (covered (db_audit d)).
            x \<noteq> y \<and> hexdigest (digest x) = hexdigest (digest y)))"
proof (rule conjI)
  have ok: "audit.linked digest (first_prev (db_audit d)) (links (db_audit d))"
    using assms(1) by (simp add: verify_audit_chain_def verify_rows_linked)
  then have "audit.linked digest (first_prev (db_audit d)) (links keep)"
    by (rule audit.linked_prefix) (simp add: assms(3))
  moreover have "links keep \<noteq> [] \<Longrightarrow> first_prev keep = first_prev (db_audit d)"
    by (simp add: first_prev_links assms(3))
  ultimately show "fst (verify_audit_chain digest (d\<lparr>db_audit := keep\<rparr>))"
    by (cases "links keep = []") (simp_all add: verify_audit_chain_def verify_rows_linked)
  have head: "get_chain_head d = Some h"
    using assms(4) by (simp add: get_chain_head_def assms(3))
  have entry: "h' = hexdigest (digest (entry_payload (au_prev_hash q) (fields_of q))) \<and> good_hash (au_prev_hash q)"
    if "q \<in> set (db_audit d)" "au_entry_hash q = Some h'" for q h'
  proof -
    have "(q, h') \<in> set (hashed (db_audit d))" using that by (simp add: mem_hashed)
    then have "(au_prev_hash q, fields_of q, h') \<in> set (links (db_audit d))"
      by (force simp: links_def)
    then show ?thesis by (rule audit.linked_entry [OF ok assms(2)])
  qed
  show "\<not> verify_against_anchor (anchor_chain_head now d sink) (d\<lparr>db_audit := keep\<rparr>)
       \<or> (\<exists>x \<in> set (covered (db_audit d)). \<exists>y \<in> set (covered (db_audit d)).
            x \<noteq> y \<and> hexdigest (digest x) = hexdigest (digest y))"
  proof (cases "verify_against_anchor (anchor_chain_head now d sink) (d\<lparr>db_audit := keep\<rparr>)")
    case True
    then obtain q where q: "q \<in> set keep" "au_entry_hash q = Some h"
      using last_anchor_after [OF head, of now sink]
      by (auto simp: verify_against_anchor_def list_ex_iff split: option.splits)
    let ?x = "entry_payload (au_prev_hash q) (fields_of q)"
    let ?y = "entry_payload (au_prev_hash r) (fields_of r)"
    have mem: "q \<in> set (db_audit d)" "r \<in> set (db_audit d)" using q(1) by (auto simp: assms(3))
    have "au_id q \<in> au_id ` set keep" using q(1) by simp
    then have "au_id q \<noteq> au_id r" using assms(5) by (auto simp: assms(3))
    then have "?x \<noteq> ?y"
      using entry [OF mem(1) q(2)] entry [OF mem(2) assms(4)]
      by (intro entry_payload_id) (auto simp: fields_of_def)
    moreover have "hexdigest (digest ?x) = hexdigest (digest ?y)"
      using entry [OF mem(1) q(2)] entry [OF mem(2) assms(4)] by simp
    moreover have "?x \<in> set (covered (db_audit d))" "?y \<in> set (covered (db_audit d))"
      using mem q(2) assms(4) mem_hashed by (force simp: covered_def)+
    ultimately show ?thesis by blast
  qed simp
qed

text \<open>Dropping the oldest rows is seen by neither check: verification takes the first remaining
  row's previous hash as it is, and the anchored head is still there.\<close>

lemma head_truncation_undetected:
  assumes "fst (verify_audit_chain digest d)" "db_audit d = lost @ keep" "hashed keep \<noteq> []"
  shows "fst (verify_audit_chain digest (d\<lparr>db_audit := keep\<rparr>))
    \<and> verify_against_anchor (anchor_chain_head now d sink) (d\<lparr>db_audit := keep\<rparr>)"
proof (rule conjI)
  have ne: "links keep \<noteq> []" using assms(3) by (simp add: links_def)
  have "audit.linked digest (first_prev (db_audit d)) (links lost @ links keep)"
    using assms(1,2) by (simp add: verify_audit_chain_def verify_rows_linked)
  then have "audit.linked digest (fst (hd (links keep))) (links keep)"
    using ne by (rule audit.linked_suffix)
  then show "fst (verify_audit_chain digest (d\<lparr>db_audit := keep\<rparr>))"
    using ne by (simp add: verify_audit_chain_def verify_rows_linked first_prev_links)
  obtain r h where last: "last (hashed keep) = (r, h)" by fastforce
  then have "(r, h) \<in> set (hashed keep)" using assms(3) last_in_set by metis
  then have r: "r \<in> set keep" "au_entry_hash r = Some h" by (auto simp: mem_hashed)
  have "get_chain_head d = Some h"
    using last assms(3) by (cases "hashed keep" rule: rev_cases) (auto simp: get_chain_head_def assms(2))
  then show "verify_against_anchor (anchor_chain_head now d sink) (d\<lparr>db_audit := keep\<rparr>)"
    using last_anchor_after [of d h now sink] r
    by (auto simp: verify_against_anchor_def list_ex_iff split: option.splits)
qed

text \<open>The insertion lock is per process.  Two processes that read the same previous hash fork the
  chain: unless the first entry's hash repeats its own previous hash, verification then reports it.\<close>

lemma concurrent_insert_forks:
  assumes "fst (verify_audit_chain digest d)"
    and "prev_hash = read_prev_hash d" "d1 = insert_with_prev digest prev_hash e1 d"
    and "read_prev_hash d1 \<noteq> prev_hash"
  shows "\<not> fst (verify_audit_chain digest (insert_with_prev digest prev_hash e2 d1))"
proof
  assume "fst (verify_audit_chain digest (insert_with_prev digest prev_hash e2 d1))"
  then have "audit.linked digest (first_prev (db_audit (insert_with_prev digest prev_hash e2 d1)))
      (links (db_audit d1) @ [(prev_hash, fields_of (event_row (Suc (db_audit_seq d1)) prev_hash e2),
         compute_entry_hash digest prev_hash (fields_of (event_row (Suc (db_audit_seq d1)) prev_hash e2)))])"
    by (simp add: verify_audit_chain_def verify_rows_linked links_insert)
  then have "prev_hash = audit.head
      (first_prev (db_audit (insert_with_prev digest prev_hash e2 d1))) (links (db_audit d1))"
    by (simp add: audit.linked_append)
  moreover have "links (db_audit d1) \<noteq> []" by (simp add: assms(3) links_insert)
  ultimately show False using assms(4) read_prev_links(1) by metis
qed

section \<open>Witnesses\<close>

definition sample_event :: "int \<Rightarrow> audit_event" where
  "sample_event t =
     \<lparr>ev_timestamp = t, ev_event = ''staged'', ev_actor = Some ''ai_agent'', ev_operation_id = Some ''op_1'',
      ev_agent_id = Some 1, ev_op_type = Some ''move'', ev_detail = None, ev_user_id = None,
      ev_intent_label = None\<rparr>"

definition sample_digest :: "string \<Rightarrow> nat list" where
  "sample_digest p = [length p]"

definition sample_log :: db where
  "sample_log = insert_audit_event sample_digest (sample_event 12)
     (insert_audit_event sample_digest (sample_event 5) empty_db)"

lemma sample_log_facts:
  "fst (verify_audit_chain sample_digest sample_log)"
  "first_prev (db_audit sample_log) = GENESIS_HASH"
  "length (db_audit sample_log) = 2"
  "map au_id (db_audit sample_log) = [1, 2]"
  "get_chain_head sample_log = Some (the (get_chain_head sample_log))"
  "au_entry_hash (db_audit sample_log ! 1) = get_chain_head sample_log"
  by code_simp+

lemma audit_tamper_evident_witness:
  "suffix (covered (db_audit sample_log)) (covered (db_audit sample_log))
    \<or> suffix (covered (db_audit sample_log)) (covered (db_audit sample_log))
    \<or> (\<exists>x \<in> set (covered (db_audit sample_log)). \<exists>y \<in> set (covered (db_audit sample_log)).
         x \<noteq> y \<and> hexdigest (sample_digest x) = hexdigest (sample_digest y))"
  by (rule audit_tamper_evident [where h = "the (get_chain_head sample_log)"])
    (rule sample_log_facts | simp add: sample_log_facts(2))+

lemma tail_truncation_anchored_witness:
  "fst (verify_audit_chain sample_digest (sample_log\<lparr>db_audit := [db_audit sample_log ! 0]\<rparr>))
    \<and> (verify_against_anchor (anchor_chain_head 20 sample_log []) (sample_log\<lparr>db_audit := [db_audit sample_log ! 0]\<rparr>) = False
       \<or> (\<exists>x \<in> set (covered (db_audit sample_log)). \<exists>y \<in> set (covered (db_audit sample_log)).
            x \<noteq> y \<and> hexdigest (sample_digest x) = hexdigest (sample_digest y)))"
proof -
  have "db_audit sample_log = [db_audit sample_log ! 0] @ [] @ [db_audit sample_log ! 1]"
    using sample_log_facts(3) by (cases "db_audit sample_log"; cases "tl (db_audit sample_log)") auto
  moreover have "au_entry_hash (db_audit sample_log ! 1) = Some (the (get_chain_head sample_log))"
    using sample_log_facts(5,6) by simp
  moreover have "good_hash (first_prev (db_audit sample_log))" "distinct (map au_id (db_audit sample_log))"
    by (simp_all add: sample_log_facts)
  ultimately show ?thesis
    using tail_truncation_anchored [OF sample_log_facts(1), of "[db_audit sample_log ! 0]" "[]"
        "db_audit sample_log ! 1" "the (get_chain_head sample_log)" 20 "[]"]
    by blast
qed

end
