(* ===== verification/Rate_Limiter.thy ===== *)
theory Rate_Limiter
  imports Audit_Log State_Db
begin

text \<open>
  The outbound send limiter (\<open>gateway/send_rate_limiter.py\<close>).  Messages are counted from the
  audit log: per agent in a rolling window, and per account in the same window and per day.  A
  count query that fails is \<open>None\<close> and refuses the send.
\<close>

section \<open>Configuration\<close>

record send_rate_config =
  rc_max_per_window :: nat
  rc_window_seconds :: nat
  rc_account_max_per_window :: nat
  rc_account_max_per_day :: nat

definition int_env :: "(string \<rightharpoonup> string) \<Rightarrow> string \<Rightarrow> nat \<Rightarrow> nat" where
  "int_env env name dflt =
     (case env name of
        None \<Rightarrow> dflt
      | Some raw \<Rightarrow>
          if py_strip raw = [] then dflt
          else (case py_int raw of
                  None \<Rightarrow> dflt
                | Some v \<Rightarrow> if v < 0 then dflt else nat v))"

definition load_send_rate_config :: "(string \<rightharpoonup> string) \<Rightarrow> send_rate_config" where
  "load_send_rate_config env =
     \<lparr>rc_max_per_window = int_env env ''NUVRAIL_SEND_MAX_PER_WINDOW'' 100,
      rc_window_seconds = max 1 (int_env env ''NUVRAIL_SEND_WINDOW_SECONDS'' 3600),
      rc_account_max_per_window = int_env env ''NUVRAIL_ACCOUNT_SEND_MAX_PER_WINDOW'' 300,
      rc_account_max_per_day = int_env env ''NUVRAIL_ACCOUNT_SEND_MAX_PER_DAY'' 1000\<rparr>"

definition DAY_SECONDS :: nat where
  "DAY_SECONDS = 86400"

section \<open>Counting\<close>

definition send_weight :: "audit_row \<Rightarrow> nat" where
  "send_weight r = (case au_detail r of Some (D_recipients n) \<Rightarrow> n | _ \<Rightarrow> 1)"

definition is_send :: "audit_row \<Rightarrow> bool" where
  "is_send r \<longleftrightarrow> au_event r = ''executed'' \<and> au_op_type r = Some ''smtp_send''"

definition count_recent_sends :: "nat option \<Rightarrow> int \<Rightarrow> db \<Rightarrow> nat" where
  "count_recent_sends agent_id since_ts d =
     sum_list (map send_weight
       (filter (\<lambda>r. is_send r \<and> au_agent_id r = agent_id \<and> au_timestamp r \<ge> since_ts) (db_audit d)))"

definition agent_owner :: "nat option \<Rightarrow> db \<Rightarrow> nat option" where
  "agent_owner agent_id d =
     (case agent_id of
        None \<Rightarrow> None
      | Some a \<Rightarrow> map_option ag_user_id (List.find (\<lambda>r. ag_id r = a) (db_agents d)))"

definition count_recent_sends_for_user :: "nat \<Rightarrow> int \<Rightarrow> db \<Rightarrow> nat" where
  "count_recent_sends_for_user user_id since_ts d =
     sum_list (map send_weight
       (filter (\<lambda>r. is_send r \<and> agent_owner (au_agent_id r) d = Some user_id
                    \<and> au_timestamp r \<ge> since_ts) (db_audit d)))"

section \<open>Enforcement\<close>

record rate_exceeded =
  rx_used :: int
  rx_requested :: nat
  rx_cap :: nat
  rx_window_seconds :: nat
  rx_scope :: string

definition check_ceiling ::
  "string \<Rightarrow> nat \<Rightarrow> nat \<Rightarrow> (int \<Rightarrow> nat option) \<Rightarrow> nat \<Rightarrow> int \<Rightarrow> rate_exceeded option" where
  "check_ceiling scope cap window_seconds counter requested now =
     (if cap = 0 then None
      else case counter (now - int window_seconds) of
        None \<Rightarrow> Some \<lparr>rx_used = -1, rx_requested = requested, rx_cap = cap,
                     rx_window_seconds = window_seconds, rx_scope = scope\<rparr>
      | Some used \<Rightarrow>
          if used + requested > cap
          then Some \<lparr>rx_used = int used, rx_requested = requested, rx_cap = cap,
                     rx_window_seconds = window_seconds, rx_scope = scope\<rparr>
          else None)"

definition or_else :: "'a option \<Rightarrow> 'a option \<Rightarrow> 'a option" where
  "or_else x y = (case x of Some _ \<Rightarrow> x | None \<Rightarrow> y)"

text \<open>The three ceilings over given counters; \<open>None\<close> admits the send.\<close>

definition enforce_with ::
  "(int \<Rightarrow> nat option) \<Rightarrow> nat option \<Rightarrow> (nat \<Rightarrow> int \<Rightarrow> nat option) \<Rightarrow> send_rate_config \<Rightarrow> nat \<Rightarrow> int
     \<Rightarrow> rate_exceeded option" where
  "enforce_with agent_counter owner user_counter cfg recipient_count now =
     (let requested = max 1 recipient_count in
      or_else (check_ceiling ''agent'' (rc_max_per_window cfg) (rc_window_seconds cfg)
                 agent_counter requested now)
        (case owner of
           None \<Rightarrow> None
         | Some u \<Rightarrow>
             or_else (check_ceiling ''account'' (rc_account_max_per_window cfg) (rc_window_seconds cfg)
                        (user_counter u) requested now)
               (check_ceiling ''account-daily'' (rc_account_max_per_day cfg) DAY_SECONDS
                  (user_counter u) requested now)))"

definition enforce_send_rate ::
  "send_rate_config \<Rightarrow> nat option \<Rightarrow> nat \<Rightarrow> int \<Rightarrow> db \<Rightarrow> rate_exceeded option" where
  "enforce_send_rate cfg agent_id recipient_count now d =
     enforce_with (\<lambda>since. Some (count_recent_sends agent_id since d)) (agent_owner agent_id d)
       (\<lambda>u since. Some (count_recent_sends_for_user u since d)) cfg recipient_count now"

section \<open>The limiter as a rolling-window gate\<close>

text \<open>A send attempt; when admitted, execution relays it and logs the recipient count.\<close>

record send_event =
  sv_agent :: "nat option"
  sv_recipients :: nat
  sv_time :: int

definition executed_event :: "send_event \<Rightarrow> audit_event" where
  "executed_event e =
     \<lparr>ev_timestamp = sv_time e, ev_event = ''executed'', ev_actor = Some ''human'',
      ev_operation_id = None, ev_agent_id = sv_agent e, ev_op_type = Some ''smtp_send'',
      ev_detail = Some (D_recipients (sv_recipients e)), ev_user_id = None, ev_intent_label = None\<rparr>"

definition log_send :: "(string \<Rightarrow> nat list) \<Rightarrow> send_event \<Rightarrow> db \<Rightarrow> db" where
  "log_send digest e d = insert_audit_event digest (executed_event e) d"

definition admit_send :: "send_rate_config \<Rightarrow> send_event \<Rightarrow> db \<Rightarrow> bool" where
  "admit_send cfg e d \<longleftrightarrow> enforce_send_rate cfg (sv_agent e) (sv_recipients e) (sv_time e) d = None"

lemma insert_audit_agents [simp]:
  "db_agents (insert_audit_event digest e d) = db_agents d"
  by (simp add: insert_audit_event_def insert_with_prev_def Let_def)

lemma insert_audit_rows:
  "\<exists>p h. db_audit (insert_audit_event digest e d)
     = db_audit d @ [(event_row (Suc (db_audit_seq d)) p e)\<lparr>au_entry_hash := h\<rparr>]"
  by (auto simp: insert_audit_event_def insert_with_prev_def Let_def)

lemma agent_owner_cong: "db_agents d = db_agents d' \<Longrightarrow> agent_owner a d = agent_owner a d'"
  by (simp add: agent_owner_def split: option.splits)

lemma check_ceiling_None:
  "check_ceiling scope cap w counter requested now = None \<Longrightarrow> cap > 0 \<Longrightarrow>
     \<exists>used. counter (now - int w) = Some used \<and> used + requested \<le> cap"
  by (auto simp: check_ceiling_def split: option.splits if_splits)

lemma or_else_None: "or_else x y = None \<longleftrightarrow> x = None \<and> y = None"
  by (auto simp: or_else_def split: option.splits)

definition agent_cost :: "nat option \<Rightarrow> send_event \<Rightarrow> db \<Rightarrow> nat" where
  "agent_cost a e d = (if sv_agent e = a then sv_recipients e else 0)"

definition user_cost :: "nat \<Rightarrow> send_event \<Rightarrow> db \<Rightarrow> nat" where
  "user_cost u e d = (if agent_owner (sv_agent e) d = Some u then sv_recipients e else 0)"

lemma sum_filter_antimono:
  "(\<And>r. P r \<Longrightarrow> Q r) \<Longrightarrow> sum_list (map f (filter P rows)) \<le> sum_list (map (f :: _ \<Rightarrow> nat) (filter Q rows))"
  by (induction rows) (auto intro: trans_le_add2)

lemma count_agent_log_send:
  "count_recent_sends a s (log_send digest e d) \<le> count_recent_sends a s d + agent_cost a e d"
proof -
  obtain p h where "db_audit (log_send digest e d)
      = db_audit d @ [(event_row (Suc (db_audit_seq d)) p (executed_event e))\<lparr>au_entry_hash := h\<rparr>]"
    using insert_audit_rows unfolding log_send_def by blast
  then show ?thesis
    by (simp add: count_recent_sends_def agent_cost_def send_weight_def event_row_def executed_event_def)
qed

lemma count_user_log_send:
  "count_recent_sends_for_user u s (log_send digest e d) \<le> count_recent_sends_for_user u s d + user_cost u e d"
proof -
  obtain p h where rows: "db_audit (log_send digest e d)
      = db_audit d @ [(event_row (Suc (db_audit_seq d)) p (executed_event e))\<lparr>au_entry_hash := h\<rparr>]"
    using insert_audit_rows unfolding log_send_def by blast
  have "agent_owner a (log_send digest e d) = agent_owner a d" for a
    by (rule agent_owner_cong) (simp add: log_send_def)
  with rows show ?thesis
    by (simp add: count_recent_sends_for_user_def user_cost_def send_weight_def event_row_def
        executed_event_def)
qed

interpretation agent_window: window_limit "\<lambda>d s. count_recent_sends a s d" "log_send digest" "admit_send cfg"
    sv_time "agent_cost a" "rc_max_per_window cfg" "int (rc_window_seconds cfg)"
  for a :: "nat option" and digest :: "string \<Rightarrow> nat list" and cfg :: send_rate_config
proof
  fix e l
  assume "0 < rc_max_per_window cfg" "admit_send cfg e l" "0 < agent_cost a e l"
  then show "count_recent_sends a (sv_time e - int (rc_window_seconds cfg)) l + agent_cost a e l
      \<le> rc_max_per_window cfg"
    by (auto simp: admit_send_def enforce_send_rate_def enforce_with_def Let_def or_else_None
        agent_cost_def dest!: check_ceiling_None split: if_splits)
next
  show "count_recent_sends a s (log_send digest e l) \<le> count_recent_sends a s l + agent_cost a e l" for e l s
    by (rule count_agent_log_send)
  show "s \<le> s' \<Longrightarrow> count_recent_sends a s' l \<le> count_recent_sends a s l" for s s' l
    unfolding count_recent_sends_def by (rule sum_filter_antimono) auto
qed

interpretation account_window: window_limit "\<lambda>d s. count_recent_sends_for_user u s d" "log_send digest"
    "admit_send cfg" sv_time "user_cost u" "rc_account_max_per_window cfg" "int (rc_window_seconds cfg)"
  for u :: nat and digest :: "string \<Rightarrow> nat list" and cfg :: send_rate_config
proof
  fix e l
  assume "0 < rc_account_max_per_window cfg" "admit_send cfg e l" "0 < user_cost u e l"
  then show "count_recent_sends_for_user u (sv_time e - int (rc_window_seconds cfg)) l + user_cost u e l
      \<le> rc_account_max_per_window cfg"
    by (auto simp: admit_send_def enforce_send_rate_def enforce_with_def Let_def or_else_None
        user_cost_def dest!: check_ceiling_None split: if_splits)
next
  show "count_recent_sends_for_user u s (log_send digest e l)
      \<le> count_recent_sends_for_user u s l + user_cost u e l" for e l s
    by (rule count_user_log_send)
  show "s \<le> s' \<Longrightarrow> count_recent_sends_for_user u s' l \<le> count_recent_sends_for_user u s l" for s s' l
    unfolding count_recent_sends_for_user_def by (rule sum_filter_antimono) auto
qed

interpretation account_day: window_limit "\<lambda>d s. count_recent_sends_for_user u s d" "log_send digest"
    "admit_send cfg" sv_time "user_cost u" "rc_account_max_per_day cfg" "int DAY_SECONDS"
  for u :: nat and digest :: "string \<Rightarrow> nat list" and cfg :: send_rate_config
proof
  fix e l
  assume "0 < rc_account_max_per_day cfg" "admit_send cfg e l" "0 < user_cost u e l"
  then show "count_recent_sends_for_user u (sv_time e - int DAY_SECONDS) l + user_cost u e l
      \<le> rc_account_max_per_day cfg"
    by (auto simp: admit_send_def enforce_send_rate_def enforce_with_def Let_def or_else_None
        user_cost_def dest!: check_ceiling_None split: if_splits)
next
  show "count_recent_sends_for_user u s (log_send digest e l)
      \<le> count_recent_sends_for_user u s l + user_cost u e l" for e l s
    by (rule count_user_log_send)
  show "s \<le> s' \<Longrightarrow> count_recent_sends_for_user u s' l \<le> count_recent_sends_for_user u s l" for s s' l
    unfolding count_recent_sends_for_user_def by (rule sum_filter_antimono) auto
qed

section \<open>Properties\<close>


text \<open>A ceiling that is switched off or whose count could be read and leaves room.\<close>

definition fits :: "nat \<Rightarrow> nat \<Rightarrow> (int \<Rightarrow> nat option) \<Rightarrow> nat \<Rightarrow> int \<Rightarrow> bool" where
  "fits cap w counter n now \<longleftrightarrow>
     cap = 0 \<or> (case counter (now - int w) of None \<Rightarrow> False | Some used \<Rightarrow> used + max 1 n \<le> cap)"

lemma check_ceiling_fits:
  "check_ceiling scope cap w counter (max 1 n) now = None \<longleftrightarrow> fits cap w counter n now"
  by (auto simp: check_ceiling_def fits_def split: option.splits)


text \<open>Switching off the agent ceiling does not switch off the limiter.\<close>

lemma agent_cap_zero_still_limits:
  "enforce_with (\<lambda>_. Some 0) (Some 1) (\<lambda>_ _. Some 300)
     \<lparr>rc_max_per_window = 0, rc_window_seconds = 3600, rc_account_max_per_window = 300,
      rc_account_max_per_day = 1000\<rparr> 1 5000 \<noteq> None"
  by (simp add: enforce_with_def check_ceiling_def or_else_def)

definition sample_send :: "int \<Rightarrow> send_event" where
  "sample_send t = \<lparr>sv_agent = Some 1, sv_recipients = 2, sv_time = t\<rparr>"


end
