(* ===== verification/Agent_Auth.thy ===== *)
theory Agent_Auth
  imports Db_Schema Utf8
begin

text \<open>
  Agent authentication (\<open>gateway/agent_auth.py\<close>): the SASL PLAIN payload, the active credential of
  an agent, and the login check.  \<open>verify_pw\<close> stands for bcrypt's comparison and is a parameter.
\<close>

section \<open>Base64\<close>

definition b64_val :: "char \<Rightarrow> nat option" where
  "b64_val c =
     (let n = code_pt c in
      if 65 \<le> n \<and> n \<le> 90 then Some (n - 65)
      else if 97 \<le> n \<and> n \<le> 122 then Some (n - 71)
      else if 48 \<le> n \<and> n \<le> 57 then Some (n + 4)
      else if n = 43 then Some 62
      else if n = 47 then Some 63
      else None)"

text \<open>
  \<open>base64.b64decode\<close> without validation: characters outside the alphabet are skipped, padding that
  completes a group ends the input, and an incomplete last group raises.  \<open>quad\<close> is the position in
  the group of four, \<open>left\<close> the bits carried over, \<open>pads\<close> the padding seen since the last character.
\<close>

fun b64_scan :: "nat \<Rightarrow> nat \<Rightarrow> nat \<Rightarrow> string \<Rightarrow> string option" where
  "b64_scan quad left pads [] = (if quad = 0 then Some [] else None)"
| "b64_scan quad left pads (c # s) =
     (if c = CHR ''='' then
        (if quad \<ge> 2 then (if quad + Suc pads \<ge> 4 then Some [] else b64_scan quad left (Suc pads) s)
         else b64_scan quad left pads s)
      else case b64_val c of
        None \<Rightarrow> b64_scan quad left pads s
      | Some v \<Rightarrow>
          (if quad = 0 then b64_scan 1 v 0 s
           else if quad = 1 then
             map_option (Cons (char_of (left * 4 + v div 16))) (b64_scan 2 (v mod 16) 0 s)
           else if quad = 2 then
             map_option (Cons (char_of (left * 16 + v div 4))) (b64_scan 3 (v mod 4) 0 s)
           else map_option (Cons (char_of (left * 64 + v))) (b64_scan 0 0 0 s)))"

definition b64decode :: "string \<Rightarrow> string option" where
  "b64decode s = (if list_ex (\<lambda>c. code_pt c \<ge> 128) s then None else b64_scan 0 0 0 s)"

text \<open>The fields of the decoded payload, decoded as text.\<close>

definition sasl_fields :: "string \<Rightarrow> (string \<times> string) option" where
  "sasl_fields raw =
     (case py_split_on (CHR 0x00) raw of
        authzid # authcid # passwd # _ \<Rightarrow> Some (py_decode authcid, py_decode passwd)
      | _ \<Rightarrow> None)"

text \<open>A payload given as text; as bytes, characters outside ASCII are skipped like any other.\<close>

definition decode_sasl_plain :: "string \<Rightarrow> (string \<times> string) option" where
  "decode_sasl_plain payload = (case b64decode payload of None \<Rightarrow> None | Some raw \<Rightarrow> sasl_fields raw)"

definition decode_sasl_plain_bytes :: "string \<Rightarrow> (string \<times> string) option" where
  "decode_sasl_plain_bytes payload =
     (case b64_scan 0 0 0 payload of None \<Rightarrow> None | Some raw \<Rightarrow> sasl_fields raw)"

section \<open>Credentials\<close>

definition user_active :: "db \<Rightarrow> nat \<Rightarrow> bool" where
  "user_active d u \<longleftrightarrow>
     list_ex (\<lambda>r. us_id r = u \<and> us_suspended_at r = None \<and> us_deleted_at r = None) (db_users d)"

definition agent_active :: "db \<Rightarrow> agent_row \<Rightarrow> bool" where
  "agent_active d a \<longleftrightarrow> ag_revoked_at a = None \<and> user_active d (ag_user_id a)"

definition get_agent_credential :: "nat option \<Rightarrow> bool \<Rightarrow> db \<Rightarrow> agent_row option" where
  "get_agent_credential agent_id require_active d =
     (case agent_id of
        None \<Rightarrow> None
      | Some i \<Rightarrow> List.find (\<lambda>a. ag_id a = i \<and> (require_active \<longrightarrow> agent_active d a)) (db_agents d))"

definition verify_agent_login ::
  "(string \<Rightarrow> string \<Rightarrow> bool) \<Rightarrow> string \<Rightarrow> string \<Rightarrow> db \<Rightarrow> agent_row option" where
  "verify_agent_login verify_pw agent_user agent_token d =
     (if agent_user = [] then None
      else case List.find (\<lambda>a. ag_agent_username a = agent_user \<and> agent_active d a) (db_agents d) of
        None \<Rightarrow> None
      | Some a \<Rightarrow> if verify_pw agent_token (ag_hashed_token a) then Some a else None)"

section \<open>Encoding and decoding\<close>

definition b64_char :: "nat \<Rightarrow> char" where
  "b64_char v = char_of (if v < 26 then v + 65 else if v < 52 then v + 71 else if v < 62 then v - 4
     else if v = 62 then 43 else 47)"

definition b64_quad :: "nat \<Rightarrow> nat \<Rightarrow> nat \<Rightarrow> string" where
  "b64_quad a b c =
     [b64_char (a div 4), b64_char (a mod 4 * 16 + b div 16), b64_char (b mod 16 * 4 + c div 64),
      b64_char (c mod 64)]"

fun b64encode :: "string \<Rightarrow> string" where
  "b64encode [] = []"
| "b64encode [a] = take 2 (b64_quad (code_pt a) 0 0) @ ''==''"
| "b64encode [a, b] = take 3 (b64_quad (code_pt a) (code_pt b) 0) @ ''=''"
| "b64encode (a # b # c # s) = b64_quad (code_pt a) (code_pt b) (code_pt c) @ b64encode s"

lemma b64_char_val:
  assumes "v < 64"
  shows "b64_val (b64_char v) = Some v" "b64_char v \<noteq> CHR ''=''" "code_pt (b64_char v) < 128"
proof -
  have pt: "code_pt (b64_char v) = (if v < 26 then v + 65 else if v < 52 then v + 71 else if v < 62 then v - 4
     else if v = 62 then 43 else 47)"
    using assms by (simp add: b64_char_def)
  have "code_pt (CHR ''='') = 61" by (simp add: code_pt_def)
  with pt show "b64_char v \<noteq> CHR ''=''" by (auto split: if_splits)
  show "code_pt (b64_char v) < 128" using pt by (simp split: if_splits)
  show "b64_val (b64_char v) = Some v" using assms by (auto simp: b64_val_def Let_def pt)
qed

lemma b64_scan_step:
  assumes "b64_val c = Some v" "c \<noteq> CHR ''=''"
  shows "b64_scan quad l p (c # s) =
     (if quad = 0 then b64_scan 1 v 0 s
      else if quad = 1 then map_option (Cons (char_of (l * 4 + v div 16))) (b64_scan 2 (v mod 16) 0 s)
      else if quad = 2 then map_option (Cons (char_of (l * 16 + v div 4))) (b64_scan 3 (v mod 4) 0 s)
      else map_option (Cons (char_of (l * 64 + v))) (b64_scan 0 0 0 s))"
  by (simp only: b64_scan.simps assms if_False option.case)

lemma b64_scan_char:
  assumes "v < 64"
  shows "b64_scan 0 l p (b64_char v # s) = b64_scan 1 v 0 s"
    and "b64_scan 1 l p (b64_char v # s)
     = map_option (Cons (char_of (l * 4 + v div 16))) (b64_scan 2 (v mod 16) 0 s)"
    and "b64_scan 2 l p (b64_char v # s)
     = map_option (Cons (char_of (l * 16 + v div 4))) (b64_scan 3 (v mod 4) 0 s)"
    and "b64_scan 3 l p (b64_char v # s) = map_option (Cons (char_of (l * 64 + v))) (b64_scan 0 0 0 s)"
  unfolding b64_scan_step [OF b64_char_val(1) [OF assms] b64_char_val(2) [OF assms]] by auto

lemma b64_scan_pad: "b64_scan 2 l 0 ''=='' = Some []" "b64_scan 3 l 0 ''='' = Some []"
  by simp_all

lemma div_mod_glue:
  fixes a b k m :: nat
  assumes "b < m * k" "0 < k" "0 < m"
  shows "(a * m + b div k) div m = a" "(a * m + b div k) mod m = b div k"
proof -
  have "b div k < m" using assms by (simp add: less_mult_imp_div_less)
  then show "(a * m + b div k) div m = a" "(a * m + b div k) mod m = b div k" by simp_all
qed

lemma b64_groups:
  fixes a b c :: nat
  assumes "a < 256" "b < 256" "c < 256"
  shows "a div 4 < 64" "a mod 4 * 16 + b div 16 < 64" "b mod 16 * 4 + c div 64 < 64" "c mod 64 < 64"
    "a div 4 * 4 + (a mod 4 * 16 + b div 16) div 16 = a"
    "(a mod 4 * 16 + b div 16) mod 16 * 16 + (b mod 16 * 4 + c div 64) div 4 = b"
    "(b mod 16 * 4 + c div 64) mod 4 * 64 + c mod 64 = c"
proof -
  have lt: "a mod 4 < 4" "b mod 16 < 16" "b div 16 < 16" "c div 64 < 4" "c mod 64 < 64"
    using assms by auto
  then show "a div 4 < 64" "a mod 4 * 16 + b div 16 < 64" "b mod 16 * 4 + c div 64 < 64" "c mod 64 < 64"
    using assms by linarith+
  show "a div 4 * 4 + (a mod 4 * 16 + b div 16) div 16 = a"
    using div_mod_glue(1) [where a = "a mod 4" and b = b and k = 16 and m = 16] assms by simp
  show "(a mod 4 * 16 + b div 16) mod 16 * 16 + (b mod 16 * 4 + c div 64) div 4 = b"
    using div_mod_glue(2) [where a = "a mod 4" and b = b and k = 16 and m = 16] div_mod_glue(1) [where a = "b mod 16" and b = c and k = 64 and m = 4] assms
    by simp
  show "(b mod 16 * 4 + c div 64) mod 4 * 64 + c mod 64 = c"
    using div_mod_glue(2) [where a = "b mod 16" and b = c and k = 64 and m = 4] assms by simp
qed

lemma b64_scan_group:
  assumes "v0 < 64" "v1 < 64" "v2 < 64" "v3 < 64"
    and "v0 * 4 + v1 div 16 = code_pt a" "v1 mod 16 * 16 + v2 div 4 = code_pt b"
      "v2 mod 4 * 64 + v3 = code_pt c"
  shows "b64_scan 0 0 p ([b64_char v0, b64_char v1, b64_char v2, b64_char v3] @ s)
      = map_option (\<lambda>r. a # b # c # r) (b64_scan 0 0 0 s)"
    and "b64_scan 0 0 p ([b64_char v0, b64_char v1, b64_char v2] @ ''='') = Some [a, b]"
    and "b64_scan 0 0 p ([b64_char v0, b64_char v1] @ ''=='') = Some [a]"
  unfolding append.simps b64_scan_char [OF assms(1)] b64_scan_char [OF assms(2)]
    b64_scan_char [OF assms(3)] b64_scan_char [OF assms(4)] b64_scan_pad assms(5-7) char_of_code_pt
    option.map option.map_comp comp_def
  by (rule refl)+

lemma b64_roundtrip: "b64_scan 0 0 p (b64encode s) = Some s"
proof (induction s arbitrary: p rule: b64encode.induct)
  case (2 a)
  have "code_pt (CHR 0x00) = 0" by (simp add: code_pt_def)
  then show ?case
    using b64_scan_group(3) [OF b64_groups [of "code_pt a" "code_pt (CHR 0x00)" "code_pt (CHR 0x00)"]]
    by (simp add: b64_quad_def del: b64_scan.simps)
next
  case (3 a b)
  have "code_pt (CHR 0x00) = 0" by (simp add: code_pt_def)
  then show ?case
    using b64_scan_group(2) [OF b64_groups [of "code_pt a" "code_pt b" "code_pt (CHR 0x00)"]]
    by (simp add: b64_quad_def numeral_3_eq_3 del: b64_scan.simps)
next
  case (4 a b c s)
  then show ?case
    using b64_scan_group(1) [OF b64_groups [of "code_pt a" "code_pt b" "code_pt c"], of p "b64encode s"]
    by (simp add: b64_quad_def del: b64_scan.simps)
qed simp

lemma b64encode_ascii: "c \<in> set (b64encode s) \<Longrightarrow> code_pt c < 128"
proof (induction s rule: b64encode.induct)
  case (2 a)
  then show ?case using b64_groups [of "code_pt a" 0 0]
    by (auto simp: b64_quad_def b64_char_val) (simp add: code_pt_def)
next
  case (3 a b)
  then show ?case using b64_groups [of "code_pt a" "code_pt b" 0]
    by (auto simp: b64_quad_def b64_char_val) (simp add: code_pt_def)
next
  case (4 a b c s)
  then show ?case using b64_groups [of "code_pt a" "code_pt b" "code_pt c"]
    by (auto simp: b64_quad_def b64_char_val)
qed simp

lemma split_char_sep:
  "d \<notin> set w \<Longrightarrow> split_char d cur (w @ d # s) = (cur @ w) # split_char d [] s"
  "d \<notin> set w \<Longrightarrow> split_char d cur w = [cur @ w]"
  by (induction w arbitrary: cur) auto

section \<open>Properties\<close>

text \<open>A SASL PLAIN payload built from an authorization id, a user name and a password decodes back
  to that user name and password, as far as they are text in UTF-8, whatever bytes the authorization id
  holds.\<close>

theorem sasl_plain_roundtrip:
  assumes "CHR 0x00 \<notin> set authzid" "CHR 0x00 \<notin> set user" "CHR 0x00 \<notin> set password"
  shows "decode_sasl_plain (b64encode (authzid @ CHR 0x00 # user @ CHR 0x00 # password))
    = Some (py_decode user, py_decode password)"
proof -
  have "\<not> list_ex (\<lambda>c. code_pt c \<ge> 128) (b64encode s)" for s
    using b64encode_ascii [of _ s] by (auto simp: list_ex_iff not_le)
  then show ?thesis
    using assms
    by (simp add: decode_sasl_plain_def b64decode_def b64_roundtrip sasl_fields_def py_split_on_def split_char_sep)
qed

lemma sasl_plain_roundtrip_witness:
  "decode_sasl_plain (b64encode ([] @ CHR 0x00 # ''nuvrail_1a'' @ CHR 0x00 # ''s3cret=='')) = Some (''nuvrail_1a'', ''s3cret=='')"
proof -
  have "py_decode ''nuvrail_1a'' = ''nuvrail_1a''" "py_decode ''s3cret=='' = ''s3cret==''" by code_simp+
  then show ?thesis using sasl_plain_roundtrip [of "[]" "''nuvrail_1a''" "''s3cret==''"] by simp
qed

text \<open>Only a live account's live credential authenticates or executes: a login succeeds, and the
  execution path finds a credential, only for an agent that is not revoked and whose owner is
  neither suspended nor deleted; a login also needs the matching token.\<close>

theorem credential_active:
  "(verify_agent_login verify_pw user token d = Some a \<longrightarrow>
      ag_agent_username a = user \<and> verify_pw token (ag_hashed_token a)
      \<and> a \<in> set (db_agents d) \<and> ag_revoked_at a = None
      \<and> (\<exists>u \<in> set (db_users d). us_id u = ag_user_id a \<and> us_suspended_at u = None \<and> us_deleted_at u = None))
   \<and> (get_agent_credential i True d = Some a \<longrightarrow>
      i = Some (ag_id a) \<and> a \<in> set (db_agents d) \<and> ag_revoked_at a = None
      \<and> (\<exists>u \<in> set (db_users d). us_id u = ag_user_id a \<and> us_suspended_at u = None \<and> us_deleted_at u = None))"
  by (auto simp: verify_agent_login_def get_agent_credential_def agent_active_def user_active_def list_ex_iff
      split: if_splits option.splits dest!: find_Some_in)

lemma credential_active_witness:
  "ag_agent_username sample_agent = ''nuvrail_1a'' \<and> ag_revoked_at sample_agent = None"
proof -
  have "verify_agent_login (=) ''nuvrail_1a'' ''t0k'' sample_auth_db = Some sample_agent"
    by (simp add: sample_auth_db_def sample_agent_def sample_user_def empty_db_def verify_agent_login_def
        agent_active_def user_active_def)
  then show ?thesis
    using credential_active [where verify_pw = "(=)" and user = "''nuvrail_1a''" and token = "''t0k''"
        and d = sample_auth_db and a = sample_agent and i = None]
    by blast
qed

end
