(* ===== verification/Operations.thy ===== *)
theory Operations
  imports Mirror
begin

text \<open>
  The staged-operations table (\<open>gateway/staging.py\<close>): reading an operation or a list of them, with
  and without a tenant, and the one place that changes a status.
\<close>

section \<open>Reading\<close>

text \<open>The join with \<open>agent_credentials\<close> that scopes a query to a user.\<close>

definition op_owned :: "db \<Rightarrow> nat \<Rightarrow> op_row \<Rightarrow> bool" where
  "op_owned d u r \<longleftrightarrow>
     (case op_agent_id r of
        None \<Rightarrow> False
      | Some a \<Rightarrow> list_ex (\<lambda>g. ag_id g = a \<and> ag_user_id g = u) (db_agents d))"

definition op_in_scope :: "db \<Rightarrow> nat option \<Rightarrow> op_row \<Rightarrow> bool" where
  "op_in_scope d user_id r \<longleftrightarrow> (case user_id of None \<Rightarrow> True | Some u \<Rightarrow> op_owned d u r)"

definition get_operation :: "string \<Rightarrow> nat option \<Rightarrow> db \<Rightarrow> op_row option" where
  "get_operation i user_id d = List.find (\<lambda>r. has_op i r \<and> op_in_scope d user_id r) (db_ops d)"

definition list_operations :: "status option \<Rightarrow> nat option \<Rightarrow> nat option \<Rightarrow> db \<Rightarrow> op_row list" where
  "list_operations st agent_id user_id d =
     rev (sort_key op_created_at (rev (filter
       (\<lambda>r. op_in_scope d user_id r
          \<and> (case st of None \<Rightarrow> True | Some s \<Rightarrow> op_status r = s)
          \<and> (case agent_id of None \<Rightarrow> True | Some a \<Rightarrow> op_agent_id r = Some a))
       (db_ops d))))"

definition resolve_user_id_for_agent :: "nat option \<Rightarrow> db \<Rightarrow> nat option" where
  "resolve_user_id_for_agent agent_id d =
     (case agent_id of
        None \<Rightarrow> None
      | Some a \<Rightarrow> map_option ag_user_id (List.find (\<lambda>r. ag_id r = a) (db_agents d)))"

section \<open>Writing\<close>

definition set_status :: "status \<Rightarrow> string \<Rightarrow> string option \<Rightarrow> int \<Rightarrow> op_row \<Rightarrow> op_row" where
  "set_status st decided_by err now r =
     (let r' = r\<lparr>op_status := st, op_decided_at := Some now, op_decided_by := Some decided_by, op_error := err\<rparr>
      in if st = Executed then r'\<lparr>op_executed_at := Some now\<rparr> else r')"

definition update_operation_status ::
  "string \<Rightarrow> status \<Rightarrow> string \<Rightarrow> string option \<Rightarrow> int \<Rightarrow> db \<Rightarrow> db" where
  "update_operation_status i st decided_by err now d =
     d\<lparr>db_ops := upd (has_op i) (set_status st decided_by err now) (db_ops d)\<rparr>"

definition set_schedule_and_urgency :: "string \<Rightarrow> int option \<Rightarrow> bool option \<Rightarrow> db \<Rightarrow> db" where
  "set_schedule_and_urgency i scheduled_execute_at is_urgent d =
     (let set_sched = (\<lambda>r. case scheduled_execute_at of None \<Rightarrow> r
                             | Some t \<Rightarrow> r\<lparr>op_scheduled_execute_at := Some t\<rparr>);
          set_urg = (\<lambda>r. case is_urgent of None \<Rightarrow> r | Some b \<Rightarrow> r\<lparr>op_is_urgent := b\<rparr>)
      in if scheduled_execute_at = None \<and> is_urgent = None then d
         else d\<lparr>db_ops := upd (has_op i) (\<lambda>r. set_urg (set_sched r)) (db_ops d)\<rparr>)"

section \<open>Lemmas\<close>

lemma has_op_set_status [simp]: "has_op i (set_status st by err now r) = has_op i r"
  by (simp add: has_op_def set_status_def Let_def)

lemma set_status_simps [simp]:
  "op_id (set_status st by err now r) = op_id r"
  "op_status (set_status st by err now r) = st"
  "op_agent_id (set_status st by err now r) = op_agent_id r"
  "op_type (set_status st by err now r) = op_type r"
  "op_decided_by (set_status st by err now r) = Some by"
  "op_error (set_status st by err now r) = err"
  "op_executed_at (set_status Executed by err now r) = Some now"
  by (simp_all add: set_status_def Let_def)

lemma update_status_other [simp]:
  "db_audit (update_operation_status i st by err now d) = db_audit d"
  "db_audit_seq (update_operation_status i st by err now d) = db_audit_seq d"
  "db_agents (update_operation_status i st by err now d) = db_agents d"
  "db_users (update_operation_status i st by err now d) = db_users d"
  "db_messages (update_operation_status i st by err now d) = db_messages d"
  "db_folders (update_operation_status i st by err now d) = db_folders d"
  "db_reverts (update_operation_status i st by err now d) = db_reverts d"
  "db_revert_seq (update_operation_status i st by err now d) = db_revert_seq d"
  by (simp_all add: update_operation_status_def)

lemma find_op_update [simp]:
  "find_op i (update_operation_status j st by err now d)
     = map_option (\<lambda>r. if has_op j r then set_status st by err now r else r) (find_op i d)"
  unfolding find_op_def update_operation_status_def
  by (simp add: find_upd_key)

lemma ops_update_ids:
  "map op_id (db_ops (update_operation_status i st by err now d)) = map op_id (db_ops d)"
  unfolding update_operation_status_def by (simp add: map_upd_key)

lemma find_op_id: "find_op i d = Some r \<Longrightarrow> op_id r = i \<and> r \<in> set (db_ops d)"
  unfolding find_op_def by (drule find_Some_in) (simp add: has_op_def)

lemma get_operation_unscoped: "get_operation i None d = find_op i d"
  by (simp add: get_operation_def find_op_def op_in_scope_def)

lemma get_operation_find_op:
  "distinct (map op_id (db_ops d)) \<Longrightarrow> get_operation i u d = Some r \<Longrightarrow> find_op i d = Some r"
  unfolding get_operation_def find_op_def has_op_def
  using find_distinct_key [of op_id "db_ops d" r] by (auto dest!: find_Some_in)

section \<open>Properties\<close>

text \<open>An operation read on behalf of a user was staged by an agent of that user, and conversely
  the owner finds it: whatever other tenants stage, a scoped read of an id returns it exactly when
  it exists and is the user's own.\<close>

theorem operation_reads_scoped:
  assumes "distinct (map op_id (db_ops d))"
  shows "get_operation i (Some u) d = Some r \<longleftrightarrow>
      r \<in> set (db_ops d) \<and> op_id r = i
      \<and> (\<exists>a g. op_agent_id r = Some a \<and> g \<in> set (db_agents d) \<and> ag_id g = a \<and> ag_user_id g = u)"
    (is "?l \<longleftrightarrow> ?r")
proof -
  have owned: "op_in_scope d (Some u) r \<longleftrightarrow>
      (\<exists>a g. op_agent_id r = Some a \<and> g \<in> set (db_agents d) \<and> ag_id g = a \<and> ag_user_id g = u)" for r
    by (auto simp: op_in_scope_def op_owned_def list_ex_iff split: option.splits)
  show ?thesis
  proof
    assume ?l
    then show ?r unfolding get_operation_def
      by (drule_tac find_Some_in) (simp add: owned has_op_def)
  next
    assume r: ?r
    show ?l
    proof (cases "get_operation i (Some u) d")
      case None
      then show ?thesis using r by (auto simp: get_operation_def find_None_all has_op_def owned)
    next
      case (Some r')
      then have "r' \<in> set (db_ops d)" "op_id r' = i"
        unfolding get_operation_def by (auto dest!: find_Some_in simp: has_op_def)
      then have "r' = r" using r assms by (auto simp: distinct_map inj_on_def)
      then show ?thesis using Some by simp
    qed
  qed
qed

text \<open>A tenant's list holds exactly the operations its own agents staged, with the filters
  applied, newest first.\<close>

theorem list_operations_scoped:
  "set (list_operations st agent_id (Some u) d)
     = {r \<in> set (db_ops d). op_owned d u r \<and> st \<in> {None, Some (op_status r)}
         \<and> (agent_id = None \<or> agent_id = op_agent_id r)}
   \<and> sorted_wrt (\<lambda>x y. op_created_at x \<ge> op_created_at y) (list_operations st agent_id (Some u) d)"
proof (rule conjI)
  show "set (list_operations st agent_id (Some u) d)
     = {r \<in> set (db_ops d). op_owned d u r \<and> st \<in> {None, Some (op_status r)}
         \<and> (agent_id = None \<or> agent_id = op_agent_id r)}"
    by (cases st; cases agent_id) (auto simp: list_operations_def op_in_scope_def)
  have "sorted (map op_created_at (sort_key op_created_at xs))" for xs :: "op_row list"
    by simp
  then show "sorted_wrt (\<lambda>x y. op_created_at x \<ge> op_created_at y) (list_operations st agent_id (Some u) d)"
    unfolding list_operations_def sorted_wrt_rev sorted_wrt_map [symmetric] .
qed

lemma operation_reads_scoped_witness:
  "get_operation ''op_1'' (Some 1) (sample_auth_db\<lparr>db_ops := [sample_op]\<rparr>) = Some sample_op
   \<and> (get_operation ''op_1'' (Some 2) (sample_auth_db\<lparr>db_ops := [sample_op]\<rparr>) = Some sample_op) = False"
  using operation_reads_scoped [of "sample_auth_db\<lparr>db_ops := [sample_op]\<rparr>" "''op_1''" 1 sample_op]
    operation_reads_scoped [of "sample_auth_db\<lparr>db_ops := [sample_op]\<rparr>" "''op_1''" 2 sample_op]
  by (simp add: sample_auth_db_def empty_db_def sample_op_def sample_agent_def)

end
