(* ===== verification/Upstream.thy ===== *)
theory Upstream
  imports Regex Provider_Profiles Agent_Auth Rate_Limiter Operations
begin

text \<open>
  The upstream mail servers as the executor and undo see them (the shared helpers of
  \<open>gateway/execution.py\<close>): a run issues calls of the client libraries one after the other, every
  call gets a reply that may depend on all calls before it, and a call may raise.  The servers, the
  libraries, the secret store and the token manager are the fields of \<open>env\<close>.
\<close>

section \<open>Calls, replies and failures\<close>

datatype call =
    Connect string nat
  | Hello
  | Login string string
  | Xoauth2 string string
  | Capability
  | Select string
  | Uid_cmd string "string list"
  | Create string
  | Rename string string
  | Append string string "string option"
  | List_cmd string string
  | Logout
  | Smtp_connect string nat
  | Smtp_xoauth2 string string
  | Smtp_sendmail string "string list" "(string \<times> string) list" string
  | Smtp_send string nat string "string option" "string list" "(string \<times> string) list" string

datatype reply = Reply string "string list" | Raises string

datatype failure =
    Agent_blocked nat
  | No_fallback_host
  | Oauth_without_credential
  | Token_failed string
  | Auth_failed "string list"
  | No_password
  | Command_failed call "string list"
  | Missing string
  | Bad_body
  | Unsupported string
  | Library string
  | Rate_limited rate_exceeded
  | No_recipients
  | Relay_failed failure
  | Imap_failed failure
  | Undo_refused string

text \<open>
  The executor's surroundings.  \<open>env_quoted\<close> is aioimaplib's mailbox quoting, \<open>env_caps\<close> what that
  library has learnt of the server's capabilities, \<open>env_secret\<close> resolves a stored credential,
  \<open>env_token\<close> fetches an access token, \<open>env_parse_email\<close> and \<open>env_mime_text\<close> are the \<open>email\<close> package's
  parser (headers and payload) and plain-text message, \<open>env_flatten\<close> its generator, \<open>env_text\<close> a
  failure's message text.
\<close>

record env =
  env_server :: "call list \<Rightarrow> call \<Rightarrow> reply"
  env_caps :: "call list \<Rightarrow> string list"
  env_secret :: "string \<Rightarrow> failure + string"
  env_token :: "nat \<Rightarrow> failure + string \<times> string"
  env_quoted :: "string \<Rightarrow> string"
  env_parse_email :: "string \<Rightarrow> (string \<times> string) list \<times> string"
  env_mime_text :: "string \<Rightarrow> (string \<times> string) list \<times> string"
  env_flatten :: "(string \<times> string) list \<times> string \<Rightarrow> string"
  env_vars :: "string \<rightharpoonup> string"
  env_text :: "failure \<Rightarrow> string"
  env_digest :: "string \<Rightarrow> nat list"

text \<open>The calls issued so far, the capability set of the current connection, and the database.\<close>

record world =
  w_calls :: "call list"
  w_caps :: "string list"
  w_db :: db

type_synonym 'a act = "world \<Rightarrow> (failure + 'a) \<times> world"

section \<open>Sequencing\<close>

definition ret :: "'a \<Rightarrow> 'a act" where
  "ret x w = (Inr x, w)"

definition raise :: "failure \<Rightarrow> 'a act" where
  "raise e w = (Inl e, w)"

definition bindE :: "'a act \<Rightarrow> ('a \<Rightarrow> 'b act) \<Rightarrow> 'b act" where
  "bindE m f w = (case m w of (Inl e, w') \<Rightarrow> (Inl e, w') | (Inr x, w') \<Rightarrow> f x w')"

definition lift_res :: "failure + 'a \<Rightarrow> 'a act" where
  "lift_res r w = (r, w)"

definition on_db :: "(db \<Rightarrow> db) \<Rightarrow> unit act" where
  "on_db f w = (Inr (), w\<lparr>w_db := f (w_db w)\<rparr>)"

definition do_call :: "env \<Rightarrow> call \<Rightarrow> (string \<times> string list) act" where
  "do_call env c w =
     (let w' = w\<lparr>w_calls := w_calls w @ [c]\<rparr>
      in case env_server env (w_calls w) c of
           Reply st lines \<Rightarrow> (Inr (st, lines), w')
         | Raises m \<Rightarrow> (Inl (Library m), w'))"

text \<open>A call whose status must be OK; its response lines.\<close>

definition call_ok :: "env \<Rightarrow> call \<Rightarrow> (string list \<Rightarrow> failure) \<Rightarrow> string list act" where
  "call_ok env c err =
     bindE (do_call env c) (\<lambda>(st, lines). if st = ''OK'' then ret lines else raise (err lines))"

text \<open>\<open>try: ... except Exception: ...\<close>\<close>

definition catchE :: "'a act \<Rightarrow> (failure \<Rightarrow> 'a act) \<Rightarrow> 'a act" where
  "catchE m h w = (case m w of (Inl e, w') \<Rightarrow> h e w' | (Inr x, w') \<Rightarrow> (Inr x, w'))"

text \<open>The client object; its constructor only schedules the connection.\<close>

definition open_client :: "string \<Rightarrow> nat \<Rightarrow> unit act" where
  "open_client host port w = (Inr (), w\<lparr>w_calls := w_calls w @ [Connect host port], w_caps := []\<rparr>)"

text \<open>\<open>try: ... finally: logout\<close>, with whatever the logout raises suppressed.\<close>

definition with_logout :: "env \<Rightarrow> 'a act \<Rightarrow> 'a act" where
  "with_logout env m w = (case m w of (r, w') \<Rightarrow> (r, snd (do_call env Logout w')))"

definition has_capability :: "env \<Rightarrow> string \<Rightarrow> world \<Rightarrow> bool" where
  "has_capability env c w \<longleftrightarrow> c \<in> set (w_caps w) \<union> set (env_caps env (w_calls w))"

section \<open>Response codes\<close>

definition COPYUID_RE :: "rx list" where
  "COPYUID_RE = rx_ilit ''[COPYUID '' @ [Cap 1 rx_digits] @ rx_lit '' ''
     @ [Cap 2 (rx_some (\<lambda>c. is_digit c \<or> c = CHR '':'' \<or> c = CHR '',''))] @ rx_lit '' ''
     @ [Cap 3 (rx_some (\<lambda>c. is_digit c \<or> c = CHR '':'' \<or> c = CHR '',''))] @ rx_lit '']''"

definition UIDVALIDITY_RE :: "rx list" where
  "UIDVALIDITY_RE = rx_ilit ''[UIDVALIDITY '' @ [Cap 1 rx_digits] @ rx_lit '']''"

fun parse_uidvalidity :: "string list \<Rightarrow> nat option" where
  "parse_uidvalidity [] = None"
| "parse_uidvalidity (raw # lines) =
     (case re_search UIDVALIDITY_RE raw of
        Some g \<Rightarrow> Some (nat_of_str (rx_group g 1))
      | None \<Rightarrow> parse_uidvalidity lines)"

definition copyuid_codes :: "string list \<Rightarrow> (nat \<times> string) list" where
  "copyuid_codes lines =
     concat (map (\<lambda>raw. map (\<lambda>g. (nat_of_str (rx_group g 1), rx_group g 3)) (re_finditer COPYUID_RE raw)) lines)"

definition parse_copyuid :: "string list \<Rightarrow> (nat \<times> string) option" where
  "parse_copyuid lines =
     (case remdups (map fst (copyuid_codes lines)) of
        [v] \<Rightarrow> Some (v, py_join '','' (map snd (copyuid_codes lines)))
      | _ \<Rightarrow> None)"

definition move_destination_detail :: "string list \<Rightarrow> detail option" where
  "move_destination_detail lines = map_option (\<lambda>(v, uids). D_destination v uids) (parse_copyuid lines)"

section \<open>Credentials and login\<close>

record imap_credentials =
  cr_host :: string
  cr_port :: nat
  cr_user :: string
  cr_password :: "string option"
  cr_oauth2_provider :: "string option"
  cr_cred :: "agent_row option"

text \<open>A column that is NULL or the empty string is false to Python.\<close>

definition truthy :: "string option \<Rightarrow> bool" where
  "truthy s \<longleftrightarrow> s \<noteq> None \<and> s \<noteq> Some []"

definition or_empty :: "string option \<Rightarrow> string" where
  "or_empty s = (case s of Some t \<Rightarrow> t | None \<Rightarrow> [])"

definition fetch_opt :: "env \<Rightarrow> string option \<Rightarrow> string option act" where
  "fetch_opt env raw =
     (if truthy raw then bindE (lift_res (env_secret env (or_empty raw))) (\<lambda>p. ret (Some p)) else ret None)"

definition env_port :: "env \<Rightarrow> string \<Rightarrow> string \<Rightarrow> nat act" where
  "env_port env name dflt =
     (case py_int (case env_vars env name of Some v \<Rightarrow> v | None \<Rightarrow> dflt) of
        Some p \<Rightarrow> ret (nat p)
      | None \<Rightarrow> raise (Library ''invalid literal for int()''))"

definition resolve_imap_credentials :: "env \<Rightarrow> op_row \<Rightarrow> imap_credentials act" where
  "resolve_imap_credentials env row w =
     (let cred = get_agent_credential (op_agent_id row) True (w_db w);
          host = or_empty (env_vars env ''NUVRAIL_TEST_IMAP_HOST'')
      in case cred of
           Some c \<Rightarrow>
             bindE (fetch_opt env (ag_upstream_password c))
               (\<lambda>pw. ret \<lparr>cr_host = ag_upstream_host c, cr_port = ag_upstream_imap_port c,
                          cr_user = ag_upstream_user c, cr_password = pw,
                          cr_oauth2_provider = ag_oauth2_provider c, cr_cred = Some c\<rparr>) w
         | None \<Rightarrow>
             (case op_agent_id row of
                Some a \<Rightarrow> raise (Agent_blocked a) w
              | None \<Rightarrow>
                  if host = [] then raise No_fallback_host w
                  else bindE (env_port env ''NUVRAIL_TEST_IMAP_PORT'' ''993'')
                    (\<lambda>port. ret \<lparr>cr_host = host, cr_port = port,
                       cr_user = or_empty (env_vars env ''NUVRAIL_TEST_IMAP_USER''),
                       cr_password = Some (or_empty (env_vars env ''NUVRAIL_TEST_IMAP_PASS'')),
                       cr_oauth2_provider = None, cr_cred = None\<rparr>) w))"

definition py_contains :: "string \<Rightarrow> string \<Rightarrow> bool" where
  "py_contains s t \<longleftrightarrow> list_ex (\<lambda>i. py_startswith (drop i s) t) [0..<Suc (length s)]"

text \<open>\<open>xoauth2()\<close> leaves the capability set unset; it is seeded from the response, or asked for.\<close>

definition seed_capabilities :: "env \<Rightarrow> string list \<Rightarrow> unit act" where
  "seed_capabilities env lines w =
     (let w' = (case List.find (\<lambda>l. py_contains l ''CAPABILITY'') lines of
                  Some l \<Rightarrow> w\<lparr>w_caps := w_caps w @ py_split (py_strip (py_replace ''CAPABILITY'' [] l))\<rparr>
                | None \<Rightarrow> w)
      in if w_caps w' = [] \<and> env_caps env (w_calls w') = []
         then bindE (do_call env Capability) (\<lambda>_. ret ()) w'
         else ret () w')"

definition authenticate_upstream_imap :: "env \<Rightarrow> imap_credentials \<Rightarrow> unit act" where
  "authenticate_upstream_imap env creds =
     bindE (do_call env Hello) (\<lambda>_.
       if truthy (cr_oauth2_provider creds) then
         (case cr_cred creds of
            None \<Rightarrow> raise Oauth_without_credential
          | Some c \<Rightarrow>
              bindE (lift_res (env_token env (ag_id c))) (\<lambda>(email, tok).
              bindE (call_ok env (Xoauth2 email tok) Auth_failed) (\<lambda>lines.
              seed_capabilities env lines)))
       else if \<not> truthy (cr_password creds) then raise No_password
       else bindE (call_ok env (Login (cr_user creds) (or_empty (cr_password creds))) Auth_failed)
              (\<lambda>_. ret ()))"

section \<open>Reasoning about runs\<close>

text \<open>\<open>runs m Q w\<close>: the run of \<open>m\<close> from \<open>w\<close> ends in a result and a world that \<open>Q\<close> accepts.\<close>

definition runs :: "'a act \<Rightarrow> (failure + 'a \<Rightarrow> world \<Rightarrow> bool) \<Rightarrow> world \<Rightarrow> bool" where
  "runs m Q w \<longleftrightarrow> (case m w of (r, w') \<Rightarrow> Q r w')"

named_theorems run_simps \<open>weakest preconditions of the actions\<close>

lemma runs_basic [run_simps]:
  "runs (ret x) Q w = Q (Inr x) w"
  "runs (raise e) Q w = Q (Inl e) w"
  "runs (lift_res r) Q w = Q r w"
  by (simp_all add: runs_def ret_def raise_def lift_res_def)

lemma runs_unit [run_simps]:
  "runs (on_db f) Q w = Q (Inr ()) (w\<lparr>w_db := f (w_db w)\<rparr>)"
  "runs (open_client host port) Q w = Q (Inr ()) (w\<lparr>w_calls := w_calls w @ [Connect host port], w_caps := []\<rparr>)"
  by (simp_all add: runs_def on_db_def open_client_def)

lemma runs_bindE [run_simps]:
  "runs (bindE m f) Q w = runs m (\<lambda>r w'. case r of Inl e \<Rightarrow> Q (Inl e) w' | Inr x \<Rightarrow> runs (f x) Q w') w"
  by (auto simp: runs_def bindE_def split: prod.splits sum.splits)

lemma runs_catchE [run_simps]:
  "runs (catchE m h) Q w = runs m (\<lambda>r w'. case r of Inl e \<Rightarrow> runs (h e) Q w' | Inr x \<Rightarrow> Q (Inr x) w') w"
  by (auto simp: runs_def catchE_def split: prod.splits sum.splits)

lemma runs_do_call [run_simps]:
  "runs (do_call env c) Q w =
     (case env_server env (w_calls w) c of
        Reply st lines \<Rightarrow> Q (Inr (st, lines)) (w\<lparr>w_calls := w_calls w @ [c]\<rparr>)
      | Raises m \<Rightarrow> Q (Inl (Library m)) (w\<lparr>w_calls := w_calls w @ [c]\<rparr>))"
  by (auto simp: runs_def do_call_def Let_def split: reply.splits)

lemma runs_call_ok [run_simps]:
  "runs (call_ok env c err) Q w =
     (case env_server env (w_calls w) c of
        Reply st lines \<Rightarrow> Q (if st = ''OK'' then Inr lines else Inl (err lines)) (w\<lparr>w_calls := w_calls w @ [c]\<rparr>)
      | Raises m \<Rightarrow> Q (Inl (Library m)) (w\<lparr>w_calls := w_calls w @ [c]\<rparr>))"
  by (auto simp: call_ok_def run_simps split: reply.splits)

lemma runs_with_logout [run_simps]:
  "runs (with_logout env m) Q w = runs m (\<lambda>r w'. Q r (w'\<lparr>w_calls := w_calls w' @ [Logout]\<rparr>)) w"
  by (auto simp: runs_def with_logout_def do_call_def Let_def split: prod.splits reply.splits)

lemma runs_mono: "runs m Q w \<Longrightarrow> (\<And>r w'. Q r w' \<Longrightarrow> Q' r w') \<Longrightarrow> runs m Q' w"
  by (auto simp: runs_def split: prod.splits)

lemma runs_conj: "runs m Q w \<Longrightarrow> runs m Q' w \<Longrightarrow> runs m (\<lambda>r w'. Q r w' \<and> Q' r w') w"
  by (auto simp: runs_def)

lemma runs_result: "runs m Q w \<longleftrightarrow> Q (fst (m w)) (snd (m w))"
  by (simp add: runs_def split_beta)

text \<open>The calls that only open, authenticate or close a connection.\<close>

fun session_call :: "call \<Rightarrow> bool" where
  "session_call (Connect h p) = True"
| "session_call Hello = True"
| "session_call (Login u p) = True"
| "session_call (Xoauth2 u t) = True"
| "session_call Capability = True"
| "session_call Logout = True"
| "session_call _ = False"

text \<open>Logging in issues session calls only, and leaves the database alone.\<close>

lemma authenticate_runs:
  assumes "\<And>r w' cs. w_calls w' = w_calls w @ cs \<Longrightarrow> list_all session_call cs \<Longrightarrow> w_db w' = w_db w \<Longrightarrow> Q r w'"
  shows "runs (authenticate_upstream_imap env creds) Q w"
proof -
  have seed: "runs (seed_capabilities env lines) Q' w'" if "\<And>r w'' cs. w_calls w'' = w_calls w' @ cs \<Longrightarrow>
      list_all session_call cs \<Longrightarrow> w_db w'' = w_db w' \<Longrightarrow> Q' r w''" for lines Q' w'
    by (auto simp: runs_def seed_capabilities_def Let_def ret_def bindE_def do_call_def
        split: option.splits reply.splits intro!: that)
  show ?thesis
    by (auto simp: authenticate_upstream_imap_def run_simps split: option.splits reply.splits sum.splits prod.splits
        intro!: assms seed)
qed

lemma resolve_runs:
  assumes "\<And>r. (case r of
        Inl e \<Rightarrow> True
      | Inr c \<Rightarrow> (case get_agent_credential (op_agent_id row) True (w_db w) of
            Some a \<Rightarrow> cr_cred c = Some a \<and> cr_host c = ag_upstream_host a
          | None \<Rightarrow> op_agent_id row = None \<and> cr_cred c = None)) \<Longrightarrow> Q r w"
  shows "runs (resolve_imap_credentials env row) Q w"
  by (auto simp: runs_def resolve_imap_credentials_def Let_def bindE_def fetch_opt_def lift_res_def ret_def
      raise_def env_port_def split: option.splits sum.splits prod.splits intro!: assms)

section \<open>Carrying out a command\<close>

text \<open>Calls that change nothing in a mailbox.\<close>

fun quiet :: "call \<Rightarrow> bool" where
  "quiet (Select f) = True"
| "quiet c = session_call c"

lemma session_quiet: "session_call c \<Longrightarrow> quiet c"
  by (cases c) auto

text \<open>
  From the calls \<open>h\<close> to the calls \<open>h'\<close> a run issued quiet calls and at most one other, an allowed
  one; a run that succeeded issued it, and the server answered it OK.
\<close>

definition carried :: "env \<Rightarrow> (call \<Rightarrow> bool) \<Rightarrow> call list \<Rightarrow> bool \<Rightarrow> call list \<Rightarrow> bool" where
  "carried env allowed h succeeded h' \<longleftrightarrow>
     (\<exists>pre eff post. h' = h @ pre @ eff @ post \<and> list_all quiet pre \<and> list_all quiet post
        \<and> (eff = [] \<or> (\<exists>e. eff = [e] \<and> allowed e))
        \<and> (succeeded \<longrightarrow> (\<exists>e lines. eff = [e] \<and> env_server env (h @ pre) e = Reply ''OK'' lines)))"

lemma carried_none: "h' = h @ pre \<Longrightarrow> list_all quiet pre \<Longrightarrow> carried env allowed h False h'"
  unfolding carried_def by (intro exI [of _ pre] exI [of _ "[]"]) auto

lemma carried_failed:
  "h' = h @ pre @ [e] \<Longrightarrow> list_all quiet pre \<Longrightarrow> allowed e \<Longrightarrow> carried env allowed h False h'"
  unfolding carried_def by (intro exI [of _ pre] exI [of _ "[e]"] exI [of _ "[]"]) auto

lemma carried_done:
  "h' = h @ pre @ [e] \<Longrightarrow> list_all quiet pre \<Longrightarrow> allowed e \<Longrightarrow>
     env_server env (h @ pre) e = Reply ''OK'' lines \<Longrightarrow> carried env allowed h s h'"
  unfolding carried_def by (intro exI [of _ pre] exI [of _ "[e]"] exI [of _ "[]"]) auto

lemma carried_shift:
  assumes "carried env allowed h1 s h'" "h1 = h @ cs" "list_all quiet cs"
  shows "carried env allowed h s (h' @ [Logout])"
proof -
  from assms(1) obtain pre eff post where p:
    "h' = h1 @ pre @ eff @ post" "list_all quiet pre" "list_all quiet post"
    "eff = [] \<or> (\<exists>e. eff = [e] \<and> allowed e)"
    "s \<longrightarrow> (\<exists>e lines. eff = [e] \<and> env_server env (h1 @ pre) e = Reply ''OK'' lines)"
    unfolding carried_def by blast
  show ?thesis unfolding carried_def
    by (intro exI [of _ "cs @ pre"] exI [of _ eff] exI [of _ "post @ [Logout]"]) (use p assms(2,3) in auto)
qed

end
