(* ===== verification/Execution.thy ===== *)
theory Execution
  imports Upstream
begin

text \<open>
  The executor (\<open>gateway/execution.py\<close>): an approved operation is replayed on the upstream IMAP
  server or relayed through the upstream SMTP server, and its outcome is written to the
  operation's status and the audit log.  \<open>clk\<close> gives the readings of the clock.
\<close>

section \<open>IMAP replay\<close>

definition or_inbox :: "string option \<Rightarrow> string" where
  "or_inbox f = (if truthy f then or_empty f else ''INBOX'')"

definition uid_set_of :: "op_row \<Rightarrow> string" where
  "uid_set_of row =
     (case list_or_empty (op_message_ids row) of [] \<Rightarrow> ''1'' | ms \<Rightarrow> py_join '','' ms)"

definition flag_list :: "string list \<Rightarrow> string" where
  "flag_list fs = ''('' @ py_join '' '' fs @ '')''"

definition select_call :: "env \<Rightarrow> string \<Rightarrow> call" where
  "select_call env folder = Select (env_quoted env folder)"

definition checked :: "env \<Rightarrow> call \<Rightarrow> string list act" where
  "checked env c = call_ok env c (Command_failed c)"

definition clear_folder_to :: "string \<Rightarrow> db \<Rightarrow> db" where
  "clear_folder_to i d = d\<lparr>db_ops := upd (has_op i) (\<lambda>r. r\<lparr>op_folder_to := None\<rparr>) (db_ops d)\<rparr>"

definition STORE_OP_TYPES :: "string list" where
  "STORE_OP_TYPES = [''store'', ''trash'', ''mark_read'', ''flag'', ''unflag'', ''mark_unread'']"

text \<open>SELECT, then UID MOVE; the destination the server reports goes to the audit row.\<close>

definition run_move :: "env \<Rightarrow> op_row \<Rightarrow> detail option act" where
  "run_move env row =
     bindE (checked env (select_call env (or_inbox (op_folder_from row)))) (\<lambda>_.
     bindE (checked env (Uid_cmd ''move'' [uid_set_of row, env_quoted env (or_empty (op_folder_to row))]))
       (\<lambda>lines. ret (move_destination_detail lines)))"

definition run_copy :: "env \<Rightarrow> op_row \<Rightarrow> detail option act" where
  "run_copy env row =
     bindE (checked env (select_call env (or_inbox (op_folder_from row)))) (\<lambda>_.
     bindE (checked env (Uid_cmd ''copy'' [uid_set_of row, env_quoted env (or_empty (op_folder_to row))]))
       (\<lambda>_. ret None))"

definition run_store :: "env \<Rightarrow> op_row \<Rightarrow> unit act" where
  "run_store env row =
     bindE (checked env (select_call env (or_inbox (op_folder_from row)))) (\<lambda>_.
       if list_or_empty (op_flags_add row) \<noteq> [] then
         bindE (checked env (Uid_cmd ''store'' [uid_set_of row, ''+FLAGS'', flag_list (list_or_empty (op_flags_add row))]))
           (\<lambda>_. ret ())
       else if list_or_empty (op_flags_remove row) \<noteq> [] then
         bindE (checked env (Uid_cmd ''store'' [uid_set_of row, ''-FLAGS'', flag_list (list_or_empty (op_flags_remove row))]))
           (\<lambda>_. ret ())
       else raise (Missing ''flags''))"

text \<open>A trash staged as a move falls back to the flag when the server cannot move, and says so.\<close>

definition trash_fallback :: "op_row \<Rightarrow> detail option act" where
  "trash_fallback row =
     (if op_type row = ''trash'' \<and> truthy (op_folder_to row)
      then bindE (on_db (clear_folder_to (op_id row)))
             (\<lambda>_. ret (Some (D_trash_fallback (or_empty (op_folder_to row)))))
      else ret None)"

definition create_name :: "op_row \<Rightarrow> failure + string" where
  "create_name row =
     (if truthy (op_folder_to row) then Inr (or_empty (op_folder_to row))
      else if truthy (op_imap_command row) then
        (case rev (py_split (or_empty (op_imap_command row))) of
           [] \<Rightarrow> Inl (Library ''list index out of range'')
         | n # _ \<Rightarrow> Inr n)
      else Inl (Missing ''folder name''))"

definition run_append :: "env \<Rightarrow> op_row \<Rightarrow> detail option act" where
  "run_append env row =
     (if \<not> truthy (op_append_message row) then raise (Missing ''message body'')
      else case b64decode (or_empty (op_append_message row)) of
        None \<Rightarrow> raise Bad_body
      | Some msg \<Rightarrow>
          bindE (checked env (Append msg (env_quoted env (if truthy (op_folder_to row)
                     then or_empty (op_folder_to row) else ''INBOX''))
                   (if list_or_empty (op_flags_add row) \<noteq> []
                    then Some (flag_list (list_or_empty (op_flags_add row))) else None)))
            (\<lambda>_. ret None))"

definition dispatch :: "env \<Rightarrow> op_row \<Rightarrow> detail option act" where
  "dispatch env row w =
     (if op_type row = ''trash'' \<and> truthy (op_folder_to row) \<and> has_capability env ''MOVE'' w
      then run_move env row w
      else if op_type row \<in> set STORE_OP_TYPES then
        bindE (trash_fallback row) (\<lambda>result. bindE (run_store env row) (\<lambda>_. ret result)) w
      else if op_type row = ''move'' then
        (if truthy (op_folder_to row) then run_move env row w else raise (Missing ''folder_to'') w)
      else if op_type row = ''copy'' then
        (if truthy (op_folder_to row) then run_copy env row w else raise (Missing ''folder_to'') w)
      else if op_type row = ''create'' then
        bindE (lift_res (create_name row)) (\<lambda>name.
          bindE (checked env (Create (env_quoted env name))) (\<lambda>_. ret None)) w
      else if op_type row = ''rename'' then
        (if truthy (op_folder_to row) then
           bindE (checked env (Rename (env_quoted env (or_inbox (op_folder_from row)))
                    (env_quoted env (or_empty (op_folder_to row))))) (\<lambda>_. ret None) w
         else raise (Missing ''folder_to'') w)
      else if op_type row = ''append'' then run_append env row w
      else raise (Unsupported (op_type row)) w)"

definition legacy_append :: "op_row \<Rightarrow> bool" where
  "legacy_append row \<longleftrightarrow> op_type row = ''append'' \<and> \<not> truthy (op_append_message row)"

definition execute_imap_upstream :: "env \<Rightarrow> op_row \<Rightarrow> detail option act" where
  "execute_imap_upstream env row =
     (if legacy_append row then ret None
      else bindE (resolve_imap_credentials env row) (\<lambda>creds.
        bindE (open_client (cr_host creds) (cr_port creds)) (\<lambda>_.
        with_logout env
          (bindE (authenticate_upstream_imap env creds) (\<lambda>_. dispatch env row)))))"

section \<open>The Sent folder\<close>

definition LIST_LINE_RE :: "rx list" where
  "LIST_LINE_RE = rx_lit ''('' @ [Cap 1 [Many (rx_not '')'')]] @ rx_lit '')'' @ rx_some is_space
     @ [Alt (rx_lit [dquote] @ [Many (rx_not [dquote])] @ rx_lit [dquote]) (rx_ilit ''NIL'')]
     @ rx_some is_space
     @ [Alt (rx_lit [dquote] @ [Cap 2 (rx_some (rx_not [dquote]))] @ rx_lit [dquote])
            [Cap 3 (rx_some (\<lambda>c. \<not> is_space c))]]
     @ [Many is_space, Eol]"

text \<open>The lower-case attributes and the name of one LIST line.\<close>

definition sent_list_line :: "string \<Rightarrow> string list \<times> string option" where
  "sent_list_line line =
     (case re_search LIST_LINE_RE (py_strip line) of
        None \<Rightarrow> ([], None)
      | Some g \<Rightarrow>
          (map py_lower (py_split (rx_group g 1)),
           if truthy (rx_grp g 2) then rx_grp g 2 else rx_grp g 3))"

definition SENT_NAMES :: "string list" where
  "SENT_NAMES = [''Sent'', ''Sent Items'', ''Sent Messages'', ''INBOX.Sent'']"

definition sent_by_flag :: "string list \<Rightarrow> string option" where
  "sent_by_flag lines =
     (case List.find (\<lambda>l. bslash # ''sent'' \<in> set (fst (sent_list_line l)) \<and> truthy (snd (sent_list_line l))) lines of
        Some l \<Rightarrow> snd (sent_list_line l)
      | None \<Rightarrow> None)"

fun probe_sent :: "env \<Rightarrow> string list \<Rightarrow> string option act" where
  "probe_sent env [] = ret None"
| "probe_sent env (name # names) =
     bindE (do_call env (List_cmd [] name)) (\<lambda>(st, lines).
       case (if st = ''OK'' then List.find (\<lambda>l. truthy (snd (sent_list_line l))) lines else None) of
         Some l \<Rightarrow> ret (snd (sent_list_line l))
       | None \<Rightarrow> probe_sent env names)"

definition discover_sent_folder :: "env \<Rightarrow> string option act" where
  "discover_sent_folder env =
     bindE (do_call env (List_cmd [] ''*'')) (\<lambda>(st, lines).
       case (if st = ''OK'' then sent_by_flag lines else None) of
         Some f \<Rightarrow> ret (Some f)
       | None \<Rightarrow> probe_sent env SENT_NAMES)"

definition update_agent_sent_folder :: "nat \<Rightarrow> string \<Rightarrow> db \<Rightarrow> db" where
  "update_agent_sent_folder i folder d =
     d\<lparr>db_agents := upd (\<lambda>a. ag_id a = i) (\<lambda>a. a\<lparr>ag_sent_folder := Some folder\<rparr>) (db_agents d)\<rparr>"

definition target_sent_folder :: "env \<Rightarrow> agent_row \<Rightarrow> string \<Rightarrow> string act" where
  "target_sent_folder env cred dflt =
     (if truthy (ag_sent_folder cred) then ret (or_empty (ag_sent_folder cred))
      else bindE (discover_sent_folder env) (\<lambda>found.
        case found of
          Some f \<Rightarrow> bindE (on_db (update_agent_sent_folder (ag_id cred) f)) (\<lambda>_. ret f)
        | None \<Rightarrow> ret dflt))"

definition sent_login :: "env \<Rightarrow> agent_row \<Rightarrow> bool act" where
  "sent_login env cred =
     bindE (do_call env Hello) (\<lambda>_.
       if truthy (ag_oauth2_provider cred) then
         bindE (lift_res (env_token env (ag_id cred))) (\<lambda>(email, tok).
         bindE (do_call env (Xoauth2 email tok)) (\<lambda>(st, _). ret (st = ''OK'')))
       else if \<not> truthy (ag_upstream_password cred) then ret False
       else bindE (lift_res (env_secret env (or_empty (ag_upstream_password cred)))) (\<lambda>pw.
         bindE (do_call env (Login (ag_upstream_user cred) pw)) (\<lambda>(st, _). ret (st = ''OK''))))"

definition save_to_sent_folder ::
  "env \<Rightarrow> (string \<times> string) list \<times> string \<Rightarrow> agent_row \<Rightarrow> unit act" where
  "save_to_sent_folder env msg cred =
     (case pp_sent_folder (detect_provider (ag_upstream_host cred)) of
        None \<Rightarrow> ret ()
      | Some dflt \<Rightarrow>
          bindE (open_client (ag_upstream_host cred) (ag_upstream_imap_port cred)) (\<lambda>_.
          with_logout env
            (catchE
              (bindE (sent_login env cred) (\<lambda>logged_in.
                 if logged_in then
                   bindE (target_sent_folder env cred dflt) (\<lambda>folder.
                   bindE (do_call env (Append (env_flatten env msg) (env_quoted env folder)
                            (Some (CHR ''('' # bslash # ''Seen)''))))
                     (\<lambda>_. ret ()))
                 else ret ()))
              (\<lambda>_. ret ()))))"

section \<open>SMTP relay\<close>

record smtp_settings =
  ss_host :: string
  ss_port :: nat
  ss_user :: string
  ss_password :: "string option"
  ss_oauth2 :: bool
  ss_cred :: "agent_row option"

definition resolve_smtp_settings :: "env \<Rightarrow> op_row \<Rightarrow> smtp_settings act" where
  "resolve_smtp_settings env row w =
     (case get_agent_credential (op_agent_id row) True (w_db w) of
        Some c \<Rightarrow>
          (let st = \<lparr>ss_host = (if truthy (ag_upstream_smtp_host c) then or_empty (ag_upstream_smtp_host c)
                                else ag_upstream_host c),
                     ss_port = ag_upstream_smtp_port c, ss_user = ag_upstream_user c, ss_password = None,
                     ss_oauth2 = truthy (ag_oauth2_provider c), ss_cred = Some c\<rparr>
           in if ss_oauth2 st then ret st w
              else if \<not> truthy (ag_upstream_password c) then raise No_password w
              else bindE (lift_res (env_secret env (or_empty (ag_upstream_password c))))
                     (\<lambda>pw. ret (st\<lparr>ss_password := Some pw\<rparr>)) w)
      | None \<Rightarrow>
          (case op_agent_id row of
             Some a \<Rightarrow> raise (Agent_blocked a) w
           | None \<Rightarrow>
               bindE (env_port env ''NUVRAIL_TEST_SMTP_PORT'' ''587'') (\<lambda>port.
                 let host = or_empty (env_vars env ''NUVRAIL_TEST_SMTP_HOST'')
                 in if host = [] then raise No_fallback_host
                    else ret \<lparr>ss_host = host, ss_port = port,
                           ss_user = or_empty (env_vars env ''NUVRAIL_TEST_SMTP_USER''),
                           ss_password = Some (or_empty (env_vars env ''NUVRAIL_TEST_SMTP_PASS'')),
                           ss_oauth2 = False, ss_cred = None\<rparr>) w))"

definition env_recipients :: "op_row \<Rightarrow> string list" where
  "env_recipients row = (case op_smtp_envelope row of None \<Rightarrow> [] | Some e \<Rightarrow> env_to e)"

definition body_text :: "op_row \<Rightarrow> string" where
  "body_text row =
     (case op_smtp_envelope row of
        None \<Rightarrow> []
      | Some e \<Rightarrow> if truthy (env_body e) then or_empty (env_body e) else or_empty (env_body_preview e))"

definition envelope_subject :: "op_row \<Rightarrow> string" where
  "envelope_subject row =
     (case op_smtp_envelope row of None \<Rightarrow> ''<no subject>'' | Some e \<Rightarrow> env_subject e)"

text \<open>The message relayed: the agent's own when it has headers, else a plain text; the sender is
  always the authenticated upstream address.\<close>

definition relay_message :: "env \<Rightarrow> string \<Rightarrow> op_row \<Rightarrow> (string \<times> string) list \<times> string" where
  "relay_message env user row =
     (let parsed = env_parse_email env (body_text row);
          plain = env_mime_text env (if body_text row = [] then ''(no body)'' else body_text row);
          (headers, payload) =
            (if fst parsed \<noteq> [] then parsed
             else (fst plain @ [(''To'', py_join '', '' (env_recipients row)), (''Subject'', envelope_subject row)],
                   snd plain))
      in (filter (\<lambda>h. py_lower (fst h) \<noteq> ''from'') headers @ [(''From'', user)], payload))"

definition relay :: "env \<Rightarrow> smtp_settings \<Rightarrow> string list \<Rightarrow> (string \<times> string) list \<times> string \<Rightarrow> unit act" where
  "relay env st recipients msg =
     (if ss_oauth2 st then
        (case ss_cred st of
           None \<Rightarrow> raise Oauth_without_credential
         | Some c \<Rightarrow>
             bindE (lift_res (env_token env (ag_id c))) (\<lambda>(email, tok).
             bindE (do_call env (Smtp_connect (ss_host st) (ss_port st))) (\<lambda>_.
             bindE (do_call env (Smtp_xoauth2 (ss_user st) tok)) (\<lambda>_.
             bindE (do_call env (Smtp_sendmail (ss_user st) recipients (fst msg) (snd msg))) (\<lambda>_. ret ())))))
      else
        bindE (do_call env (Smtp_send (ss_host st) (ss_port st) (ss_user st) (ss_password st) recipients
                 (fst msg) (snd msg))) (\<lambda>_. ret ()))"

section \<open>Execution\<close>

definition op_event ::
  "int \<Rightarrow> string \<Rightarrow> string \<Rightarrow> string \<Rightarrow> op_row \<Rightarrow> detail option \<Rightarrow> audit_event" where
  "op_event now event actor i row detail =
     \<lparr>ev_timestamp = now, ev_event = event, ev_actor = Some actor, ev_operation_id = Some i,
      ev_agent_id = op_agent_id row, ev_op_type = Some (op_type row), ev_detail = detail,
      ev_user_id = None, ev_intent_label = op_intent_label row\<rparr>"

definition record_execution_failure ::
  "env \<Rightarrow> (nat \<Rightarrow> int) \<Rightarrow> string \<Rightarrow> op_row \<Rightarrow> failure \<Rightarrow> db \<Rightarrow> db" where
  "record_execution_failure env clk i row e d =
     insert_audit_event (env_digest env)
       (op_event (clk 1) ''execution_failed'' ''system'' i row (Some (D_error (env_text env e))))
       (update_operation_status i Failed ''human'' (Some (env_text env e)) (clk 0) d)"

definition record_rate_exceeded ::
  "env \<Rightarrow> (nat \<Rightarrow> int) \<Rightarrow> string \<Rightarrow> op_row \<Rightarrow> rate_exceeded \<Rightarrow> db \<Rightarrow> db" where
  "record_rate_exceeded env clk i row x d =
     insert_audit_event (env_digest env)
       (op_event (clk 1) ''send_rate_exceeded'' ''system'' i row
          (Some (D_rate (nat (rx_used x)) (rx_requested x) (rx_cap x) (rx_window_seconds x))))
       (update_operation_status i Failed ''human'' (Some (env_text env (Rate_limited x))) (clk 0) d)"

definition record_executed ::
  "env \<Rightarrow> (nat \<Rightarrow> int) \<Rightarrow> string \<Rightarrow> string \<Rightarrow> op_row \<Rightarrow> detail option \<Rightarrow> db \<Rightarrow> db" where
  "record_executed env clk actor i row detail d =
     insert_audit_event (env_digest env) (op_event (clk 4) ''executed'' actor i row detail)
       (update_operation_status i Executed ''human'' None (clk 3) d)"

definition smtp_relay_step ::
  "env \<Rightarrow> (nat \<Rightarrow> int) \<Rightarrow> string \<Rightarrow> op_row \<Rightarrow> smtp_settings \<Rightarrow> detail option act" where
  "smtp_relay_step env clk i row st =
     (let msg = relay_message env (ss_user st) row; recipients = env_recipients row
      in catchE
           (bindE (relay env st recipients msg) (\<lambda>_.
            bindE (case ss_cred st of None \<Rightarrow> ret () | Some c \<Rightarrow> save_to_sent_folder env msg c) (\<lambda>_.
            ret (Some (D_recipients (length recipients))))))
           (\<lambda>e. bindE (on_db (record_execution_failure env clk i row e)) (\<lambda>_. raise (Relay_failed e))))"

definition execute_smtp :: "env \<Rightarrow> (nat \<Rightarrow> int) \<Rightarrow> string \<Rightarrow> op_row \<Rightarrow> detail option act" where
  "execute_smtp env clk i row =
     bindE (resolve_smtp_settings env row) (\<lambda>st.
       if env_recipients row = [] then raise No_recipients
       else (\<lambda>w. case enforce_send_rate (load_send_rate_config (env_vars env)) (op_agent_id row)
                     (length (env_recipients row)) (clk 2) (w_db w) of
           Some x \<Rightarrow>
             bindE (on_db (record_rate_exceeded env clk i row x)) (\<lambda>_. raise (Rate_limited x)) w
         | None \<Rightarrow> smtp_relay_step env clk i row st w))"

definition execute_imap :: "env \<Rightarrow> (nat \<Rightarrow> int) \<Rightarrow> string \<Rightarrow> op_row \<Rightarrow> detail option act" where
  "execute_imap env clk i row =
     catchE (execute_imap_upstream env row)
       (\<lambda>e. bindE (on_db (record_execution_failure env clk i row e)) (\<lambda>_. raise (Imap_failed e)))"

definition execute_operation ::
  "env \<Rightarrow> (nat \<Rightarrow> int) \<Rightarrow> string \<Rightarrow> string \<Rightarrow> op_row \<Rightarrow> int option act" where
  "execute_operation env clk actor i row =
     bindE (if op_protocol row = ''smtp'' then execute_smtp env clk i row else execute_imap env clk i row)
       (\<lambda>detail. bindE (on_db (record_executed env clk actor i row detail))
         (\<lambda>_ w. (Inr (Option.bind (get_operation i None (w_db w)) op_executed_at), w)))"

end
