(* ===== verification/Execution_Laws.thy ===== *)
theory Execution_Laws
  imports Execution
begin

text \<open>
  What the executor promises: an operation's replay changes the mailbox by that operation's one
  command or not at all, a blocked agent reaches no server, the status and the audit row follow the
  outcome, and the log stays verified.
\<close>

section \<open>The effect of an operation\<close>

text \<open>The one command that carries an operation out; \<open>can_move\<close> tells whether the server has MOVE.\<close>

definition op_effect :: "env \<Rightarrow> bool \<Rightarrow> op_row \<Rightarrow> call option" where
  "op_effect env can_move row =
     (let uids = uid_set_of row; dest = env_quoted env (or_empty (op_folder_to row));
          adds = list_or_empty (op_flags_add row); removes = list_or_empty (op_flags_remove row);
          store = (if adds \<noteq> [] then Some (Uid_cmd ''store'' [uids, ''+FLAGS'', flag_list adds])
                   else if removes \<noteq> [] then Some (Uid_cmd ''store'' [uids, ''-FLAGS'', flag_list removes])
                   else None)
      in if op_type row = ''trash'' then
           (if truthy (op_folder_to row) \<and> can_move then Some (Uid_cmd ''move'' [uids, dest]) else store)
         else if op_type row \<in> {''store'', ''mark_read'', ''mark_unread'', ''flag'', ''unflag''} then store
         else if op_type row = ''move'' \<and> truthy (op_folder_to row) then Some (Uid_cmd ''move'' [uids, dest])
         else if op_type row = ''copy'' \<and> truthy (op_folder_to row) then Some (Uid_cmd ''copy'' [uids, dest])
         else if op_type row = ''create'' then
           (case create_name row of Inr n \<Rightarrow> Some (Create (env_quoted env n)) | Inl e \<Rightarrow> None)
         else if op_type row = ''rename'' \<and> truthy (op_folder_to row) then
           Some (Rename (env_quoted env (or_inbox (op_folder_from row))) dest)
         else if op_type row = ''append'' \<and> truthy (op_append_message row) then
           map_option (\<lambda>msg. Append msg
               (env_quoted env (if truthy (op_folder_to row) then or_empty (op_folder_to row) else ''INBOX''))
               (if adds = [] then None else Some (flag_list adds)))
             (b64decode (or_empty (op_append_message row)))
         else None)"

text \<open>\<open>replayed\<close>: the run carried out the operation's command, or nothing; the database changes in
  no more than the destination a trash fallback clears.\<close>

definition replayed :: "env \<Rightarrow> op_row \<Rightarrow> world \<Rightarrow> failure + detail option \<Rightarrow> world \<Rightarrow> bool" where
  "replayed env row w r w' \<longleftrightarrow>
     carried env (\<lambda>e. \<exists>can_move. op_effect env can_move row = Some e) (w_calls w) (\<not> isl r) (w_calls w')
     \<and> w_db w' \<in> {w_db w, clear_folder_to (op_id row) (w_db w)}"

lemma replayed_none:
  "w_calls w' = w_calls w @ pre \<Longrightarrow> list_all quiet pre \<Longrightarrow>
     w_db w' \<in> {w_db w, clear_folder_to (op_id row) (w_db w)} \<Longrightarrow> replayed env row w (Inl e) w'"
  unfolding replayed_def by (auto intro: carried_none)

lemma replayed_failed:
  "w_calls w' = w_calls w @ pre @ [e] \<Longrightarrow> list_all quiet pre \<Longrightarrow> op_effect env b row = Some e \<Longrightarrow>
     w_db w' \<in> {w_db w, clear_folder_to (op_id row) (w_db w)} \<Longrightarrow> replayed env row w (Inl x) w'"
  unfolding replayed_def by (auto intro: carried_failed)

lemma replayed_done:
  "w_calls w' = w_calls w @ pre @ [e] \<Longrightarrow> list_all quiet pre \<Longrightarrow> op_effect env b row = Some e \<Longrightarrow>
     env_server env (w_calls w @ pre) e = Reply ''OK'' lines \<Longrightarrow>
     w_db w' \<in> {w_db w, clear_folder_to (op_id row) (w_db w)} \<Longrightarrow> replayed env row w (Inr d) w'"
  unfolding replayed_def by (auto intro: carried_done)

lemma replayed_shift:
  assumes "replayed env row w1 r w'" "w_calls w1 = w_calls w @ cs" "list_all quiet cs" "w_db w1 = w_db w"
  shows "replayed env row w r (w'\<lparr>w_calls := w_calls w' @ [Logout]\<rparr>)"
  using assms unfolding replayed_def by (auto intro: carried_shift)

text \<open>A command issued when the connection is ready: whatever its reply, the replay is as promised.\<close>

lemma replayed_command:
  assumes "op_effect env b row = Some e" "w_calls w1 = w_calls w @ pre" "list_all quiet pre"
    and "w_db w1 \<in> {w_db w, clear_folder_to (op_id row) (w_db w)}"
  shows "runs (bindE (checked env e) (\<lambda>lines. ret (f lines))) (replayed env row w) w1"
  using assms
  by (auto simp: checked_def run_simps split: reply.splits intro!: replayed_failed replayed_done)

lemma replayed_select:
  assumes "op_effect env b row = Some e" "w_calls w1 = w_calls w @ pre" "list_all quiet pre"
    and "w_db w1 \<in> {w_db w, clear_folder_to (op_id row) (w_db w)}"
  shows "runs (bindE (checked env (select_call env folder)) (\<lambda>_. bindE (checked env e) (\<lambda>lines. ret (f lines))))
    (replayed env row w) w1"
proof -
  have "runs (bindE (checked env e) (\<lambda>lines. ret (f lines))) (replayed env row w)
      (w1\<lparr>w_calls := w_calls w1 @ [select_call env folder]\<rparr>)"
    by (rule replayed_command [where pre = "pre @ [select_call env folder]"])
      (use assms in \<open>auto simp: select_call_def\<close>)
  moreover have "replayed env row w (Inl x) (w1\<lparr>w_calls := w_calls w1 @ [select_call env folder]\<rparr>)" for x
    by (rule replayed_none [where pre = "pre @ [select_call env folder]"])
      (use assms in \<open>auto simp: select_call_def\<close>)
  ultimately show ?thesis
    by (subst runs_bindE) (auto simp: checked_def [of env "select_call env folder"] runs_call_ok split: reply.splits)
qed

lemma bindE_assoc: "bindE (bindE m f) g = bindE m (\<lambda>x. bindE (f x) g)"
  by (rule ext) (auto simp: bindE_def split: prod.splits sum.splits)

lemma bindE_ret: "bindE (ret x) f = f x"
  by (rule ext) (simp add: bindE_def ret_def)

lemma bindE_raise: "bindE (raise e) f = raise e"
  by (rule ext) (simp add: bindE_def raise_def)

lemma bindE_if: "bindE (if b then m else m') f = (if b then bindE m f else bindE m' f)"
  by simp

lemma replayed_raise:
  "w_calls w1 = w_calls w @ pre \<Longrightarrow> list_all quiet pre \<Longrightarrow>
     w_db w1 \<in> {w_db w, clear_folder_to (op_id row) (w_db w)} \<Longrightarrow> runs (raise e) (replayed env row w) w1"
  by (simp add: runs_basic replayed_none)

lemma store_runs:
  assumes "op_type row \<in> set STORE_OP_TYPES" "op_type row = ''trash'' \<Longrightarrow> truthy (op_folder_to row) \<Longrightarrow> \<not> b"
    and "w_calls w1 = w_calls w" "w_db w1 \<in> {w_db w, clear_folder_to (op_id row) (w_db w)}"
  shows "runs (bindE (run_store env row) (\<lambda>_. ret d)) (replayed env row w) w1"
proof -
  let ?adds = "list_or_empty (op_flags_add row)" and ?rem = "list_or_empty (op_flags_remove row)"
  let ?sel = "select_call env (or_inbox (op_folder_from row))"
  have calls: "w_calls w1 = w_calls w @ []" using assms(3) by simp
  have eff: "op_effect env b row =
      (if ?adds \<noteq> [] then Some (Uid_cmd ''store'' [uid_set_of row, ''+FLAGS'', flag_list ?adds])
       else if ?rem \<noteq> [] then Some (Uid_cmd ''store'' [uid_set_of row, ''-FLAGS'', flag_list ?rem])
       else None)"
    using assms(1,2) by (auto simp: op_effect_def STORE_OP_TYPES_def Let_def)
  consider "?adds \<noteq> []" | "?adds = []" "?rem \<noteq> []" | "?adds = []" "?rem = []" by blast
  then show ?thesis
  proof cases
    case 1
    with eff show ?thesis
      by (simp add: run_store_def bindE_assoc bindE_ret)
        (rule replayed_select [OF _ calls _ assms(4)], simp_all)
  next
    case 2
    with eff show ?thesis
      by (simp add: run_store_def bindE_assoc bindE_ret)
        (rule replayed_select [OF _ calls _ assms(4)], simp_all)
  next
    case 3
    have "replayed env row w (Inl x) (w1\<lparr>w_calls := w_calls w1 @ [?sel]\<rparr>)" for x
      by (rule replayed_none [where pre = "[?sel]"]) (use assms in \<open>auto simp: select_call_def\<close>)
    with 3 show ?thesis
      by (simp add: run_store_def bindE_assoc bindE_raise checked_def run_simps split: reply.splits)
  qed
qed

lemma dispatch_runs: "runs (dispatch env row) (replayed env row w) w"
proof -
  let ?b = "has_capability env ''MOVE'' w"
  have w0: "w_calls w = w_calls w @ []" "list_all quiet []" "w_db w \<in> {w_db w, clear_folder_to (op_id row) (w_db w)}"
    by simp_all
  note cmd = replayed_command [OF _ w0] and sel = replayed_select [OF _ w0] and err = replayed_raise [OF w0]
  consider (trash_move) "op_type row = ''trash''" "truthy (op_folder_to row)" "?b"
    | (store) "op_type row \<in> set STORE_OP_TYPES" "\<not> (op_type row = ''trash'' \<and> truthy (op_folder_to row) \<and> ?b)"
    | (other) "op_type row \<notin> set STORE_OP_TYPES"
    by (auto simp: STORE_OP_TYPES_def)
  then show ?thesis
  proof cases
    case trash_move
    then have "op_effect env True row
        = Some (Uid_cmd ''move'' [uid_set_of row, env_quoted env (or_empty (op_folder_to row))])"
      by (simp add: op_effect_def)
    then have "runs (run_move env row) (replayed env row w) w" unfolding run_move_def by (rule sel)
    with trash_move show ?thesis by (simp add: runs_def dispatch_def)
  next
    case store
    then have "dispatch env row w = bindE (trash_fallback row) (\<lambda>result. bindE (run_store env row) (\<lambda>_. ret result)) w"
      by (auto simp: dispatch_def)
    moreover have "runs (bindE (trash_fallback row) (\<lambda>result. bindE (run_store env row) (\<lambda>_. ret result)))
        (replayed env row w) w"
      using store store_runs [of row ?b _ w]
      by (auto simp: trash_fallback_def run_simps)
    ultimately show ?thesis by (simp add: runs_def)
  next
    case other
    consider (move) "op_type row = ''move''" | (copy) "op_type row = ''copy''" | (create) "op_type row = ''create''"
      | (rename) "op_type row = ''rename''" | (append) "op_type row = ''append''"
      | (unknown) "op_type row \<notin> {''move'', ''copy'', ''create'', ''rename'', ''append''}"
      by blast
    then show ?thesis
    proof cases
      case move
      with other have "dispatch env row w =
          (if truthy (op_folder_to row) then run_move env row w else raise (Missing ''folder_to'') w)"
        by (simp add: dispatch_def STORE_OP_TYPES_def)
      moreover have "truthy (op_folder_to row) \<Longrightarrow> runs (run_move env row) (replayed env row w) w"
        unfolding run_move_def by (rule sel [where b = True]) (use move in \<open>simp add: op_effect_def\<close>)
      ultimately show ?thesis using err by (simp add: runs_def)
    next
      case copy
      with other have "dispatch env row w =
          (if truthy (op_folder_to row) then run_copy env row w else raise (Missing ''folder_to'') w)"
        by (simp add: dispatch_def STORE_OP_TYPES_def)
      moreover have "truthy (op_folder_to row) \<Longrightarrow> runs (run_copy env row) (replayed env row w) w"
        unfolding run_copy_def by (rule sel [where b = True]) (use copy in \<open>simp add: op_effect_def\<close>)
      ultimately show ?thesis using err by (simp add: runs_def)
    next
      case create
      with other have disp: "dispatch env row w = bindE (lift_res (create_name row)) (\<lambda>name.
          bindE (checked env (Create (env_quoted env name))) (\<lambda>_. ret None)) w"
        by (simp add: dispatch_def STORE_OP_TYPES_def)
      show ?thesis
      proof (cases "create_name row")
        case (Inl e)
        then show ?thesis using disp err [of e] by (simp add: runs_def bindE_def lift_res_def raise_def)
      next
        case (Inr n)
        then have "runs (bindE (checked env (Create (env_quoted env n))) (\<lambda>_. ret None)) (replayed env row w) w"
          by (intro cmd [where b = True]) (use create in \<open>simp add: op_effect_def\<close>)
        then show ?thesis using disp Inr by (simp add: runs_def bindE_def lift_res_def)
      qed
    next
      case rename
      with other have "dispatch env row w =
          (if truthy (op_folder_to row) then
             bindE (checked env (Rename (env_quoted env (or_inbox (op_folder_from row)))
                    (env_quoted env (or_empty (op_folder_to row))))) (\<lambda>_. ret None) w
           else raise (Missing ''folder_to'') w)"
        by (simp add: dispatch_def STORE_OP_TYPES_def)
      moreover have "truthy (op_folder_to row) \<Longrightarrow> runs (bindE (checked env (Rename (env_quoted env (or_inbox (op_folder_from row)))
                    (env_quoted env (or_empty (op_folder_to row))))) (\<lambda>_. ret None)) (replayed env row w) w"
        by (rule cmd [where b = True]) (use rename in \<open>simp add: op_effect_def\<close>)
      ultimately show ?thesis using err by (simp add: runs_def)
    next
      case append
      with other have disp: "dispatch env row w = run_append env row w"
        by (simp add: dispatch_def STORE_OP_TYPES_def)
      have "runs (run_append env row) (replayed env row w) w"
        unfolding run_append_def
        by (auto split: option.split intro!: err cmd [where b = True]) (use append in \<open>simp_all add: op_effect_def\<close>)
      with disp show ?thesis by (simp add: runs_def)
    next
      case unknown
      with other have "dispatch env row w = raise (Unsupported (op_type row)) w"
        by (simp add: dispatch_def STORE_OP_TYPES_def)
      then show ?thesis using err by (simp add: runs_def)
    qed
  qed
qed

lemma execute_imap_replays:
  "if legacy_append row then execute_imap_upstream env row w = (Inr None, w)
   else runs (execute_imap_upstream env row) (replayed env row w) w"
proof (cases "legacy_append row")
  case True
  then show ?thesis by (simp add: execute_imap_upstream_def ret_def)
next
  case False
  have login: "runs (authenticate_upstream_imap env c)
      (\<lambda>r w'. case r of
          Inl e \<Rightarrow> replayed env row w (Inl e) (w'\<lparr>w_calls := w_calls w' @ [Logout]\<rparr>)
        | Inr u \<Rightarrow> runs (dispatch env row) (\<lambda>r w'. replayed env row w r (w'\<lparr>w_calls := w_calls w' @ [Logout]\<rparr>)) w') w1"
    if w1: "w_calls w1 = w_calls w @ [Connect h p]" "w_db w1 = w_db w" for c w1 h p
  proof (rule authenticate_runs)
    fix r :: "failure + unit" and w' :: world and cs
    assume cs: "w_calls w' = w_calls w1 @ cs" "list_all session_call cs" "w_db w' = w_db w1"
    have q: "list_all quiet cs" using cs(2) session_quiet by (auto simp: list_all_iff)
    show "case r of
          Inl e \<Rightarrow> replayed env row w (Inl e) (w'\<lparr>w_calls := w_calls w' @ [Logout]\<rparr>)
        | Inr u \<Rightarrow> runs (dispatch env row) (\<lambda>r w'. replayed env row w r (w'\<lparr>w_calls := w_calls w' @ [Logout]\<rparr>)) w'"
    proof (cases r)
      case (Inl e)
      then show ?thesis
        using cs w1 q by (auto intro!: replayed_none [where pre = "Connect h p # cs @ [Logout]"])
    next
      case (Inr u)
      have "runs (dispatch env row) (\<lambda>r w'. replayed env row w r (w'\<lparr>w_calls := w_calls w' @ [Logout]\<rparr>)) w'"
        by (rule runs_mono [OF dispatch_runs])
          (erule replayed_shift [where cs = "Connect h p # cs"], use cs w1 q in auto)
      then show ?thesis using Inr by simp
    qed
  qed
  have body: "runs (bindE (open_client (cr_host c) (cr_port c)) (\<lambda>_. with_logout env
      (bindE (authenticate_upstream_imap env c) (\<lambda>_. dispatch env row)))) (replayed env row w) w" for c
    by (simp add: run_simps, rule runs_mono [OF login]) (auto split: sum.splits)
  have none: "replayed env row w (Inl e) w" for e
    by (rule replayed_none [where pre = "[]"]) simp_all
  have "runs (execute_imap_upstream env row) (replayed env row w) w"
    unfolding execute_imap_upstream_def using False body none
    by (simp only: if_False, subst runs_bindE) (auto split: sum.split intro: resolve_runs)
  then show ?thesis using False by simp
qed

section \<open>What execution leaves in the database\<close>

lemma last_audit_insert:
  "db_audit (insert_audit_event digest e d) \<noteq> []"
  "au_event (last (db_audit (insert_audit_event digest e d))) = ev_event e"
  "au_actor (last (db_audit (insert_audit_event digest e d))) = ev_actor e"
  "au_operation_id (last (db_audit (insert_audit_event digest e d))) = ev_operation_id e"
  "au_detail (last (db_audit (insert_audit_event digest e d))) = ev_detail e"
  by (simp_all add: insert_audit_event_def insert_with_prev_def Let_def event_row_def)

lemma insert_audit_ops [simp]:
  "db_ops (insert_audit_event digest e d) = db_ops d"
  by (simp add: insert_audit_event_def insert_with_prev_def Let_def)

lemma find_op_insert [simp]: "find_op i (insert_audit_event digest e d) = find_op i d"
  by (simp add: find_op_def)

text \<open>The accounts: the users, and the credentials but for the folder of sent mail they remember.\<close>

definition accounts :: "db \<Rightarrow> user_row list \<times> agent_row list" where
  "accounts d = (db_users d, map (\<lambda>a. a\<lparr>ag_sent_folder := None\<rparr>) (db_agents d))"

text \<open>\<open>db_kept d d'\<close>: the run has touched neither the log, the mirror nor the accounts, nor any operation's
  status or agent.\<close>

definition db_kept :: "db \<Rightarrow> db \<Rightarrow> bool" where
  "db_kept d d' \<longleftrightarrow> db_audit d' = db_audit d \<and> db_audit_seq d' = db_audit_seq d
     \<and> map (\<lambda>r. (op_id r, op_status r)) (db_ops d') = map (\<lambda>r. (op_id r, op_status r)) (db_ops d)
     \<and> map op_agent_id (db_ops d') = map op_agent_id (db_ops d) \<and> db_folders d' = db_folders d
     \<and> db_folder_seq d' = db_folder_seq d \<and> db_messages d' = db_messages d \<and> accounts d' = accounts d"

lemma db_kept_refl [simp]: "db_kept d d"
  by (simp add: db_kept_def)

lemma db_kept_trans: "db_kept d d' \<Longrightarrow> db_kept d' d'' \<Longrightarrow> db_kept d d''"
  by (simp add: db_kept_def)

lemma db_kept_clear [simp]: "db_kept d (clear_folder_to i d)"
  by (simp add: db_kept_def clear_folder_to_def map_upd_key accounts_def)

lemma db_kept_sent [simp]: "db_kept d (update_agent_sent_folder i f d)"
  by (simp add: db_kept_def update_agent_sent_folder_def accounts_def map_upd_key)

lemma db_kept_exists:
  assumes "db_kept d d'" shows "find_op i d' = None \<longleftrightarrow> find_op i d = None"
proof -
  have "find_op i x = None \<longleftrightarrow> i \<notin> fst ` set (map (\<lambda>r. (op_id r, op_status r)) (db_ops x))" for x
    by (force simp: find_op_def find_None_all has_op_def)
  then show ?thesis using assms unfolding db_kept_def by metis
qed

lemma verify_cong: "db_audit d' = db_audit d \<Longrightarrow> verify_audit_chain digest d' = verify_audit_chain digest d"
  by (simp add: verify_audit_chain_def)

section \<open>Steps that neither send mail nor decide the operation\<close>

fun is_relay :: "call \<Rightarrow> bool" where
  "is_relay (Smtp_sendmail u rc h b) = True"
| "is_relay (Smtp_send h p u pw rc hs b) = True"
| "is_relay _ = False"

definition gentle_step :: "world \<Rightarrow> world \<Rightarrow> bool" where
  "gentle_step w w' \<longleftrightarrow> db_kept (w_db w) (w_db w')
     \<and> (\<exists>cs. w_calls w' = w_calls w @ cs \<and> list_all (\<lambda>c. \<not> is_relay c) cs)"

definition gentle :: "'a act \<Rightarrow> bool" where
  "gentle m \<longleftrightarrow> (\<forall>w. gentle_step w (snd (m w)))"

named_theorems gentle_intros \<open>steps that neither send mail nor decide the operation\<close>

lemma gentle_step_refl: "gentle_step w w"
  by (simp add: gentle_step_def)

lemma gentle_step_trans: "gentle_step w w' \<Longrightarrow> gentle_step w' w'' \<Longrightarrow> gentle_step w w''"
  unfolding gentle_step_def using db_kept_trans by (metis append.assoc list_all_append)

lemma gentle_basic [gentle_intros]:
  "gentle (ret x)" "gentle (raise e)" "gentle (lift_res r)"
  by (simp_all add: gentle_def ret_def raise_def lift_res_def gentle_step_refl)

lemma gentle_on_db: "(\<And>d. db_kept d (f d)) \<Longrightarrow> gentle (on_db f)"
  by (simp add: gentle_def on_db_def gentle_step_def)

lemma gentle_bindE [gentle_intros]:
  assumes "gentle m" "\<And>x. gentle (f x)" shows "gentle (bindE m f)"
  unfolding gentle_def
proof
  fix w
  obtain r w1 where m: "m w = (r, w1)" by fastforce
  with assms(1) have "gentle_step w w1" by (metis gentle_def snd_conv)
  moreover have "gentle_step w1 (snd (f x w1))" for x using assms(2) by (simp add: gentle_def)
  ultimately show "gentle_step w (snd (bindE m f w))"
    using m gentle_step_trans by (auto simp: bindE_def split: sum.split)
qed

lemma gentle_catchE [gentle_intros]:
  assumes "gentle m" "\<And>e. gentle (h e)" shows "gentle (catchE m h)"
  unfolding gentle_def
proof
  fix w
  obtain r w1 where m: "m w = (r, w1)" by fastforce
  with assms(1) have "gentle_step w w1" by (metis gentle_def snd_conv)
  moreover have "gentle_step w1 (snd (h x w1))" for x using assms(2) by (simp add: gentle_def)
  ultimately show "gentle_step w (snd (catchE m h w))"
    using m gentle_step_trans by (auto simp: catchE_def split: sum.split)
qed

lemma gentle_do_call [gentle_intros]: "\<not> is_relay c \<Longrightarrow> gentle (do_call env c)"
  by (auto simp: gentle_def do_call_def Let_def gentle_step_def split: reply.split)

lemma gentle_call_ok [gentle_intros]: "\<not> is_relay c \<Longrightarrow> gentle (call_ok env c err)"
  unfolding call_ok_def by (auto intro!: gentle_intros split: prod.splits)

lemma gentle_open [gentle_intros]: "gentle (open_client h p)"
  by (simp add: gentle_def open_client_def gentle_step_def)

lemma gentle_with_logout [gentle_intros]:
  assumes "gentle m" shows "gentle (with_logout env m)"
  unfolding gentle_def
proof
  fix w
  have "gentle_step w (snd (m w))" using assms by (simp add: gentle_def)
  moreover have "gentle_step w' (snd (do_call env Logout w'))" for w'
    using gentle_do_call [of Logout env] by (simp add: gentle_def)
  ultimately show "gentle_step w (snd (with_logout env m w))"
    using gentle_step_trans by (auto simp: with_logout_def split: prod.split)
qed

lemma gentle_state: "(\<And>w. gentle (f w)) \<Longrightarrow> gentle (\<lambda>w. f w w)"
  by (simp add: gentle_def)

lemma gentle_login [gentle_intros]: "gentle (authenticate_upstream_imap env c)"
  unfolding gentle_def
proof
  fix w
  have "runs (authenticate_upstream_imap env c) (\<lambda>r w'. gentle_step w w') w"
  proof (rule authenticate_runs)
    fix w' :: world and cs
    assume "w_calls w' = w_calls w @ cs" "list_all session_call cs" "w_db w' = w_db w"
    moreover have "session_call x \<Longrightarrow> \<not> is_relay x" for x by (cases x) auto
    ultimately show "gentle_step w w'" by (auto simp: gentle_step_def list_all_iff)
  qed
  then show "gentle_step w (snd (authenticate_upstream_imap env c w))" by (simp add: runs_result)
qed

lemma gentle_resolve [gentle_intros]: "gentle (resolve_imap_credentials env row)"
  unfolding gentle_def
proof
  fix w
  have "runs (resolve_imap_credentials env row) (\<lambda>r w'. gentle_step w w') w"
    by (rule resolve_runs) (rule gentle_step_refl)
  then show "gentle_step w (snd (resolve_imap_credentials env row w))" by (simp add: runs_result)
qed

lemma gentle_checked [gentle_intros]: "\<not> is_relay c \<Longrightarrow> gentle (checked env c)"
  unfolding checked_def by (rule gentle_call_ok)

lemma gentle_branches [gentle_intros]:
  "gentle (run_move env row)" "gentle (run_copy env row)" "gentle (run_store env row)"
  "gentle (run_append env row)" "gentle (trash_fallback row)"
  unfolding run_move_def run_copy_def run_store_def run_append_def trash_fallback_def select_call_def
  by (auto intro!: gentle_intros gentle_on_db split: option.split)

lemma gentle_dispatch [gentle_intros]: "gentle (dispatch env row)"
proof -
  have "gentle (bindE (trash_fallback row) (\<lambda>result. bindE (run_store env row) (\<lambda>_. ret result)))"
    "gentle (bindE (lift_res (create_name row)) (\<lambda>name.
       bindE (checked env (Create (env_quoted env name))) (\<lambda>_. ret (None :: detail option))))"
    "gentle (bindE (checked env (Rename (env_quoted env (or_inbox (op_folder_from row)))
       (env_quoted env (or_empty (op_folder_to row))))) (\<lambda>_. ret (None :: detail option)))"
    "gentle (raise e :: detail option act)" for e
    by (auto intro!: gentle_intros)
  with gentle_branches show ?thesis
    unfolding gentle_def by (simp only: dispatch_def split: if_split) blast
qed

lemma gentle_imap [gentle_intros]: "gentle (execute_imap_upstream env row)"
  unfolding execute_imap_upstream_def by (auto intro!: gentle_intros)

lemma gentle_probe [gentle_intros]: "gentle (probe_sent env names)"
  by (induction names) (auto intro!: gentle_intros split: prod.split option.split)

lemma gentle_save_to_sent [gentle_intros]: "gentle (save_to_sent_folder env msg cred)"
  unfolding save_to_sent_folder_def sent_login_def target_sent_folder_def discover_sent_folder_def
  by (auto intro!: gentle_intros gentle_on_db split: option.split prod.split)

lemma gentle_settings [gentle_intros]: "gentle (resolve_smtp_settings env row)"
  unfolding gentle_def
proof
  fix w
  have "snd (resolve_smtp_settings env row w) = w"
    by (auto simp: resolve_smtp_settings_def Let_def bindE_def lift_res_def ret_def raise_def env_port_def
        split: option.splits sum.splits prod.splits)
  then show "gentle_step w (snd (resolve_smtp_settings env row w))" by (simp add: gentle_step_refl)
qed

section \<open>The relay\<close>

definition relay_call :: "smtp_settings \<Rightarrow> string list \<Rightarrow> (string \<times> string) list \<times> string \<Rightarrow> call" where
  "relay_call st recipients msg =
     (if ss_oauth2 st then Smtp_sendmail (ss_user st) recipients (fst msg) (snd msg)
      else Smtp_send (ss_host st) (ss_port st) (ss_user st) (ss_password st) recipients (fst msg) (snd msg))"

lemma relay_runs:
  assumes "\<And>r w' cs. w_calls w' = w_calls w @ cs \<Longrightarrow> w_db w' = w_db w \<Longrightarrow>
      filter is_relay cs = [] \<and> isl r \<or> filter is_relay cs = [relay_call st recipients msg] \<Longrightarrow> Q r w'"
  shows "runs (relay env st recipients msg) Q w"
  unfolding relay_def relay_call_def
  by (auto simp: run_simps relay_call_def split: option.split reply.split sum.split prod.split intro!: assms)

lemma settings_runs:
  assumes "\<And>r. (case r of
        Inl e \<Rightarrow> True
      | Inr st \<Rightarrow> (case get_agent_credential (op_agent_id row) True (w_db w) of
            Some a \<Rightarrow> ss_cred st = Some a \<and> ss_user st = ag_upstream_user a
          | None \<Rightarrow> op_agent_id row = None)) \<Longrightarrow> Q r w"
  shows "runs (resolve_smtp_settings env row) Q w"
  by (auto simp: runs_def resolve_smtp_settings_def Let_def bindE_def lift_res_def ret_def raise_def env_port_def
      split: option.splits sum.splits prod.splits intro!: assms)

lemma gentle_runs:
  assumes "gentle m"
    and "\<And>r w' cs. w_calls w' = w_calls w @ cs \<Longrightarrow> filter is_relay cs = [] \<Longrightarrow> db_kept (w_db w) (w_db w') \<Longrightarrow> Q r w'"
  shows "runs m Q w"
proof -
  obtain r w' where m: "m w = (r, w')" by fastforce
  then have "gentle_step w w'" using assms(1) unfolding gentle_def by (metis snd_conv)
  then show ?thesis using m assms(2) by (auto simp: gentle_step_def runs_def list_all_iff filter_empty_conv)
qed

text \<open>An operation's decision as the database shows it: its status and the newest audit row.\<close>

definition recorded :: "string \<Rightarrow> status \<Rightarrow> string \<Rightarrow> string \<Rightarrow> db \<Rightarrow> bool" where
  "recorded i st event actor d \<longleftrightarrow>
     (case find_op i d of None \<Rightarrow> False | Some r \<Rightarrow> op_status r = st)
     \<and> (case rev (db_audit d) of
          [] \<Rightarrow> False
        | r # _ \<Rightarrow> au_event r = event \<and> au_actor r = Some actor \<and> au_operation_id r = Some i)"

lemma recorded_insert:
  assumes "find_op i d \<noteq> None"
  shows "recorded i st event actor (insert_audit_event digest (op_event t event actor i row detail)
           (update_operation_status i st by err t' d))"
  using assms find_op_id [of i d]
  by (auto simp: recorded_def has_op_def insert_audit_event_def insert_with_prev_def Let_def event_row_def
      op_event_def find_op_def update_operation_status_def find_upd_key)

text \<open>What the calls of a run may send: nothing, or the one relay of the staged envelope.\<close>

definition relays_at_most_once :: "env \<Rightarrow> op_row \<Rightarrow> call list \<Rightarrow> bool" where
  "relays_at_most_once env row cs \<longleftrightarrow> filter is_relay cs = []
     \<or> (\<exists>st. filter is_relay cs = [relay_call st (env_recipients row) (relay_message env (ss_user st) row)])"

definition smtp_outcome :: "env \<Rightarrow> string \<Rightarrow> op_row \<Rightarrow> rate_exceeded option \<Rightarrow> world
    \<Rightarrow> failure + detail option \<Rightarrow> world \<Rightarrow> bool" where
  "smtp_outcome env i row limit w r w' \<longleftrightarrow>
     (\<exists>cs. w_calls w' = w_calls w @ cs \<and> relays_at_most_once env row cs
       \<and> (if filter is_relay cs = [] then isl r else limit = None))
     \<and> (case r of
          Inl e \<Rightarrow> w' = w \<or> recorded i Failed ''send_rate_exceeded'' ''system'' (w_db w')
            \<or> recorded i Failed ''execution_failed'' ''system'' (w_db w')
        | Inr d \<Rightarrow> d = Some (D_recipients (length (env_recipients row))) \<and> db_kept (w_db w) (w_db w'))"

lemma relay_step_runs:
  assumes "find_op i (w_db w) \<noteq> None" "limit = None"
  shows "runs (smtp_relay_step env clk i row st) (smtp_outcome env i row limit w) w"
proof -
  let ?call = "relay_call st (env_recipients row) (relay_message env (ss_user st) row)"
  let ?msg = "relay_message env (ss_user st) row"
  let ?n = "Some (D_recipients (length (env_recipients row)))"
  let ?fail = "\<lambda>e. bindE (on_db (record_execution_failure env clk i row e)) (\<lambda>_. raise (Relay_failed e))"
  have failed: "runs (?fail e) (smtp_outcome env i row limit w) w'"
    if "w_calls w' = w_calls w @ cs" "db_kept (w_db w) (w_db w')"
      "filter is_relay cs = [] \<or> filter is_relay cs = [?call]" for e w' cs
  proof -
    have "find_op i (w_db w') \<noteq> None" using assms(1) db_kept_exists [OF that(2), of i] by simp
    then have "recorded i Failed ''execution_failed'' ''system'' (record_execution_failure env clk i row e (w_db w'))"
      unfolding record_execution_failure_def by (rule recorded_insert)
    then show ?thesis
      using that assms(2) by (auto simp: run_simps smtp_outcome_def relays_at_most_once_def)
  qed
  have sent: "runs (bindE (case ss_cred st of None \<Rightarrow> ret () | Some c \<Rightarrow> save_to_sent_folder env ?msg c) (\<lambda>_. ret ?n))
      (\<lambda>r w''. case r of Inl e \<Rightarrow> runs (?fail e) (smtp_outcome env i row limit w) w''
         | Inr x \<Rightarrow> smtp_outcome env i row limit w (Inr x) w'') w1"
    if w1: "w_calls w1 = w_calls w @ cs" "w_db w1 = w_db w" "filter is_relay cs = [?call]" for w1 :: world and cs
  proof -
    have g: "gentle (case ss_cred st of None \<Rightarrow> ret () | Some c \<Rightarrow> save_to_sent_folder env ?msg c)"
      by (auto intro!: gentle_intros split: option.split)
    show ?thesis
      unfolding runs_bindE [where f = "\<lambda>_. ret ?n"]
    proof (rule gentle_runs [OF g])
      fix r :: "failure + unit" and w'' :: world and cs'
      assume k: "w_calls w'' = w_calls w1 @ cs'" "filter is_relay cs' = []" "db_kept (w_db w1) (w_db w'')"
      have c: "w_calls w'' = w_calls w @ cs @ cs'" "filter is_relay (cs @ cs') = [?call]" "db_kept (w_db w) (w_db w'')"
        using k w1 by simp_all
      then have "smtp_outcome env i row limit w (Inr ?n) w''"
        unfolding smtp_outcome_def relays_at_most_once_def using assms(2) by auto
      then show "case r of Inl e \<Rightarrow> case Inl e of Inl e \<Rightarrow> runs (?fail e) (smtp_outcome env i row limit w) w''
             | Inr x \<Rightarrow> smtp_outcome env i row limit w (Inr x) w''
           | Inr x \<Rightarrow> runs (ret ?n) (\<lambda>r w''. case r of Inl e \<Rightarrow> runs (?fail e) (smtp_outcome env i row limit w) w''
             | Inr x \<Rightarrow> smtp_outcome env i row limit w (Inr x) w'') w''"
        using failed [OF c(1,3) disjI2] c(2) by (cases r) (simp_all add: runs_basic)
    qed
  qed
  show ?thesis
    unfolding smtp_relay_step_def Let_def runs_catchE runs_bindE [where m = "relay env st (env_recipients row) ?msg"]
  proof (rule relay_runs)
    fix r :: "failure + unit" and w1 :: world and cs
    assume c: "w_calls w1 = w_calls w @ cs" "w_db w1 = w_db w"
      "filter is_relay cs = [] \<and> isl r \<or> filter is_relay cs = [?call]"
    show "case r of Inl e \<Rightarrow> case Inl e of Inl e \<Rightarrow> runs (?fail e) (smtp_outcome env i row limit w) w1
             | Inr x \<Rightarrow> smtp_outcome env i row limit w (Inr x) w1
           | Inr x \<Rightarrow> runs (bindE (case ss_cred st of None \<Rightarrow> ret () | Some c \<Rightarrow> save_to_sent_folder env ?msg c) (\<lambda>_. ret ?n))
               (\<lambda>r w''. case r of Inl e \<Rightarrow> runs (?fail e) (smtp_outcome env i row limit w) w''
                  | Inr x \<Rightarrow> smtp_outcome env i row limit w (Inr x) w'') w1"
      using c failed [OF c(1), of "case r of Inl e \<Rightarrow> e"] sent [OF c(1,2)] by (cases r) auto
  qed
qed

lemma smtp_runs:
  assumes "find_op i (w_db w) \<noteq> None"
  shows "runs (execute_smtp env clk i row) (smtp_outcome env i row
      (enforce_send_rate (load_send_rate_config (env_vars env)) (op_agent_id row)
             (length (env_recipients row)) (clk 2) (w_db w)) w) w"
    (is "runs _ (smtp_outcome env i row ?lim w) w")
  unfolding execute_smtp_def runs_bindE
proof (rule settings_runs)
  fix r :: "failure + smtp_settings"
  have pre: "smtp_outcome env i row ?lim w (Inl e) w" for e
    by (simp add: smtp_outcome_def relays_at_most_once_def)
  have over: "smtp_outcome env i row ?lim w (Inl (Rate_limited x))
      (w\<lparr>w_db := record_rate_exceeded env clk i row x (w_db w)\<rparr>)" for x
    using recorded_insert [OF assms] by (simp add: smtp_outcome_def relays_at_most_once_def record_rate_exceeded_def)
  show "case r of Inl e \<Rightarrow> smtp_outcome env i row ?lim w (Inl e) w
      | Inr st \<Rightarrow> runs (if env_recipients row = [] then raise No_recipients
          else (\<lambda>w. case enforce_send_rate (load_send_rate_config (env_vars env)) (op_agent_id row)
                     (length (env_recipients row)) (clk 2) (w_db w) of
           Some x \<Rightarrow> bindE (on_db (record_rate_exceeded env clk i row x)) (\<lambda>_. raise (Rate_limited x)) w
         | None \<Rightarrow> smtp_relay_step env clk i row st w)) (smtp_outcome env i row ?lim w) w"
  proof (cases r)
    case (Inr st)
    show ?thesis
    proof (cases "?lim")
      case None
      then show ?thesis
        using Inr pre relay_step_runs [OF assms None] by (auto simp: runs_basic) (simp add: runs_def)
    next
      case (Some x)
      then show ?thesis
        using Inr pre over [of x] by (auto simp: runs_basic) (simp add: runs_def bindE_def on_db_def raise_def)
    qed
  qed (simp add: pre)
qed

text \<open>The verdicts on a run of the executor.\<close>

definition execution_outcome ::
  "(nat \<Rightarrow> int) \<Rightarrow> string \<Rightarrow> string \<Rightarrow> world \<Rightarrow> failure + int option \<Rightarrow> world \<Rightarrow> bool" where
  "execution_outcome clk actor i w r w' \<longleftrightarrow>
     (case r of
        Inr t \<Rightarrow> t = Some (clk 3) \<and> recorded i Executed ''executed'' actor (w_db w')
      | Inl e \<Rightarrow> w' = w \<or> recorded i Failed ''execution_failed'' ''system'' (w_db w')
                 \<or> recorded i Failed ''send_rate_exceeded'' ''system'' (w_db w'))"

lemma finish_runs:
  assumes "find_op i (w_db w1) \<noteq> None"
  shows "runs (bindE (on_db (record_executed env clk actor i row detail))
      (\<lambda>_ w. (Inr (Option.bind (get_operation i None (w_db w)) op_executed_at), w)))
      (execution_outcome clk actor i w) w1"
proof -
  let ?d = "record_executed env clk actor i row detail (w_db w1)"
  have "recorded i Executed ''executed'' actor ?d"
    unfolding record_executed_def by (rule recorded_insert [OF assms])
  moreover have "Option.bind (get_operation i None ?d) op_executed_at = Some (clk 3)"
    using assms find_op_id [of i "w_db w1"]
    by (auto simp: get_operation_unscoped record_executed_def has_op_def)
  ultimately show ?thesis
    by (simp add: runs_bindE runs_unit) (simp add: runs_def execution_outcome_def)
qed

lemma imap_runs:
  assumes "find_op i (w_db w) \<noteq> None"
  shows "runs (execute_imap env clk i row)
    (\<lambda>r w'. filter is_relay (drop (length (w_calls w)) (w_calls w')) = []
       \<and> (case r of Inl e \<Rightarrow> recorded i Failed ''execution_failed'' ''system'' (w_db w')
          | Inr d \<Rightarrow> find_op i (w_db w') \<noteq> None)) w"
  unfolding execute_imap_def runs_catchE
proof (rule gentle_runs [OF gentle_imap])
  fix r :: "failure + detail option" and w' :: world and cs
  assume k: "w_calls w' = w_calls w @ cs" "filter is_relay cs = []" "db_kept (w_db w) (w_db w')"
  then have ex: "find_op i (w_db w') \<noteq> None" using assms db_kept_exists [OF k(3), of i] by simp
  then have "recorded i Failed ''execution_failed'' ''system'' (record_execution_failure env clk i row e (w_db w'))" for e
    unfolding record_execution_failure_def by (rule recorded_insert)
  then show "case r of Inl e \<Rightarrow> runs (bindE (on_db (record_execution_failure env clk i row e)) (\<lambda>_. raise (Imap_failed e)))
        (\<lambda>r w'. filter is_relay (drop (length (w_calls w)) (w_calls w')) = []
           \<and> (case r of Inl e \<Rightarrow> recorded i Failed ''execution_failed'' ''system'' (w_db w')
              | Inr d \<Rightarrow> find_op i (w_db w') \<noteq> None)) w'
      | Inr x \<Rightarrow> filter is_relay (drop (length (w_calls w)) (w_calls w')) = []
           \<and> (case Inr x of Inl e \<Rightarrow> recorded i Failed ''execution_failed'' ''system'' (w_db w')
              | Inr d \<Rightarrow> find_op i (w_db w') \<noteq> None)"
    using k ex by (cases r) (simp_all add: run_simps)
qed

lemma execution_runs:
  assumes "find_op i (w_db w) \<noteq> None"
  shows "runs (execute_operation env clk actor i row) (execution_outcome clk actor i w) w"
proof (cases "op_protocol row = ''smtp''")
  case True
  show ?thesis
    unfolding execute_operation_def runs_bindE [where f = "\<lambda>d. bindE (on_db (record_executed env clk actor i row d)) _"]
  proof (subst if_P [OF True], rule runs_mono [OF smtp_runs [OF assms]])
    fix r :: "failure + detail option" and w1
    let ?lim = "enforce_send_rate (load_send_rate_config (env_vars env)) (op_agent_id row)
                  (length (env_recipients row)) (clk 2) (w_db w)"
    assume o: "smtp_outcome env i row ?lim w r w1"
    show "case r of Inl e \<Rightarrow> execution_outcome clk actor i w (Inl e) w1
        | Inr x \<Rightarrow> runs (bindE (on_db (record_executed env clk actor i row x))
            (\<lambda>_ w. (Inr (Option.bind (get_operation i None (w_db w)) op_executed_at), w)))
            (execution_outcome clk actor i w) w1"
    proof (cases r)
      case (Inl e)
      then show ?thesis using o unfolding smtp_outcome_def execution_outcome_def
        by (simp only: sum.case) blast
    next
      case (Inr x)
      then have "db_kept (w_db w) (w_db w1)" using o by (simp add: smtp_outcome_def)
      then have "find_op i (w_db w1) \<noteq> None" using assms db_kept_exists [of "w_db w" "w_db w1" i] by simp
      then show ?thesis using Inr finish_runs by simp
    qed
  qed
next
  case False
  show ?thesis
    unfolding execute_operation_def runs_bindE [where f = "\<lambda>d. bindE (on_db (record_executed env clk actor i row d)) _"]
    by (subst if_not_P [OF False], rule runs_mono [OF imap_runs [OF assms]])
      (use finish_runs in \<open>auto simp: execution_outcome_def split: sum.splits\<close>)
qed

section \<open>Relations a run stays within\<close>

text \<open>
  A relation between databases that every step touching neither the log nor a status is within.  A
  run built from such steps and from recording steps within it is within it too.
\<close>

definition within :: "(db \<Rightarrow> db \<Rightarrow> bool) \<Rightarrow> 'a act \<Rightarrow> bool" where
  "within R m \<longleftrightarrow> (\<forall>w. R (w_db w) (w_db (snd (m w))))"

locale db_relation =
  fixes R :: "db \<Rightarrow> db \<Rightarrow> bool"
  assumes R_trans: "R d d' \<Longrightarrow> R d' d'' \<Longrightarrow> R d d''"
    and R_kept: "db_kept d d' \<Longrightarrow> R d d'"
begin

lemma R_refl: "R d d"
  by (rule R_kept) simp

lemma within_gentle: "gentle m \<Longrightarrow> within R m"
  unfolding within_def gentle_def gentle_step_def using R_kept by blast

lemma within_on_db: "(\<And>d. R d (f d)) \<Longrightarrow> within R (on_db f)"
  by (simp add: within_def on_db_def)

lemma within_bindE:
  assumes "within R m" "\<And>x. within R (f x)" shows "within R (bindE m f)"
  unfolding within_def
proof
  fix w
  obtain r w1 where m: "m w = (r, w1)" by fastforce
  with assms(1) have "R (w_db w) (w_db w1)" by (metis within_def snd_conv)
  moreover have "R (w_db w1) (w_db (snd (f x w1)))" for x using assms(2) by (simp add: within_def)
  ultimately show "R (w_db w) (w_db (snd (bindE m f w)))"
    using m R_trans by (auto simp: bindE_def split: sum.split)
qed

lemma within_catchE:
  assumes "within R m" "\<And>x. within R (h x)" shows "within R (catchE m h)"
  unfolding within_def
proof
  fix w
  obtain r w1 where m: "m w = (r, w1)" by fastforce
  with assms(1) have "R (w_db w) (w_db w1)" by (metis within_def snd_conv)
  moreover have "R (w_db w1) (w_db (snd (h x w1)))" for x using assms(2) by (simp add: within_def)
  ultimately show "R (w_db w) (w_db (snd (catchE m h w)))"
    using m R_trans by (auto simp: catchE_def split: sum.split)
qed

lemma within_relay: "within R (relay env st rc msg)"
  unfolding within_def
proof
  fix w :: world
  have "runs (relay env st rc msg) (\<lambda>r w'. R (w_db w) (w_db w')) w"
    by (rule relay_runs) (simp add: R_refl)
  then show "R (w_db w) (w_db (snd (relay env st rc msg w)))" by (simp add: runs_result)
qed

lemmas within_intros = within_bindE within_catchE within_relay within_on_db within_gentle

text \<open>Execution stays within whatever its three recording steps stay within.\<close>

lemma within_execution:
  assumes fail: "\<And>e d. R d (record_execution_failure env clk i row e d)"
    and rate: "\<And>x d. R d (record_rate_exceeded env clk i row x d)"
    and done_rec: "\<And>detail d. R d (record_executed env clk actor i row detail d)"
  shows "within R (execute_operation env clk actor i row)"
proof -
  have step: "within R (smtp_relay_step env clk i row st)" for st
    unfolding smtp_relay_step_def Let_def
    by (intro within_intros fail) (auto intro!: gentle_intros split: option.split)
  have "within R (bindE (on_db (record_rate_exceeded env clk i row x)) (\<lambda>_. raise (Rate_limited x) :: detail option act))" for x
    by (intro within_intros rate gentle_basic(2))
  then have "within R (\<lambda>w. case enforce_send_rate (load_send_rate_config (env_vars env)) (op_agent_id row)
                     (length (env_recipients row)) (clk 2) (w_db w) of
           Some x \<Rightarrow> bindE (on_db (record_rate_exceeded env clk i row x)) (\<lambda>_. raise (Rate_limited x)) w
         | None \<Rightarrow> smtp_relay_step env clk i row st w)" for st
    using step [of st] unfolding within_def by (auto split: option.split)
  then have "within R (execute_smtp env clk i row)"
    unfolding execute_smtp_def
    by (intro within_bindE) (auto intro!: within_gentle gentle_intros split: if_splits)
  moreover have "within R (execute_imap env clk i row)"
    unfolding execute_imap_def by (intro within_intros fail) (auto intro!: gentle_intros)
  moreover have "within R (\<lambda>w. (Inr (Option.bind (get_operation i None (w_db w)) op_executed_at), w))"
    by (simp add: within_def R_refl)
  ultimately show ?thesis
    unfolding execute_operation_def by (intro within_bindE within_on_db done_rec) auto
qed

end

text \<open>A verified log stays verified.\<close>

definition log_kept :: "(string \<Rightarrow> nat list) \<Rightarrow> db \<Rightarrow> db \<Rightarrow> bool" where
  "log_kept digest d d' \<longleftrightarrow> (if fst (verify_audit_chain digest d) then fst (verify_audit_chain digest d') else True)"

interpretation chain: db_relation "log_kept digest" for digest :: "string \<Rightarrow> nat list"
proof
  show "db_kept d d' \<Longrightarrow> log_kept digest d d'" for d d'
    using verify_cong [of d' d digest] by (simp add: log_kept_def db_kept_def)
qed (auto simp: log_kept_def split: if_splits)

lemma log_kept_insert: "db_audit d' = db_audit d \<Longrightarrow> log_kept digest d (insert_audit_event digest e d')"
  using insert_keeps_verified [of digest d' e] verify_cong [of d' d digest] by (simp add: log_kept_def)

lemma log_kept_records:
  "log_kept (env_digest env) d (record_execution_failure env clk i row e d)"
  "log_kept (env_digest env) d (record_rate_exceeded env clk i row x d)"
  "log_kept (env_digest env) d (record_executed env clk actor i row detail d)"
  unfolding record_execution_failure_def record_rate_exceeded_def record_executed_def
  by (rule log_kept_insert, simp)+

lemma log_kept_execution: "within (log_kept (env_digest env)) (execute_operation env clk actor i row)"
  by (rule chain.within_execution) (rule log_kept_records)+

text \<open>At most the status of operation \<open>i\<close> changes, and only to one of \<open>S\<close>.\<close>

definition statuses :: "db \<Rightarrow> (string \<times> status) list" where
  "statuses d = map (\<lambda>r. (op_id r, op_status r)) (db_ops d)"

definition decides :: "string \<Rightarrow> status set \<Rightarrow> db \<Rightarrow> db \<Rightarrow> bool" where
  "decides i S d d' \<longleftrightarrow> statuses d' = statuses d
     \<or> (\<exists>st \<in> S. statuses d' = map (\<lambda>(j, s). (j, if j = i then st else s)) (statuses d))"

interpretation only: db_relation "decides i S" for i :: string and S :: "status set"
proof
  fix d d' d''
  have idem: "map (\<lambda>(j, s). (j, if j = i then st else s)) (map (\<lambda>(j, s). (j, if j = i then st' else s)) xs)
      = map (\<lambda>(j, s). (j, if j = i then st else s)) xs" for st st' and xs :: "(string \<times> status) list"
    by (induction xs) auto
  show "decides i S d d' \<Longrightarrow> decides i S d' d'' \<Longrightarrow> decides i S d d''"
    unfolding decides_def using idem by (elim disjE bexE) auto
qed (simp add: decides_def statuses_def db_kept_def)

lemma statuses_update:
  "statuses (insert_audit_event digest e d) = statuses d"
  "statuses (update_operation_status i st by err now d)
     = map (\<lambda>(j, s). (j, if j = i then st else s)) (statuses d)"
  by (auto simp: statuses_def update_operation_status_def upd_def has_op_def)

lemma decides_execution: "within (decides i {Executed, Failed}) (execute_operation env clk actor i row)"
  by (rule only.within_execution)
    (auto simp: decides_def record_execution_failure_def record_rate_exceeded_def record_executed_def statuses_update)

section \<open>Properties\<close>


text \<open>The relayed message always names the authenticated upstream address as its one sender, and
  keeps every other header of the agent's message in order.\<close>

theorem relay_sender_authentic:
  "filter (\<lambda>h. py_lower (fst h) = ''from'') (fst (relay_message env user row)) = [(''From'', user)]
   \<and> (if fst (env_parse_email env (body_text row)) = [] then True
      else filter (\<lambda>h. py_lower (fst h) \<noteq> ''from'') (fst (relay_message env user row))
         = filter (\<lambda>h. py_lower (fst h) \<noteq> ''from'') (fst (env_parse_email env (body_text row))))"
proof -
  have "py_lower ''From'' = ''from''" by code_simp
  then show ?thesis
    by (auto simp: relay_message_def Let_def split: prod.splits)
qed

text \<open>C9: the outcome of an execution is what the database shows.  An operation reported executed has
  that status, stamped with the time returned, and an \<open>executed\<close> row of the acting party as the
  newest audit row; a failed one is marked failed with its failure row, unless the refusal came
  before anything was touched.\<close>

theorem execution_outcome_recorded:
  assumes "find_op i (w_db w) = Some r0"
  shows "execution_outcome clk actor i w (fst (execute_operation env clk actor i row w))
           (snd (execute_operation env clk actor i row w))"
  using execution_runs [of i w env clk actor row] assms by (simp add: runs_result)

text \<open>C6: a send leaves the gateway at most once, to exactly the staged recipients and with the
  message built from the staged body, and only when the rate limiter admitted it; without a relay
  the execution is not a success.\<close>

theorem relay_once_within_limit:
  assumes "find_op i (w_db w) = Some r0" "execute_smtp env clk i row w = (r, w')"
  shows "\<exists>cs. w_calls w' = w_calls w @ cs \<and> relays_at_most_once env row cs
    \<and> (if filter is_relay cs = [] then isl r
       else enforce_send_rate (load_send_rate_config (env_vars env)) (op_agent_id row)
              (length (env_recipients row)) (clk 2) (w_db w) = None)"
proof -
  have "find_op i (w_db w) \<noteq> None" using assms(1) by simp
  from smtp_runs [OF this, of env clk row] show ?thesis
    using assms(2) by (simp add: runs_def smtp_outcome_def)
qed

text \<open>C10: a revoked agent, or one whose account is suspended or deleted, executes nothing: no server is
  contacted, whichever protocol and whatever fallback is configured.\<close>

theorem blocked_agent_executes_nothing:
  assumes "op_agent_id row = Some a" "\<forall>g \<in> set (db_agents (w_db w)). ag_id g = a \<longrightarrow> \<not> agent_active (w_db w) g"
    and "execute_operation env clk actor i row w = (r, w')"
  shows "w_calls w' = w_calls w \<and> (isl r \<or> legacy_append row)"
proof -
  have none: "get_agent_credential (op_agent_id row) True (w_db w) = None"
    using assms(1,2) by (auto simp: get_agent_credential_def find_None_all)
  then have "resolve_imap_credentials env row w = (Inl (Agent_blocked a), w)"
    "resolve_smtp_settings env row w = (Inl (Agent_blocked a), w)"
    using assms(1) by (simp_all add: resolve_imap_credentials_def resolve_smtp_settings_def raise_def)
  then show ?thesis
    using assms(3)
    by (auto simp: execute_operation_def execute_smtp_def execute_imap_def execute_imap_upstream_def bindE_def
        catchE_def on_db_def raise_def ret_def split: if_splits)
qed

text \<open>Executing an operation keeps a verified audit log verified, whatever the outcome.\<close>

theorem execution_keeps_audit:
  assumes "fst (verify_audit_chain (env_digest env) (w_db w))"
  shows "fst (verify_audit_chain (env_digest env) (w_db (snd (execute_operation env clk actor i row w))))"
  using log_kept_execution [of env clk actor i row] assms unfolding within_def log_kept_def by simp

section \<open>A sample run\<close>

text \<open>A server that accepts everything, and a send waiting in the sample account.\<close>

definition sample_env :: env where
  "sample_env =
     \<lparr>env_server = (\<lambda>h c. Reply ''OK'' []), env_caps = (\<lambda>h. [''MOVE'']), env_secret = Inr,
      env_token = (\<lambda>i. Inl (Token_failed [])), env_quoted = id, env_parse_email = (\<lambda>s. ([(''From'', ''x'')], s)),
      env_mime_text = (\<lambda>s. ([], s)), env_flatten = snd, env_vars = Map.empty, env_text = (\<lambda>f. ''failed''),
      env_digest = (\<lambda>p. [length p])\<rparr>"

definition sample_mail :: op_row where
  "sample_mail = sample_op\<lparr>op_type := ''smtp_send'', op_protocol := ''smtp'', op_snapshot := None,
     op_smtp_envelope := Some \<lparr>env_from = ''a@b.example'', env_to = [''c@d.example''], env_subject = ''hi'',
       env_body = Some ''hello'', env_body_rendered = None, env_body_preview = None,
       env_in_reply_to = None, env_original = None\<rparr>\<rparr>"

definition sample_world :: world where
  "sample_world = \<lparr>w_calls = [], w_caps = [], w_db = sample_auth_db\<lparr>db_ops := [sample_mail]\<rparr>\<rparr>"

lemma sample_world_simps:
  "find_op ''op_1'' (w_db sample_world) = Some sample_mail"
  "db_audit (w_db sample_world) = []"
  "op_agent_id sample_mail = Some 1"
  by (simp_all add: sample_world_def sample_auth_db_def empty_db_def find_op_def has_op_def sample_mail_def
      sample_op_def)

lemma execution_outcome_recorded_witness:
  "execution_outcome (\<lambda>n. 50 + int n) ''human'' ''op_1'' sample_world
     (fst (execute_operation sample_env (\<lambda>n. 50 + int n) ''human'' ''op_1'' sample_mail sample_world))
     (snd (execute_operation sample_env (\<lambda>n. 50 + int n) ''human'' ''op_1'' sample_mail sample_world))"
  by (rule execution_outcome_recorded) (rule sample_world_simps)

lemma relay_once_within_limit_witness:
  "\<exists>cs. w_calls (snd (execute_smtp sample_env int ''op_1'' sample_mail sample_world)) = w_calls sample_world @ cs
    \<and> relays_at_most_once sample_env sample_mail cs
    \<and> (if filter is_relay cs = [] then isl (fst (execute_smtp sample_env int ''op_1'' sample_mail sample_world))
       else enforce_send_rate (load_send_rate_config (env_vars sample_env)) (op_agent_id sample_mail)
              (length (env_recipients sample_mail)) (int 2) (w_db sample_world) = None)"
  by (rule relay_once_within_limit [OF sample_world_simps(1)]) simp

lemma blocked_agent_executes_nothing_witness:
  "w_calls (snd (execute_operation sample_env int ''human'' ''op_1'' sample_mail
       (sample_world\<lparr>w_db := empty_db\<rparr>))) = w_calls (sample_world\<lparr>w_db := empty_db\<rparr>)
   \<and> (isl (fst (execute_operation sample_env int ''human'' ''op_1'' sample_mail (sample_world\<lparr>w_db := empty_db\<rparr>)))
      \<or> legacy_append sample_mail)"
  by (rule blocked_agent_executes_nothing [OF sample_world_simps(3)]) (simp_all add: empty_db_def)

lemma execution_keeps_audit_witness:
  "fst (verify_audit_chain (env_digest sample_env)
     (w_db (snd (execute_operation sample_env int ''human'' ''op_1'' sample_mail sample_world))))"
  by (rule execution_keeps_audit) (simp add: verify_audit_chain_def verify_rows_def sample_world_simps)

end
