(* ===== verification/Undo.thy ===== *)
theory Undo
  imports Execution_Laws
begin

text \<open>
  Undo of an executed operation (\<open>gateway/undo.py\<close>): the checks, where a moved message went, and the
  inverse command.  \<open>describe\<close> gives the text of the summary.
\<close>

section \<open>Where a move went\<close>

definition UNDOABLE_OP_TYPES :: "string list" where
  "UNDOABLE_OP_TYPES = [''move'', ''trash'', ''mark_read'', ''mark_unread'', ''flag'', ''unflag'']"

definition MOVE_OP_TYPES :: "string list" where
  "MOVE_OP_TYPES = [''move'', ''trash'']"

text \<open>\<open>_UID_SET_RE\<close>: UIDs and ranges separated by commas; \<open>$\<close> also matches before a final newline.\<close>

definition uid_set_part :: "string \<Rightarrow> bool" where
  "uid_set_part p \<longleftrightarrow>
     (case py_split_on (CHR '':'') p of
        [a] \<Rightarrow> py_isdigit a
      | [a, b] \<Rightarrow> py_isdigit a \<and> py_isdigit b
      | _ \<Rightarrow> False)"

definition uid_set_ok :: "string \<Rightarrow> bool" where
  "uid_set_ok s =
     list_all uid_set_part
       (py_split_on (CHR '','') (if s \<noteq> [] \<and> last s = CHR 0x0A then butlast s else s))"

definition count_part :: "string \<Rightarrow> nat option" where
  "count_part part =
     (case split_colon part of
        None \<Rightarrow> Some 1
      | Some (lo, hi) \<Rightarrow>
          if hi = [] then Some 1
          else (case (py_int lo, py_int hi) of
                  (Some a, Some b) \<Rightarrow> Some (nat \<bar>b - a\<bar> + 1)
                | _ \<Rightarrow> None))"

definition count_uid_set :: "string \<Rightarrow> nat option" where
  "count_uid_set s = map_option sum_list (those (map count_part (py_split_on (CHR '','') s)))"

definition load_move_destination :: "string \<Rightarrow> db \<Rightarrow> (string \<times> nat) option" where
  "load_move_destination i d =
     (case rev (filter (\<lambda>r. au_operation_id r = Some i \<and> au_event r = ''executed'') (db_audit d)) of
        [] \<Rightarrow> None
      | r # _ \<Rightarrow>
          (case au_detail r of
             Some (D_destination v uids) \<Rightarrow> if uid_set_ok uids then Some (uids, v) else None
           | _ \<Rightarrow> None))"

section \<open>The inverse command\<close>

datatype undone =
    Moved_back string string string
  | Moved_back_some nat nat string string string
  | Removed_flags "string list" string string
  | Restored_flags "string list" string string

definition undo_fail :: "env \<Rightarrow> call \<Rightarrow> string list act" where
  "undo_fail env c = call_ok env c (Command_failed c)"

definition undo_store ::
  "env \<Rightarrow> string \<Rightarrow> string \<Rightarrow> string \<Rightarrow> string list \<Rightarrow> undone \<Rightarrow> undone act" where
  "undo_store env folder_from uid_set sign flags done =
     (if flags = [] then raise (Undo_refused ''no flags recorded'')
      else bindE (undo_fail env (select_call env folder_from)) (\<lambda>_.
           bindE (undo_fail env (Uid_cmd ''store'' [uid_set, sign, flag_list flags])) (\<lambda>_. ret done)))"

definition undo_move :: "env \<Rightarrow> string \<Rightarrow> string \<Rightarrow> (string \<times> nat) option \<Rightarrow> undone act" where
  "undo_move env folder_from folder_to dest =
     (case dest of
        None \<Rightarrow> raise (Undo_refused ''destination UIDs not recorded'')
      | Some (dest_uids, dest_uidvalidity) \<Rightarrow>
          if dest_uids = [] then raise (Undo_refused ''destination UIDs not recorded'')
          else bindE (undo_fail env (select_call env folder_to)) (\<lambda>sel.
            if parse_uidvalidity sel \<noteq> Some dest_uidvalidity then raise (Undo_refused ''UIDVALIDITY changed'')
            else bindE (undo_fail env (Uid_cmd ''move'' [dest_uids, env_quoted env folder_from])) (\<lambda>lines.
              case parse_copyuid lines of
                None \<Rightarrow> raise (Undo_refused ''moved nothing'')
              | Some (_, moved) \<Rightarrow>
                  (case (count_uid_set dest_uids, count_uid_set moved) of
                     (Some expected, Some got) \<Rightarrow>
                       if got < expected then ret (Moved_back_some got expected dest_uids folder_to folder_from)
                       else ret (Moved_back dest_uids folder_to folder_from)
                   | _ \<Rightarrow> raise (Library ''invalid literal for int()'')))))"

definition undo_command :: "env \<Rightarrow> op_row \<Rightarrow> (string \<times> nat) option \<Rightarrow> undone act" where
  "undo_command env row dest =
     (let from_folder = or_inbox (op_folder_from row); uids = uid_set_of row;
          adds = list_or_empty (op_flags_add row); removes = list_or_empty (op_flags_remove row)
      in if op_type row \<in> set MOVE_OP_TYPES then undo_move env from_folder (or_empty (op_folder_to row)) dest
         else if op_type row \<in> {''mark_read'', ''flag''} then
           undo_store env from_folder uids ''-FLAGS'' adds (Removed_flags adds uids from_folder)
         else if op_type row \<in> {''mark_unread'', ''unflag''} then
           undo_store env from_folder uids ''+FLAGS'' removes (Restored_flags removes uids from_folder)
         else raise (Undo_refused ''no undo strategy''))"

definition execute_undo_imap ::
  "env \<Rightarrow> op_row \<Rightarrow> (string \<times> nat) option \<Rightarrow> imap_credentials \<Rightarrow> undone act" where
  "execute_undo_imap env row dest creds =
     bindE (open_client (cr_host creds) (cr_port creds)) (\<lambda>_.
       with_logout env
         (bindE (authenticate_upstream_imap env creds) (\<lambda>_. undo_command env row dest)))"

section \<open>Undo\<close>

text \<open>The checks before anything is contacted; \<open>None\<close> lets the undo proceed.\<close>

definition undo_refusal :: "int \<Rightarrow> op_row \<Rightarrow> failure option" where
  "undo_refusal now row =
     (if op_status row \<noteq> Executed then Some (Undo_refused ''status'')
      else if op_type row \<notin> set UNDOABLE_OP_TYPES then Some (Undo_refused ''op_type'')
      else (case op_undo_expires_at row of
              Some t \<Rightarrow> if t \<noteq> 0 \<and> now > t then Some (Undo_refused ''window expired'') else None
            | None \<Rightarrow> None))"

definition undo_destination :: "op_row \<Rightarrow> string \<Rightarrow> db \<Rightarrow> failure + (string \<times> nat) option" where
  "undo_destination row i d =
     (if op_type row \<notin> set MOVE_OP_TYPES then Inr None
      else if \<not> truthy (op_folder_to row) then Inl (Undo_refused ''folder_to not recorded'')
      else (case load_move_destination i d of
              None \<Rightarrow> Inl (Undo_refused ''destination not recorded'')
            | Some dest \<Rightarrow> Inr (Some dest)))"

definition record_reverted ::
  "env \<Rightarrow> (undone \<Rightarrow> string) \<Rightarrow> (nat \<Rightarrow> int) \<Rightarrow> string \<Rightarrow> op_row \<Rightarrow> undone \<Rightarrow> db \<Rightarrow> db" where
  "record_reverted env describe clk i row u d =
     insert_audit_event (env_digest env)
       (op_event (clk 0) ''reverted'' ''human'' i row (Some (D_text (describe u))))
       (update_operation_status i Reverted ''human'' None (clk 1) d)"

definition undo_operation :: "env \<Rightarrow> (undone \<Rightarrow> string) \<Rightarrow> (nat \<Rightarrow> int) \<Rightarrow> string \<Rightarrow> undone act" where
  "undo_operation env describe clk i w =
     (case find_op i (w_db w) of
        None \<Rightarrow> raise (Undo_refused ''not found'') w
      | Some row \<Rightarrow>
          (case undo_refusal (clk 0) row of
             Some e \<Rightarrow> raise e w
           | None \<Rightarrow>
               bindE (lift_res (undo_destination row i (w_db w))) (\<lambda>dest.
               bindE (resolve_imap_credentials env row) (\<lambda>creds.
               bindE (execute_undo_imap env row dest creds) (\<lambda>u.
               bindE (on_db (record_reverted env describe clk i row u)) (\<lambda>_. ret u)))) w))"

section \<open>Laws\<close>

text \<open>The command that takes an operation back, and what makes it safe to issue.\<close>

definition undo_effect :: "env \<Rightarrow> op_row \<Rightarrow> db \<Rightarrow> call option" where
  "undo_effect env row d =
     (let uids = uid_set_of row; adds = list_or_empty (op_flags_add row);
          removes = list_or_empty (op_flags_remove row); home = env_quoted env (or_inbox (op_folder_from row))
      in if op_type row \<in> {''mark_read'', ''flag''} then
           (if adds = [] then None else Some (Uid_cmd ''store'' [uids, ''-FLAGS'', flag_list adds]))
         else if op_type row \<in> {''mark_unread'', ''unflag''} then
           (if removes = [] then None else Some (Uid_cmd ''store'' [uids, ''+FLAGS'', flag_list removes]))
         else map_option (\<lambda>dest. Uid_cmd ''move'' [fst dest, home]) (load_move_destination (op_id row) d))"

definition reverted_by ::
  "env \<Rightarrow> op_row \<Rightarrow> world \<Rightarrow> bool \<Rightarrow> world \<Rightarrow> bool" where
  "reverted_by env row w succeeded w' \<longleftrightarrow>
     carried env (\<lambda>e. undo_effect env row (w_db w) = Some e) (w_calls w) succeeded (w_calls w')"

lemma undo_cmd_runs:
  assumes "allowed e" "w_calls w1 = h @ pre" "list_all quiet pre" "w_db w1 = d"
    and "\<And>lines Q'. (\<And>r. Q' r (w1\<lparr>w_calls := w_calls w1 @ [e]\<rparr>)) \<Longrightarrow> runs (f lines) Q' (w1\<lparr>w_calls := w_calls w1 @ [e]\<rparr>)"
  shows "runs (bindE (undo_fail env e) f) (\<lambda>r w'. carried env allowed h (\<not> isl r) (w_calls w') \<and> w_db w' = d) w1"
proof -
  have "carried env allowed h (\<not> isl r) (w_calls w1 @ [e])"
    if "env_server env (w_calls w1) e = Reply ''OK'' lines" for r :: "failure + 'a" and lines
    by (rule carried_done [where pre = pre]) (use assms that in simp_all)
  moreover have "carried env allowed h False (w_calls w1 @ [e])"
    by (rule carried_failed [where pre = pre]) (use assms in simp_all)
  ultimately show ?thesis
    using assms(4) by (auto simp: undo_fail_def run_simps split: reply.split intro!: assms(5))
qed

lemma undo_select_runs:
  assumes "w_calls w1 = h @ pre" "list_all quiet pre" "w_db w1 = d"
    and "\<And>lines. runs (f lines) (\<lambda>r w'. carried env allowed h (\<not> isl r) (w_calls w') \<and> w_db w' = d)
            (w1\<lparr>w_calls := w_calls w1 @ [select_call env folder]\<rparr>)"
  shows "runs (bindE (undo_fail env (select_call env folder)) f)
      (\<lambda>r w'. carried env allowed h (\<not> isl r) (w_calls w') \<and> w_db w' = d) w1"
proof -
  have "carried env allowed h False (w_calls w1 @ [select_call env folder])"
    by (rule carried_none [where pre = "pre @ [select_call env folder]"])
      (use assms in \<open>simp_all add: select_call_def\<close>)
  then show ?thesis
    using assms(3,4) by (auto simp: undo_fail_def run_simps split: reply.split)
qed

lemma undo_raise_runs:
  assumes "w_calls w1 = h @ pre" "list_all quiet pre" "w_db w1 = d"
  shows "runs (raise e) (\<lambda>r w'. carried env allowed h (\<not> isl r) (w_calls w') \<and> w_db w' = d) w1"
  using carried_none [of _ h pre] assms by (simp add: runs_basic)

lemma undo_store_runs:
  assumes calls: "w_calls w1 = h @ pre" "list_all quiet pre" and db: "w_db w1 = d"
    and ok: "flags \<noteq> [] \<Longrightarrow> allowed (Uid_cmd ''store'' [uids, sign, flag_list flags])"
  shows "runs (undo_store env folder uids sign flags u) (\<lambda>r w'. carried env allowed h (\<not> isl r) (w_calls w') \<and> w_db w' = d) w1"
proof (cases "flags = []")
  case True
  then show ?thesis using undo_raise_runs [OF calls db] by (simp add: undo_store_def)
next
  case False
  show ?thesis
    unfolding undo_store_def if_not_P [OF False]
    by (rule undo_select_runs [OF calls db], rule undo_cmd_runs [where pre = "pre @ [select_call env folder]"])
      (use ok False calls db in \<open>simp_all add: select_call_def runs_basic\<close>)
qed

text \<open>The summary of an undone move depends on the reply, and touches nothing.\<close>

lemma undo_summary_runs:
  assumes "\<And>r. Q r w2"
  shows "runs (case parse_copyuid lines of
      None \<Rightarrow> raise (Undo_refused ''moved nothing'')
    | Some (_, moved) \<Rightarrow>
        (case (count_uid_set uids, count_uid_set moved) of
           (Some expected, Some got) \<Rightarrow>
             if got < expected then ret (Moved_back_some got expected uids folder home)
             else ret (Moved_back uids folder home)
         | _ \<Rightarrow> raise (Library ''invalid literal for int()''))) Q w2"
  using assms by (auto simp: runs_basic split: option.split)

lemma undo_move_runs:
  assumes calls: "w_calls w1 = h @ pre" "list_all quiet pre" and db: "w_db w1 = d"
    and ok: "\<And>uids v. dest = Some (uids, v) \<Longrightarrow> allowed (Uid_cmd ''move'' [uids, env_quoted env home])"
  shows "runs (undo_move env home folder dest) (\<lambda>r w'. carried env allowed h (\<not> isl r) (w_calls w') \<and> w_db w' = d) w1"
proof -
  note err = undo_raise_runs [OF calls db]
  consider "dest = None" | v where "dest = Some ([], v)" | uids v where "dest = Some (uids, v)" "uids \<noteq> []"
    by (cases dest) auto
  then show ?thesis
  proof cases
    case (3 uids v)
    have "runs (if parse_uidvalidity sel \<noteq> Some v then raise (Undo_refused ''UIDVALIDITY changed'')
            else bindE (undo_fail env (Uid_cmd ''move'' [uids, env_quoted env home])) f) (\<lambda>r w'. carried env allowed h (\<not> isl r) (w_calls w') \<and> w_db w' = d)
          (w1\<lparr>w_calls := w_calls w1 @ [select_call env folder]\<rparr>)"
      if "\<And>lines Q' w2. (\<And>r. Q' r w2) \<Longrightarrow> runs (f lines) Q' w2" for sel f
    proof (cases "parse_uidvalidity sel = Some v")
      case True
      show ?thesis
        unfolding True simp_thms if_False
        by (rule undo_cmd_runs [where pre = "pre @ [select_call env folder]"])
          (use that ok 3 calls db in \<open>simp_all add: select_call_def\<close>)
    next
      case False
      have "runs (raise (Undo_refused ''UIDVALIDITY changed'')) (\<lambda>r w'. carried env allowed h (\<not> isl r) (w_calls w') \<and> w_db w' = d)
          (w1\<lparr>w_calls := w_calls w1 @ [select_call env folder]\<rparr>)"
        by (rule undo_raise_runs [where pre = "pre @ [select_call env folder]"])
          (use calls db in \<open>simp_all add: select_call_def\<close>)
      with False show ?thesis by simp
    qed
    note this [OF undo_summary_runs]
    then show ?thesis
      unfolding undo_move_def 3(1) option.case prod.case if_not_P [OF 3(2)]
      by (intro undo_select_runs [OF calls db]) simp
  qed (use err in \<open>simp_all add: undo_move_def\<close>)
qed

lemma undo_command_runs:
  assumes calls: "w_calls w1 = h @ pre" "list_all quiet pre" and db: "w_db w1 = d"
    and dest: "dest = (if op_type row \<in> set MOVE_OP_TYPES then load_move_destination (op_id row) d else None)"
  shows "runs (undo_command env row dest)
      (\<lambda>r w'. carried env (\<lambda>e. undo_effect env row d = Some e) h (\<not> isl r) (w_calls w') \<and> w_db w' = d) w1"
proof -
  have mv: "set MOVE_OP_TYPES = {''move'', ''trash''}" by (simp add: MOVE_OP_TYPES_def)
  have store: "runs (undo_store env folder uids sign flags u) (\<lambda>r w'. carried env (\<lambda>e. undo_effect env row d = Some e) h (\<not> isl r) (w_calls w') \<and> w_db w' = d) w1"
    if "flags \<noteq> [] \<Longrightarrow> undo_effect env row d = Some (Uid_cmd ''store'' [uids, sign, flag_list flags])"
    for folder uids sign flags u
    by (rule undo_store_runs [OF calls db]) (rule that)
  have move: "runs (undo_move env (or_inbox (op_folder_from row)) folder dest) (\<lambda>r w'. carried env (\<lambda>e. undo_effect env row d = Some e) h (\<not> isl r) (w_calls w') \<and> w_db w' = d) w1"
    if "op_type row \<in> set MOVE_OP_TYPES" for folder
    by (rule undo_move_runs [OF calls db]) (use that dest in \<open>auto simp: undo_effect_def mv\<close>)
  show ?thesis
    using undo_raise_runs [OF calls db] move store
    by (auto simp: undo_command_def Let_def undo_effect_def mv)
qed

lemma execute_undo_runs:
  assumes "dest = (if op_type row \<in> set MOVE_OP_TYPES then load_move_destination (op_id row) (w_db w) else None)"
  shows "runs (execute_undo_imap env row dest creds)
      (\<lambda>r w'. reverted_by env row w (\<not> isl r) w' \<and> w_db w' = w_db w) w"
proof -
  let ?Q = "\<lambda>r w'. reverted_by env row w (\<not> isl r) (w'\<lparr>w_calls := w_calls w' @ [Logout]\<rparr>)
      \<and> w_db (w'\<lparr>w_calls := w_calls w' @ [Logout]\<rparr>) = w_db w"
  let ?c = "Connect (cr_host creds) (cr_port creds)"
  have "runs (authenticate_upstream_imap env creds)
      (\<lambda>r w'. case r of Inl e \<Rightarrow> ?Q (Inl e) w' | Inr x \<Rightarrow> runs (undo_command env row dest) ?Q w')
      (w\<lparr>w_calls := w_calls w @ [?c], w_caps := []\<rparr>)"
  proof (rule authenticate_runs)
    fix r :: "failure + unit" and w' :: world and cs
    assume k: "w_calls w' = w_calls (w\<lparr>w_calls := w_calls w @ [?c], w_caps := []\<rparr>) @ cs" "list_all session_call cs"
      "w_db w' = w_db (w\<lparr>w_calls := w_calls w @ [?c], w_caps := []\<rparr>)"
    then have k': "w_calls w' = w_calls w @ ?c # cs" "list_all quiet (?c # cs)" "w_db w' = w_db w"
      using session_quiet by (auto simp: list_all_iff)
    show "case r of Inl e \<Rightarrow> ?Q (Inl e) w' | Inr x \<Rightarrow> runs (undo_command env row dest) ?Q w'"
    proof (cases r)
      case (Inl e)
      have "carried env (\<lambda>e. undo_effect env row (w_db w) = Some e) (w_calls w) False (w_calls w' @ [Logout])"
        by (rule carried_none [where pre = "?c # cs @ [Logout]"]) (use k' in simp_all)
      then show ?thesis using Inl k' by (simp add: reverted_by_def)
    next
      case (Inr x)
      have "runs (undo_command env row dest)
          (\<lambda>r w2. carried env (\<lambda>e. undo_effect env row (w_db w) = Some e) (w_calls w') (\<not> isl r) (w_calls w2)
             \<and> w_db w2 = w_db w) w'"
        by (rule undo_command_runs [where pre = "[]"]) (use assms k' in simp_all)
      then have "runs (undo_command env row dest) ?Q w'"
        by (rule runs_mono) (use k' in \<open>auto simp: reverted_by_def intro: carried_shift [where cs = "?c # cs"]\<close>)
      then show ?thesis using Inr by simp
    qed
  qed
  then show ?thesis
    unfolding execute_undo_imap_def by (simp add: run_simps) (erule runs_mono, simp split: sum.splits)
qed

section \<open>Properties\<close>

text \<open>C17: undo refines the inverse of the operation.  Whatever the server answers, it issues at most the
  one inverse command; a refused or failed undo leaves the database as it was, and a successful one
  was of an executed operation, got OK for that command, and is recorded as reverted.\<close>

theorem undo_refines_inverse:
  assumes "find_op i (w_db w) = Some row" "undo_operation env describe clk i w = (r, w')"
  shows "reverted_by env row w (\<not> isl r) w'
    \<and> (case r of
         Inl e \<Rightarrow> w_db w' = w_db w
       | Inr u \<Rightarrow> op_status row = Executed \<and> recorded i Reverted ''reverted'' ''human'' (w_db w'))"
proof -
  let ?Q = "\<lambda>r w'. reverted_by env row w (\<not> isl r) w' \<and> (case r of
         Inl e \<Rightarrow> w_db w' = w_db w
       | Inr u \<Rightarrow> op_status row = Executed \<and> recorded i Reverted ''reverted'' ''human'' (w_db w'))"
  have i: "op_id row = i" using find_op_id [OF assms(1)] by simp
  have none: "?Q (Inl e) w" for e
    using carried_none [of "w_calls w" "w_calls w" "[]"] by (simp add: reverted_by_def)
  have rest: "runs (bindE (resolve_imap_credentials env row) (\<lambda>creds.
      bindE (execute_undo_imap env row dest creds) (\<lambda>u.
      bindE (on_db (record_reverted env describe clk i row u)) (\<lambda>_. ret u)))) ?Q w"
    if ex: "op_status row = Executed"
      and dest: "dest = (if op_type row \<in> set MOVE_OP_TYPES then load_move_destination (op_id row) (w_db w) else None)"
    for dest
    unfolding runs_bindE [where m = "resolve_imap_credentials env row"]
  proof (rule resolve_runs)
    fix c :: "failure + imap_credentials"
    have "runs (execute_undo_imap env row dest creds) (\<lambda>r w'. case r of Inl e \<Rightarrow> ?Q (Inl e) w'
        | Inr u \<Rightarrow> runs (bindE (on_db (record_reverted env describe clk i row u)) (\<lambda>_. ret u)) ?Q w') w" for creds
      by (rule runs_mono [OF execute_undo_runs [OF dest]])
        (use ex recorded_insert [of i "w_db w"] assms(1) in
          \<open>auto simp: run_simps record_reverted_def reverted_by_def split: sum.splits\<close>)
    then show "case c of Inl e \<Rightarrow> ?Q (Inl e) w | Inr creds \<Rightarrow> runs (bindE (execute_undo_imap env row dest creds) (\<lambda>u.
        bindE (on_db (record_reverted env describe clk i row u)) (\<lambda>_. ret u))) ?Q w"
      using none by (cases c) (simp_all add: runs_bindE [where m = "execute_undo_imap _ _ _ _"])
  qed
  have "runs (undo_operation env describe clk i) ?Q w"
  proof (cases "undo_refusal (clk 0) row")
    case (Some e)
    then show ?thesis using none assms(1) by (simp add: undo_operation_def runs_def raise_def)
  next
    case None
    then have ex: "op_status row = Executed" by (simp add: undo_refusal_def split: if_splits)
    show ?thesis
    proof (cases "undo_destination row i (w_db w)")
      case (Inl e)
      then show ?thesis
        using none assms(1) None by (simp add: undo_operation_def runs_def bindE_def lift_res_def)
    next
      case (Inr dest)
      then have "dest = (if op_type row \<in> set MOVE_OP_TYPES then load_move_destination (op_id row) (w_db w) else None)"
        by (auto simp: undo_destination_def i split: if_splits option.splits)
      from rest [OF ex this] show ?thesis
        using assms(1) None Inr by (simp add: undo_operation_def runs_def bindE_def lift_res_def)
    qed
  qed
  then show ?thesis using assms(2) by (simp add: runs_def)
qed

text \<open>C18: undo of a move never guesses.  It moves only the UIDs recorded when the message went there,
  only in the recorded generation of the destination mailbox, and reports success only when the
  server says which messages came back.\<close>

theorem undo_move_never_guesses:
  "case undo_move env home folder dest w of (r, w') \<Rightarrow>
     (w_calls w' \<in> {w_calls w, w_calls w @ [select_call env folder]} \<and> isl r)
     \<or> (\<exists>uids v sel. dest = Some (uids, v) \<and> uids \<noteq> []
          \<and> w_calls w' = w_calls w @ [select_call env folder, Uid_cmd ''move'' [uids, env_quoted env home]]
          \<and> env_server env (w_calls w) (select_call env folder) = Reply ''OK'' sel \<and> parse_uidvalidity sel = Some v
          \<and> (case env_server env (w_calls w @ [select_call env folder]) (Uid_cmd ''move'' [uids, env_quoted env home]) of
               Raises m \<Rightarrow> isl r
             | Reply st lines \<Rightarrow> isl r \<or> st = ''OK'' \<and> (\<exists>c. parse_copyuid lines = Some c)))"
proof -
  have "runs (undo_move env home folder dest) (\<lambda>r w'.
     (w_calls w' \<in> {w_calls w, w_calls w @ [select_call env folder]} \<and> isl r)
     \<or> (\<exists>uids v sel. dest = Some (uids, v) \<and> uids \<noteq> []
          \<and> w_calls w' = w_calls w @ [select_call env folder, Uid_cmd ''move'' [uids, env_quoted env home]]
          \<and> env_server env (w_calls w) (select_call env folder) = Reply ''OK'' sel \<and> parse_uidvalidity sel = Some v
          \<and> (case env_server env (w_calls w @ [select_call env folder]) (Uid_cmd ''move'' [uids, env_quoted env home]) of
               Raises m \<Rightarrow> isl r
             | Reply st lines \<Rightarrow> isl r \<or> st = ''OK'' \<and> (\<exists>c. parse_copyuid lines = Some c)))) w"
    by (cases dest) (auto simp: undo_move_def undo_fail_def run_simps split: reply.splits option.splits prod.splits if_splits)
  then show ?thesis by (simp add: runs_def split: prod.splits)
qed

definition sample_done :: op_row where
  "sample_done = sample_op\<lparr>op_status := Executed, op_type := ''mark_read'', op_flags_add := Some [''Seen'']\<rparr>"

definition sample_undo_world :: world where
  "sample_undo_world = sample_world\<lparr>w_db := sample_auth_db\<lparr>db_ops := [sample_done]\<rparr>\<rparr>"

lemma undo_refines_inverse_witness:
  "reverted_by sample_env sample_done sample_undo_world
     (\<not> isl (fst (undo_operation sample_env (\<lambda>u. []) int ''op_1'' sample_undo_world)))
     (snd (undo_operation sample_env (\<lambda>u. []) int ''op_1'' sample_undo_world))
   \<and> (case fst (undo_operation sample_env (\<lambda>u. []) int ''op_1'' sample_undo_world) of
         Inl e \<Rightarrow> w_db (snd (undo_operation sample_env (\<lambda>u. []) int ''op_1'' sample_undo_world)) = w_db sample_undo_world
       | Inr u \<Rightarrow> op_status sample_done = Executed \<and> recorded ''op_1'' Reverted ''reverted'' ''human''
           (w_db (snd (undo_operation sample_env (\<lambda>u. []) int ''op_1'' sample_undo_world))))"
  by (rule undo_refines_inverse)
    (simp_all add: sample_undo_world_def sample_world_def find_op_def has_op_def sample_done_def sample_op_def)

text \<open>An operation whose \<open>undo_expires_at\<close> was never written can be undone at any time.\<close>

lemma undo_window_unset:
  "op_undo_expires_at row = None \<Longrightarrow> op_status row = Executed \<Longrightarrow> op_type row \<in> set UNDOABLE_OP_TYPES \<Longrightarrow>
     undo_refusal now row = None"
  by (simp add: undo_refusal_def)

end
