(* ===== verification/Staging.thy ===== *)
theory Staging
  imports Execution_Laws
begin

text \<open>
  The staging engine (\<open>gateway/staging.py\<close>): a write of the agent becomes a pending operation with
  its audit row, and an automatic decision, if a rules plugin makes one, is applied.  The plugin is
  the parameter \<open>decide\<close>; without one every operation waits for a human.
\<close>

section \<open>Requests and decisions\<close>

record op_request =
  rq_op_type :: string
  rq_protocol :: string
  rq_description :: string
  rq_agent_id :: "nat option"
  rq_imap_command :: "string option"
  rq_smtp_envelope :: "envelope option"
  rq_message_ids :: "string list option"
  rq_folder_from :: "string option"
  rq_folder_to :: "string option"
  rq_flags_add :: "string list option"
  rq_flags_remove :: "string list option"
  rq_snapshot :: "snap_entry list option"
  rq_is_urgent :: "bool option"
  rq_batch_id :: "string option"
  rq_append_message :: "string option"
  rq_intent_label :: "string option"
  rq_intent_confidence :: "nat option"

record decision =
  de_action :: string
  de_rule_id :: "nat option"
  de_rule_description :: "string option"
  de_delay_seconds :: "int option"
  de_is_urgent :: "bool option"

definition URGENT_OP_TYPES :: "string list" where
  "URGENT_OP_TYPES = [''smtp_send'', ''trash'']"

definition URGENT_INTENTS :: "string list" where
  "URGENT_INTENTS = [''delete'']"

definition TERMINAL_AUTO_ACTIONS :: "string list" where
  "TERMINAL_AUTO_ACTIONS = [''approve'', ''reject'']"

definition EXPIRY_SECONDS :: int where
  "EXPIRY_SECONDS = 48 * 3600"

definition default_urgency :: "op_request \<Rightarrow> bool" where
  "default_urgency rq =
     (case rq_is_urgent rq of
        Some b \<Rightarrow> b
      | None \<Rightarrow> rq_op_type rq \<in> set URGENT_OP_TYPES
               \<or> (case rq_intent_label rq of Some l \<Rightarrow> l \<in> set URGENT_INTENTS | None \<Rightarrow> False))"

definition staged_row :: "string \<Rightarrow> int \<Rightarrow> op_request \<Rightarrow> op_row" where
  "staged_row i now rq =
     \<lparr>op_id = i, op_created_at = now, op_expires_at = now + EXPIRY_SECONDS, op_status = Pending,
      op_type = rq_op_type rq, op_protocol = rq_protocol rq, op_imap_command = rq_imap_command rq,
      op_smtp_envelope = rq_smtp_envelope rq, op_description = rq_description rq, op_agent_id = rq_agent_id rq,
      op_message_ids = rq_message_ids rq, op_folder_from = rq_folder_from rq, op_folder_to = rq_folder_to rq,
      op_flags_add = rq_flags_add rq, op_flags_remove = rq_flags_remove rq, op_snapshot = rq_snapshot rq,
      op_append_message = rq_append_message rq, op_is_urgent = default_urgency rq, op_batch_id = rq_batch_id rq,
      op_intent_label = rq_intent_label rq, op_intent_confidence = rq_intent_confidence rq,
      op_decided_at = None, op_decided_by = None, op_executed_at = None, op_undo_expires_at = None,
      op_scheduled_execute_at = None, op_rejection_notified = False, op_body_scrubbed_at = None, op_error = None\<rparr>"

text \<open>The insertion and its audit row, one transaction; \<open>None\<close> when the drawn id is taken.\<close>

definition insert_staged :: "env \<Rightarrow> string \<Rightarrow> int \<Rightarrow> op_request \<Rightarrow> db \<Rightarrow> db option" where
  "insert_staged env i now rq d =
     (if list_ex (has_op i) (db_ops d) then None
      else Some (insert_audit_event (env_digest env)
             (op_event now ''staged'' ''ai_agent'' i (staged_row i now rq) None)
             (d\<lparr>db_ops := db_ops d @ [staged_row i now rq]\<rparr>)))"

section \<open>Automatic decisions\<close>

text \<open>Taking back the local effects of a proposal and telling the agent.\<close>

definition roll_back :: "string \<Rightarrow> int \<Rightarrow> db \<Rightarrow> db" where
  "roll_back i now d =
     (let (reverts, d') = restore_from_snapshot i now d in insert_pending_reverts reverts now d')"

definition rule_event ::
  "int \<Rightarrow> string \<Rightarrow> string \<Rightarrow> op_row \<Rightarrow> detail \<Rightarrow> audit_event" where
  "rule_event now event i row detail = op_event now event ''auto_rule'' i row (Some detail)"

definition rule_detail :: "decision \<Rightarrow> detail" where
  "rule_detail dec = D_rule (de_rule_id dec) (de_rule_description dec)"

definition apply_reject :: "env \<Rightarrow> (nat \<Rightarrow> int) \<Rightarrow> string \<Rightarrow> op_row \<Rightarrow> decision \<Rightarrow> db \<Rightarrow> db" where
  "apply_reject env clk i row dec d =
     roll_back i (clk 12)
       (insert_audit_event (env_digest env) (rule_event (clk 10) ''rejected'' i row (rule_detail dec))
         (update_operation_status i Rejected_op ''auto_rule'' None (clk 11) d))"

definition rule_delay :: "decision \<Rightarrow> int" where
  "rule_delay dec = (case de_delay_seconds dec of None \<Rightarrow> 0 | Some s \<Rightarrow> s)"

definition apply_after :: "env \<Rightarrow> (nat \<Rightarrow> int) \<Rightarrow> string \<Rightarrow> op_row \<Rightarrow> decision \<Rightarrow> db \<Rightarrow> db" where
  "apply_after env clk i row dec d =
     (let at = clk 10 + max (rule_delay dec) 0
      in insert_audit_event (env_digest env)
           (rule_event (clk 10) ''scheduled'' i row
              (D_rule_delay (de_rule_id dec) (de_rule_description dec) (rule_delay dec) at))
           (set_schedule_and_urgency i (Some at) (de_is_urgent dec) d))"

definition apply_hold :: "env \<Rightarrow> (nat \<Rightarrow> int) \<Rightarrow> string \<Rightarrow> op_row \<Rightarrow> decision \<Rightarrow> db \<Rightarrow> db" where
  "apply_hold env clk i row dec d =
     insert_audit_event (env_digest env) (rule_event (clk 10) ''held'' i row (rule_detail dec))
       (set_schedule_and_urgency i None (de_is_urgent dec) d)"

text \<open>An \<open>ExecutionError\<close> stays inside staging; any other exception escapes.\<close>

fun is_execution_error :: "failure \<Rightarrow> bool" where
  "is_execution_error (Library m) = False"
| "is_execution_error _ = True"

definition apply_approve :: "env \<Rightarrow> (nat \<Rightarrow> int) \<Rightarrow> string \<Rightarrow> op_row \<Rightarrow> decision \<Rightarrow> unit act" where
  "apply_approve env clk i row dec =
     bindE (on_db (insert_audit_event (env_digest env) (rule_event (clk 10) ''approved'' i row (rule_detail dec))))
       (\<lambda>_ w. case get_operation i None (w_db w) of
          None \<Rightarrow> ret () w
        | Some r \<Rightarrow>
            catchE (bindE (execute_operation env clk ''auto_rule'' i r) (\<lambda>_. ret ()))
              (\<lambda>e. if is_execution_error e then ret () else raise e) w)"

definition apply_auto_rule_decision ::
  "env \<Rightarrow> (nat \<Rightarrow> int) \<Rightarrow> string \<Rightarrow> op_row \<Rightarrow> decision \<Rightarrow> unit act" where
  "apply_auto_rule_decision env clk i row dec =
     (if de_action dec = ''reject'' then on_db (apply_reject env clk i row dec)
      else if de_action dec = ''approve_after'' then on_db (apply_after env clk i row dec)
      else if de_action dec = ''hold'' then on_db (apply_hold env clk i row dec)
      else if de_action dec \<noteq> ''approve'' then ret ()
      else apply_approve env clk i row dec)"

section \<open>Creating an operation\<close>

text \<open>The new id and whether the owner is notified that it waits for review.\<close>

definition create_operation ::
  "env \<Rightarrow> (op_row \<Rightarrow> nat option \<Rightarrow> db \<Rightarrow> failure + decision option) \<Rightarrow> (nat \<Rightarrow> int) \<Rightarrow> string \<Rightarrow> op_request
     \<Rightarrow> (string \<times> bool) act" where
  "create_operation env decide clk i rq w =
     (case insert_staged env i (clk 20) rq (w_db w) of
        None \<Rightarrow> raise (Library ''UNIQUE constraint failed: staged_operations.id'') w
      | Some d \<Rightarrow>
          (let row = staged_row i (clk 20) rq; w1 = w\<lparr>w_db := d\<rparr>
           in bindE (lift_res (decide row (resolve_user_id_for_agent (rq_agent_id rq) d) d)) (\<lambda>dec.
                case dec of
                  None \<Rightarrow> ret (i, True)
                | Some dec \<Rightarrow>
                    bindE (apply_auto_rule_decision env clk i row dec)
                      (\<lambda>_. ret (i, de_action dec \<notin> set TERMINAL_AUTO_ACTIONS))) w1))"

section \<open>Lemmas\<close>

lemma set_schedule_other [simp]:
  "db_audit (set_schedule_and_urgency i t u d) = db_audit d"
  "find_op i (set_schedule_and_urgency i t u d) = None \<longleftrightarrow> find_op i d = None"
  by (auto simp: set_schedule_and_urgency_def Let_def find_op_def find_upd_key has_op_def split: option.splits)

lemma set_schedule_status:
  "map (\<lambda>r. (op_id r, op_status r)) (db_ops (set_schedule_and_urgency i t u d))
     = map (\<lambda>r. (op_id r, op_status r)) (db_ops d)"
  by (auto simp: set_schedule_and_urgency_def Let_def map_upd_key split: option.splits intro!: map_upd_key)

lemma insert_pending_other [simp]:
  "db_audit (insert_pending_reverts rs now d) = db_audit d"
  "db_ops (insert_pending_reverts rs now d) = db_ops d"
  by (induction rs now d rule: insert_pending_reverts.induct) (simp_all add: Let_def)

lemma roll_back_other [simp]:
  "db_audit (roll_back i now d) = db_audit d"
  "db_ops (roll_back i now d) = db_ops d"
  by (auto simp: roll_back_def restore_from_snapshot_def split: option.splits prod.splits)

lemma log_kept_same: "db_audit d' = db_audit d \<Longrightarrow> log_kept digest d d'"
  using verify_cong [of d' d digest] by (simp add: log_kept_def)

lemma log_kept_roll_back:
  assumes "log_kept digest d d'" shows "log_kept digest d (roll_back i now d')"
  using assms log_kept_same [of "roll_back i now d'" d' digest] chain.R_trans by simp

lemma log_kept_decision:
  "log_kept (env_digest env) d (apply_reject env clk i row dec d)"
  "log_kept (env_digest env) d (apply_after env clk i row dec d)"
  "log_kept (env_digest env) d (apply_hold env clk i row dec d)"
  unfolding apply_reject_def apply_after_def apply_hold_def Let_def
  by (rule log_kept_roll_back log_kept_insert, simp?)+

context db_relation
begin

text \<open>A decision stays within whatever its branches stay within.\<close>

lemma within_decision:
  assumes branches: "\<And>d. R d (apply_reject env clk i row dec d)" "\<And>d. R d (apply_after env clk i row dec d)"
      "\<And>d. R d (apply_hold env clk i row dec d)"
    and approve: "\<And>d. R d (insert_audit_event (env_digest env) (rule_event (clk 10) ''approved'' i row (rule_detail dec)) d)"
    and exec: "\<And>r. within R (execute_operation env clk ''auto_rule'' i r)"
  shows "within R (apply_auto_rule_decision env clk i row dec)"
proof -
  have ex: "within R (catchE (bindE (execute_operation env clk ''auto_rule'' i r) (\<lambda>_. ret ()))
              (\<lambda>e. if is_execution_error e then ret () else raise e))" for r
    by (intro within_catchE within_bindE exec within_gentle) (auto intro: gentle_intros)
  have "within R (\<lambda>w. case get_operation i None (w_db w) of
          None \<Rightarrow> ret () w
        | Some r \<Rightarrow> catchE (bindE (execute_operation env clk ''auto_rule'' i r) (\<lambda>_. ret ()))
              (\<lambda>e. if is_execution_error e then ret () else raise e) w)"
    using ex R_refl unfolding within_def by (auto simp: ret_def split: option.split)
  then have "within R (apply_approve env clk i row dec)"
    unfolding apply_approve_def by (intro within_bindE within_on_db approve)
  then show ?thesis
    unfolding apply_auto_rule_decision_def by (simp add: within_on_db branches within_gentle gentle_basic)
qed

end

lemma chain_decision: "within (log_kept (env_digest env)) (apply_auto_rule_decision env clk i row dec)"
  by (rule chain.within_decision) (rule log_kept_decision log_kept_execution log_kept_insert, simp?)+

lemma insert_staged_find:
  assumes "insert_staged env i now rq d = Some d'"
  shows "find_op i d' = Some (staged_row i now rq)" "db_ops d' = db_ops d @ [staged_row i now rq]"
    "find_op i d = None" "recorded i Pending ''staged'' ''ai_agent'' d'"
proof -
  have new: "\<not> list_ex (has_op i) (db_ops d)"
    and d': "d' = insert_audit_event (env_digest env) (op_event now ''staged'' ''ai_agent'' i (staged_row i now rq) None)
             (d\<lparr>db_ops := db_ops d @ [staged_row i now rq]\<rparr>)"
    using assms by (auto simp: insert_staged_def split: if_splits)
  show old: "find_op i d = None" using new by (auto simp: find_op_def find_None_all list_ex_iff)
  then show ops: "find_op i d' = Some (staged_row i now rq)"
    by (simp add: d' find_op_def find_append has_op_def staged_row_def)
  show "db_ops d' = db_ops d @ [staged_row i now rq]" by (simp add: d')
  show "recorded i Pending ''staged'' ''ai_agent'' d'"
    unfolding recorded_def ops using last_audit_insert
    by (simp add: d' insert_audit_event_def insert_with_prev_def Let_def event_row_def op_event_def staged_row_def)
qed

text \<open>The effect of a decision that does not approve.\<close>

lemma not_approve_effect:
  assumes "de_action dec \<noteq> ''approve''" "find_op i (w_db w) = Some row0"
  shows "fst (apply_auto_rule_decision env clk i row dec w) = Inr ()"
    "w_calls (snd (apply_auto_rule_decision env clk i row dec w)) = w_calls w"
    "map_option op_status (find_op i (w_db (snd (apply_auto_rule_decision env clk i row dec w))))
       = Some (if de_action dec = ''reject'' then Rejected_op else op_status row0)"
proof -
  have st: "find_op i d = Some r \<Longrightarrow> \<exists>z. find_op i (set_schedule_and_urgency i t u d) = Some z \<and> op_status z = op_status r"
    for t u d r
    by (cases t; cases u; cases "find_op i d")
      (auto simp: set_schedule_and_urgency_def Let_def find_op_def find_upd_key has_op_def)
  have ro: "find_op i (roll_back i now d) = find_op i d" for now d by (simp add: find_op_def)
  have i: "has_op i row0" using find_op_id [OF assms(2)] by (simp add: has_op_def)
  show "fst (apply_auto_rule_decision env clk i row dec w) = Inr ()"
    "w_calls (snd (apply_auto_rule_decision env clk i row dec w)) = w_calls w"
    using assms by (simp_all add: apply_auto_rule_decision_def on_db_def ret_def)
  show "map_option op_status (find_op i (w_db (snd (apply_auto_rule_decision env clk i row dec w))))
       = Some (if de_action dec = ''reject'' then Rejected_op else op_status row0)"
    using assms i st
    by (simp add: apply_auto_rule_decision_def on_db_def ret_def apply_reject_def apply_after_def apply_hold_def
        Let_def ro)
qed

context db_relation
begin

lemma within_create:
  assumes new: "\<And>d. insert_staged env i (clk 20) rq (w_db w) = Some d \<Longrightarrow> R (w_db w) d"
    and dec: "\<And>row dec. within R (apply_auto_rule_decision env clk i row dec)"
  shows "R (w_db w) (w_db (snd (create_operation env decide clk i rq w)))"
proof (cases "insert_staged env i (clk 20) rq (w_db w)")
  case None
  then show ?thesis by (simp add: create_operation_def raise_def R_refl)
next
  case (Some d)
  let ?row = "staged_row i (clk 20) rq"
  have k: "within R (case x of None \<Rightarrow> ret (i, True)
      | Some dec \<Rightarrow> bindE (apply_auto_rule_decision env clk i ?row dec)
                      (\<lambda>_. ret (i, de_action dec \<notin> set TERMINAL_AUTO_ACTIONS)))" for x
    by (cases x) (simp_all add: within_bindE dec within_gentle gentle_basic)
  have "within R (bindE (lift_res (decide ?row (resolve_user_id_for_agent (rq_agent_id rq) d) d)) (\<lambda>dec.
                case dec of
                  None \<Rightarrow> ret (i, True)
                | Some dec \<Rightarrow>
                    bindE (apply_auto_rule_decision env clk i ?row dec)
                      (\<lambda>_. ret (i, de_action dec \<notin> set TERMINAL_AUTO_ACTIONS))))"
    by (rule within_bindE [OF within_gentle [OF gentle_basic(3)] k])
  from this [unfolded within_def, THEN spec [of _ "w\<lparr>w_db := d\<rparr>"]] show ?thesis
    using Some R_trans [OF new [OF Some]] by (simp add: create_operation_def Let_def)
qed

end

lemma log_kept_create:
  "log_kept (env_digest env) (w_db w) (w_db (snd (create_operation env decide clk i rq w)))"
proof (rule chain.within_create)
  show "log_kept (env_digest env) (w_db w) d" if "insert_staged env i (clk 20) rq (w_db w) = Some d" for d
    using that log_kept_insert log_kept_same chain.R_trans by (fastforce simp: insert_staged_def split: if_splits)
qed (rule chain_decision)

section \<open>Properties\<close>

text \<open>C13: without an automatic decision, staging only proposes: nothing is sent anywhere, the operation
  is appended as pending with its \<open>staged\<close> audit row and 48 hours to live, every other operation is
  untouched and the owner is told.\<close>

theorem staging_waits_for_review:
  assumes "find_op i (w_db w) = None"
    and "create_operation env (\<lambda>row owner d. Inr None) clk i rq w = (r, w')"
  shows "r = Inr (i, True) \<and> w_calls w' = w_calls w
    \<and> db_ops (w_db w') = db_ops (w_db w) @ [staged_row i (clk 20) rq]
    \<and> op_expires_at (staged_row i (clk 20) rq) = clk 20 + 172800
    \<and> recorded i Pending ''staged'' ''ai_agent'' (w_db w')"
proof -
  have "\<not> list_ex (has_op i) (db_ops (w_db w))"
    using assms(1) by (simp add: find_op_def find_None_all list_ex_iff)
  then obtain d where d: "insert_staged env i (clk 20) rq (w_db w) = Some d" by (simp add: insert_staged_def)
  then have "r = Inr (i, True)" "w' = w\<lparr>w_db := d\<rparr>"
    using assms(2) by (simp_all add: create_operation_def Let_def bindE_def lift_res_def ret_def)
  then show ?thesis using insert_staged_find [OF d] by (simp add: staged_row_def EXPIRY_SECONDS_def)
qed

text \<open>C8: staging contacts a server only when the rules, asked about the operation on behalf of its own
  owner, approve it; any other decision leaves the operation pending, or rejected when they say so.\<close>

theorem staging_executes_only_on_approval:
  assumes "create_operation env decide clk i rq w = (Inr (j, notify), w')"
  shows "\<exists>d. insert_staged env i (clk 20) rq (w_db w) = Some d \<and> j = i
    \<and> (case decide (staged_row i (clk 20) rq) (resolve_user_id_for_agent (rq_agent_id rq) d) d of
         Inl e \<Rightarrow> False
       | Inr None \<Rightarrow> notify \<and> w_calls w' = w_calls w \<and> map_option op_status (find_op i (w_db w')) = Some Pending
       | Inr (Some dec) \<Rightarrow>
           if de_action dec = ''approve'' then \<not> notify
           else w_calls w' = w_calls w \<and> notify = (de_action dec \<noteq> ''reject'')
              \<and> map_option op_status (find_op i (w_db w'))
                  = Some (if de_action dec = ''reject'' then Rejected_op else Pending))"
proof -
  let ?row = "staged_row i (clk 20) rq"
  obtain d where d: "insert_staged env i (clk 20) rq (w_db w) = Some d"
    using assms by (cases "insert_staged env i (clk 20) rq (w_db w)") (auto simp: create_operation_def raise_def)
  note f = insert_staged_find [OF d]
  have row: "op_status ?row = Pending" by (simp add: staged_row_def)
  show ?thesis
  proof (cases "decide ?row (resolve_user_id_for_agent (rq_agent_id rq) d) d")
    case (Inl e)
    then show ?thesis using assms d by (simp add: create_operation_def Let_def bindE_def lift_res_def)
  next
    case (Inr dec)
    show ?thesis
    proof (cases dec)
      case None
      then show ?thesis using assms d Inr f row
        by (auto simp: create_operation_def Let_def bindE_def lift_res_def ret_def)
    next
      case (Some x)
      obtain r1 w1 where ap: "apply_auto_rule_decision env clk i ?row x (w\<lparr>w_db := d\<rparr>) = (r1, w1)" by fastforce
      have out: "(case r1 of Inl e \<Rightarrow> (Inl e, w1)
          | Inr u \<Rightarrow> (Inr (i, de_action x \<notin> set TERMINAL_AUTO_ACTIONS), w1)) = (Inr (j, notify), w')"
        using assms d Inr Some ap
        by (cases r1) (simp_all add: create_operation_def Let_def bindE_def lift_res_def ret_def)
      show ?thesis
      proof (cases "de_action x = ''approve''")
        case True
        then show ?thesis using out d Inr Some by (auto simp: TERMINAL_AUTO_ACTIONS_def split: sum.splits)
      next
        case False
        note e = not_approve_effect [OF False, of i "w\<lparr>w_db := d\<rparr>" ?row env clk ?row]
        show ?thesis
          using out d Inr Some False e f(1) ap row
          by (auto simp: TERMINAL_AUTO_ACTIONS_def split: sum.splits)
      qed
    qed
  qed
qed

text \<open>Staging keeps a verified audit log verified, whatever the rules decide.\<close>

theorem staging_keeps_audit:
  assumes "fst (verify_audit_chain (env_digest env) (w_db w))"
  shows "fst (verify_audit_chain (env_digest env) (w_db (snd (create_operation env decide clk i rq w))))"
  using assms log_kept_create [of env w decide clk i rq] by (simp add: log_kept_def)

section \<open>Sample requests\<close>

definition sample_request :: op_request where
  "sample_request =
     \<lparr>rq_op_type = ''trash'', rq_protocol = ''imap'', rq_description = ''d'', rq_agent_id = Some 1,
      rq_imap_command = None, rq_smtp_envelope = None, rq_message_ids = Some [''7''],
      rq_folder_from = Some ''INBOX'', rq_folder_to = Some ''Trash'', rq_flags_add = None, rq_flags_remove = None,
      rq_snapshot = None, rq_is_urgent = None, rq_batch_id = None, rq_append_message = None,
      rq_intent_label = Some ''delete'', rq_intent_confidence = None\<rparr>"

definition sample_hold :: decision where
  "sample_hold = \<lparr>de_action = ''hold'', de_rule_id = Some 3, de_rule_description = None, de_delay_seconds = None,
     de_is_urgent = Some True\<rparr>"

definition sample_staging :: "(failure + string \<times> bool) \<times> world" where
  "sample_staging = create_operation sample_env (\<lambda>row owner d. Inr (Some sample_hold)) int ''op_2'' sample_request sample_world"

lemma sample_world_find: "find_op ''op_2'' (w_db sample_world) = None"
  by (simp add: sample_world_def sample_auth_db_def empty_db_def find_op_def has_op_def sample_mail_def sample_op_def)

lemma staging_waits_for_review_witness:
  "recorded ''op_2'' Pending ''staged'' ''ai_agent''
     (w_db (snd (create_operation sample_env (\<lambda>row owner d. Inr None) int ''op_2'' sample_request sample_world)))"
  using staging_waits_for_review [OF sample_world_find surjective_pairing] by blast

lemma staging_executes_only_on_approval_witness:
  "w_calls (snd sample_staging) = w_calls sample_world \<and> map_option op_status (find_op ''op_2'' (w_db (snd sample_staging))) = Some Pending"
proof -
  have "\<not> list_ex (has_op ''op_2'') (db_ops (w_db sample_world))"
    using sample_world_find by (simp add: find_op_def find_None_all list_ex_iff)
  then obtain d where d: "insert_staged sample_env ''op_2'' (int 20) sample_request (w_db sample_world) = Some d"
    by (simp add: insert_staged_def)
  have "fst sample_staging = Inr (''op_2'', True)"
    using d by (simp add: sample_staging_def create_operation_def Let_def bindE_def lift_res_def ret_def
        apply_auto_rule_decision_def sample_hold_def on_db_def TERMINAL_AUTO_ACTIONS_def)
  then have "create_operation sample_env (\<lambda>row owner d. Inr (Some sample_hold)) int ''op_2'' sample_request sample_world
      = (Inr (''op_2'', True), snd sample_staging)"
    by (metis sample_staging_def prod.collapse)
  from staging_executes_only_on_approval [OF this] show ?thesis by (simp add: sample_hold_def)
qed

lemma staging_keeps_audit_witness:
  "fst (verify_audit_chain (env_digest sample_env) (w_db (snd sample_staging)))"
  unfolding sample_staging_def
  by (rule staging_keeps_audit) (simp add: verify_audit_chain_def verify_rows_def sample_world_simps)

end
