(* ===== verification/Batching.thy ===== *)
theory Batching
  imports Undo Operation_Parser "HOL-Library.AList"
begin

text \<open>
  Batches (\<open>gateway/batching.py\<close>, \<open>gateway/batch_summary.py\<close>): the registry that groups an agent's
  operations on one folder into a window of time, and the line the reviewer reads about a group.
  Times are readings of the monotonic clock.
\<close>

section \<open>The registry\<close>

record batch =
  ba_id :: string
  ba_folder :: string
  ba_protocol :: string
  ba_created_at :: int
  ba_window_seconds :: int
  ba_op_ids :: "string list"

type_synonym batch_key = "string \<times> string \<times> nat option"

type_synonym batches = "(batch_key \<times> batch) list"

definition is_open :: "int \<Rightarrow> batch \<Rightarrow> bool" where
  "is_open now b \<longleftrightarrow> now - ba_created_at b < ba_window_seconds b"

text \<open>\<open>token\<close> is the random part of a new id, \<open>now\<close> and \<open>now'\<close> the two readings of the clock.\<close>

definition get_or_create_batch ::
  "string \<Rightarrow> string \<Rightarrow> int \<Rightarrow> nat option \<Rightarrow> string \<Rightarrow> int \<Rightarrow> int \<Rightarrow> batches \<Rightarrow> string \<times> batches" where
  "get_or_create_batch folder protocol window agent_id token now now' bs =
     (let key = (folder, protocol, agent_id);
          new = \<lparr>ba_id = ''batch_'' @ token, ba_folder = folder, ba_protocol = protocol,
                 ba_created_at = now', ba_window_seconds = window, ba_op_ids = []\<rparr>;
          opened = (ba_id new, AList.update key new bs)
      in case map_of bs key of
           Some b \<Rightarrow> if is_open now b then (ba_id b, bs) else opened
         | None \<Rightarrow> opened)"

fun record_op_in_batch :: "string \<Rightarrow> string \<Rightarrow> batches \<Rightarrow> batches" where
  "record_op_in_batch bid i [] = []"
| "record_op_in_batch bid i ((k, b) # bs) =
     (if ba_id b = bid then (k, b\<lparr>ba_op_ids := ba_op_ids b @ [i]\<rparr>) # bs
      else (k, b) # record_op_in_batch bid i bs)"

definition get_batch_op_ids :: "string \<Rightarrow> batches \<Rightarrow> string list" where
  "get_batch_op_ids bid bs =
     (case List.find (\<lambda>(k, b). ba_id b = bid) bs of Some (k, b) \<Rightarrow> ba_op_ids b | None \<Rightarrow> [])"

definition purge_expired_batches :: "int \<Rightarrow> batches \<Rightarrow> nat \<times> batches" where
  "purge_expired_batches now bs =
     (length (filter (\<lambda>(k, b). \<not> is_open now b) bs), filter (\<lambda>(k, b). is_open now b) bs)"

section \<open>Summaries\<close>

definition FRAGMENTS :: "(string \<times> string) list" where
  "FRAGMENTS =
     [(''archive'', ''{n} archived''), (''delete'', ''{n} deleted''), (''trash'', ''{n} deleted''),
      (''mark_spam'', ''{n} marked as spam''), (''not_spam'', ''{n} rescued from spam''),
      (''restore_from_trash'', ''{n} restored from Trash''), (''unarchive'', ''{n} moved back to Inbox''),
      (''mark_read'', ''{n} marked read''), (''mark_unread'', ''{n} marked unread''),
      (''flag'', ''{n} starred''), (''unflag'', ''{n} unstarred''), (''mark_answered'', ''{n} marked replied''),
      (''move'', ''{n} moved''), (''copy'', ''{n} copied''), (''store'', ''{n} flag update{s}''),
      (''save_draft'', ''{n} draft{s} saved''), (''append'', ''{n} message{s} added''),
      (''import_message'', ''{n} message{s} added''), (''create'', ''{n} folder{s} created''),
      (''rename'', ''{n} folder{s} renamed'')]"

definition MESSAGE_LABELS :: "string list" where
  "MESSAGE_LABELS =
     [''archive'', ''delete'', ''trash'', ''mark_spam'', ''not_spam'', ''restore_from_trash'', ''unarchive'',
      ''mark_read'', ''mark_unread'', ''flag'', ''unflag'', ''mark_answered'', ''move'', ''copy'', ''store'']"

definition count_token :: "string \<Rightarrow> nat" where
  "count_token raw =
     (let token = py_strip raw
      in if token = [] then 0
         else case split_colon token of
           Some (lo, hi) \<Rightarrow>
             if py_isdigit (py_strip lo) \<and> py_isdigit (py_strip hi)
             then nat \<bar>int (nat_of_str (py_strip hi)) - int (nat_of_str (py_strip lo))\<bar> + 1
             else 1
         | None \<Rightarrow> 1)"

definition summary_count_uid_set :: "string \<Rightarrow> nat" where
  "summary_count_uid_set s = (if s = [] then 0 else sum_list (map count_token (py_split_on (CHR '','') s)))"

definition op_message_count :: "op_row \<Rightarrow> nat" where
  "op_message_count r =
     (let n = sum_list (map summary_count_uid_set (list_or_empty (op_message_ids r)))
      in if n = 0 then 1 else n)"

definition effective_label :: "op_row \<Rightarrow> string" where
  "effective_label r =
     (if truthy (op_intent_label r) then or_empty (op_intent_label r)
      else if op_type r \<noteq> [] then op_type r else ''operation'')"

definition display_folder :: "string \<Rightarrow> string" where
  "display_folder name =
     (let bare = strip_if (\<lambda>c. c = dquote) name
      in if py_upper bare = ''INBOX'' then ''Inbox'' else bare)"

text \<open>The distinct non-empty folders of a column.\<close>

definition folders_of :: "(op_row \<Rightarrow> string option) \<Rightarrow> op_row list \<Rightarrow> string list" where
  "folders_of col rs = remdups (map (\<lambda>r. or_empty (col r)) (filter (\<lambda>r. truthy (col r)) rs))"

definition dest_suffix :: "string \<Rightarrow> op_row list \<Rightarrow> string" where
  "dest_suffix label rs =
     (if label \<notin> {''move'', ''copy''} then []
      else case folders_of op_folder_to rs of [dest] \<Rightarrow> '' to '' @ dest | _ \<Rightarrow> [])"

definition fragment :: "string \<Rightarrow> nat \<Rightarrow> op_row list \<Rightarrow> string" where
  "fragment label count rs =
     (let template = (case map_of FRAGMENTS label of Some t \<Rightarrow> t
                      | None \<Rightarrow> ''{n} '' @ py_replace ''_'' '' '' label)
      in py_replace ''{n}'' (str_of_nat count) (py_replace ''{s}'' (if count \<noteq> 1 then ''s'' else []) template)
         @ dest_suffix label rs)"

text \<open>The operations by label, in order of first occurrence.\<close>

definition buckets_of :: "op_row list \<Rightarrow> (string \<times> op_row list) list" where
  "buckets_of rs =
     map (\<lambda>label. (label, filter (\<lambda>r. effective_label r = label) rs))
       (rev (remdups (rev (map effective_label rs))))"

definition bucket_count :: "string \<times> op_row list \<Rightarrow> nat" where
  "bucket_count lb =
     (if fst lb \<in> set MESSAGE_LABELS then sum_list (map op_message_count (snd lb)) else length (snd lb))"

definition build_batch_summary :: "op_row list \<Rightarrow> string" where
  "build_batch_summary rs =
     (case buckets_of rs of
        [] \<Rightarrow> []
      | [(label, bucket)] \<Rightarrow>
          (let count = bucket_count (label, bucket);
               verb = (case map_of INTENT_VERBS label of Some v \<Rightarrow> Some v | None \<Rightarrow> map_of OP_VERB label)
           in if truthy verb \<and> label \<in> set MESSAGE_LABELS
              then or_empty verb @ '' '' @ str_of_nat count @ (if count = 1 then '' message'' else '' messages'')
                     @ dest_suffix label bucket
              else py_capitalize (fragment label count bucket))
      | bs \<Rightarrow>
          (case folders_of op_folder_from rs of
             [f] \<Rightarrow> display_folder f @ '' triage''
           | _ \<Rightarrow> ''Mailbox triage'')
          @ '' '' @ [CHR 0xE2, CHR 0x80, CHR 0x94] @ '' ''
          @ py_join '', '' (map (\<lambda>(label, bucket). fragment label (bucket_count (label, bucket)) bucket)
                             (sort_key (\<lambda>lb. - int (bucket_count lb)) bs)))"

section \<open>Lemmas\<close>

lemma map_of_purge:
  "distinct (map fst bs) \<Longrightarrow>
     map_of (snd (purge_expired_batches now bs)) k
       = (case map_of bs k of Some b \<Rightarrow> if is_open now b then Some b else None | None \<Rightarrow> None)"
proof (induction bs)
  case (Cons p bs)
  obtain k' b where p: "p = (k', b)" by fastforce
  have "map_of (filter (\<lambda>(k, b). is_open now b) bs) k' = None"
    using Cons.prems p by (auto simp: map_of_eq_None_iff)
  then show ?case
    using Cons p by (auto simp: purge_expired_batches_def map_of_eq_None_iff split: option.splits)
qed (simp add: purge_expired_batches_def)

lemma is_open_earlier: "is_open t b \<Longrightarrow> now \<le> t \<Longrightarrow> is_open now b"
  by (simp add: is_open_def)

text \<open>Splitting at a separator, step by step.\<close>

lemma split_char_unfold:
  "split_char c cur s = (cur @ takeWhile (\<lambda>d. d \<noteq> c) s)
     # (case dropWhile (\<lambda>d. d \<noteq> c) s of [] \<Rightarrow> [] | _ # r \<Rightarrow> split_char c [] r)"
  by (induction s arbitrary: cur) auto

lemma strip_id: "s = [] \<or> \<not> P (hd s) \<and> \<not> P (last s) \<Longrightarrow> strip_if P s = s"
  using dropWhile_eq_self_iff [of P s] dropWhile_eq_self_iff [of P "rev s"]
  by (auto simp: strip_if_def lstrip_if_def rstrip_if_def hd_rev)

lemma digit_ends:
  assumes "is_digit c" shows "\<not> is_space c" "c \<noteq> CHR '':''" "c \<noteq> CHR ''_''" "c \<noteq> CHR ''-''" "c \<noteq> CHR ''+''"
  using assms by (auto simp: is_digit_def is_space_def code_pt_def)

lemma digits_plain:
  assumes "py_isdigit a"
  shows "py_strip a = a" "a \<noteq> []" "CHR '':'' \<notin> set a" "CHR ''_'' \<notin> set a"
    "hd a \<noteq> CHR ''-''" "hd a \<noteq> CHR ''+''" "\<not> is_space (hd a)" "\<not> is_space (last a)"
proof -
  have a: "a \<noteq> []" "\<forall>c \<in> set a. is_digit c" using assms by (auto simp: py_isdigit_def list_all_iff)
  then have "is_digit (hd a)" "is_digit (last a)" by auto
  then show "\<not> is_space (hd a)" "\<not> is_space (last a)" "hd a \<noteq> CHR ''-''" "hd a \<noteq> CHR ''+''"
    using digit_ends by auto
  then show "py_strip a = a" by (intro strip_id) simp
  show "a \<noteq> []" "CHR '':'' \<notin> set a" "CHR ''_'' \<notin> set a" using a digit_ends by auto
qed

lemma py_int_digits: "py_isdigit a \<Longrightarrow> py_int a = Some (int (nat_of_str a))"
  using digits_plain [of a] by (simp add: py_int_def Let_def py_split_on_def split_char_sep)

text \<open>A part the undo engine accepts is counted alike by both counters.\<close>

lemma uid_set_part_cases:
  assumes "uid_set_part p"
  obtains "py_isdigit p" | a b where "p = a @ CHR '':'' # b" "py_isdigit a" "py_isdigit b"
proof (cases "CHR '':'' \<in> set p")
  case False
  then show ?thesis using assms that(1) by (simp add: uid_set_part_def py_split_on_def split_char_sep)
next
  case True
  then obtain a r where p: "p = a @ CHR '':'' # r" "CHR '':'' \<notin> set a" by (metis split_list_first)
  have "CHR '':'' \<notin> set r"
  proof
    assume "CHR '':'' \<in> set r"
    then obtain b t where "r = b @ CHR '':'' # t" "CHR '':'' \<notin> set b" by (metis split_list_first)
    with assms p show False
      by (simp add: uid_set_part_def py_split_on_def split_char_sep split_char_unfold [of _ _ t])
  qed
  with assms p have "py_isdigit a" "py_isdigit r" by (simp_all add: uid_set_part_def py_split_on_def split_char_sep)
  then show ?thesis using that(2) p(1) by blast
qed

lemma count_token_part:
  assumes "uid_set_part p" shows "count_part p = Some (count_token p)"
  using assms
proof (cases rule: uid_set_part_cases)
  case 1
  then have "split_colon p = None" using digits_plain(3) by (simp add: split_colon_def while_char_stop)
  then show ?thesis using digits_plain [OF 1] by (simp add: count_part_def count_token_def)
next
  case (2 a b)
  note d = digits_plain [OF 2(2)] digits_plain [OF 2(3)]
  have "split_colon p = Some (a, b)" using d(3) by (simp add: 2(1) split_colon_def while_char_stop)
  moreover have "py_strip p = p" by (rule strip_id) (use d 2(1) in simp)
  ultimately show ?thesis using 2 d by (simp add: count_part_def count_token_def py_int_digits)
qed

lemma those_count_parts: "list_all uid_set_part ps \<Longrightarrow> those (map count_part ps) = Some (map count_token ps)"
  by (induction ps) (simp_all add: count_token_part)

section \<open>Properties\<close>

text \<open>Purging the registry is invisible: at any later time the next operation joins the same batch,
  or opens one, exactly as if nothing had been purged; and what is purged is what can no longer be
  joined.\<close>

theorem purge_transparent:
  assumes "distinct (map fst bs)" "t \<le> now"
  shows "fst (get_or_create_batch folder protocol window agent_id token now now' (snd (purge_expired_batches t bs)))
      = fst (get_or_create_batch folder protocol window agent_id token now now' bs)
    \<and> fst (purge_expired_batches t bs) + length (snd (purge_expired_batches t bs)) = length bs"
proof -
  have "length (filter (\<lambda>(k, b). \<not> is_open t b) bs) + length (filter (\<lambda>(k, b). is_open t b) bs) = length bs"
    by (induction bs) auto
  then show ?thesis
    using assms(2) map_of_purge [OF assms(1)]
    by (auto simp: get_or_create_batch_def Let_def purge_expired_batches_def dest: is_open_earlier split: option.splits)
qed

text \<open>The reviewer's summary counts the messages of a well-formed UID set exactly as the undo engine
  does when it checks that every message came back.\<close>

theorem summary_counts_as_undo:
  assumes "uid_set_ok s" "last s \<noteq> CHR 0x0A"
  shows "count_uid_set s = Some (summary_count_uid_set s)"
proof -
  have s: "s \<noteq> []" using assms(1) by (auto simp: uid_set_ok_def py_split_on_def uid_set_part_def py_isdigit_def)
  have "list_all uid_set_part (py_split_on (CHR '','') s)" using assms by (simp add: uid_set_ok_def)
  then have "those (map count_part (py_split_on (CHR '','') s)) = Some (map count_token (py_split_on (CHR '','') s))"
    by (rule those_count_parts)
  then show ?thesis using s by (simp add: count_uid_set_def summary_count_uid_set_def)
qed

lemma summary_counts_as_undo_witness: "count_uid_set ''4:6,9'' = Some (summary_count_uid_set ''4:6,9'')"
  by (rule summary_counts_as_undo) code_simp+

lemma purge_transparent_witness:
  "fst (get_or_create_batch ''INBOX'' ''imap'' 30 None ''b'' 20 21
     (snd (purge_expired_batches 10 [((''INBOX'', ''imap'', None),
        \<lparr>ba_id = ''batch_a'', ba_folder = ''INBOX'', ba_protocol = ''imap'', ba_created_at = 0, ba_window_seconds = 30, ba_op_ids = []\<rparr>)])))
    = fst (get_or_create_batch ''INBOX'' ''imap'' 30 None ''b'' 20 21 [((''INBOX'', ''imap'', None),
        \<lparr>ba_id = ''batch_a'', ba_folder = ''INBOX'', ba_protocol = ''imap'', ba_created_at = 0, ba_window_seconds = 30, ba_op_ids = []\<rparr>)])"
  by (rule conjunct1 [OF purge_transparent]) simp_all

end
