(* ===== verification/Lifecycle.thy ===== *)
theory Lifecycle
  imports Staging Batching
begin

text \<open>
  The life of a staged operation after it was proposed: expiry (\<open>gateway/expiry.py\<close>), deferred
  execution (\<open>gateway/scheduler.py\<close>) and the reviewer's handlers (\<open>api/routes/operations.py\<close>).
  \<open>clk\<close> gives each handler's readings of the clock; in a pass it is indexed by the operation.
\<close>

section \<open>Expiry\<close>

definition BATCH_SIZE :: nat where
  "BATCH_SIZE = 100"

definition find_expired_pending :: "int \<Rightarrow> db \<Rightarrow> op_row list" where
  "find_expired_pending now d =
     take BATCH_SIZE (sort_key op_expires_at
       (filter (\<lambda>r. op_status r = Pending \<and> op_expires_at r \<le> now) (db_ops d)))"

definition mark_expired :: "string \<Rightarrow> int \<Rightarrow> db \<Rightarrow> db" where
  "mark_expired i now d =
     d\<lparr>db_ops := upd (\<lambda>r. has_op i r \<and> op_status r = Pending)
        (\<lambda>r. r\<lparr>op_status := Expired, op_decided_at := Some now, op_decided_by := Some ''system''\<rparr>) (db_ops d)\<rparr>"

definition expired_event :: "int \<Rightarrow> string \<Rightarrow> op_row option \<Rightarrow> audit_event" where
  "expired_event now i row =
     \<lparr>ev_timestamp = now, ev_event = ''expired'', ev_actor = Some ''system'', ev_operation_id = Some i,
      ev_agent_id = Option.bind row op_agent_id, ev_op_type = map_option op_type row, ev_detail = None,
      ev_user_id = None, ev_intent_label = Option.bind row op_intent_label\<rparr>"

text \<open>\<open>clk 0\<close> is the decision's time, \<open>clk 1\<close> the restored rows'.\<close>

definition expire_one :: "env \<Rightarrow> (nat \<Rightarrow> int) \<Rightarrow> string \<Rightarrow> db \<Rightarrow> db" where
  "expire_one env clk i d =
     (let d' = mark_expired i (clk 0) (roll_back i (clk 1) d)
      in insert_audit_event (env_digest env) (expired_event (clk 0) i (find_op i d')) d')"

fun expire_rows :: "env \<Rightarrow> (nat \<Rightarrow> nat \<Rightarrow> int) \<Rightarrow> nat \<Rightarrow> op_row list \<Rightarrow> db \<Rightarrow> db" where
  "expire_rows env clk k [] d = d"
| "expire_rows env clk k (r # rs) d = expire_rows env clk (Suc k) rs (expire_one env (clk k) (op_id r) d)"

definition expire_stale_operations :: "env \<Rightarrow> int \<Rightarrow> (nat \<Rightarrow> nat \<Rightarrow> int) \<Rightarrow> db \<Rightarrow> nat \<times> db" where
  "expire_stale_operations env now clk d =
     (length (find_expired_pending now d), expire_rows env clk 0 (find_expired_pending now d) d)"

section \<open>Deferred execution\<close>

definition find_due_scheduled :: "int \<Rightarrow> db \<Rightarrow> op_row list" where
  "find_due_scheduled now d =
     take BATCH_SIZE (sort_key (\<lambda>r. the (op_scheduled_execute_at r))
       (filter (\<lambda>r. op_status r = Pending \<and> op_scheduled_execute_at r \<noteq> None
                    \<and> the (op_scheduled_execute_at r) \<le> now) (db_ops d)))"

definition pending_op :: "string \<Rightarrow> op_row \<Rightarrow> bool" where
  "pending_op i r \<longleftrightarrow> has_op i r \<and> op_status r = Pending"

definition claim_op :: "string \<Rightarrow> int \<Rightarrow> db \<Rightarrow> bool \<times> db" where
  "claim_op i now d =
     (rowcount (pending_op i) (db_ops d) = 1,
      d\<lparr>db_ops := upd (pending_op i)
         (\<lambda>r. r\<lparr>op_status := Approved, op_decided_at := Some now, op_decided_by := Some ''auto_rule''\<rparr>) (db_ops d)\<rparr>)"

text \<open>The operations of a pass in turn, with the count of those executed; an exception that is not
  an \<open>ExecutionError\<close> ends the pass.\<close>

fun execute_rows :: "env \<Rightarrow> (nat \<Rightarrow> nat \<Rightarrow> int) \<Rightarrow> nat \<Rightarrow> nat \<Rightarrow> op_row list \<Rightarrow> nat act" where
  "execute_rows env clk k n [] w = (Inr n, w)"
| "execute_rows env clk k n (r # rs) w =
     (case claim_op (op_id r) (clk k 30) (w_db w) of
        (False, d) \<Rightarrow> execute_rows env clk (Suc k) n rs (w\<lparr>w_db := d\<rparr>)
      | (True, d) \<Rightarrow>
          (case execute_operation env (clk k) ''auto_rule'' (op_id r) (r\<lparr>op_status := Approved\<rparr>) (w\<lparr>w_db := d\<rparr>) of
             (Inr t, w') \<Rightarrow> execute_rows env clk (Suc k) (Suc n) rs w'
           | (Inl e, w') \<Rightarrow>
               if is_execution_error e then execute_rows env clk (Suc k) n rs w' else (Inl e, w')))"

definition execute_due_scheduled :: "env \<Rightarrow> int \<Rightarrow> (nat \<Rightarrow> nat \<Rightarrow> int) \<Rightarrow> nat act" where
  "execute_due_scheduled env now clk w = execute_rows env clk 0 0 (find_due_scheduled now (w_db w)) w"

section \<open>The reviewer's handlers\<close>

datatype http_error =
    Bad_request string
  | Not_found string
  | Conflict string
  | Server_error failure
  | Unhandled failure

type_synonym 'a handler = "world \<Rightarrow> (http_error + 'a) \<times> world"

definition do_approve :: "env \<Rightarrow> (nat \<Rightarrow> int) \<Rightarrow> string \<Rightarrow> op_row \<Rightarrow> int option handler" where
  "do_approve env clk i row w =
     (case execute_operation env clk ''human'' i row w of
        (Inr t, w') \<Rightarrow> (Inr t, w')
      | (Inl e, w') \<Rightarrow> (Inl (if is_execution_error e then Server_error e else Unhandled e), w'))"

definition do_reject :: "env \<Rightarrow> (nat \<Rightarrow> int) \<Rightarrow> string \<Rightarrow> op_row \<Rightarrow> db \<Rightarrow> db" where
  "do_reject env clk i row d =
     roll_back i (clk 12)
       (insert_audit_event (env_digest env) (op_event (clk 10) ''rejected'' ''human'' i row None)
         (update_operation_status i Rejected_op ''human'' None (clk 11) d))"

text \<open>The row a handler may decide: the user's own, and still pending.\<close>

definition decidable_op :: "string \<Rightarrow> nat \<Rightarrow> db \<Rightarrow> http_error + op_row" where
  "decidable_op i user_id d =
     (case get_operation i (Some user_id) d of
        None \<Rightarrow> Inl (Not_found i)
      | Some row \<Rightarrow> if op_status row \<noteq> Pending then Inl (Conflict i) else Inr row)"

definition approve_op :: "env \<Rightarrow> (nat \<Rightarrow> int) \<Rightarrow> string \<Rightarrow> nat \<Rightarrow> int option handler" where
  "approve_op env clk i user_id w =
     (case decidable_op i user_id (w_db w) of
        Inl e \<Rightarrow> (Inl e, w)
      | Inr row \<Rightarrow> do_approve env clk i row w)"

definition reject_op :: "env \<Rightarrow> (nat \<Rightarrow> int) \<Rightarrow> string \<Rightarrow> nat \<Rightarrow> unit handler" where
  "reject_op env clk i user_id w =
     (case decidable_op i user_id (w_db w) of
        Inl e \<Rightarrow> (Inl e, w)
      | Inr row \<Rightarrow> (Inr (), w\<lparr>w_db := do_reject env clk i row (w_db w)\<rparr>))"

text \<open>What undo reports as an \<open>UndoError\<close>: its own refusals and whatever credentials and login
  raise; an exception of a library escapes the handler.\<close>

fun is_undo_error :: "failure \<Rightarrow> bool" where
  "is_undo_error (Library m) = False"
| "is_undo_error e = True"

definition undo_op ::
  "env \<Rightarrow> (undone \<Rightarrow> string) \<Rightarrow> (nat \<Rightarrow> int) \<Rightarrow> string \<Rightarrow> nat \<Rightarrow> undone handler" where
  "undo_op env describe clk i user_id w =
     (case get_operation i (Some user_id) (w_db w) of
        None \<Rightarrow> (Inl (Not_found i), w)
      | Some owned \<Rightarrow>
          (case undo_operation env describe clk i w of
             (Inr u, w') \<Rightarrow> (Inr u, w')
           | (Inl e, w') \<Rightarrow> (Inl (if is_undo_error e then Conflict i else Unhandled e), w')))"

text \<open>Batches: the operations in the order given, each approved, failed or skipped; the rows of the
  answer in that order.\<close>

datatype batch_result = Done_op string "int option" | Failed_op string http_error | Skipped_op string http_error

definition batch_check :: "string list \<Rightarrow> http_error option" where
  "batch_check ids =
     (if ids = [] then Some (Bad_request ''operation_ids must not be empty'')
      else if length ids > 100 then Some (Bad_request ''Too many operation IDs'')
      else None)"

fun approve_each :: "env \<Rightarrow> (nat \<Rightarrow> nat \<Rightarrow> int) \<Rightarrow> nat \<Rightarrow> nat \<Rightarrow> string list \<Rightarrow> world \<Rightarrow> batch_result list \<times> world" where
  "approve_each env clk k user_id [] w = ([], w)"
| "approve_each env clk k user_id (i # ids) w =
     (case decidable_op i user_id (w_db w) of
        Inl e \<Rightarrow> (let (rs, w') = approve_each env clk (Suc k) user_id ids w in (Skipped_op i e # rs, w'))
      | Inr row \<Rightarrow>
          (let (r, w1) = do_approve env (clk k) i row w;
               (rs, w') = approve_each env clk (Suc k) user_id ids w1
           in (case r of Inr t \<Rightarrow> Done_op i t # rs | Inl e \<Rightarrow> Failed_op i e # rs, w')))"

definition batch_approve :: "env \<Rightarrow> (nat \<Rightarrow> nat \<Rightarrow> int) \<Rightarrow> string list \<Rightarrow> nat \<Rightarrow> batch_result list handler" where
  "batch_approve env clk ids user_id w =
     (case batch_check ids of
        Some e \<Rightarrow> (Inl e, w)
      | None \<Rightarrow> (let (rs, w') = approve_each env clk 0 user_id ids w in (Inr rs, w')))"

fun reject_each :: "env \<Rightarrow> (nat \<Rightarrow> nat \<Rightarrow> int) \<Rightarrow> nat \<Rightarrow> nat \<Rightarrow> string list \<Rightarrow> db \<Rightarrow> batch_result list \<times> db" where
  "reject_each env clk k user_id [] d = ([], d)"
| "reject_each env clk k user_id (i # ids) d =
     (case decidable_op i user_id d of
        Inl e \<Rightarrow> (let (rs, d') = reject_each env clk (Suc k) user_id ids d in (Skipped_op i e # rs, d'))
      | Inr row \<Rightarrow>
          (let (rs, d') = reject_each env clk (Suc k) user_id ids (do_reject env (clk k) i row d)
           in (Done_op i None # rs, d')))"

definition batch_reject :: "env \<Rightarrow> (nat \<Rightarrow> nat \<Rightarrow> int) \<Rightarrow> string list \<Rightarrow> nat \<Rightarrow> batch_result list handler" where
  "batch_reject env clk ids user_id w =
     (case batch_check ids of
        Some e \<Rightarrow> (Inl e, w)
      | None \<Rightarrow> (let (rs, d') = reject_each env clk 0 user_id ids (w_db w) in (Inr rs, w\<lparr>w_db := d'\<rparr>)))"

section \<open>Reading operations\<close>

record preview =
  pv_uid :: int
  pv_sender :: "string option"
  pv_subject :: "string option"
  pv_date_sent :: "int option"

definition previews_from_snapshot :: "op_row \<Rightarrow> nat \<Rightarrow> preview list" where
  "previews_from_snapshot row max_messages =
     take max_messages
       (map (\<lambda>e. \<lparr>pv_uid = se_uid e, pv_sender = se_sender e, pv_subject = se_subject e, pv_date_sent = None\<rparr>)
         (filter (\<lambda>e. truthy (se_sender e) \<or> truthy (se_subject e)) (list_or_empty (op_snapshot row))))"

definition preview_of :: "message_row \<Rightarrow> preview" where
  "preview_of m = \<lparr>pv_uid = me_uid m, pv_sender = me_sender m, pv_subject = me_subject m, pv_date_sent = me_date_sent m\<rparr>"

text \<open>The messages the stored UID set names; \<open>None\<close> where \<open>int()\<close> raises.\<close>

definition preview_rows :: "nat \<Rightarrow> string \<Rightarrow> nat \<Rightarrow> db \<Rightarrow> message_row list option" where
  "preview_rows folder_id uid_set max_messages d =
     (let rows = sort_key me_uid (filter (\<lambda>m. me_folder_id m = folder_id) (db_messages d))
      in if CHR '':'' \<in> set uid_set \<and> uid_set \<noteq> ''1:*'' then
           (case py_split_on (CHR '':'') uid_set of
              a # b # _ \<Rightarrow>
                (case (py_int a, py_int b) of
                   (Some lo, Some hi) \<Rightarrow> Some (take max_messages (filter (\<lambda>m. lo \<le> me_uid m \<and> me_uid m \<le> hi) rows))
                 | _ \<Rightarrow> None)
            | _ \<Rightarrow> None)
         else
           (let uids = take max_messages (map (\<lambda>u. int (nat_of_str (py_strip u)))
                   (filter (\<lambda>u. py_isdigit (py_strip u)) (py_split_on (CHR '','') uid_set)))
            in Some (filter (\<lambda>m. me_uid m \<in> set uids) rows)))"

text \<open>The folder of that name among those of the owner of the operation's agent.\<close>

definition preview_folder :: "op_row \<Rightarrow> db \<Rightarrow> folder_row option" where
  "preview_folder row d =
     (case resolve_user_id_for_agent (op_agent_id row) d of
        None \<Rightarrow> None
      | Some u \<Rightarrow> List.find (\<lambda>f. fo_name f = or_empty (op_folder_from row) \<and> fo_user_id f = Some u) (db_folders d))"

text \<open>A set without a single number shows nothing; one that names no row of the mirror falls back to
  the snapshot.\<close>

definition fetch_message_previews :: "op_row \<Rightarrow> nat \<Rightarrow> db \<Rightarrow> preview list" where
  "fetch_message_previews row max_messages d =
     (if op_protocol row \<noteq> ''imap'' then []
      else if \<not> truthy (op_folder_from row) then previews_from_snapshot row max_messages
      else case list_or_empty (op_message_ids row) of
        [] \<Rightarrow> []
      | s # _ \<Rightarrow>
          (case preview_folder row d of
             None \<Rightarrow> []
           | Some f \<Rightarrow>
               if \<not> (CHR '':'' \<in> set s \<and> s \<noteq> ''1:*'')
                  \<and> filter (\<lambda>u. py_isdigit (py_strip u)) (py_split_on (CHR '','') s) = [] then []
               else case preview_rows (fo_id f) s max_messages d of
                 None \<Rightarrow> previews_from_snapshot row max_messages
               | Some rows \<Rightarrow>
                   if rows = [] then previews_from_snapshot row max_messages else map preview_of rows))"

definition get_op :: "string \<Rightarrow> nat \<Rightarrow> db \<Rightarrow> http_error + op_row \<times> preview list" where
  "get_op i user_id d =
     (case get_operation i (Some user_id) d of
        None \<Rightarrow> Inl (Not_found i)
      | Some row \<Rightarrow> Inr (row, fetch_message_previews row 3 d))"

text \<open>The rows with their previews, and the line for every batch of more than one of them.\<close>

definition list_ops ::
  "status option \<Rightarrow> nat option \<Rightarrow> nat \<Rightarrow> db \<Rightarrow> (op_row \<times> preview list) list \<times> (string \<times> string) list" where
  "list_ops st agent_id user_id d =
     (let rows = list_operations st agent_id (Some user_id) d;
          ids = rev (remdups (rev (map (\<lambda>r. or_empty (op_batch_id r)) (filter (\<lambda>r. truthy (op_batch_id r)) rows))));
          groups = map (\<lambda>b. (b, filter (\<lambda>r. truthy (op_batch_id r) \<and> op_batch_id r = Some b) rows)) ids
      in (map (\<lambda>r. (r, fetch_message_previews r 3 d)) rows,
          map (\<lambda>(b, rs). (b, build_batch_summary rs)) (filter (\<lambda>(b, rs). length rs > 1) groups)))"

section \<open>The life of an operation\<close>

inductive lifecycle :: "status \<Rightarrow> status \<Rightarrow> bool" where
  "lifecycle Pending Approved"
| "lifecycle Pending Rejected_op"
| "lifecycle Pending Executed"
| "lifecycle Pending Failed"
| "lifecycle Pending Expired"
| "lifecycle Approved Executed"
| "lifecycle Approved Failed"
| "lifecycle Executed Reverted"

code_pred lifecycle .

lemmas lifecycle_paths = lifecycle.intros [THEN r_into_rtranclp [of lifecycle]]

inductive_cases lifecycle_from: "lifecycle s t"

lemma lifecycle_pending: "t \<in> {Approved, Rejected_op, Executed, Failed, Expired} \<Longrightarrow> lifecycle Pending t"
  by (auto intro: lifecycle.intros)

text \<open>A status from which no step leads is final.\<close>

definition final :: "status \<Rightarrow> bool" where
  "final s \<longleftrightarrow> s \<in> {Rejected_op, Failed, Expired, Reverted, Cancelled}"

lemma final_stays: "lifecycle\<^sup>*\<^sup>* s t \<Longrightarrow> final s \<Longrightarrow> t = s"
  by (induction rule: converse_rtranclp_induct) (auto simp: final_def elim: lifecycle_from)

text \<open>From one database to the next every operation moves along its life; new ones come last.\<close>

definition moved :: "(string \<times> status) \<Rightarrow> (string \<times> status) \<Rightarrow> bool" where
  "moved a b \<longleftrightarrow> fst a = fst b \<and> lifecycle\<^sup>*\<^sup>* (snd a) (snd b)"

definition follows :: "db \<Rightarrow> db \<Rightarrow> bool" where
  "follows d d' \<longleftrightarrow> (\<exists>xs ys. statuses d' = xs @ ys \<and> list_all2 moved (statuses d) xs)"

lemma moved_refl [simp]: "moved a a"
  by (simp add: moved_def)

lemma moved_trans: "moved a b \<Longrightarrow> moved b c \<Longrightarrow> moved a c"
  by (auto simp: moved_def)

lemma follows_same: "statuses d' = statuses d \<Longrightarrow> follows d d'"
  unfolding follows_def by (rule exI [of _ "statuses d"], rule exI [of _ "[]"]) (simp add: list.rel_refl)

interpretation path: db_relation follows
proof
  fix d d' d''
  show "follows d d''" if "follows d d'" "follows d' d''"
  proof -
    obtain xs ys where x: "statuses d' = xs @ ys" "list_all2 moved (statuses d) xs"
      using \<open>follows d d'\<close> by (auto simp: follows_def)
    obtain us vs where u: "statuses d'' = us @ vs" "list_all2 moved (xs @ ys) us"
      using \<open>follows d' d''\<close> x(1) by (auto simp: follows_def)
    from u(2) obtain us1 us2 where s: "us = us1 @ us2" "list_all2 moved xs us1" by (auto simp: list_all2_append1)
    have "list_all2 moved (statuses d) us1"
      using list_all2_trans [of moved moved moved, OF _ x(2) s(2)] moved_trans by blast
    then show ?thesis using u(1) s(1) by (auto simp: follows_def)
  qed
qed (rule follows_same, simp add: statuses_def db_kept_def)

abbreviation op_keys :: "db \<Rightarrow> string list" where
  "op_keys d \<equiv> map op_id (db_ops d)"

lemma op_keys_statuses: "op_keys d = map fst (statuses d)"
  by (simp add: statuses_def)

lemma follows_status:
  assumes "distinct (op_keys d)" "\<And>r. find_op i d = Some r \<Longrightarrow> lifecycle\<^sup>*\<^sup>* (op_status r) st"
    and "statuses d' = map (\<lambda>(j, s). (j, if j = i then st else s)) (statuses d)"
  shows "follows d d'"
proof -
  have "moved (op_id r, op_status r) (op_id r, if op_id r = i then st else op_status r)" if r: "r \<in> set (db_ops d)" for r
  proof (cases "op_id r = i")
    case True
    then have "find_op i d = Some r"
      using find_distinct_key [OF assms(1) r] unfolding find_op_def has_op_def [abs_def] by simp
    then show ?thesis using assms(2) by (simp add: moved_def)
  qed (simp add: moved_def)
  then have "list_all2 moved (statuses d) (statuses d')"
    using assms(3) by (simp add: statuses_def list_all2_map1 list_all2_map2 list.rel_refl_strong)
  then show ?thesis unfolding follows_def by (metis append_Nil2)
qed

lemma follows_decides:
  assumes "distinct (op_keys d)" "decides i S d d'"
    and "\<And>r st. find_op i d = Some r \<Longrightarrow> st \<in> S \<Longrightarrow> lifecycle\<^sup>*\<^sup>* (op_status r) st"
  shows "follows d d' \<and> op_keys d' = op_keys d"
  using assms(2) unfolding decides_def
proof (elim disjE bexE)
  assume "statuses d' = statuses d"
  then show ?thesis by (simp add: op_keys_statuses follows_same)
next
  fix st assume st: "st \<in> S" "statuses d' = map (\<lambda>(j, s). (j, if j = i then st else s)) (statuses d)"
  have "op_keys d' = op_keys d" by (simp add: op_keys_statuses st(2) case_prod_beta comp_def)
  then show ?thesis using follows_status [OF assms(1) _ st(2)] assms(3) st(1) by blast
qed

text \<open>Keys stay unique and operations move along their lives.\<close>

definition tracks :: "db \<Rightarrow> db \<Rightarrow> bool" where
  "tracks d d' \<longleftrightarrow> (if distinct (op_keys d) then follows d d' \<and> distinct (op_keys d') else True)"

lemma tracks_trans: "tracks d d' \<Longrightarrow> tracks d' d'' \<Longrightarrow> tracks d d''"
  by (auto simp: tracks_def intro: path.R_trans split: if_splits)

lemma tracks_refl [simp]: "tracks d d"
  by (simp add: tracks_def path.R_refl)

lemma tracks_same: "statuses d' = statuses d \<Longrightarrow> tracks d d'"
  by (simp add: tracks_def follows_same op_keys_statuses)

lemma tracks_decides:
  assumes "decides i S d d'" "\<And>r st. find_op i d = Some r \<Longrightarrow> st \<in> S \<Longrightarrow> lifecycle\<^sup>*\<^sup>* (op_status r) st"
  shows "tracks d d'"
  using follows_decides [of d i S d'] assms by (simp add: tracks_def)

lemma tracks_upd:
  assumes "db_ops d' = upd P f (db_ops d)"
    and "\<And>r. P r \<Longrightarrow> op_id (f r) = op_id r \<and> lifecycle\<^sup>*\<^sup>* (op_status r) (op_status (f r))"
  shows "tracks d d'"
proof -
  have "list_all2 moved (statuses d) (statuses d')"
    using assms by (simp add: statuses_def upd_def list_all2_map1 list_all2_map2 moved_def list.rel_refl_strong)
  moreover have "op_keys d' = op_keys d" using assms by (simp add: map_upd_key)
  ultimately show ?thesis unfolding tracks_def follows_def by (metis append_Nil2)
qed

lemma expire_one_ops:
  "db_ops (expire_one env clk i d) = upd (pending_op i)
     (\<lambda>r. r\<lparr>op_status := Expired, op_decided_at := Some (clk 0), op_decided_by := Some ''system''\<rparr>) (db_ops d)"
  by (simp add: expire_one_def mark_expired_def pending_op_def [abs_def] Let_def)

lemma tracks_expire: "tracks d (expire_one env clk i d)"
  by (rule tracks_upd [OF expire_one_ops]) (auto simp: pending_op_def intro: lifecycle_paths)

lemma tracks_expire_rows: "tracks d (expire_rows env clk k rs d)"
  by (induction env clk k rs d rule: expire_rows.induct) (auto intro: tracks_trans tracks_expire)

lemma claim_ops:
  "db_ops (snd (claim_op i now d)) = upd (pending_op i)
     (\<lambda>r. r\<lparr>op_status := Approved, op_decided_at := Some now, op_decided_by := Some ''auto_rule''\<rparr>) (db_ops d)"
  by (simp add: claim_op_def)

lemma tracks_claim: "tracks d (snd (claim_op i now d))"
  by (rule tracks_upd [OF claim_ops]) (auto simp: pending_op_def intro: lifecycle_paths)

lemma claimed_row: "fst (claim_op i now d) \<Longrightarrow> \<exists>r \<in> set (db_ops d). pending_op i r"
  by (rule rowcount_pos) (simp add: claim_op_def)

lemma claimed_status:
  assumes "fst (claim_op i now d)" "find_op i (snd (claim_op i now d)) = Some r" "distinct (op_keys d)"
  shows "op_status r = Approved"
proof -
  obtain r0 where r0: "find_op i d = Some r0"
    "r = (if pending_op i r0 then r0\<lparr>op_status := Approved, op_decided_at := Some now, op_decided_by := Some ''auto_rule''\<rparr> else r0)"
    using assms(2) by (auto simp: claim_op_def find_op_def find_upd_key pending_op_def has_op_def)
  obtain r1 where r1: "r1 \<in> set (db_ops d)" "pending_op i r1"
    using claimed_row [OF assms(1)] by blast
  then have "find_op i d = Some r1"
    using find_distinct_key [OF assms(3) r1(1)] unfolding find_op_def pending_op_def has_op_def [abs_def] by simp
  then show ?thesis using r0 r1(2) by simp
qed

lemma tracks_execution:
  assumes "\<And>r. find_op i (w_db w) = Some r \<Longrightarrow> op_status r \<in> {Pending, Approved}"
  shows "tracks (w_db w) (w_db (snd (execute_operation env clk actor i row w)))"
proof (rule tracks_decides)
  show "decides i {Executed, Failed} (w_db w) (w_db (snd (execute_operation env clk actor i row w)))"
    using decides_execution by (simp add: within_def)
qed (use assms in \<open>auto intro: lifecycle_paths\<close>)

lemma tracks_reject:
  assumes "\<And>r. find_op i d = Some r \<Longrightarrow> op_status r = Pending"
  shows "tracks d (do_reject env clk i row d)"
proof (rule tracks_decides)
  show "decides i {Rejected_op} d (do_reject env clk i row d)"
    by (simp add: decides_def do_reject_def statuses_update statuses_def [of "roll_back _ _ _"])
      (simp add: statuses_def [symmetric] statuses_update)
qed (use assms in \<open>auto intro: lifecycle_paths\<close>)

lemma gentle_undo: "gentle (execute_undo_imap env row dest creds)"
proof -
  have store: "gentle (undo_store env f u s fl x)" for f u s fl x
    unfolding undo_store_def undo_fail_def select_call_def by (auto intro!: gentle_intros)
  have move: "gentle (undo_move env f t x)" for f t x
    unfolding undo_move_def undo_fail_def select_call_def
    by (auto intro!: gentle_intros split: option.split)
  show ?thesis
    unfolding execute_undo_imap_def undo_command_def Let_def
    by (auto intro!: gentle_intros store move)
qed

lemma undo_db:
  "w_db (snd (undo_operation env describe clk i w)) = w_db w
   \<or> (\<exists>row. find_op i (w_db w) = Some row \<and> op_status row = Executed
        \<and> decides i {Reverted} (w_db w) (w_db (snd (undo_operation env describe clk i w))))"
proof (cases "find_op i (w_db w)")
  case None
  then show ?thesis by (simp add: undo_operation_def raise_def)
next
  case (Some row)
  show ?thesis
  proof (cases "undo_refusal (clk 0) row")
    case (Some e)
    then show ?thesis using \<open>find_op i (w_db w) = Some row\<close> by (simp add: undo_operation_def raise_def)
  next
    case None
    have "within (decides i {Reverted}) (bindE (lift_res (undo_destination row i (w_db w))) (\<lambda>dest.
               bindE (resolve_imap_credentials env row) (\<lambda>creds.
               bindE (execute_undo_imap env row dest creds) (\<lambda>u.
               bindE (on_db (record_reverted env describe clk i row u)) (\<lambda>_. ret u)))))"
      by (intro only.within_bindE only.within_on_db only.within_gentle gentle_undo)
        (auto intro!: gentle_intros simp: decides_def record_reverted_def statuses_update)
    then have "decides i {Reverted} (w_db w) (w_db (snd (undo_operation env describe clk i w)))"
      using Some None by (simp add: undo_operation_def within_def)
    moreover have "op_status row = Executed" using None by (simp add: undo_refusal_def split: if_splits)
    ultimately show ?thesis using Some by blast
  qed
qed

lemma tracks_undo: "tracks (w_db w) (w_db (snd (undo_operation env describe clk i w)))"
  using undo_db [of env describe clk i w]
proof (elim disjE exE conjE)
  fix row assume u: "find_op i (w_db w) = Some row" "op_status row = Executed"
    "decides i {Reverted} (w_db w) (w_db (snd (undo_operation env describe clk i w)))"
  show ?thesis by (rule tracks_decides [OF u(3)]) (use u in \<open>auto intro: lifecycle_paths\<close>)
qed simp

section \<open>Requests\<close>

text \<open>What can happen to operations, each as one step: an agent stages, a reviewer decides or undoes,
  and the two background passes run.\<close>

datatype request =
    Stage string op_request
  | Approve string nat
  | Reject string nat
  | Undo string nat
  | Batch_approve "string list" nat
  | Batch_reject "string list" nat
  | Expire int
  | Run_due int

definition serve ::
  "env \<Rightarrow> (op_row \<Rightarrow> nat option \<Rightarrow> db \<Rightarrow> failure + decision option) \<Rightarrow> (undone \<Rightarrow> string)
     \<Rightarrow> request \<times> (nat \<Rightarrow> nat \<Rightarrow> int) \<Rightarrow> world \<Rightarrow> world" where
  "serve env decide describe rc w =
     (let clk = snd rc in case fst rc of
        Stage i rq \<Rightarrow> snd (create_operation env decide (clk 0) i rq w)
      | Approve i u \<Rightarrow> snd (approve_op env (clk 0) i u w)
      | Reject i u \<Rightarrow> snd (reject_op env (clk 0) i u w)
      | Undo i u \<Rightarrow> snd (undo_op env describe (clk 0) i u w)
      | Batch_approve ids u \<Rightarrow> snd (batch_approve env clk ids u w)
      | Batch_reject ids u \<Rightarrow> snd (batch_reject env clk ids u w)
      | Expire now \<Rightarrow> w\<lparr>w_db := snd (expire_stale_operations env now clk (w_db w))\<rparr>
      | Run_due now \<Rightarrow> snd (execute_due_scheduled env now clk w))"

definition serve_all ::
  "env \<Rightarrow> (op_row \<Rightarrow> nat option \<Rightarrow> db \<Rightarrow> failure + decision option) \<Rightarrow> (undone \<Rightarrow> string)
     \<Rightarrow> (request \<times> (nat \<Rightarrow> nat \<Rightarrow> int)) list \<Rightarrow> world \<Rightarrow> world" where
  "serve_all env decide describe rcs w = fold (serve env decide describe) rcs w"

lemma decidable_pending:
  assumes "decidable_op i u d = Inr row" "distinct (op_keys d)"
  shows "find_op i d = Some row" "op_status row = Pending"
  using assms get_operation_find_op [of d i "Some u" row]
  by (auto simp: decidable_op_def split: option.splits if_splits)

lemma tracksI: "(distinct (op_keys d) \<Longrightarrow> tracks d d') \<Longrightarrow> tracks d d'"
  by (auto simp: tracks_def)

lemma tracks_approve:
  assumes "decidable_op i u (w_db w) = Inr row"
  shows "tracks (w_db w) (w_db (snd (do_approve env clk i row w)))"
proof (rule tracksI)
  assume "distinct (op_keys (w_db w))"
  note p = decidable_pending [OF assms this]
  have "w_db (snd (do_approve env clk i row w)) = w_db (snd (execute_operation env clk ''human'' i row w))"
    by (simp add: do_approve_def split: prod.split sum.split)
  then show "tracks (w_db w) (w_db (snd (do_approve env clk i row w)))"
    using tracks_execution [of i w env clk "''human''" row] p by simp
qed

lemma tracks_do_reject:
  assumes "decidable_op i u d = Inr row" shows "tracks d (do_reject env clk i row d)"
  by (rule tracksI, rule tracks_reject) (use decidable_pending [OF assms] in simp)

lemma tracks_approve_each: "tracks (w_db w) (w_db (snd (approve_each env clk k u ids w)))"
proof (induction ids arbitrary: k w)
  case (Cons i ids)
  show ?case
  proof (cases "decidable_op i u (w_db w)")
    case (Inl e)
    then show ?thesis using Cons.IH by (simp add: split_beta Let_def)
  next
    case (Inr row)
    have "w_db (snd (approve_each env clk k u (i # ids) w))
        = w_db (snd (approve_each env clk (Suc k) u ids (snd (do_approve env (clk k) i row w))))"
      using Inr by (simp add: split_beta Let_def)
    then show ?thesis
      using tracks_trans [OF tracks_approve [OF Inr] Cons.IH] by simp
  qed
qed simp

lemma tracks_reject_each: "tracks d (snd (reject_each env clk k u ids d))"
proof (induction ids arbitrary: k d)
  case (Cons i ids)
  show ?case
  proof (cases "decidable_op i u d")
    case (Inl e)
    then show ?thesis using Cons.IH by (simp add: split_beta Let_def)
  next
    case (Inr row)
    then show ?thesis using tracks_trans [OF tracks_do_reject [OF Inr] Cons.IH] by (simp add: split_beta Let_def)
  qed
qed simp

lemma tracks_execute_rows: "tracks (w_db w) (w_db (snd (execute_rows env clk k n rs w)))"
proof (induction rs arbitrary: k n w)
  case (Cons r rs)
  obtain won d where c: "claim_op (op_id r) (clk k 30) (w_db w) = (won, d)" by fastforce
  have t: "tracks (w_db w) d" using tracks_claim [of "w_db w" "op_id r" "clk k 30"] c by simp
  show ?case
  proof (cases won)
    case False
    then show ?thesis using Cons.IH [of "w\<lparr>w_db := d\<rparr>" "Suc k" n] c tracks_trans [OF t] by simp
  next
    case True
    obtain x w' where x: "execute_operation env (clk k) ''auto_rule'' (op_id r) (r\<lparr>op_status := Approved\<rparr>) (w\<lparr>w_db := d\<rparr>) = (x, w')"
      by fastforce
    have "tracks d (w_db w')"
    proof (rule tracksI)
      assume d: "distinct (op_keys d)"
      then have "distinct (op_keys (w_db w))"
        using c by (auto simp: claim_op_def map_upd_key)
      then have "op_status r' = Approved" if "find_op (op_id r) d = Some r'" for r'
        using claimed_status [of "op_id r" "clk k 30" "w_db w" r'] c True that by simp
      then show "tracks d (w_db w')"
        using tracks_execution [of "op_id r" "w\<lparr>w_db := d\<rparr>" env "clk k" "''auto_rule''" "r\<lparr>op_status := Approved\<rparr>"] x by simp
    qed
    then have "tracks (w_db w) (w_db w')" by (rule tracks_trans [OF t])
    then show ?thesis
      using Cons.IH c True x by (cases x) (auto intro: tracks_trans)
  qed
qed simp

lemma decides_auto_rule:
  "within (decides i {Rejected_op, Executed, Failed}) (apply_auto_rule_decision env clk i row dec)"
proof (rule only.within_decision)
  have same: "decides i {Rejected_op, Executed, Failed} d d'" if "statuses d' = statuses d" for d d'
    using that by (simp add: decides_def)
  have ro: "statuses (roll_back j t d) = statuses d" for j t d by (simp add: statuses_def)
  have su: "statuses (set_schedule_and_urgency j t u d) = statuses d" for j t u d
    using set_schedule_status by (simp add: statuses_def)
  show "decides i {Rejected_op, Executed, Failed} d (apply_reject env clk i row dec d)" for d
    by (simp add: decides_def apply_reject_def ro statuses_update)
  show "decides i {Rejected_op, Executed, Failed} d (apply_after env clk i row dec d)"
    "decides i {Rejected_op, Executed, Failed} d (apply_hold env clk i row dec d)"
    "decides i {Rejected_op, Executed, Failed} d
       (insert_audit_event (env_digest env) (rule_event (clk 10) ''approved'' i row (rule_detail dec)) d)" for d
    by (rule same, simp add: apply_after_def apply_hold_def Let_def su statuses_update)+
  show "within (decides i {Rejected_op, Executed, Failed}) (execute_operation env clk ''auto_rule'' i r)" for r
    using decides_execution [of i env clk "''auto_rule''" r] by (auto simp: within_def decides_def)
qed

lemma tracks_stage: "tracks (w_db w) (w_db (snd (create_operation env decide clk i rq w)))"
proof (cases "insert_staged env i (clk 20) rq (w_db w)")
  case None
  then show ?thesis by (simp add: create_operation_def raise_def)
next
  case (Some d)
  let ?row = "staged_row i (clk 20) rq"
  note f = insert_staged_find [OF Some]
  have new: "tracks (w_db w) d"
  proof (rule tracksI)
    assume dist: "distinct (op_keys (w_db w))"
    have "i \<notin> set (op_keys (w_db w))" using f(3) by (auto simp: find_op_def find_None_all has_op_def)
    moreover have "op_id ?row = i" by (simp add: staged_row_def)
    ultimately have "distinct (op_keys d)" using dist f(2) by simp
    moreover have "follows (w_db w) d"
      unfolding follows_def by (intro exI conjI) (auto simp: statuses_def f(2) list.rel_refl)
    ultimately show "tracks (w_db w) d" by (simp add: tracks_def)
  qed
  have snd_ret: "snd (bindE m (\<lambda>_. ret x) w1) = snd (m w1)" for m :: "unit act" and x :: "string \<times> bool" and w1
    by (simp add: bindE_def ret_def split: prod.split sum.split)
  have "\<exists>dec. w_db (snd (create_operation env decide clk i rq w))
      \<in> {d, w_db (snd (apply_auto_rule_decision env clk i ?row dec (w\<lparr>w_db := d\<rparr>)))}"
  proof (cases "decide ?row (resolve_user_id_for_agent (rq_agent_id rq) d) d")
    case (Inl e)
    then show ?thesis using Some by (simp add: create_operation_def Let_def bindE_def lift_res_def)
  next
    case (Inr x)
    have lifted: "snd (bindE (lift_res (Inr y)) f w1) = snd (f y w1)"
      for f :: "decision option \<Rightarrow> (string \<times> bool) act" and y w1
      by (simp add: bindE_def lift_res_def)
    show ?thesis using Some Inr by (cases x) (auto simp: create_operation_def Let_def lifted snd_ret ret_def)
  qed
  then obtain dec where "w_db (snd (create_operation env decide clk i rq w))
      \<in> {d, w_db (snd (apply_auto_rule_decision env clk i ?row dec (w\<lparr>w_db := d\<rparr>)))}" by blast
  moreover have "tracks d (w_db (snd (apply_auto_rule_decision env clk i ?row dec (w\<lparr>w_db := d\<rparr>))))"
  proof (rule tracks_decides)
    show "decides i {Rejected_op, Executed, Failed} d (w_db (snd (apply_auto_rule_decision env clk i ?row dec (w\<lparr>w_db := d\<rparr>))))"
      using decides_auto_rule [of i env clk ?row dec, unfolded within_def, THEN spec [of _ "w\<lparr>w_db := d\<rparr>"]] by simp
    show "lifecycle\<^sup>*\<^sup>* (op_status r) st" if "find_op i d = Some r" "st \<in> {Rejected_op, Executed, Failed}" for r st
      using that f(1) by (auto simp: staged_row_def intro: lifecycle_paths)
  qed
  ultimately show ?thesis using new tracks_trans [OF new] by auto
qed

lemma tracks_serve: "tracks (w_db w) (w_db (serve env decide describe rc w))"
proof -
  obtain q clk where rc: "rc = (q, clk)" by fastforce
  have ap: "tracks (w_db w) (w_db (snd (approve_op env c i u w)))" for c i u
    by (simp add: approve_op_def tracks_approve split: sum.split)
  have rj: "tracks (w_db w) (w_db (snd (reject_op env c i u w)))" for c i u
    by (simp add: reject_op_def tracks_do_reject split: sum.split)
  have un: "tracks (w_db w) (w_db (snd (undo_op env describe c i u w)))" for c i u
    using tracks_undo [of w env describe c i] by (auto simp: undo_op_def split: option.split prod.split sum.split)
  have ba: "tracks (w_db w) (w_db (snd (batch_approve env c ids u w)))" for c ids u
    using tracks_approve_each [of w env c 0 u ids] by (simp add: batch_approve_def split_beta Let_def split: option.split)
  have br: "tracks (w_db w) (w_db (snd (batch_reject env c ids u w)))" for c ids u
    using tracks_reject_each [of "w_db w" env c 0 u ids] by (simp add: batch_reject_def split_beta Let_def split: option.split)
  have ex: "tracks (w_db w) (snd (expire_stale_operations env t c (w_db w)))" for t c
    by (simp add: expire_stale_operations_def tracks_expire_rows)
  have du: "tracks (w_db w) (w_db (snd (execute_due_scheduled env t c w)))" for t c
    by (simp add: execute_due_scheduled_def tracks_execute_rows)
  show ?thesis
    unfolding rc serve_def Let_def fst_conv snd_conv
    by (cases q) (simp_all add: tracks_stage ap rj un ba br ex du)
qed

lemma tracks_serve_all: "tracks (w_db w) (w_db (serve_all env decide describe rcs w))"
  unfolding serve_all_def
  by (induction rcs arbitrary: w) (auto intro: tracks_trans tracks_serve)

lemma follows_find:
  assumes "follows d d'" "distinct (op_keys d')" "find_op i d = Some r"
  obtains r' where "find_op i d' = Some r'" "lifecycle\<^sup>*\<^sup>* (op_status r) (op_status r')"
proof -
  obtain xs ys where x: "statuses d' = xs @ ys" "list_all2 moved (statuses d) xs"
    using assms(1) by (auto simp: follows_def)
  have "(i, op_status r) \<in> set (statuses d)" using find_op_id [OF assms(3)] by (auto simp: statuses_def)
  then obtain b where b: "b \<in> set (statuses d')" "moved (i, op_status r) b"
    using x by (metis (no_types, lifting) Un_iff list_all2_conv_all_nth in_set_conv_nth set_append)
  then obtain r' where r': "r' \<in> set (db_ops d')" "op_id r' = i" "lifecycle\<^sup>*\<^sup>* (op_status r) (op_status r')"
    by (auto simp: statuses_def moved_def)
  then have "find_op i d' = Some r'"
    using find_distinct_key [OF assms(2) r'(1)] unfolding find_op_def has_op_def [abs_def] by simp
  with r'(3) show ?thesis by (rule that [rotated])
qed

section \<open>Claims\<close>

text \<open>An operation is spent once its row exists and no row of its id is pending.\<close>

definition op_spent :: "string \<Rightarrow> db \<Rightarrow> bool" where
  "op_spent i d \<longleftrightarrow> list_ex (has_op i) (db_ops d) \<and> \<not> list_ex (pending_op i) (db_ops d)"

text \<open>The other writes to the table: a decision (never back to pending), an expiry, a proposal.\<close>

datatype table_write =
    Write_status string status string "string option" int
  | Write_expired string "nat \<Rightarrow> int"
  | Write_staged string int op_request

fun table_step :: "env \<Rightarrow> table_write \<Rightarrow> db \<Rightarrow> db" where
  "table_step env (Write_status i st by err now) d =
     (if st = Pending then d else update_operation_status i st by err now d)"
| "table_step env (Write_expired i clk) d = expire_one env clk i d"
| "table_step env (Write_staged i now rq) d = (case insert_staged env i now rq d of None \<Rightarrow> d | Some d' \<Rightarrow> d')"

lemma op_spent_keys: "op_spent i d \<longleftrightarrow> i \<in> set (op_keys d) \<and> (\<forall>r \<in> set (db_ops d). \<not> pending_op i r)"
  by (auto simp: op_spent_def list_ex_iff has_op_def)

lemma op_spent_upd:
  assumes "db_ops d' = upd P f (db_ops d)" "\<And>r. P r \<Longrightarrow> op_id (f r) = op_id r \<and> op_status (f r) \<noteq> Pending"
    and "i \<in> set (op_keys d)" "\<And>r. r \<in> set (db_ops d) \<Longrightarrow> pending_op i r \<Longrightarrow> P r"
  shows "op_spent i d'"
proof -
  have "op_keys d' = op_keys d" using assms(1,2) by (simp add: map_upd_key)
  then have "i \<in> set (op_keys d')" using assms(3) by metis
  moreover have "\<forall>r \<in> set (db_ops d'). \<not> pending_op i r"
    using assms(1,2,4) by (auto simp: set_upd pending_op_def split: if_splits)
  ultimately show ?thesis by (simp only: op_spent_keys)
qed

lemma op_spent_stays:
  assumes "db_ops d' = upd P f (db_ops d)" "\<And>r. P r \<Longrightarrow> op_id (f r) = op_id r \<and> op_status (f r) \<noteq> Pending"
    and "op_spent i d"
  shows "op_spent i d'"
  by (rule op_spent_upd [OF assms(1,2)]) (use assms(3) in \<open>auto simp: op_spent_keys\<close>)

interpretation due: claimable op_spent claim_op "table_step env" "\<lambda>d. distinct (op_keys d)" for env :: env
proof
  fix d :: db and i j :: string and now :: int and y :: table_write
  assume dist: "distinct (op_keys d)"
  show "\<not> op_spent i d" if "fst (claim_op i now d)"
    using that by (auto simp: claim_op_def rowcount_def op_spent_def list_ex_iff filter_empty_conv)
  show "op_spent i (snd (claim_op i now d))" if won: "fst (claim_op i now d)"
    by (rule op_spent_upd [OF claim_ops]) (use claimed_row [OF won] in \<open>auto simp: pending_op_def has_op_def\<close>)
  show "op_spent i (snd (claim_op j now d))" if "op_spent i d"
    by (rule op_spent_stays [OF claim_ops _ that]) (simp add: pending_op_def)
  show "op_spent i (table_step env y d)" if sp: "op_spent i d"
  proof (cases y)
    case (Write_status j st who err t)
    then show ?thesis
      using sp op_spent_stays [OF _ _ sp, of "update_operation_status j st who err t d" "has_op j" "set_status st who err t"]
      by (simp add: update_operation_status_def)
  next
    case (Write_expired j clk)
    show ?thesis unfolding Write_expired table_step.simps
      by (rule op_spent_stays [OF expire_one_ops _ sp]) (simp add: pending_op_def)
  next
    case (Write_staged j t rq)
    then show ?thesis
      using sp by (auto simp: insert_staged_def op_spent_def list_ex_iff pending_op_def has_op_def staged_row_def)
  qed
  show "distinct (op_keys (snd (claim_op i now d)))"
    using tracks_claim [of d i now] dist by (simp add: tracks_def)
  show "distinct (op_keys (table_step env y d))"
    using dist ops_update_ids tracks_expire [of d env]
    by (cases y) (auto simp: tracks_def insert_staged_def staged_row_def list_ex_iff has_op_def)
qed

section \<open>Expiry\<close>

definition overdue :: "int \<Rightarrow> db \<Rightarrow> op_row list" where
  "overdue now d = filter (\<lambda>r. op_status r = Pending \<and> op_expires_at r \<le> now) (db_ops d)"

fun expiry_passes :: "env \<Rightarrow> int \<Rightarrow> (nat \<Rightarrow> nat \<Rightarrow> int) list \<Rightarrow> db \<Rightarrow> db" where
  "expiry_passes env now [] d = d"
| "expiry_passes env now (clk # clks) d = expiry_passes env now clks (snd (expire_stale_operations env now clk d))"

lemma overdue_expire_one:
  "overdue now (expire_one env clk i d) = filter (\<lambda>r. op_id r \<noteq> i) (overdue now d)"
proof -
  have "filter (\<lambda>r. op_status r = Pending \<and> op_expires_at r \<le> now) (upd (pending_op i)
     (\<lambda>r. r\<lparr>op_status := Expired, op_decided_at := Some t, op_decided_by := Some ''system''\<rparr>) rs)
    = filter (\<lambda>r. op_id r \<noteq> i) (filter (\<lambda>r. op_status r = Pending \<and> op_expires_at r \<le> now) rs)" for rs t
    by (induction rs) (auto simp: pending_op_def has_op_def)
  then show ?thesis by (simp add: overdue_def expire_one_ops)
qed

lemma overdue_expire_rows:
  "overdue now (expire_rows env clk k rs d) = filter (\<lambda>r. op_id r \<notin> set (map op_id rs)) (overdue now d)"
  by (induction env clk k rs d rule: expire_rows.induct) (auto simp: overdue_expire_one intro!: filter_cong)

lemma expiry_pass:
  assumes "distinct (op_keys d)"
  shows "length (overdue now (snd (expire_stale_operations env now clk d))) = length (overdue now d) - 100"
proof -
  let ?rs = "find_expired_pending now d" and ?o = "overdue now d"
  have rs: "?rs = take 100 (sort_key op_expires_at ?o)" by (simp add: find_expired_pending_def overdue_def BATCH_SIZE_def)
  have dist: "distinct (map op_id ?o)" using assms by (simp add: overdue_def distinct_map_filter)
  have sub: "set ?rs \<subseteq> set ?o" using set_take_subset [of 100 "sort_key op_expires_at ?o"] by (simp add: rs)
  have inj: "inj_on op_id (set ?o)" using dist by (simp add: distinct_map)
  have "filter (\<lambda>r. op_id r \<in> set (map op_id ?rs)) ?o = filter (\<lambda>r. r \<in> set ?rs) ?o"
    using sub inj by (intro filter_cong) (auto dest: inj_onD)
  moreover have "length (filter (\<lambda>r. r \<in> set ?rs) ?o) = length ?rs"
  proof -
    have "distinct ?o" "distinct ?rs" using dist by (auto simp: rs distinct_map intro: distinct_take)
    then have "length (filter (\<lambda>r. r \<in> set ?rs) ?o) = card (set ?rs)"
      using sub by (simp add: distinct_length_filter Int_absorb2)
    then show ?thesis using \<open>distinct ?rs\<close> by (simp add: distinct_card)
  qed
  ultimately have "length (filter (\<lambda>r. op_id r \<notin> set (map op_id ?rs)) ?o) + length ?rs = length ?o"
    using sum_length_filter_compl [of "\<lambda>r. op_id r \<in> set (map op_id ?rs)" ?o] by simp
  then show ?thesis by (simp add: expire_stale_operations_def overdue_expire_rows rs del: set_map)
qed

section \<open>Properties\<close>

text \<open>C7: whatever requests reach the gateway and in whatever order, every staged operation stays in the
  table and moves only along its life: pending, perhaps approved, then executed, failed, rejected or
  expired, and from executed only to reverted; a final decision is never taken back.\<close>

theorem operations_follow_lifecycle:
  assumes "distinct (op_keys (w_db w))" "find_op i (w_db w) = Some r"
  shows "\<exists>r'. find_op i (w_db (serve_all env decide describe rcs w)) = Some r'
    \<and> lifecycle\<^sup>*\<^sup>* (op_status r) (op_status r') \<and> (if final (op_status r) then op_status r' = op_status r else True)"
proof -
  have "follows (w_db w) (w_db (serve_all env decide describe rcs w))"
    "distinct (op_keys (w_db (serve_all env decide describe rcs w)))"
    using tracks_serve_all [of w env decide describe rcs] assms(1) by (simp_all add: tracks_def)
  from follows_find [OF this assms(2)] show ?thesis using final_stays by metis
qed

text \<open>C22: the scheduler claims an operation at most once, however its claims interleave with manual
  decisions, expiries and new proposals, so a deferred send is never executed by two passes.\<close>

theorem scheduled_claim_once:
  assumes "distinct (op_keys d)" shows "due.wins env i es d \<le> 1"
  using assms by (rule due.wins_at_most_once)

text \<open>C23: expiry drains: passes of at most 100 operations leave no overdue operation pending once there
  are enough of them, however many are overdue.\<close>

theorem expiry_drains:
  assumes "distinct (op_keys d)"
  shows "length (overdue now (expiry_passes env now clks d)) = length (overdue now d) - 100 * length clks"
  using assms
proof (induction clks arbitrary: d)
  case (Cons clk clks)
  have "distinct (op_keys (snd (expire_stale_operations env now clk d)))"
    using tracks_expire_rows [of d env clk 0 "find_expired_pending now d"] Cons.prems
    by (simp add: expire_stale_operations_def tracks_def)
  from Cons.IH [OF this] show ?case using expiry_pass [OF Cons.prems, of now env clk] by simp
qed simp

text \<open>C24: a user's requests never touch another tenant's operation: approve, reject and undo of an id the
  user does not own answer \<open>not found\<close>, contact nothing and change nothing.\<close>

theorem foreign_requests_change_nothing:
  assumes "\<forall>r \<in> set (db_ops (w_db w)). op_id r = i \<longrightarrow> \<not> op_owned (w_db w) u r"
  shows "approve_op env clk i u w = (Inl (Not_found i), w) \<and> reject_op env clk i u w = (Inl (Not_found i), w)
    \<and> undo_op env describe clk i u w = (Inl (Not_found i), w)"
proof -
  have "get_operation i (Some u) (w_db w) = None"
    using assms by (auto simp: get_operation_def find_None_all has_op_def op_in_scope_def)
  then show ?thesis by (simp add: approve_op_def reject_op_def undo_op_def decidable_op_def)
qed

text \<open>Approving a batch is approving its operations one by one in the order given: the same effects,
  one answer for every id, done exactly where the single approval succeeds.\<close>

theorem batch_approve_is_sequence:
  "snd (approve_each env clk k u ids w) = fst (fold (\<lambda>i (w, k). (snd (approve_op env (clk k) i u w), Suc k)) ids (w, k))
   \<and> length (fst (approve_each env clk k u ids w)) = length ids"
proof (induction ids arbitrary: w k)
  case (Cons i ids)
  then show ?case
    by (cases "decidable_op i u (w_db w)") (simp_all add: approve_op_def split_beta Let_def split: sum.split)
qed simp

text \<open>A preview shows only messages of the mailboxes of the operation's own user, or what the
  operation recorded itself when it was staged.\<close>

theorem previews_within_tenant:
  assumes "p \<in> set (fetch_message_previews row n d)"
  shows "(\<exists>a u f m. op_agent_id row = Some a \<and> resolve_user_id_for_agent (Some a) d = Some u
      \<and> f \<in> set (db_folders d) \<and> fo_user_id f = Some u \<and> m \<in> set (db_messages d) \<and> me_folder_id m = fo_id f
      \<and> p = preview_of m)
    \<or> (\<exists>e \<in> set (list_or_empty (op_snapshot row)). pv_uid p = se_uid e \<and> pv_sender p = se_sender e
        \<and> pv_subject p = se_subject e)"
proof -
  have snap: "\<exists>e \<in> set (list_or_empty (op_snapshot row)). pv_uid p = se_uid e \<and> pv_sender p = se_sender e
        \<and> pv_subject p = se_subject e" if "p \<in> set (previews_from_snapshot row n)"
    using that by (auto simp: previews_from_snapshot_def dest!: in_set_takeD) blast+
  have rows: "m \<in> set (db_messages d) \<and> me_folder_id m = i" if "preview_rows i s n d = Some ms" "m \<in> set ms" for i s ms m
    using that by (auto simp: preview_rows_def Let_def split: if_splits list.splits option.splits dest!: in_set_takeD)
  have fold: "\<exists>a u. op_agent_id row = Some a \<and> resolve_user_id_for_agent (Some a) d = Some u
      \<and> f \<in> set (db_folders d) \<and> fo_user_id f = Some u" if "preview_folder row d = Some f" for f
    using that by (cases "op_agent_id row")
      (auto simp: preview_folder_def resolve_user_id_for_agent_def split: option.splits dest!: find_Some_in)
  consider "p \<in> set (previews_from_snapshot row n)"
    | f s ms m where "preview_folder row d = Some f" "preview_rows (fo_id f) s n d = Some ms" "m \<in> set ms" "p = preview_of m"
    using assms unfolding fetch_message_previews_def
    by (cases "preview_folder row d") (auto split: if_splits list.splits option.splits)
  then show ?thesis
  proof cases
    case 1
    then show ?thesis using snap by blast
  next
    case 2
    then show ?thesis using rows [OF 2(2,3)] fold [OF 2(1)] by blast
  qed
qed

section \<open>Sample requests\<close>

definition sample_expiring :: op_row where
  "sample_expiring = sample_mail\<lparr>op_status := Pending, op_expires_at := 40\<rparr>"

definition sample_pending_db :: db where
  "sample_pending_db = sample_auth_db\<lparr>db_ops := [sample_expiring]\<rparr>"

definition sample_pending_world :: world where
  "sample_pending_world = sample_world\<lparr>w_db := sample_pending_db\<rparr>"

lemma sample_pending_simps:
  "w_db sample_pending_world = sample_pending_db" "db_ops sample_pending_db = [sample_expiring]"
  "op_id sample_expiring = ''op_1''" "op_status sample_expiring = Pending" "op_expires_at sample_expiring = 40"
  "op_agent_id sample_expiring = Some 1" "db_agents sample_pending_db = [sample_agent]"
  by (simp_all add: sample_pending_world_def sample_pending_db_def sample_expiring_def sample_mail_def sample_op_def
      sample_auth_db_def)

lemma operations_follow_lifecycle_witness:
  "\<exists>r'. find_op ''op_1'' (w_db (serve_all sample_env (\<lambda>row owner d. Inr None) (\<lambda>u. [])
       [(Reject ''op_1'' 1, \<lambda>k n. 20), (Approve ''op_1'' 1, \<lambda>k n. 30), (Expire 60, \<lambda>k n. 60)] sample_pending_world)) = Some r'
     \<and> lifecycle\<^sup>*\<^sup>* (op_status sample_expiring) (op_status r')
     \<and> (if final (op_status sample_expiring) then op_status r' = op_status sample_expiring else True)"
  by (rule operations_follow_lifecycle) (simp_all add: sample_pending_simps find_op_def has_op_def)

lemma scheduled_claim_once_witness:
  "due.wins sample_env ''op_1'' [Inl (''op_1'', 5), Inr (Write_expired ''op_1'' int), Inl (''op_1'', 6)] sample_pending_db \<le> 1"
  by (rule scheduled_claim_once) (simp add: sample_pending_simps)

lemma expiry_drains_witness:
  "length (overdue 50 (expiry_passes sample_env 50 [\<lambda>k n. 50] sample_pending_db)) = 0"
  using expiry_drains [of sample_pending_db 50 sample_env "[\<lambda>k n. 50]"]
  by (simp add: sample_pending_simps overdue_def [of 50 sample_pending_db])

lemma foreign_requests_change_nothing_witness:
  "approve_op sample_env int ''op_1'' 2 sample_pending_world = (Inl (Not_found ''op_1''), sample_pending_world)"
  by (rule conjunct1 [OF foreign_requests_change_nothing [where describe = "\<lambda>u. []"]])
    (simp add: sample_pending_simps op_owned_def sample_agent_def)

lemma previews_within_tenant_witness:
  "\<exists>e \<in> set (list_or_empty (op_snapshot (sample_op\<lparr>op_folder_from := None, op_protocol := ''imap'',
       op_snapshot := Some [\<lparr>se_uid = 7, se_flags = [], se_seq_num = None, se_folder_id = 1, se_sender = Some ''x'', se_subject = None, se_bad_key = None\<rparr>]\<rparr>))).
     pv_uid \<lparr>pv_uid = 7, pv_sender = Some ''x'', pv_subject = None, pv_date_sent = None\<rparr> = se_uid e"
  using previews_within_tenant [of "\<lparr>pv_uid = 7, pv_sender = Some ''x'', pv_subject = None, pv_date_sent = None\<rparr>"
      "sample_op\<lparr>op_folder_from := None, op_protocol := ''imap'',
       op_snapshot := Some [\<lparr>se_uid = 7, se_flags = [], se_seq_num = None, se_folder_id = 1, se_sender = Some ''x'', se_subject = None, se_bad_key = None\<rparr>]\<rparr>" 3 empty_db]
  by (simp add: fetch_message_previews_def previews_from_snapshot_def truthy_def list_or_empty_def empty_db_def)

end
