(* ===== verification/Controls.thy ===== *)
theory Controls
  imports State_Db
begin

text \<open>
  The gates in front of the proxies and the API: login throttling and lockouts, the refusal of
  command lines the two ends could split differently (\<open>gateway/security_controls.py\<close>), the
  sign-up policy (\<open>api/signup.py\<close>) and bearer tokens (\<open>api/auth.py\<close>).  \<open>digest\<close> is SHA-256 in hex.
\<close>

section \<open>Command lines\<close>

definition line_body :: "string \<Rightarrow> string" where
  "line_body line =
     (let body = (if line \<noteq> [] \<and> last line = CHR 0x0A then butlast line else line)
      in if body \<noteq> [] \<and> last body = CHR 0x0D then butlast body else body)"

definition has_bare_cr_or_nul :: "string \<Rightarrow> bool" where
  "has_bare_cr_or_nul line \<longleftrightarrow> CHR 0x0D \<in> set (line_body line) \<or> CHR 0x00 \<in> set (line_body line)"

section \<open>Login throttling\<close>

record abuse_config =
  ac_attempt_window :: int
  ac_max_per_ip :: nat
  ac_max_per_account :: nat
  ac_failure_window :: int
  ac_max_failures :: nat
  ac_base_lockout :: int
  ac_max_lockout :: int

text \<open>The buckets hold times, oldest first; the IP and account keys have different prefixes.\<close>

record abuse_state =
  as_attempts_ip :: "string \<rightharpoonup> int list"
  as_attempts_account :: "string \<rightharpoonup> int list"
  as_failures_ip :: "string \<rightharpoonup> int list"
  as_failures_account :: "string \<rightharpoonup> int list"
  as_lockout_until :: "string \<rightharpoonup> int"
  as_lockout_count :: "string \<rightharpoonup> nat"

definition fresh_abuse_state :: abuse_state where
  "fresh_abuse_state = \<lparr>as_attempts_ip = Map.empty, as_attempts_account = Map.empty, as_failures_ip = Map.empty,
     as_failures_account = Map.empty, as_lockout_until = Map.empty, as_lockout_count = Map.empty\<rparr>"

record auth_decision =
  ad_allowed :: bool
  ad_retry_after :: int
  ad_reason :: string

definition ip_key :: "string \<Rightarrow> string" where
  "ip_key ip = ''ip:'' @ ip"

definition account_key :: "string \<Rightarrow> string" where
  "account_key account = ''acct:'' @ py_lower account"

definition bucket :: "(string \<rightharpoonup> int list) \<Rightarrow> string \<Rightarrow> int list" where
  "bucket m k = (case m k of None \<Rightarrow> [] | Some b \<Rightarrow> b)"

definition prune :: "int \<Rightarrow> int \<Rightarrow> int list \<Rightarrow> int list" where
  "prune now window b = dropWhile (\<lambda>t. t \<le> now - window) b"

definition get_retry_seconds :: "abuse_state \<Rightarrow> string \<Rightarrow> int \<Rightarrow> int" where
  "get_retry_seconds st key now =
     (let until = (case as_lockout_until st key of None \<Rightarrow> 0 | Some u \<Rightarrow> u)
      in if until \<le> now then 0 else max 1 (until - now))"

definition lockout_duration :: "abuse_config \<Rightarrow> nat \<Rightarrow> int" where
  "lockout_duration cfg count = min (ac_base_lockout cfg * 2 ^ (count - 1)) (ac_max_lockout cfg)"

definition activate_lockout :: "abuse_config \<Rightarrow> string \<Rightarrow> int \<Rightarrow> abuse_state \<Rightarrow> int \<times> abuse_state" where
  "activate_lockout cfg key now st =
     (let count = (case as_lockout_count st key of None \<Rightarrow> 0 | Some c \<Rightarrow> c) + 1;
          duration = lockout_duration cfg count
      in (duration, st\<lparr>as_lockout_count := (as_lockout_count st)(key \<mapsto> count),
                       as_lockout_until := (as_lockout_until st)(key \<mapsto> now + duration)\<rparr>))"

definition start_attempt ::
  "abuse_config \<Rightarrow> string \<Rightarrow> string \<Rightarrow> int \<Rightarrow> abuse_state \<Rightarrow> auth_decision \<times> abuse_state" where
  "start_attempt cfg ip account now st =
     (let ik = ip_key ip; ak = account_key account;
          locked = filter (\<lambda>k. get_retry_seconds st k now > 0) [ik, ak]
      in case locked of
           k # _ \<Rightarrow> (\<lparr>ad_allowed = False, ad_retry_after = get_retry_seconds st k now,
                      ad_reason = ''temporary_lockout''\<rparr>, st)
         | [] \<Rightarrow>
             (let ips = prune now (ac_attempt_window cfg) (bucket (as_attempts_ip st) ik);
                  accts = prune now (ac_attempt_window cfg) (bucket (as_attempts_account st) ak);
                  st' = st\<lparr>as_attempts_ip := (as_attempts_ip st)(ik \<mapsto> ips),
                           as_attempts_account := (as_attempts_account st)(ak \<mapsto> accts)\<rparr>
              in if length ips \<ge> ac_max_per_ip cfg \<or> length accts \<ge> ac_max_per_account cfg
                 then (\<lparr>ad_allowed = False, ad_retry_after = ac_attempt_window cfg, ad_reason = ''rate_limited''\<rparr>, st')
                 else (\<lparr>ad_allowed = True, ad_retry_after = 0, ad_reason = ''allowed''\<rparr>,
                       st'\<lparr>as_attempts_ip := (as_attempts_ip st')(ik \<mapsto> ips @ [now]),
                           as_attempts_account := (as_attempts_account st')(ak \<mapsto> accts @ [now])\<rparr>)))"

definition record_success :: "string \<Rightarrow> string \<Rightarrow> abuse_state \<Rightarrow> abuse_state" where
  "record_success ip account st =
     (let ik = ip_key ip; ak = account_key account
      in st\<lparr>as_failures_ip := (as_failures_ip st)(ik := None),
            as_failures_account := (as_failures_account st)(ak := None),
            as_lockout_until := (as_lockout_until st)(ik := None, ak := None)\<rparr>)"

text \<open>Whether a lockout was applied, and for how long.\<close>

definition record_failure ::
  "abuse_config \<Rightarrow> string \<Rightarrow> string \<Rightarrow> int \<Rightarrow> abuse_state \<Rightarrow> (bool \<times> int) \<times> abuse_state" where
  "record_failure cfg ip account now st =
     (let ik = ip_key ip; ak = account_key account;
          ips = prune now (ac_failure_window cfg) (bucket (as_failures_ip st) ik) @ [now];
          accts = prune now (ac_failure_window cfg) (bucket (as_failures_account st) ak) @ [now];
          st1 = st\<lparr>as_failures_ip := (as_failures_ip st)(ik \<mapsto> ips),
                   as_failures_account := (as_failures_account st)(ak \<mapsto> accts)\<rparr>;
          (d1, st2) = (if length ips \<ge> ac_max_failures cfg then activate_lockout cfg ik now st1 else (0, st1));
          (d2, st3) = (if length accts \<ge> ac_max_failures cfg then activate_lockout cfg ak now st2 else (0, st2))
      in ((length ips \<ge> ac_max_failures cfg \<or> length accts \<ge> ac_max_failures cfg,
           max (max 0 d1) d2), st3))"

section \<open>Sign-up policy\<close>

definition VALID_SIGNUP_MODES :: "string list" where
  "VALID_SIGNUP_MODES = [''closed'', ''invite'', ''open'']"

definition ACK_TRUTHY :: "string list" where
  "ACK_TRUTHY = [''1'', ''true'', ''yes'', ''on'']"

text \<open>\<open>None\<close>: the process refuses to start.\<close>

definition resolve_signup_mode :: "string \<Rightarrow> string \<Rightarrow> string option" where
  "resolve_signup_mode mode_raw ack_raw =
     (let mode = py_lower (py_strip mode_raw)
      in if mode \<notin> set VALID_SIGNUP_MODES then Some ''closed''
         else if mode = ''open'' \<and> py_lower (py_strip ack_raw) \<notin> set ACK_TRUTHY then None
         else Some mode)"

definition current_signup_mode :: "(string \<rightharpoonup> string) \<Rightarrow> string option" where
  "current_signup_mode vars =
     resolve_signup_mode (case vars ''NUVRAIL_SIGNUP_MODE'' of Some v \<Rightarrow> v | None \<Rightarrow> [])
       (case vars ''NUVRAIL_ALLOW_OPEN_SIGNUP'' of Some v \<Rightarrow> v | None \<Rightarrow> [])"

section \<open>Bearer tokens\<close>

definition BASE58_ALPHABET :: string where
  "BASE58_ALPHABET = ''123456789ABCDEFGHJKLMNPQRSTUVWXYZabcdefghijkmnopqrstuvwxyz''"

text \<open>The base-58 digits of a number, least significant first, and the padded token.\<close>

fun base58_digits :: "nat \<Rightarrow> string" where
  "base58_digits n = (if n = 0 then [] else BASE58_ALPHABET ! (n mod 58) # base58_digits (n div 58))"

declare base58_digits.simps [simp del]

definition generate_token :: "nat list \<Rightarrow> string" where
  "generate_token raw =
     (let s = rev (base58_digits (foldl (\<lambda>n b. 256 * n + b) 0 raw))
      in replicate (44 - length s) (CHR ''0'') @ s)"

definition get_user_by_token :: "(string \<Rightarrow> string) \<Rightarrow> string \<Rightarrow> db \<Rightarrow> user_row option" where
  "get_user_by_token digest token d = List.find (\<lambda>u. us_api_token u = Some (digest token)) (db_users d)"

definition LAST_USED_UPDATE_INTERVAL :: int where
  "LAST_USED_UPDATE_INTERVAL = 3600"

text \<open>\<open>seen\<close> is the in-memory throttle: at most one write per user and hour.\<close>

definition touch_last_used_at ::
  "nat \<Rightarrow> int \<Rightarrow> (nat \<rightharpoonup> int) \<Rightarrow> db \<Rightarrow> (nat \<rightharpoonup> int) \<times> db" where
  "touch_last_used_at i now seen d =
     (if now - (case seen i of None \<Rightarrow> 0 | Some t \<Rightarrow> t) < LAST_USED_UPDATE_INTERVAL then (seen, d)
      else (seen(i \<mapsto> now),
            d\<lparr>db_users := upd (\<lambda>u. us_id u = i) (\<lambda>u. u\<lparr>us_api_token_last_used_at := Some now\<rparr>) (db_users d)\<rparr>))"

datatype auth_refusal = Missing_header | Invalid_token | Account_deleted | Account_suspended

text \<open>The scheme and the token of the Authorization header.\<close>

definition get_current_user ::
  "(string \<Rightarrow> string) \<Rightarrow> (string \<times> string) option \<Rightarrow> int \<Rightarrow> (nat \<rightharpoonup> int) \<Rightarrow> db
     \<Rightarrow> (auth_refusal + user_row) \<times> (nat \<rightharpoonup> int) \<times> db" where
  "get_current_user digest header now seen d =
     (case header of
        None \<Rightarrow> (Inl Missing_header, seen, d)
      | Some (scheme, token) \<Rightarrow>
          if py_lower scheme \<noteq> ''bearer'' then (Inl Missing_header, seen, d)
          else (case get_user_by_token digest token d of
            None \<Rightarrow> (Inl Invalid_token, seen, d)
          | Some u \<Rightarrow>
              if us_deleted_at u \<noteq> None then (Inl Account_deleted, seen, d)
              else if us_suspended_at u \<noteq> None then (Inl Account_suspended, seen, d)
              else (Inr u, touch_last_used_at (us_id u) now seen d)))"

section \<open>Laws\<close>

text \<open>A sequence of logins and their outcomes, with the attempts that were admitted.\<close>

datatype auth_event =
    Attempt string string int
  | Succeeded string string
  | Failed_login string string int

fun event_time :: "auth_event \<Rightarrow> int option" where
  "event_time (Attempt ip acct t) = Some t"
| "event_time (Succeeded ip acct) = None"
| "event_time (Failed_login ip acct t) = Some t"

fun auth_step :: "abuse_config \<Rightarrow> auth_event \<Rightarrow> abuse_state \<Rightarrow> abuse_state" where
  "auth_step cfg (Attempt ip acct t) st = snd (start_attempt cfg ip acct t st)"
| "auth_step cfg (Succeeded ip acct) st = record_success ip acct st"
| "auth_step cfg (Failed_login ip acct t) st = snd (record_failure cfg ip acct t st)"

fun admitted :: "abuse_config \<Rightarrow> auth_event list \<Rightarrow> abuse_state \<Rightarrow> (string \<times> string \<times> int) list" where
  "admitted cfg [] st = []"
| "admitted cfg (e # es) st =
     (case e of
        Attempt ip acct t \<Rightarrow> if ad_allowed (fst (start_attempt cfg ip acct t st)) then [(ip, acct, t)] else []
      | _ \<Rightarrow> []) @ admitted cfg es (auth_step cfg e st)"

fun timed :: "auth_event list \<Rightarrow> int list" where
  "timed [] = []"
| "timed (e # es) = (case event_time e of None \<Rightarrow> timed es | Some t \<Rightarrow> t # timed es)"

lemma record_failure_attempts [simp]:
  "as_attempts_ip (snd (record_failure cfg ip acct t st)) = as_attempts_ip st"
  "as_attempts_account (snd (record_failure cfg ip acct t st)) = as_attempts_account st"
  by (simp_all add: record_failure_def activate_lockout_def Let_def)

lemma record_success_attempts [simp]:
  "as_attempts_ip (record_success ip acct st) = as_attempts_ip st"
  "as_attempts_account (record_success ip acct st) = as_attempts_account st"
  by (simp_all add: record_success_def Let_def)

text \<open>Entries of a bucket later than \<open>s\<close>: pruning never removes one inside the window.\<close>

definition later :: "int \<Rightarrow> int list \<Rightarrow> nat" where
  "later s b = length (filter (\<lambda>t. t > s) b)"

lemma later_prune: "now - window \<le> s \<Longrightarrow> later s (prune now window b) = later s b"
  by (induction b) (auto simp: later_def prune_def)

lemma later_prune_le: "later s (prune now window b) \<le> length (prune now window b)"
  by (simp add: later_def)

lemma bucket_upd: "bucket (m(k \<mapsto> b)) j = (if j = k then b else bucket m j)"
  by (simp add: bucket_def)

lemma later_append: "later s (b @ [t]) = later s b + (if t > s then 1 else 0)"
  by (simp add: later_def)

lemma start_attempt_later:
  assumes "now - ac_attempt_window cfg \<le> s"
  shows "later s (bucket (as_attempts_ip (snd (start_attempt cfg ip acct now st))) k)
      = later s (bucket (as_attempts_ip st) k)
        + (if ad_allowed (fst (start_attempt cfg ip acct now st)) \<and> ip_key ip = k \<and> s < now then 1 else 0)"
    and "later s (bucket (as_attempts_account (snd (start_attempt cfg ip acct now st))) k)
      = later s (bucket (as_attempts_account st) k)
        + (if ad_allowed (fst (start_attempt cfg ip acct now st)) \<and> account_key acct = k \<and> s < now then 1 else 0)"
  using later_prune [OF assms]
  by (auto simp: start_attempt_def Let_def bucket_upd later_append simp del: filter.simps split: list.split)

lemma start_attempt_room:
  assumes "ad_allowed (fst (start_attempt cfg ip acct now st))"
  shows "later (now - ac_attempt_window cfg) (bucket (as_attempts_ip st) (ip_key ip)) < ac_max_per_ip cfg"
    and "later (now - ac_attempt_window cfg) (bucket (as_attempts_account st) (account_key acct)) < ac_max_per_account cfg"
  using assms later_prune [of now "ac_attempt_window cfg" "now - ac_attempt_window cfg"]
    later_prune_le [of "now - ac_attempt_window cfg" now "ac_attempt_window cfg"]
  by (auto simp: start_attempt_def Let_def simp del: filter.simps split: list.splits if_splits)
    (metis le_less_trans linorder_not_le order_refl)+

lemma later_antimono: "s \<le> s' \<Longrightarrow> later s' b \<le> later s b"
  unfolding later_def by (induction b) auto

lemma bucket_kept [simp]:
  "bucket (as_attempts_ip (record_success ip acct st)) = bucket (as_attempts_ip st)"
  "bucket (as_attempts_ip (snd (record_failure cfg ip acct t st))) = bucket (as_attempts_ip st)"
  "bucket (as_attempts_account (record_success ip acct st)) = bucket (as_attempts_account st)"
  "bucket (as_attempts_account (snd (record_failure cfg ip acct t st))) = bucket (as_attempts_account st)"
  by simp_all

definition within_window :: "int \<Rightarrow> int \<Rightarrow> (string \<times> string \<times> int) list \<Rightarrow> (string \<times> string \<times> int) list" where
  "within_window s window xs = filter (\<lambda>(ip, acct, t). s < t \<and> t \<le> s + window) xs"

lemma admitted_late:
  "\<forall>t \<in> set (timed es). t > u \<Longrightarrow> (ip, acct, t') \<in> set (admitted cfg es st) \<Longrightarrow> t' > u"
  by (induction es arbitrary: st) (auto split: auth_event.splits option.splits if_splits)

lemma capped:
  assumes attempt: "\<And>now ip acct st. now - ac_attempt_window cfg \<le> s \<Longrightarrow>
      later s (b (snd (start_attempt cfg ip acct now st)))
        = later s (b st) + (if ad_allowed (fst (start_attempt cfg ip acct now st)) \<and> hit ip acct \<and> s < now then 1 else 0)"
    and room: "\<And>now ip acct st. ad_allowed (fst (start_attempt cfg ip acct now st)) \<Longrightarrow> hit ip acct \<Longrightarrow>
      later (now - ac_attempt_window cfg) (b st) < cap"
    and kept: "\<And>ip acct st. b (record_success ip acct st) = b st"
      "\<And>ip acct t st. b (snd (record_failure cfg ip acct t st)) = b st"
  shows "sorted (timed es) \<Longrightarrow>
     length (filter (\<lambda>(ip, acct, t). hit ip acct) (within_window s (ac_attempt_window cfg) (admitted cfg es st)))
       + later s (b st) \<le> max cap (later s (b st))"
proof (induction es arbitrary: st)
  case (Cons e es)
  have IH: "length (filter (\<lambda>(ip, acct, t). hit ip acct) (within_window s (ac_attempt_window cfg) (admitted cfg es st')))
       + later s (b st') \<le> max cap (later s (b st'))" for st'
    using Cons by (auto split: option.splits)
  show ?case
  proof (cases e)
    case (Attempt ip acct t)
    show ?thesis
    proof (cases "t - ac_attempt_window cfg \<le> s")
      case True
      have "later s (b st) < cap"
        if "ad_allowed (fst (start_attempt cfg ip acct t st))" "hit ip acct"
        using room [OF that] later_antimono [OF True, of "b st"] by simp
      then show ?thesis
        using IH [of "snd (start_attempt cfg ip acct t st)"] attempt [OF True, of ip acct st] Attempt True
        by (auto simp: within_window_def split: if_splits)
    next
      case False
      then have "\<forall>u \<in> set (timed (e # es)). u > s + ac_attempt_window cfg"
        using Cons.prems Attempt by auto
      then have "within_window s (ac_attempt_window cfg) (admitted cfg (e # es) st) = []"
        using admitted_late [of "e # es" "s + ac_attempt_window cfg"] by (fastforce simp: within_window_def filter_empty_conv)
      then show ?thesis by simp
    qed
  qed (use IH [of "auth_step cfg e st"] kept in \<open>simp_all\<close>)
qed (simp add: within_window_def)

text \<open>A command line that is let through is one line to every receiver, wherever it breaks lines.\<close>

lemma clean_line:
  assumes "\<not> has_bare_cr_or_nul line" "CHR 0x0A \<notin> set (butlast line)"
  shows "CHR 0x0D \<notin> set (line_body line)" "CHR 0x00 \<notin> set (line_body line)" "CHR 0x0A \<notin> set (line_body line)"
    "\<exists>e \<in> {[], [CHR 0x0A], [CHR 0x0D], [CHR 0x0D, CHR 0x0A]}. line = line_body line @ e"
proof -
  show "CHR 0x0D \<notin> set (line_body line)" "CHR 0x00 \<notin> set (line_body line)"
    using assms(1) by (auto simp: has_bare_cr_or_nul_def)
  show "CHR 0x0A \<notin> set (line_body line)"
    using assms(2) by (cases line rule: rev_cases) (auto simp: line_body_def Let_def dest!: in_set_butlastD)
  show "\<exists>e \<in> {[], [CHR 0x0A], [CHR 0x0D], [CHR 0x0D, CHR 0x0A]}. line = line_body line @ e"
  proof (cases line rule: rev_cases)
    case (snoc l c)
    then show ?thesis by (cases l rule: rev_cases) (auto simp: line_body_def Let_def butlast_append)
  qed (simp add: line_body_def)
qed

section \<open>Properties\<close>

text \<open>C27: password guessing is throttled: over any sequence of logins and outcomes, no window of the
  configured length holds more admitted attempts from one address, or on one account, than allowed.\<close>

theorem login_attempts_capped:
  assumes "sorted (timed es)"
  shows "length (filter (\<lambda>(ip', acct, t). ip' = ip) (within_window s (ac_attempt_window cfg) (admitted cfg es fresh_abuse_state)))
      \<le> ac_max_per_ip cfg
    \<and> length (filter (\<lambda>(ip, acct', t). py_lower acct' = py_lower acct)
          (within_window s (ac_attempt_window cfg) (admitted cfg es fresh_abuse_state))) \<le> ac_max_per_account cfg"
proof
  have fresh: "bucket (as_attempts_ip fresh_abuse_state) k = []" "bucket (as_attempts_account fresh_abuse_state) k = []" for k
    by (simp_all add: bucket_def fresh_abuse_state_def)
  have "length (filter (\<lambda>(ip', acct, t). ip_key ip' = ip_key ip)
      (within_window s (ac_attempt_window cfg) (admitted cfg es fresh_abuse_state)))
      + later s (bucket (as_attempts_ip fresh_abuse_state) (ip_key ip))
      \<le> max (ac_max_per_ip cfg) (later s (bucket (as_attempts_ip fresh_abuse_state) (ip_key ip)))"
    by (rule capped [OF start_attempt_later(1) _ _ _ assms])
      (auto dest!: start_attempt_room(1))
  then show "length (filter (\<lambda>(ip', acct, t). ip' = ip)
      (within_window s (ac_attempt_window cfg) (admitted cfg es fresh_abuse_state))) \<le> ac_max_per_ip cfg"
    by (simp add: fresh later_def ip_key_def)
  have "length (filter (\<lambda>(ip, acct', t). account_key acct' = account_key acct)
      (within_window s (ac_attempt_window cfg) (admitted cfg es fresh_abuse_state)))
      + later s (bucket (as_attempts_account fresh_abuse_state) (account_key acct))
      \<le> max (ac_max_per_account cfg) (later s (bucket (as_attempts_account fresh_abuse_state) (account_key acct)))"
    by (rule capped [OF start_attempt_later(2) _ _ _ assms])
      (auto dest!: start_attempt_room(2))
  then show "length (filter (\<lambda>(ip, acct', t). py_lower acct' = py_lower acct)
      (within_window s (ac_attempt_window cfg) (admitted cfg es fresh_abuse_state))) \<le> ac_max_per_account cfg"
    by (simp add: fresh later_def account_key_def)
qed

text \<open>A lockout is enforced: once a failed login reports one, every further attempt by that address
  on that account is refused until it has run out.\<close>

theorem lockout_enforced:
  assumes "record_failure cfg ip acct t st = ((True, retry), st')" "0 \<le> t" "t \<le> now" "now < t + retry"
  shows "\<not> ad_allowed (fst (start_attempt cfg ip acct now st'))
    \<and> 0 < ad_retry_after (fst (start_attempt cfg ip acct now st'))"
proof -
  have key: "ip_key ip \<noteq> account_key acct" by (simp add: ip_key_def account_key_def)
  have "0 < get_retry_seconds st' (ip_key ip) now \<or> 0 < get_retry_seconds st' (account_key acct) now"
    using assms key
    by (auto simp: record_failure_def activate_lockout_def get_retry_seconds_def Let_def max_def split: if_splits)
  then show ?thesis by (auto simp: start_attempt_def Let_def)
qed

text \<open>Sign-up fails closed: registration is open only when the operator asked for exactly that and
  acknowledged it; an unknown or empty setting closes it.\<close>

theorem signup_fails_closed:
  "(resolve_signup_mode mode ack = Some ''open'')
     = (py_lower (py_strip mode) = ''open'' \<and> py_lower (py_strip ack) \<in> set ACK_TRUTHY)
   \<and> (resolve_signup_mode mode ack = Some ''invite'') = (py_lower (py_strip mode) = ''invite'')
   \<and> resolve_signup_mode mode ack \<in> {None, Some ''closed'', Some ''invite'', Some ''open''}
   \<and> current_signup_mode Map.empty = Some ''closed''"
proof -
  have "current_signup_mode Map.empty = Some ''closed''" by code_simp
  then show ?thesis by (auto simp: resolve_signup_mode_def VALID_SIGNUP_MODES_def Let_def)
qed

text \<open>The API acts for a user only on a bearer token whose digest is stored with a live account, and
  the check changes nothing but the time of last use, at most once an hour.\<close>

theorem bearer_identifies_live_user:
  "case get_current_user digest header now seen d of (r, seen', d') \<Rightarrow>
     (case r of
        Inl e \<Rightarrow> seen' = seen \<and> d' = d
      | Inr u \<Rightarrow> (\<exists>scheme token. header = Some (scheme, token) \<and> py_lower scheme = ''bearer''
                   \<and> us_api_token u = Some (digest token))
               \<and> u \<in> set (db_users d) \<and> us_deleted_at u = None \<and> us_suspended_at u = None
               \<and> map (\<lambda>v. v\<lparr>us_api_token_last_used_at := None\<rparr>) (db_users d')
                   = map (\<lambda>v. v\<lparr>us_api_token_last_used_at := None\<rparr>) (db_users d)
               \<and> db_ops d' = db_ops d \<and> db_agents d' = db_agents d
               \<and> (case seen (us_id u) of None \<Rightarrow> True | Some t \<Rightarrow> d' = d \<or> now - t \<ge> 3600))"
  by (cases header)
    (auto simp: get_current_user_def get_user_by_token_def touch_last_used_at_def LAST_USED_UPDATE_INTERVAL_def
      upd_def dest!: find_Some_in split: option.splits prod.splits)

section \<open>Samples\<close>

definition sample_abuse_config :: abuse_config where
  "sample_abuse_config = \<lparr>ac_attempt_window = 60, ac_max_per_ip = 2, ac_max_per_account = 1, ac_failure_window = 300,
     ac_max_failures = 1, ac_base_lockout = 120, ac_max_lockout = 3600\<rparr>"

lemma login_attempts_capped_witness:
  "length (filter (\<lambda>(ip', acct, t). ip' = ''10.0.0.1'') (within_window 0 (ac_attempt_window sample_abuse_config)
      (admitted sample_abuse_config [Attempt ''10.0.0.1'' ''a'' 5, Attempt ''10.0.0.1'' ''b'' 6, Attempt ''10.0.0.1'' ''c'' 7]
        fresh_abuse_state))) \<le> ac_max_per_ip sample_abuse_config"
  by (rule conjunct1 [OF login_attempts_capped]) simp

lemma lockout_enforced_witness:
  "\<not> ad_allowed (fst (start_attempt sample_abuse_config ''10.0.0.1'' ''a'' 50
      (snd (record_failure sample_abuse_config ''10.0.0.1'' ''a'' 5 fresh_abuse_state))))"
proof -
  have "record_failure sample_abuse_config ''10.0.0.1'' ''a'' 5 fresh_abuse_state
      = ((True, 120), snd (record_failure sample_abuse_config ''10.0.0.1'' ''a'' 5 fresh_abuse_state))"
    by (simp add: record_failure_def sample_abuse_config_def fresh_abuse_state_def bucket_def prune_def Let_def
        activate_lockout_def lockout_duration_def ip_key_def account_key_def)
  from lockout_enforced [OF this, of 50] show ?thesis by simp
qed

end
