(* ===== verification/Proxy_Wire.thy ===== *)
theory Proxy_Wire
  imports Utf8 Command_Router Controls Staging Batching
begin

text \<open>
  What the IMAP proxy reads off the wire (\<open>gateway/proxy.py\<close>): command lines and literals of a byte
  stream, their decoding, and the operation a write command stands for.  A stream is the string of
  the bytes that are still to come; text is kept as its UTF-8 bytes.
\<close>

section \<open>Streams\<close>

definition rstrip_crlf :: "string \<Rightarrow> string" where
  "rstrip_crlf s = rstrip_if (\<lambda>c. c = CHR 0x0D \<or> c = CHR 0x0A) s"

text \<open>
  \<open>StreamReader.readline\<close>: a line with its newline, or what is left at the end of the stream (nothing,
  when it has ended).  A line longer than the buffer limit raises \<open>ValueError\<close>: \<open>None\<close>.
\<close>

definition STREAM_LIMIT :: nat where
  "STREAM_LIMIT = 65536"

definition read_line :: "string \<Rightarrow> (string \<times> string) option" where
  "read_line inp =
     (let n = length (takeWhile (\<lambda>c. c \<noteq> CHR 0x0A) inp)
      in if n > STREAM_LIMIT then None else Some (take (Suc n) inp, drop (Suc n) inp))"

text \<open>\<open>readexactly\<close>, in one call or in chunks: \<open>None\<close> when the stream ends too early.\<close>

definition read_exactly :: "nat \<Rightarrow> string \<Rightarrow> (string \<times> string) option" where
  "read_exactly n inp = (if length inp < n then None else Some (take n inp, drop n inp))"

section \<open>Literals\<close>

text \<open>The size of a literal marker at the end of a line; \<open>signs\<close> are the sign characters it may have.\<close>

definition tail_marker :: "char list \<Rightarrow> string \<Rightarrow> nat option" where
  "tail_marker signs line =
     (case rev line of
        [] \<Rightarrow> None
      | b # r \<Rightarrow>
          (let r' = (case r of c # q \<Rightarrow> if c \<in> set signs then q else r | [] \<Rightarrow> []);
               digits = takeWhile is_digit r'; rest = dropWhile is_digit r'
           in if b = CHR ''}'' \<and> digits \<noteq> [] \<and> rest \<noteq> [] \<and> hd rest = CHR ''{''
              then Some (nat_of_str (rev digits)) else None))"

definition LITERAL_RE :: "string \<Rightarrow> nat option" where
  "LITERAL_RE = tail_marker ''+''"

definition LITERAL_TAIL_RE :: "string \<Rightarrow> bool" where
  "LITERAL_TAIL_RE line = (tail_marker ''+-'' line \<noteq> None)"

definition sync_literal_verb :: "string \<Rightarrow> string" where
  "sync_literal_verb raw =
     (case py_split raw of
        _ # v # ws \<Rightarrow>
          (case ws of w # _ \<Rightarrow> if py_upper v = ''UID'' then ''UID '' @ py_upper w else py_upper v
           | [] \<Rightarrow> py_upper v)
      | _ \<Rightarrow> [])"

text \<open>The cap on literals that are read for their content (\<open>NUVRAIL_MAX_APPEND_BYTES\<close> by default).\<close>

definition MAX_APPEND_BYTES :: nat where
  "MAX_APPEND_BYTES = 10 * 1024 * 1024"

text \<open>
  Consuming the literals of a refused command: the stream after them, or that the connection is to
  end, with a parting \<open>BYE\<close> when a literal was too large.
\<close>

datatype discarded = Discarded string | Ended | Too_large

function discard_nonsync_literals :: "string \<Rightarrow> string \<Rightarrow> discarded" where
  "discard_nonsync_literals line inp =
     (case nonsync_literal_size line of
        None \<Rightarrow> Discarded inp
      | Some n \<Rightarrow>
          if n > MAX_APPEND_BYTES then Too_large
          else case read_exactly n inp of
            None \<Rightarrow> Ended
          | Some (_, inp1) \<Rightarrow>
              (case read_line inp1 of
                 None \<Rightarrow> Ended
               | Some (nxt, inp2) \<Rightarrow>
                   if nxt = [] then Ended
                   else discard_nonsync_literals (rstrip_crlf (py_decode nxt)) inp2))"
  by pat_completeness auto
termination
  by (relation "measure (\<lambda>(line, inp). length inp)")
    (auto simp: read_exactly_def read_line_def Let_def split: if_splits)

declare discard_nonsync_literals.simps [simp del]

section \<open>APPEND parameters\<close>

definition append_literal_size :: "string \<Rightarrow> nat" where
  "append_literal_size raw = (case LITERAL_RE raw of Some n \<Rightarrow> n | None \<Rightarrow> 0)"

definition append_folder_of :: "string \<Rightarrow> string" where
  "append_folder_of raw = (case py_split raw of _ # _ # f # _ \<Rightarrow> f | _ \<Rightarrow> ''INBOX'')"

definition append_flags_of :: "string \<Rightarrow> string list" where
  "append_flags_of raw =
     (case dropWhile (\<lambda>c. c \<noteq> CHR ''('') raw of
        [] \<Rightarrow> []
      | _ # r \<Rightarrow> if CHR '')'' \<in> set r then py_split (takeWhile (\<lambda>c. c \<noteq> CHR '')'') r) else [])"

section \<open>Write commands\<close>

definition arg_or :: "nat \<Rightarrow> string \<Rightarrow> string list \<Rightarrow> string" where
  "arg_or i d args = (if i < length args then args ! i else d)"

definition store_flags :: "string list \<Rightarrow> string list" where
  "store_flags args =
     (let raw = arg_or 2 ''()'' args
      in if raw \<noteq> [] \<and> hd raw = CHR ''('' \<and> last raw = CHR '')'' then py_split (butlast (tl raw)) else [raw])"

definition destination_of :: "string \<Rightarrow> string list \<Rightarrow> string" where
  "destination_of d args = (if length args > 1 then py_join '' '' (tl args) else d)"

definition build_parsed_op :: "parsed_command \<Rightarrow> parsed_operation option" where
  "build_parsed_op p =
     (let args = pc_args p; uid_set = arg_or 0 ''?'' args
      in if pc_command p = ''STORE'' then
           Some (parse_store (pc_tag p) (pc_uid p) uid_set (arg_or 1 ''+FLAGS'' args) (store_flags args))
         else if pc_command p = ''MOVE'' then Some (parse_move (pc_tag p) uid_set (destination_of ''?'' args))
         else if pc_command p = ''COPY'' then Some (parse_copy (pc_tag p) uid_set (destination_of ''?'' args))
         else None)"

definition is_store_deleted :: "parsed_command \<Rightarrow> bool" where
  "is_store_deleted p \<longleftrightarrow>
     py_upper (pc_command p) = ''STORE'' \<and> length (pc_args p) \<ge> 3
     \<and> py_contains (py_lower (pc_args p ! 2)) ''deleted''
     \<and> py_replace ''.SILENT'' [] (py_upper (pc_args p ! 1)) \<in> {''+FLAGS'', ''+FLAGS.SILENT''}"

definition copy_folder :: "parsed_command \<Rightarrow> string" where
  "copy_folder p = destination_of [] (pc_args p)"

definition is_archive_copy :: "provider_profile option \<Rightarrow> parsed_command \<Rightarrow> bool" where
  "is_archive_copy profile p \<longleftrightarrow>
     py_upper (pc_command p) = ''COPY'' \<and> pc_uid p \<and> copy_folder p \<noteq> []
     \<and> (case profile of None \<Rightarrow> True | Some pr \<Rightarrow> copy_archive_intent (copy_folder p) pr \<noteq> None)"

section \<open>Lemmas\<close>

lemma read_line_split:
  assumes "read_line inp = Some (l, r)" shows "inp = l @ r"
  using assms by (auto simp: read_line_def Let_def split: if_splits)

lemma read_exactly_split:
  assumes "read_exactly n inp = Some (x, r)" shows "inp = x @ r" "length x = n"
  using assms by (auto simp: read_exactly_def split: if_splits)

text \<open>What is left after discarding is a tail of the stream.\<close>

lemma discard_suffix: "discard_nonsync_literals line inp = Discarded r \<Longrightarrow> \<exists>x. inp = x @ r"
proof (induction line inp rule: discard_nonsync_literals.induct)
  case (1 line inp)
  show ?case
  proof (cases "nonsync_literal_size line")
    case None
    then show ?thesis using "1.prems" by (simp add: discard_nonsync_literals.simps [of line])
  next
    case (Some n)
    then obtain x inp1 nxt inp2 where *: "\<not> n > MAX_APPEND_BYTES" "read_exactly n inp = Some (x, inp1)"
        "read_line inp1 = Some (nxt, inp2)" "nxt \<noteq> []"
        "discard_nonsync_literals (rstrip_crlf (py_decode nxt)) inp2 = Discarded r"
      using "1.prems" by (subst (asm) discard_nonsync_literals.simps) (auto split: option.splits if_splits)
    have "\<exists>y. inp2 = y @ r"
      using "1.IH" [OF Some *(1) *(2) refl *(3) refl *(4) *(5)] .
    then show ?thesis using read_exactly_split(1) [OF *(2)] read_line_split [OF *(3)] by auto
  qed
qed

lemma sp_words_sep: "sp \<notin> set a \<Longrightarrow> sp_words (a @ sp # b) = (if a = [] then [] else [a]) @ sp_words b"
  by (simp add: sp_words_def py_split_on_def split_char_sep)

lemma sp_words_one: "sp \<notin> set a \<Longrightarrow> sp_words a = (if a = [] then [] else [a])"
  by (simp add: sp_words_def py_split_on_def split_char_sep)

lemma py_decode_words: "sp_words (py_decode s) = map py_decode (sp_words s)"
proof (induction "length s" arbitrary: s rule: less_induct)
  case less
  have sp: "code_pt sp < 128" by (simp add: sp_def code_pt_def)
  show ?case
  proof (cases "sp \<in> set s")
    case False
    then show ?thesis using ascii_in_decode [OF sp, of s] by (simp add: sp_words_one)
  next
    case True
    then obtain a b where s: "s = a @ sp # b" "sp \<notin> set a" by (meson split_list_first)
    then show ?thesis
      using less [of b] ascii_in_decode [OF sp, of a] by (simp add: py_decode_append [OF sp] sp_words_sep)
  qed
qed

text \<open>A non-synchronizing literal that the bytes announce is announced by the decoded line.\<close>

lemma rstrip_split: "\<exists>t. s = rstrip_if P s @ t \<and> list_all P t"
proof (intro exI conjI)
  have "rev s = takeWhile P (rev s) @ dropWhile P (rev s)" by simp
  then show "s = rstrip_if P s @ rev (takeWhile P (rev s))" unfolding rstrip_if_def by (metis rev_append rev_rev_ident)
  show "list_all P (rev (takeWhile P (rev s)))" by (auto simp: list_all_iff dest: set_takeWhileD)
qed

lemma rstrip_drop: "list_all P t \<Longrightarrow> s = [] \<or> \<not> P (last s) \<Longrightarrow> rstrip_if P (s @ t) = s"
  by (cases s rule: rev_cases) (auto simp: rstrip_if_def dropWhile_append list_all_iff)

lemma nonsync_iff:
  "nonsync_literal_size line \<noteq> None \<longleftrightarrow>
     (\<exists>x ds sign t. line = x @ CHR ''{'' # ds @ [sign, CHR ''}''] @ t \<and> (sign = CHR ''+'' \<or> sign = CHR ''-'')
        \<and> ds \<noteq> [] \<and> list_all is_digit ds \<and> list_all is_space t)" (is "?l \<longleftrightarrow> ?r")
proof
  assume ?l
  then obtain sign r where r: "rev (rstrip_if is_space line) = CHR ''}'' # sign # r"
      "sign = CHR ''+'' \<or> sign = CHR ''-''" "takeWhile is_digit r \<noteq> []" "dropWhile is_digit r \<noteq> []"
      "hd (dropWhile is_digit r) = CHR ''{''"
    by (auto simp: nonsync_literal_size_def Let_def split: list.splits if_splits)
  define ds where "ds = rev (takeWhile is_digit r)"
  obtain y where y: "dropWhile is_digit r = CHR ''{'' # y" using r(4,5) by (cases "dropWhile is_digit r") auto
  have "r = rev ds @ CHR ''{'' # y" using y unfolding ds_def by (metis rev_rev_ident takeWhile_dropWhile_id)
  then have "rstrip_if is_space line = rev y @ CHR ''{'' # ds @ [sign, CHR ''}'']"
    using r(1) by (metis (no_types, lifting) append_Cons append_assoc append_Nil rev.simps(2) rev_append rev_rev_ident)
  moreover obtain t where "line = rstrip_if is_space line @ t" "list_all is_space t" using rstrip_split by metis
  moreover have "ds \<noteq> []" "list_all is_digit ds" using r(3) by (auto simp: ds_def list_all_iff dest: set_takeWhileD)
  ultimately show ?r using r(2) by (metis append.assoc append_Cons)
next
  assume ?r
  then obtain x ds sign t where *: "line = (x @ CHR ''{'' # ds @ [sign, CHR ''}'']) @ t"
      "sign = CHR ''+'' \<or> sign = CHR ''-''" "ds \<noteq> []" "list_all is_digit ds" "list_all is_space t"
    by auto
  have "\<not> is_space (CHR ''}'')" by code_simp
  then have "rstrip_if is_space line = x @ CHR ''{'' # ds @ [sign, CHR ''}'']"
    unfolding *(1) by (intro rstrip_drop [OF *(5)]) simp
  moreover have nd: "\<not> is_digit (CHR ''{'')" by code_simp
  then have "takeWhile is_digit (rev ds @ CHR ''{'' # rev x) = rev ds
      \<and> dropWhile is_digit (rev ds @ CHR ''{'' # rev x) = CHR ''{'' # rev x"
    by (intro takeWhile_append_stop) (use *(4) in \<open>auto simp: list_all_iff\<close>)
  ultimately show ?l using *(2,3) nd by (auto simp: nonsync_literal_size_def)
qed

lemma py_decode_append_all: "list_all (\<lambda>c. code_pt c < 128) w \<Longrightarrow> py_decode (a @ w) = py_decode a @ w"
  by (cases w) (auto simp: py_decode_append py_decode_ascii)

lemma space_ascii: "is_space c \<Longrightarrow> code_pt c < 128" "is_digit c \<Longrightarrow> code_pt c < 128"
  by (auto simp: is_space_def is_digit_def)

lemma nonsync_decode:
  assumes "nonsync_literal_size (py_decode b) = None" shows "nonsync_literal_size b = None"
proof (rule ccontr)
  assume "nonsync_literal_size b \<noteq> None"
  then obtain x ds sign t where *: "b = x @ CHR ''{'' # ds @ [sign, CHR ''}''] @ t"
      "sign = CHR ''+'' \<or> sign = CHR ''-''" "ds \<noteq> []" "list_all is_digit ds" "list_all is_space t"
    unfolding nonsync_iff by blast
  have "list_all (\<lambda>c. code_pt c < 128) (CHR ''{'' # ds @ [sign, CHR ''}''] @ t)"
    using *(2,4,5) space_ascii by (auto simp: list_all_iff code_pt_def)
  then have "py_decode b = py_decode x @ CHR ''{'' # ds @ [sign, CHR ''}''] @ t"
    unfolding *(1) by (rule py_decode_append_all)
  then have "nonsync_literal_size (py_decode b) \<noteq> None" unfolding nonsync_iff using *(2-5) by blast
  with assms show False by simp
qed

text \<open>What the proxy reads of a clean line is its decoded body, and its verb is the server's.\<close>

lemma clean_line_raw:
  assumes "\<not> has_bare_cr_or_nul line" "CHR 0x0A \<notin> set (butlast line)"
  shows "rstrip_crlf (py_decode line) = py_decode (line_body line)"
proof -
  obtain e where e: "line = line_body line @ e" "e \<in> {[], [CHR 0x0A], [CHR 0x0D], [CHR 0x0D, CHR 0x0A]}"
    using clean_line(4) [OF assms] by blast
  have asc: "code_pt (CHR 0x0D) < 128" "code_pt (CHR 0x0A) < 128" by (simp_all add: code_pt_def)
  have "py_decode line = py_decode (line_body line) @ e"
    using e(2) by (subst e(1), intro py_decode_append_all) (auto simp: asc)
  moreover have "CHR 0x0D \<notin> set (py_decode (line_body line))" "CHR 0x0A \<notin> set (py_decode (line_body line))"
    using clean_line(1,3) [OF assms] by (simp_all add: ascii_in_decode asc)
  then have stop: "last (py_decode (line_body line)) \<noteq> CHR 0x0D" "last (py_decode (line_body line)) \<noteq> CHR 0x0A"
    if "line_body line \<noteq> []"
    using that by (metis last_in_set py_decode_Nil_iff)+
  ultimately show ?thesis using e(2) unfolding rstrip_crlf_def
    by (intro trans [OF arg_cong [where f = "rstrip_if _"] rstrip_drop]) (use stop in auto)
qed

lemma upper_ascii_word: "list_all (\<lambda>c. code_pt c < 128) (py_upper v) \<longleftrightarrow> list_all (\<lambda>c. code_pt c < 128) v"
  by (auto simp: py_upper_def list_all_iff upper_char_def split: if_splits)

lemma upper_ascii:
  assumes "py_upper (py_decode v) = X" "list_all (\<lambda>c. code_pt c < 128) X"
  shows "py_decode v = v"
  using assms upper_ascii_word by (metis py_decode_all_ascii)

definition command_verbs :: "string list" where
  "command_verbs = [] # READ_COMMANDS"

lemma command_verbs_ascii: "list_all (list_all (\<lambda>c. code_pt c < 128)) command_verbs" "''UID'' \<notin> set command_verbs"
  by code_simp+

lemma server_verb_decode:
  assumes "server_verb (py_decode b) \<in> set command_verbs"
  shows "server_verb b = server_verb (py_decode b)"
proof -
  have up: "py_decode v = v" if "py_upper (py_decode v) \<in> insert ''UID'' (set command_verbs)" for v
  proof (rule upper_ascii [OF refl])
    have "list_all (\<lambda>c. code_pt c < 128) ''UID''" by code_simp
    then show "list_all (\<lambda>c. code_pt c < 128) (py_upper (py_decode v))"
      using that command_verbs_ascii by (auto simp: list_all_iff)
  qed
  have uid: "py_upper (py_decode v) = ''UID'' \<longleftrightarrow> py_upper v = ''UID''" for v
  proof
    assume "py_upper v = ''UID''"
    moreover have "list_all (\<lambda>c. code_pt c < 128) ''UID''" by code_simp
    ultimately have "list_all (\<lambda>c. code_pt c < 128) v" using upper_ascii_word [of v] by simp
    then show "py_upper (py_decode v) = ''UID''" using \<open>py_upper v = _\<close> by (simp add: py_decode_ascii)
  qed (use up [of v] in simp)
  consider "length (sp_words b) < 2" | t v where "sp_words b = [t, v]" | t v w ws where "sp_words b = t # v # w # ws"
    by (metis One_nat_def Suc_1 length_0_conv length_Cons less_Suc_eq neq_Nil_conv not_less_eq numeral_2_eq_2)
  then show ?thesis
  proof cases
    case 1
    then show ?thesis by (cases "sp_words b"; cases "tl (sp_words b)") (auto simp: server_verb_def py_decode_words)
  next
    case (2 t v)
    then show ?thesis using assms up [of v] by (simp add: server_verb_def py_decode_words)
  next
    case (3 t v w ws)
    then show ?thesis using assms up [of v] up [of w] uid [of v]
      by (cases "py_upper v = ''UID''") (simp_all add: server_verb_def py_decode_words)
  qed
qed

end
