(* ===== verification/Proxy_Client.thy ===== *)
theory Proxy_Client
  imports Proxy_Wire Intent Operation_Parser Provider_Profiles
begin

text \<open>
  The client side of an IMAP connection after login (\<open>gateway/proxy.py\<close>, \<open>_client_to_upstream\<close>): each
  line of the agent is forwarded, staged, swallowed or refused.  A handler gets the bytes still to
  come and gives back those left after it, or nothing when the loop ends there: the peer is gone,
  the stream broke off inside a literal, or an exception escaped.  One command is one step; the
  clock, the drawn identifiers and whether a write fails are read from its surroundings.
\<close>

section \<open>The connection\<close>

record connection =
  cn_folder :: "string option"
  cn_folder_id :: "nat option"
  cn_select_lines :: "string list"
  cn_in_select :: bool
  cn_revert_trigger_tag :: "string option"
  cn_agent_id :: "nat option"
  cn_user_id :: "nat option"
  cn_search_uid_mode :: bool
  cn_capability_tag :: "string option"
  cn_provider_profile :: "provider_profile option"
  cn_pending_copy_intent :: "pending_copy_intent option"
  cn_special_use :: "special_use option"

datatype sent = To_client string | To_upstream string

text \<open>What one command draws: clock readings, the ids of an operation and of a flushed one, and the
  random part of new batch ids.\<close>

record draw =
  dr_clk :: "nat \<Rightarrow> int"
  dr_mono :: "nat \<Rightarrow> int"
  dr_op_id :: string
  dr_flush_id :: string
  dr_batch :: string
  dr_flush_batch :: string

text \<open>\<open>pe_gone\<close>: the last of these writes raised because its peer had gone; \<open>pe_mail\<close>, \<open>pe_words\<close>: the email
  package (see the response parser).\<close>

record penv =
  pe_env :: env
  pe_decide :: "op_row \<Rightarrow> nat option \<Rightarrow> db \<Rightarrow> failure + decision option"
  pe_draw :: "nat \<Rightarrow> draw"
  pe_gone :: "sent list \<Rightarrow> bool"
  pe_mail :: "string \<Rightarrow> (string \<Rightarrow> string) option"
  pe_words :: "string \<Rightarrow> string option"

record proxy =
  px_conn :: connection
  px_batches :: batches
  px_world :: world
  px_sent :: "sent list"
  px_turn :: nat

type_synonym px_handler = "string \<Rightarrow> proxy \<Rightarrow> string option \<times> proxy"

abbreviation px_db :: "proxy \<Rightarrow> db" where
  "px_db st \<equiv> w_db (px_world st)"

definition set_conn :: "(connection \<Rightarrow> connection) \<Rightarrow> proxy \<Rightarrow> proxy" where
  "set_conn f st = st\<lparr>px_conn := f (px_conn st)\<rparr>"

definition set_db :: "db \<Rightarrow> proxy \<Rightarrow> proxy" where
  "set_db d st = st\<lparr>px_world := (px_world st)\<lparr>w_db := d\<rparr>\<rparr>"

definition turn :: "penv \<Rightarrow> proxy \<Rightarrow> draw" where
  "turn pe st = pe_draw pe (px_turn st)"

definition emit :: "penv \<Rightarrow> sent \<Rightarrow> px_handler" where
  "emit pe x rest st =
     (let st' = st\<lparr>px_sent := px_sent st @ [x]\<rparr>
      in (if pe_gone pe (px_sent st') then None else Some rest, st'))"

definition crlf :: string where
  "crlf = [CHR 0x0D, CHR 0x0A]"

definition em_dash :: string where
  "em_dash = [CHR 0xE2, CHR 0x80, CHR 0x94]"

definition reply :: "penv \<Rightarrow> string \<Rightarrow> string \<Rightarrow> px_handler" where
  "reply pe tag text = emit pe (To_client (tag @ '' '' @ text @ crlf))"

section \<open>Lookups while staging\<close>

definition load_special_use :: "proxy \<Rightarrow> special_use \<times> proxy" where
  "load_special_use st =
     (case cn_special_use (px_conn st) of
        Some su \<Rightarrow> (su, st)
      | None \<Rightarrow>
          let su = get_special_use_folders (cn_user_id (px_conn st)) (px_db st)
          in (su, set_conn (\<lambda>c. c\<lparr>cn_special_use := Some su\<rparr>) st))"

definition resolve_trash_folder :: "connection \<Rightarrow> db \<Rightarrow> string option" where
  "resolve_trash_folder conn d =
     (let declared = get_trash_folder (cn_user_id conn) d
      in if truthy declared then declared
         else case cn_provider_profile conn of
           Some p \<Rightarrow> if truthy (pp_trash_folder p) then pp_trash_folder p else None
         | None \<Rightarrow> None)"

definition get_message_metadata_by_uid_set :: "nat \<Rightarrow> string \<Rightarrow> db \<Rightarrow> msg_meta list option" where
  "get_message_metadata_by_uid_set folder_id s d =
     map_option (map (\<lambda>m. \<lparr>mm_uid = me_uid m, mm_sender = me_sender m, mm_subject = me_subject m\<rparr>))
       (get_messages_by_uid_set folder_id s d)"

definition folder_or_inbox :: "connection \<Rightarrow> string" where
  "folder_or_inbox conn = (if truthy (cn_folder conn) then or_empty (cn_folder conn) else ''INBOX'')"

text \<open>A batch of the agent for a folder; \<open>k\<close> numbers the reading of the clock.\<close>

definition open_batch :: "penv \<Rightarrow> string \<Rightarrow> string \<Rightarrow> nat \<Rightarrow> proxy \<Rightarrow> string \<times> proxy" where
  "open_batch pe folder token k st =
     (let (bid, bs) = get_or_create_batch folder ''imap'' 30 (cn_agent_id (px_conn st)) token
            (dr_mono (turn pe st) k) (dr_mono (turn pe st) (Suc k)) (px_batches st)
      in (bid, st\<lparr>px_batches := bs\<rparr>))"

section \<open>Staging\<close>

text \<open>A request of this connection, with nothing but its operation type, description and command.\<close>

definition imap_request :: "connection \<Rightarrow> string \<Rightarrow> string \<Rightarrow> string \<Rightarrow> op_request" where
  "imap_request conn kind description command =
     \<lparr>rq_op_type = kind, rq_protocol = ''imap'', rq_description = description, rq_agent_id = cn_agent_id conn,
      rq_imap_command = Some command, rq_smtp_envelope = None, rq_message_ids = None, rq_folder_from = None,
      rq_folder_to = None, rq_flags_add = None, rq_flags_remove = None, rq_snapshot = None, rq_is_urgent = None,
      rq_batch_id = None, rq_append_message = None, rq_intent_label = None, rq_intent_confidence = None\<rparr>"

definition stage :: "penv \<Rightarrow> string \<Rightarrow> (nat \<Rightarrow> int) \<Rightarrow> op_request \<Rightarrow> proxy \<Rightarrow> (failure + string \<times> bool) \<times> proxy" where
  "stage pe i clk rq st =
     (case create_operation (pe_env pe) (pe_decide pe) clk i rq (px_world st) of
        (r, w) \<Rightarrow> (r, st\<lparr>px_world := w\<rparr>))"

text \<open>The answer is OK whether or not the operation was stored.\<close>

definition staged_text :: "failure + string \<times> bool \<Rightarrow> string" where
  "staged_text r =
     (case r of
        Inr (i, _) \<Rightarrow> ''OK [STAGED] Operation queued '' @ em_dash @ '' ID: '' @ i
      | Inl _ \<Rightarrow> ''OK [STAGED] Operation queued for approval'')"

section \<open>Literals\<close>

definition BYE_TOO_LARGE :: string where
  "BYE_TOO_LARGE = ''* BYE Nuvrail: literal too large'' @ crlf"

text \<open>Refusing a command whose literals are already on the wire.\<close>

definition refuse_discarding :: "penv \<Rightarrow> string \<Rightarrow> string \<Rightarrow> string \<Rightarrow> px_handler" where
  "refuse_discarding pe line tag text inp st =
     (case discard_nonsync_literals line inp of
        Discarded rest \<Rightarrow> reply pe tag text rest st
      | Ended \<Rightarrow> (None, st)
      | Too_large \<Rightarrow> (None, snd (emit pe (To_client BYE_TOO_LARGE) inp st)))"

definition append_data :: "nat \<Rightarrow> string \<Rightarrow> (string \<times> string) option" where
  "append_data n inp =
     map_option (\<lambda>(x, rest). (if n \<le> MAX_APPEND_BYTES then x else [], rest)) (read_exactly n inp)"

definition append_request ::
  "connection \<Rightarrow> parsed_operation \<Rightarrow> (string \<times> nat) option \<Rightarrow> string \<Rightarrow> string \<Rightarrow> op_request" where
  "append_request conn op intent data bid =
     (imap_request conn (po_op_type op) (po_description op) (po_imap_command op))
       \<lparr>rq_folder_to := po_folder_to op, rq_flags_add := Some (po_flags_add op),
        rq_append_message := (if data = [] then None else Some (b64encode data)), rq_batch_id := Some bid,
        rq_intent_label := map_option fst intent, rq_intent_confidence := map_option snd intent\<rparr>"

definition suppressed :: "connection \<Rightarrow> string \<Rightarrow> bool" where
  "suppressed conn folder =
     (case cn_provider_profile conn of Some p \<Rightarrow> should_suppress_append folder p | None \<Rightarrow> False)"

definition stage_append :: "penv \<Rightarrow> string \<Rightarrow> string \<Rightarrow> string \<Rightarrow> px_handler" where
  "stage_append pe tag raw data rest st =
     (let folder = append_folder_of raw
      in if suppressed (px_conn st) folder then reply pe tag ''OK APPEND completed'' rest st
         else
           let op = parse_append tag folder (append_flags_of raw) (append_literal_size raw);
               (su, st1) = load_special_use st;
               intent = derive_intent op (cn_provider_profile (px_conn st)) None su;
               (bid, st2) = open_batch pe folder (dr_batch (turn pe st)) 0 st1;
               (r, st3) = stage pe (dr_op_id (turn pe st)) (dr_clk (turn pe st))
                            (append_request (px_conn st) op intent data bid) st2
           in reply pe tag (staged_text r) rest st3)"

definition NO_MULTIAPPEND :: string where
  "NO_MULTIAPPEND = ''NO [CANNOT] Nuvrail: MULTIAPPEND is not supported, append one message per command''"

definition READY :: string where
  "READY = ''+ Ready for literal data'' @ crlf"

definition handle_append :: "penv \<Rightarrow> string \<Rightarrow> string \<Rightarrow> px_handler" where
  "handle_append pe tag raw inp st =
     (case emit pe (To_client READY) inp st of
        (None, st1) \<Rightarrow> (None, st1)
      | (Some _, st1) \<Rightarrow>
          (case append_data (append_literal_size raw) inp of
             None \<Rightarrow> (None, st1)
           | Some (data, inp1) \<Rightarrow>
               (case read_line inp1 of
                  None \<Rightarrow> (None, st1)
                | Some (l, inp2) \<Rightarrow>
                    let more = rstrip_crlf (py_decode l)
                    in if LITERAL_TAIL_RE more then refuse_discarding pe more tag NO_MULTIAPPEND inp2 st1
                       else stage_append pe tag raw data inp2 st1)))"

definition handle_sync_literal :: "penv \<Rightarrow> string \<Rightarrow> px_handler" where
  "handle_sync_literal pe raw inp st =
     (let parts = py_split raw;
          tag = (if parts = [] then ''?'' else hd parts);
          verb = sync_literal_verb raw;
          literal8 = (parts \<noteq> [] \<and> py_startswith (last parts) ''~'');
          what = (if literal8 then ''literal8 (~{N})''
                  else ''a literal on '' @ (if verb \<noteq> [] then verb else ''this command''))
      in if verb \<noteq> ''APPEND'' \<or> literal8
         then reply pe tag (''NO [CANNOT] Nuvrail: '' @ what @ '' is not supported'') inp st
         else handle_append pe tag raw inp st)"

section \<open>Reads\<close>

definition track_select :: "parsed_command \<Rightarrow> connection \<Rightarrow> connection" where
  "track_select p c =
     (let name = (case pc_args p of a # _ \<Rightarrow> strip_if (\<lambda>x. x = dquote) a | [] \<Rightarrow> [])
      in if py_upper (pc_command p) \<in> {''SELECT'', ''EXAMINE''} \<and> name \<noteq> []
         then c\<lparr>cn_folder := Some name, cn_folder_id := None, cn_select_lines := [], cn_in_select := False\<rparr>
         else c)"

definition track_tags :: "parsed_command \<Rightarrow> connection \<Rightarrow> connection" where
  "track_tags p c =
     (let c1 = (if py_upper (pc_command p) \<in> {''SELECT'', ''EXAMINE'', ''NOOP'', ''FETCH''}
                then c\<lparr>cn_revert_trigger_tag := Some (py_upper (pc_tag p))\<rparr> else c)
      in if py_upper (pc_command p) = ''CAPABILITY''
         then c1\<lparr>cn_capability_tag := Some (py_upper (pc_tag p))\<rparr> else c1)"

definition track_search :: "parsed_command \<Rightarrow> connection \<Rightarrow> connection" where
  "track_search p c =
     (if py_upper (pc_command p) = ''SEARCH'' then c\<lparr>cn_search_uid_mode := pc_uid p\<rparr> else c)"

definition handle_read :: "penv \<Rightarrow> parsed_command \<Rightarrow> string \<Rightarrow> px_handler" where
  "handle_read pe p line inp st =
     (let st1 = set_conn (\<lambda>c. track_tags p (track_select p c)) st
      in if py_upper (pc_command p) = ''ENABLE'' then
           (let kept = filter_enable_args (pc_args p)
            in if kept = []
               then emit pe (To_client (''* ENABLED'' @ crlf @ pc_tag p @ '' OK ENABLE completed'' @ crlf)) inp st1
               else emit pe (To_upstream
                      (if kept \<noteq> pc_args p then pc_tag p @ '' ENABLE '' @ py_join '' '' kept @ crlf else line)) inp st1)
         else emit pe (To_upstream line) inp (set_conn (track_search p) st1))"

section \<open>Writes\<close>

definition flush_request :: "connection \<Rightarrow> pending_copy_intent \<Rightarrow> string \<Rightarrow> op_request" where
  "flush_request conn held bid =
     (let op = parse_copy (pci_tag held) (pci_uid_set held) (pci_destination held)
      in (imap_request conn (po_op_type op) (po_description op) (po_imap_command op))
           \<lparr>rq_message_ids := Some [pci_uid_set held], rq_folder_from := cn_folder conn,
            rq_folder_to := po_folder_to op, rq_batch_id := Some bid\<rparr>)"

text \<open>Staging the held COPY; a failure is only logged, and the intent is gone either way.\<close>

definition flush_held :: "penv \<Rightarrow> pending_copy_intent \<Rightarrow> proxy \<Rightarrow> proxy" where
  "flush_held pe held st =
     (let (bid, st1) = open_batch pe (folder_or_inbox (px_conn st)) (dr_flush_batch (turn pe st)) 2 st;
          (r, st2) = stage pe (dr_flush_id (turn pe st)) (\<lambda>k. dr_clk (turn pe st) (k + 100))
                       (flush_request (px_conn st) held bid) st1
      in set_conn (\<lambda>c. c\<lparr>cn_pending_copy_intent := None\<rparr>) st2)"

text \<open>Holding a COPY; without a profile the log line that reports it raises.\<close>

definition hold_copy :: "penv \<Rightarrow> parsed_command \<Rightarrow> px_handler" where
  "hold_copy pe p inp st =
     (let held = \<lparr>pci_tag = pc_tag p, pci_uid_set = arg_or 0 ''?'' (pc_args p), pci_destination = copy_folder p\<rparr>;
          st1 = set_conn (\<lambda>c. c\<lparr>cn_pending_copy_intent := Some held\<rparr>) st
      in case cn_provider_profile (px_conn st) of
           None \<Rightarrow> (None, st1)
         | Some _ \<Rightarrow> reply pe (pc_tag p) ''OK COPY completed'' inp st1)"

text \<open>The operation a write stands for: with a STORE of \<open>Deleted\<close> that matches the held COPY, the pair is a
  MOVE.\<close>

definition write_operation :: "parsed_command \<Rightarrow> proxy \<Rightarrow> parsed_operation option \<times> proxy" where
  "write_operation p st =
     (case cn_pending_copy_intent (px_conn st) of
        Some held \<Rightarrow>
          if is_store_deleted p \<and> pc_args p \<noteq> [] \<and> hd (pc_args p) = pci_uid_set held
          then (Some (parse_move (pc_tag p) (pci_uid_set held) (pci_destination held)),
                set_conn (\<lambda>c. c\<lparr>cn_pending_copy_intent := None\<rparr>) st)
          else (build_parsed_op p, st)
      | None \<Rightarrow> (build_parsed_op p, st))"

definition is_flag_op :: "parsed_command \<Rightarrow> parsed_operation \<Rightarrow> bool" where
  "is_flag_op p op \<longleftrightarrow> py_upper (pc_command p) = ''STORE'' \<and> (po_flags_add op \<noteq> [] \<or> po_flags_remove op \<noteq> [])"

definition known_folder_id :: "penv \<Rightarrow> parsed_command \<Rightarrow> parsed_operation \<Rightarrow> proxy \<Rightarrow> nat option \<times> proxy" where
  "known_folder_id pe p op st =
     (if is_flag_op p op \<and> cn_folder_id (px_conn st) = None \<and> truthy (cn_folder (px_conn st)) then
        (let (i, d) = get_or_create_folder (or_empty (cn_folder (px_conn st))) (cn_user_id (px_conn st))
                        (dr_clk (turn pe st) 30) (px_db st)
         in (Some i, set_conn (\<lambda>c. c\<lparr>cn_folder_id := Some i\<rparr>) (set_db d st)))
      else (cn_folder_id (px_conn st), st))"

text \<open>The entry made up for messages the mirror does not know: no flags, keyed by the UID set.\<close>

definition synthesized_entry :: "nat \<Rightarrow> string \<Rightarrow> snap_entry" where
  "synthesized_entry folder_id uid =
     \<lparr>se_uid = the_default 0 (py_int uid), se_flags = [], se_seq_num = None, se_folder_id = folder_id,
      se_sender = None, se_subject = None, se_bad_key = (if py_int uid = None then Some uid else None)\<rparr>"

definition flag_snapshot :: "nat \<Rightarrow> parsed_operation \<Rightarrow> int \<Rightarrow> db \<Rightarrow> snap_entry list option \<times> db" where
  "flag_snapshot folder_id op now d =
     (let uids = py_join '','' (po_message_ids op)
      in case snapshot_messages folder_id uids d of
           None \<Rightarrow> (None, d)
         | Some es \<Rightarrow>
             (case apply_optimistic_flag_update folder_id uids (po_flags_add op) (po_flags_remove op) now d of
                None \<Rightarrow> (None, d)
              | Some d' \<Rightarrow>
                  (Some (if es = [] then map (synthesized_entry folder_id) (po_message_ids op) else es), d')))"

definition with_trash_folder :: "proxy \<Rightarrow> parsed_operation \<Rightarrow> parsed_operation" where
  "with_trash_folder st op =
     (if po_op_type op = ''trash'' \<and> \<not> truthy (po_folder_to op)
      then op\<lparr>po_folder_to := resolve_trash_folder (px_conn st) (px_db st)\<rparr> else op)"

definition describe :: "nat option \<Rightarrow> parsed_operation \<Rightarrow> string option \<Rightarrow> db \<Rightarrow> string" where
  "describe folder_id op label d =
     (case (folder_id, po_message_ids op) of
        (Some i, uids # _) \<Rightarrow>
          (case get_message_metadata_by_uid_set i uids d of
             Some meta \<Rightarrow> build_rich_description op meta label
           | None \<Rightarrow> build_rich_description op [] label)
      | _ \<Rightarrow> build_rich_description op [] label)"

text \<open>A MOVE takes its messages out of the mirror at once, behind a snapshot.\<close>

definition hide_moved ::
  "nat option \<Rightarrow> parsed_operation \<Rightarrow> snap_entry list option \<Rightarrow> db \<Rightarrow> snap_entry list option \<times> db" where
  "hide_moved folder_id op snap d =
     (case (folder_id, po_message_ids op) of
        (Some i, uids # _) \<Rightarrow>
          (if po_op_type op = ''move'' then
             (case (case snap of None \<Rightarrow> snapshot_messages i uids d | Some es \<Rightarrow> Some es) of
                None \<Rightarrow> (None, d)
              | Some es \<Rightarrow> (Some es, the_default d (remove_messages_from_folder i uids d)))
           else (snap, d))
      | _ \<Rightarrow> (snap, d))"

definition nonempty :: "'a list \<Rightarrow> 'a list option" where
  "nonempty xs = (if xs = [] then None else Some xs)"

definition source_folder :: "connection \<Rightarrow> parsed_operation \<Rightarrow> string option" where
  "source_folder conn op = (if truthy (po_folder_from op) then po_folder_from op else cn_folder conn)"

definition write_request ::
  "connection \<Rightarrow> parsed_operation \<Rightarrow> string \<Rightarrow> (string \<times> nat) option \<Rightarrow> snap_entry list option \<Rightarrow> string \<Rightarrow> op_request"
where
  "write_request conn op description intent snap bid =
     (imap_request conn (po_op_type op) description (po_imap_command op))
       \<lparr>rq_message_ids := nonempty (po_message_ids op), rq_folder_from := source_folder conn op,
        rq_folder_to := po_folder_to op, rq_flags_add := nonempty (po_flags_add op),
        rq_flags_remove := nonempty (po_flags_remove op), rq_snapshot := snap, rq_batch_id := Some bid,
        rq_intent_label := map_option fst intent, rq_intent_confidence := map_option snd intent\<rparr>"

text \<open>The optimistic change of the mirror and the request to stage, with the snapshot to undo it.\<close>

definition optimistic_flags ::
  "penv \<Rightarrow> parsed_command \<Rightarrow> parsed_operation \<Rightarrow> nat option \<Rightarrow> proxy \<Rightarrow> snap_entry list option \<times> proxy" where
  "optimistic_flags pe p op fid st =
     (case fid of
        None \<Rightarrow> (None, st)
      | Some i \<Rightarrow>
          if is_flag_op p op \<and> po_message_ids op \<noteq> []
          then let (snap, d) = flag_snapshot i op (dr_clk (turn pe st) 31) (px_db st) in (snap, set_db d st)
          else (None, st))"

definition prepare_write :: "penv \<Rightarrow> parsed_command \<Rightarrow> parsed_operation \<Rightarrow> proxy \<Rightarrow> op_request \<times> proxy" where
  "prepare_write pe p op st =
     (let (fid, st1) = known_folder_id pe p op st;
          (snap, st2) = optimistic_flags pe p op fid st1;
          op' = with_trash_folder st2 op;
          (su, st3) = load_special_use st2;
          intent = derive_intent op' (cn_provider_profile (px_conn st3)) (source_folder (px_conn st3) op') su;
          description = describe fid op' (map_option fst intent) (px_db st3);
          (snap', d4) = hide_moved fid op' snap (px_db st3);
          st4 = set_db d4 st3;
          folder = (if truthy (po_folder_from op') then or_empty (po_folder_from op') else folder_or_inbox (px_conn st4));
          (bid, st5) = open_batch pe folder (dr_batch (turn pe st)) 0 st4
      in (write_request (px_conn st5) op' description intent snap' bid, st5))"

definition stage_write :: "penv \<Rightarrow> parsed_command \<Rightarrow> parsed_operation \<Rightarrow> proxy \<Rightarrow> (failure + string \<times> bool) \<times> proxy" where
  "stage_write pe p op st =
     (let (rq, st') = prepare_write pe p op st in stage pe (dr_op_id (turn pe st)) (dr_clk (turn pe st)) rq st')"

definition generic_request :: "connection \<Rightarrow> parsed_command \<Rightarrow> string \<Rightarrow> op_request" where
  "generic_request conn p raw =
     imap_request conn (py_lower (pc_command p)) (py_strip (pc_command p @ '' '' @ py_join '' '' (pc_args p))) raw"

definition NO_SEQUENCE :: "parsed_command \<Rightarrow> string" where
  "NO_SEQUENCE p = ''NO [CLIENTBUG] Use UID '' @ pc_command p @ '' not '' @ pc_command p @ '' '' @ em_dash
     @ '' sequence numbers shift when messages move and are unsafe for staged approval.''"

definition handle_write :: "penv \<Rightarrow> parsed_command \<Rightarrow> string \<Rightarrow> px_handler" where
  "handle_write pe p raw inp st =
     (let st1 = (case cn_pending_copy_intent (px_conn st) of
                   Some held \<Rightarrow> if is_store_deleted p then st else flush_held pe held st
                 | None \<Rightarrow> st)
      in if is_archive_copy (cn_provider_profile (px_conn st)) p then hold_copy pe p inp st1
         else if \<not> pc_uid p \<and> py_upper (pc_command p) \<in> {''STORE'', ''COPY'', ''MOVE''}
         then reply pe (pc_tag p) (NO_SEQUENCE p) inp st1
         else
           let (op, st2) = write_operation p st1;
               (r, st3) = (case op of
                   Some op \<Rightarrow> stage_write pe p op st2
                 | None \<Rightarrow> stage pe (dr_op_id (turn pe st)) (dr_clk (turn pe st)) (generic_request (px_conn st2) p raw) st2)
           in reply pe (pc_tag p) (staged_text r) inp st3)"

section \<open>One command\<close>

definition handle_rejected :: "penv \<Rightarrow> parsed_command \<Rightarrow> string \<Rightarrow> px_handler" where
  "handle_rejected pe p raw inp st =
     (if py_strip raw = [] then (Some inp, st)
      else if pc_command p \<noteq> []
      then reply pe (pc_tag p) (''NO [CANNOT] Nuvrail: '' @ pc_command p @ '' is not permitted for agents'') inp st
      else reply pe (pc_tag p) ''BAD Nuvrail: missing command'' inp st)"

definition bare_tag :: "string \<Rightarrow> string" where
  "bare_tag raw =
     (let t = filter (\<lambda>c. c \<noteq> CHR 0x0D \<and> c \<noteq> CHR 0x00) (takeWhile (\<lambda>c. c \<noteq> sp) raw)
      in if t = [] then ''*'' else t)"

definition NO_NONSYNC :: string where
  "NO_NONSYNC = ''NO [CANNOT] Nuvrail: non-synchronizing literals are not supported, use {N}''"

definition client_command :: "penv \<Rightarrow> string \<Rightarrow> px_handler" where
  "client_command pe line inp st =
     (let raw = rstrip_crlf (py_decode line)
      in if has_bare_cr_or_nul line
         then reply pe (bare_tag raw) ''BAD Nuvrail: bare CR or NUL in command line'' inp st
         else case parse_line raw of
           None \<Rightarrow> handle_sync_literal pe raw inp st
         | Some p \<Rightarrow>
             if nonsync_literal_size raw \<noteq> None then refuse_discarding pe raw (pc_tag p) NO_NONSYNC inp st
             else case classify p of
               Rejected \<Rightarrow> handle_rejected pe p raw inp st
             | Read \<Rightarrow> handle_read pe p line inp st
             | Write \<Rightarrow> handle_write pe p raw inp st
             | Blocked \<Rightarrow> reply pe (pc_tag p) ''OK Noted'' inp st)"

section \<open>What a handler sends\<close>

definition to_client :: "sent list \<Rightarrow> bool" where
  "to_client xs \<longleftrightarrow> list_all (\<lambda>x. case x of To_client _ \<Rightarrow> True | To_upstream _ \<Rightarrow> False) xs"

definition is_answer :: "string \<Rightarrow> string \<Rightarrow> bool" where
  "is_answer tag b \<longleftrightarrow> (\<exists>pre text. b = pre @ tag @ '' '' @ text @ crlf \<and> (pre = [] \<or> pre = ''* ENABLED'' @ crlf))"

abbreviation ready :: sent where
  "ready \<equiv> To_client READY"

text \<open>The command is answered here: nothing goes upstream, what is left of the stream is a tail of it,
  and unless the loop ends the last write is the tagged answer.\<close>

definition answered :: "string \<Rightarrow> string \<Rightarrow> proxy \<Rightarrow> string option \<times> proxy \<Rightarrow> bool" where
  "answered tag inp st res \<longleftrightarrow>
     (\<exists>xs. px_sent (snd res) = px_sent st @ xs \<and> to_client xs
        \<and> (case fst res of None \<Rightarrow> True
           | Some rest \<Rightarrow> (\<exists>y. inp = y @ rest)
               \<and> (\<exists>pre b. xs = pre @ [To_client b] \<and> is_answer tag b \<and> (pre = [] \<or> pre = [ready]))))"

lemma sent_kept [simp]:
  "px_sent (set_conn f st) = px_sent st" "px_sent (set_db d st) = px_sent st"
  "px_sent (snd (load_special_use st)) = px_sent st" "px_sent (snd (open_batch pe folder token k st)) = px_sent st"
  "px_sent (snd (stage pe i clk rq st)) = px_sent st" "px_sent (snd (known_folder_id pe p op st)) = px_sent st"
  "px_sent (snd (write_operation p st)) = px_sent st"
  by (auto simp: set_conn_def set_db_def load_special_use_def open_batch_def stage_def known_folder_id_def
      write_operation_def Let_def split: option.splits prod.splits)

lemma sent_flush [simp]: "px_sent (flush_held pe held st) = px_sent st"
proof -
  have "px_sent b = px_sent st" if "open_batch pe f tk k st = (a, b)" for f tk k a b
    using sent_kept(4) [of pe f tk k st] that by simp
  moreover have "px_sent b = px_sent s" if "stage pe i clk rq s = (a, b)" for i clk rq s a b
    using sent_kept(5) [of pe i clk rq s] that by simp
  ultimately show ?thesis by (auto simp: flush_held_def Let_def split: prod.split)
qed

lemma sent_prepare [simp]: "px_sent (snd (prepare_write pe p op st)) = px_sent st"
proof -
  have "px_sent (snd (optimistic_flags pe p op fid st)) = px_sent st" for fid st
    by (simp add: optimistic_flags_def split_beta split: option.split)
  then show ?thesis by (simp add: prepare_write_def Let_def split_beta)
qed

lemma sent_stage_write [simp]: "px_sent (snd (stage_write pe p op st)) = px_sent st"
  by (simp add: stage_write_def split_beta)

lemma answered_reply:
  assumes "px_sent st' = px_sent st @ pre" "pre = [] \<or> pre = [ready]" "inp = y @ rest"
  shows "answered tag inp st (reply pe tag text rest st')"
proof -
  have "is_answer tag (tag @ '' '' @ text @ crlf)" unfolding is_answer_def by blast
  moreover have "to_client (pre @ [To_client b])" for b using assms(2) by (auto simp: to_client_def)
  ultimately show ?thesis using assms unfolding answered_def reply_def emit_def Let_def
    by (intro exI [of _ "pre @ [To_client (tag @ '' '' @ text @ crlf)]"]) auto
qed

lemma answered_end:
  "px_sent st' = px_sent st @ xs \<Longrightarrow> to_client xs \<Longrightarrow> answered tag inp st (None, st')"
  by (auto simp: answered_def)

lemma answered_discarding:
  assumes "px_sent st' = px_sent st @ pre" "pre = [] \<or> pre = [ready]" "inp = y @ rest"
  shows "answered tag inp st (refuse_discarding pe line tag text rest st')"
proof (cases "discard_nonsync_literals line rest")
  case (Discarded r)
  then obtain z where "rest = z @ r" using discard_suffix by blast
  then have "inp = (y @ z) @ r" using assms(3) by simp
  from answered_reply [OF assms(1,2) this] show ?thesis by (simp add: refuse_discarding_def Discarded)
next
  case Ended
  then show ?thesis using answered_end [OF assms(1)] assms(2)
    by (auto simp: refuse_discarding_def to_client_def)
next
  case Too_large
  have "answered tag inp st (None, snd (emit pe (To_client BYE_TOO_LARGE) rest st'))"
    by (rule answered_end [where xs = "pre @ [To_client BYE_TOO_LARGE]"])
      (use assms in \<open>auto simp: emit_def Let_def to_client_def\<close>)
  then show ?thesis by (simp add: refuse_discarding_def Too_large)
qed

lemma answered_stage_append:
  assumes "px_sent st' = px_sent st @ pre" "pre = [] \<or> pre = [ready]" "inp = y @ rest"
  shows "answered tag inp st (stage_append pe tag raw data rest st')"
proof -
  have b: "px_sent s' = px_sent s" if "load_special_use s = (x, s')" for s x s'
    using sent_kept(3) [of s] that by simp
  have c: "px_sent s' = px_sent s" if "open_batch pe f tk k s = (x, s')" for f tk k s x s'
    using sent_kept(4) [of pe f tk k s] that by simp
  have d: "px_sent s' = px_sent s" if "stage pe i clk rq s = (x, s')" for i clk rq s x s'
    using sent_kept(5) [of pe i clk rq s] that by simp
  show ?thesis
    unfolding stage_append_def Let_def
    by (auto split: prod.split dest!: b c d intro!: answered_reply [OF _ assms(2,3)] simp: assms(1))
qed

lemma answered_append: "answered tag inp st (handle_append pe tag raw inp st)"
proof -
  obtain r st1 where e: "emit pe ready inp st = (r, st1)" by force
  then have sent: "px_sent st1 = px_sent st @ [ready]" by (auto simp: emit_def Let_def)
  have stop: "answered tag inp st (None, st1)" by (rule answered_end [OF sent]) (simp add: to_client_def)
  show ?thesis
  proof (cases r)
    case (Some r')
    show ?thesis
    proof (cases "append_data (append_literal_size raw) inp")
      case (Some a)
      obtain data inp1 where a: "a = (data, inp1)" by force
      then obtain x where x: "inp = x @ inp1"
        using Some read_exactly_split(1) by (fastforce simp: append_data_def)
      show ?thesis
      proof (cases "read_line inp1")
        case (Some b)
        obtain l inp2 where b: "b = (l, inp2)" by force
        then have "inp = (x @ l) @ inp2" using read_line_split [of inp1 l inp2] Some x by simp
        note done' = answered_discarding [OF sent _ this] answered_stage_append [OF sent _ this]
        show ?thesis
          using e a b Some \<open>r = Some r'\<close> \<open>append_data _ _ = Some a\<close> done'
          by (simp add: handle_append_def Let_def)
      qed (use stop e a \<open>r = Some r'\<close> \<open>append_data _ _ = Some a\<close> in \<open>simp add: handle_append_def\<close>)
    qed (use stop e \<open>r = Some r'\<close> in \<open>simp add: handle_append_def\<close>)
  qed (use stop e in \<open>simp add: handle_append_def\<close>)
qed

lemmas answered_now = answered_reply [where pre = "[]" and y = "[]", simplified]

lemma answered_sync_literal:
  "answered (if py_split raw = [] then ''?'' else hd (py_split raw)) inp st (handle_sync_literal pe raw inp st)"
  by (cases "sync_literal_verb raw \<noteq> ''APPEND'' \<or> py_split raw \<noteq> [] \<and> py_startswith (last (py_split raw)) ''~''")
    (simp_all add: handle_sync_literal_def Let_def answered_now answered_append)

lemma answered_write: "answered (pc_tag p) inp st (handle_write pe p raw inp st)"
proof -
  define st1 where "st1 = (case cn_pending_copy_intent (px_conn st) of
      Some held \<Rightarrow> if is_store_deleted p then st else flush_held pe held st | None \<Rightarrow> st)"
  have st1: "px_sent st1 = px_sent st" by (simp add: st1_def split: option.split)
  have w: "px_sent s' = px_sent s" if "write_operation p s = (x, s')" for s x s'
    using sent_kept(7) [of p s] that by simp
  have s: "px_sent s' = px_sent s" if "stage pe i clk rq s = (x, s')" for i clk rq s x s'
    using sent_kept(5) [of pe i clk rq s] that by simp
  have sw: "px_sent s' = px_sent s" if "stage_write pe p op s = (x, s')" for op s x s'
    using sent_stage_write [of pe p op s] that by simp
  have hold: "answered (pc_tag p) inp st (hold_copy pe p inp st1)"
    by (auto simp: hold_copy_def Let_def st1 to_client_def split: option.split
        intro!: answered_now answered_end [where xs = "[]"])
  show ?thesis
    unfolding handle_write_def Let_def st1_def [symmetric]
    using hold
    by (auto split: prod.split option.splits dest!: w s sw intro!: answered_now simp: st1)
qed

section \<open>The verdict on one line\<close>

definition command_tag :: "string \<Rightarrow> string" where
  "command_tag line =
     (let raw = rstrip_crlf (py_decode line)
      in if has_bare_cr_or_nul line then bare_tag raw
         else case parse_line raw of
           Some p \<Rightarrow> pc_tag p
         | None \<Rightarrow> if py_split raw = [] then ''?'' else hd (py_split raw))"

text \<open>The bytes that go upstream for a read: the line as it came, or an ENABLE cut down to what is
  allowed.\<close>

definition forwarded_bytes :: "parsed_command \<Rightarrow> string \<Rightarrow> string \<Rightarrow> bool" where
  "forwarded_bytes p line b \<longleftrightarrow>
     (if pc_command p = ''ENABLE''
      then filter_enable_args (pc_args p) \<noteq> []
           \<and> b = (if filter_enable_args (pc_args p) \<noteq> pc_args p
                  then pc_tag p @ '' ENABLE '' @ py_join '' '' (filter_enable_args (pc_args p)) @ crlf else line)
      else b = line)"

definition forwarded :: "string \<Rightarrow> string \<Rightarrow> proxy \<Rightarrow> string option \<times> proxy \<Rightarrow> bool" where
  "forwarded line inp st res \<longleftrightarrow>
     (\<exists>p b. parse_line (rstrip_crlf (py_decode line)) = Some p \<and> classify p = Read
        \<and> \<not> has_bare_cr_or_nul line \<and> nonsync_literal_size (rstrip_crlf (py_decode line)) = None
        \<and> forwarded_bytes p line b \<and> px_sent (snd res) = px_sent st @ [To_upstream b]
        \<and> px_world (snd res) = px_world st \<and> (fst res = None \<or> fst res = Some inp))"

lemma set_conn_world [simp]: "px_world (set_conn f st) = px_world st"
  by (simp add: set_conn_def)

lemma emit_fst: "fst (emit pe x inp st) = None \<or> fst (emit pe x inp st) = Some inp"
  by (simp add: emit_def Let_def)

lemma emit_snd [simp]:
  "px_sent (snd (emit pe x inp st)) = px_sent st @ [x]" "px_world (snd (emit pe x inp st)) = px_world st"
  "px_conn (snd (emit pe x inp st)) = px_conn st"
  by (simp_all add: emit_def Let_def)

lemma read_outcome:
  assumes "parse_line (rstrip_crlf (py_decode line)) = Some p" "classify p = Read" "\<not> has_bare_cr_or_nul line"
    "nonsync_literal_size (rstrip_crlf (py_decode line)) = None"
  shows "answered (pc_tag p) inp st (handle_read pe p line inp st) \<or> forwarded line inp st (handle_read pe p line inp st)"
proof -
  have up: "py_upper (pc_command p) = pc_command p" using assms(1) parse_line_command_upper by blast
  have enabled: "is_answer tag (''* ENABLED'' @ crlf @ tag @ '' OK ENABLE completed'' @ crlf)" for tag
    unfolding is_answer_def
    by (intro exI [of _ "''* ENABLED'' @ crlf"] exI [of _ "''OK ENABLE completed''"]) simp
  show ?thesis
  proof (cases "pc_command p = ''ENABLE'' \<and> filter_enable_args (pc_args p) = []")
    case True
    have "answered (pc_tag p) inp st (handle_read pe p line inp st)"
      using True up enabled [of "pc_tag p"] unfolding answered_def handle_read_def Let_def
      by (intro exI [of _ "[To_client (''* ENABLED'' @ crlf @ pc_tag p @ '' OK ENABLE completed'' @ crlf)]"])
        (auto simp: emit_def Let_def to_client_def)
    then show ?thesis ..
  next
    case False
    have "forwarded line inp st (handle_read pe p line inp st)"
      unfolding forwarded_def
    proof (intro exI [of _ p] exI conjI)
      show "forwarded_bytes p line (if pc_command p = ''ENABLE'' \<and> filter_enable_args (pc_args p) \<noteq> pc_args p
          then pc_tag p @ '' ENABLE '' @ py_join '' '' (filter_enable_args (pc_args p)) @ crlf else line)"
        using False by (auto simp: forwarded_bytes_def)
    qed (use False up assms emit_fst in \<open>auto simp: handle_read_def Let_def\<close>)
    then show ?thesis ..
  qed
qed

text \<open>Every command line is answered here, forwarded as a read, or blank.\<close>

lemma command_outcome:
  "answered (command_tag line) inp st (client_command pe line inp st)
   \<or> forwarded line inp st (client_command pe line inp st)
   \<or> py_strip (rstrip_crlf (py_decode line)) = [] \<and> client_command pe line inp st = (Some inp, st)"
proof -
  define raw where "raw = rstrip_crlf (py_decode line)"
  note defs = client_command_def command_tag_def Let_def raw_def [symmetric]
  consider "has_bare_cr_or_nul line" | "\<not> has_bare_cr_or_nul line" "parse_line raw = None"
    | p where "\<not> has_bare_cr_or_nul line" "parse_line raw = Some p" "nonsync_literal_size raw \<noteq> None"
    | p where "\<not> has_bare_cr_or_nul line" "parse_line raw = Some p" "nonsync_literal_size raw = None"
    by fastforce
  then show ?thesis
  proof cases
    case 1
    then show ?thesis by (simp add: defs answered_now)
  next
    case 2
    then show ?thesis using answered_sync_literal [of raw inp st pe] by (simp add: defs)
  next
    case (3 p)
    then show ?thesis using answered_discarding [of st st "[]" inp "[]" inp] by (auto simp: defs)
  next
    case (4 p)
    show ?thesis
    proof (cases "classify p")
      case Read
      then show ?thesis using read_outcome [of line p inp st pe] 4 by (auto simp: defs)
    next
      case Rejected
      then show ?thesis using 4 by (auto simp: defs handle_rejected_def answered_now)
    qed (use 4 answered_write answered_now in \<open>simp_all add: defs\<close>)
  qed
qed

lemma outcome_tail:
  assumes "client_command pe line inp st = (Some rest, st')" shows "\<exists>y. inp = y @ rest"
  using command_outcome [of line inp st pe] assms by (auto simp: answered_def forwarded_def)

section \<open>The loop\<close>

function client_to_upstream :: "penv \<Rightarrow> string \<Rightarrow> proxy \<Rightarrow> proxy" where
  "client_to_upstream pe inp st =
     (case read_line inp of
        None \<Rightarrow> st
      | Some (line, rest) \<Rightarrow>
          if line = [] then st
          else case client_command pe line rest st of
            (None, st') \<Rightarrow> st'
          | (Some rest', st') \<Rightarrow> client_to_upstream pe rest' (st'\<lparr>px_turn := Suc (px_turn st')\<rparr>))"
  by pat_completeness auto
termination
  by (relation "measure (\<lambda>(pe, inp, st). length inp)") (auto dest!: read_line_split outcome_tail [OF sym])

declare client_to_upstream.simps [simp del]

text \<open>What a server that reads lines and splits them at spaces makes of forwarded bytes: one line, no
  literal announced in them before it asks, and a verb of the read table (none for \<open>DONE\<close>).\<close>

definition forwardable :: "string \<Rightarrow> bool" where
  "forwardable b \<longleftrightarrow>
     \<not> has_bare_cr_or_nul b \<and> CHR 0x0A \<notin> set (butlast b) \<and> nonsync_literal_size (line_body b) = None
     \<and> (only_sp (line_body b) \<longrightarrow> server_verb (line_body b) \<in> set command_verbs)"

lemma read_line_one:
  assumes "read_line inp = Some (line, rest)" shows "CHR 0x0A \<notin> set (butlast line)"
proof -
  define w where "w = takeWhile (\<lambda>c. c \<noteq> CHR 0x0A) inp"
  define y where "y = dropWhile (\<lambda>c. c \<noteq> CHR 0x0A) inp"
  have inp: "inp = w @ y" by (simp add: w_def y_def)
  have "line = take (Suc (length w)) inp"
    using assms by (simp add: read_line_def Let_def w_def split: if_splits)
  then have "line = w @ take 1 y" unfolding inp by simp
  then have "set (butlast line) \<subseteq> set w"
    by (cases y) (auto dest: in_set_butlastD)
  then show ?thesis by (auto simp: w_def dest: set_takeWhileD)
qed

lemma py_split_subset: "w \<in> set (py_split s) \<Longrightarrow> set w \<subseteq> set s"
proof -
  have "\<And>cur. w \<in> set (split_ws cur s) \<Longrightarrow> set w \<subseteq> set cur \<union> set s"
    by (induction s) (auto split: if_splits, fastforce+)
  from this [of "[]"] show "w \<in> set (py_split s) \<Longrightarrow> set w \<subseteq> set s" by (simp add: py_split_def)
qed

lemma line_body_crlf: "CHR 0x0A \<notin> set s \<Longrightarrow> line_body (s @ crlf) = s"
  by (simp add: line_body_def crlf_def butlast_append)

lemma nonsync_none:
  assumes "last s \<noteq> CHR ''}''" "\<not> is_space (last s)" shows "nonsync_literal_size s = None"
proof (cases s rule: rev_cases)
  case (snoc t c)
  then have "rstrip_if is_space s = s" using assms rstrip_drop [of is_space "[]" s] by simp
  with snoc assms(1) show ?thesis by (simp add: nonsync_literal_size_def Let_def split: list.split)
qed (simp add: nonsync_literal_size_def rstrip_if_def)

lemma last_join:
  assumes "ws \<noteq> []" "\<And>w. w \<in> set ws \<Longrightarrow> w \<noteq> []"
  shows "py_join sep ws \<noteq> [] \<and> last (py_join sep ws) = last (last ws)"
  using assms by (induction ws) (auto simp: py_join_Cons)

lemma enable_forwardable:
  assumes "set tag \<inter> {CHR 0x0D, CHR 0x0A, CHR 0x00, sp} = {}" "tag \<noteq> []" "kept \<noteq> []"
    "\<forall>a \<in> set kept. py_upper a \<in> set ENABLE_ALLOWED"
  shows "forwardable (tag @ '' ENABLE '' @ py_join '' '' kept @ crlf)"
proof -
  let ?b = "tag @ '' ENABLE '' @ py_join '' '' kept"
  have letters: "set a \<subseteq> {c. 65 \<le> code_pt c \<and> code_pt c \<le> 122}" "a \<noteq> []" if "a \<in> set kept" for a
  proof -
    have u: "py_upper a = ''CONDSTORE''" using assms(4) that by (auto simp: ENABLE_ALLOWED_def)
    then show "a \<noteq> []" by (auto simp: py_upper_def)
    have "list_all (\<lambda>c. 65 \<le> code_pt c \<and> code_pt c \<le> 90) ''CONDSTORE''" by code_simp
    then have "list_all (\<lambda>c. 65 \<le> code_pt (upper_char c) \<and> code_pt (upper_char c) \<le> 90) a"
      unfolding u [symmetric] by (simp add: py_upper_def list_all_iff)
    moreover have "65 \<le> code_pt c \<and> code_pt c \<le> 122"
      if "65 \<le> code_pt (upper_char c) \<and> code_pt (upper_char c) \<le> 90" for c
      using that by (simp split: if_splits)
    ultimately show "set a \<subseteq> {c. 65 \<le> code_pt c \<and> code_pt c \<le> 122}" unfolding list_all_iff by blast
  qed
  have join: "set (py_join '' '' ws) \<subseteq> {sp} \<union> (\<Union>w \<in> set ws. set w)" for ws
    by (induction ws) (auto simp: py_join_Cons sp_def)
  have mid: "c \<notin> set ('' ENABLE '' @ py_join '' '' kept)" if "c \<in> {CHR 0x0D, CHR 0x0A, CHR 0x00}" for c
    using that join [of kept] letters by (fastforce simp: sp_def code_pt_def)
  then have clean: "c \<notin> set ?b" if "c \<in> {CHR 0x0D, CHR 0x0A, CHR 0x00}" for c using assms(1) that by auto
  have body: "line_body (?b @ crlf) = ?b" using clean by (intro line_body_crlf) auto
  have "py_join '' '' kept \<noteq> [] \<and> last (py_join '' '' kept) = last (last kept)"
    using assms(3) letters(2) by (rule last_join)
  then have "last ?b = last (last kept)" by simp
  moreover have "last (last kept) \<in> set (last kept)" "last kept \<in> set kept" using assms(3) letters(2) by simp_all
  ultimately have "65 \<le> code_pt (last ?b)" "code_pt (last ?b) \<le> 122" using letters(1) [of "last kept"] by auto
  then have stop: "last ?b \<noteq> CHR ''}''" "\<not> is_space (last ?b)" by (auto simp: code_pt_def is_space_def)
  then have "nonsync_literal_size ?b = None"
    by (intro nonsync_none) simp_all
  moreover have "server_verb ?b = ''ENABLE''"
  proof -
    have "sp \<notin> set ''ENABLE''" by code_simp
    then have "sp_words (''ENABLE'' @ sp # py_join '' '' kept) = ''ENABLE'' # sp_words (py_join '' '' kept)"
      using sp_words_sep [of "''ENABLE''" "py_join '' '' kept"] by simp
    then have "sp_words (tag @ sp # ''ENABLE'' @ sp # py_join '' '' kept) = tag # ''ENABLE'' # sp_words (py_join '' '' kept)"
      using assms(1,2) by (subst sp_words_sep) auto
    moreover have "?b = tag @ sp # ''ENABLE'' @ sp # py_join '' '' kept" by (simp add: sp_def)
    moreover have "py_upper ''ENABLE'' = ''ENABLE''" by code_simp
    ultimately show ?thesis by (simp add: server_verb_def split: list.split)
  qed
  moreover have "''ENABLE'' \<in> set command_verbs" by code_simp
  moreover have "CHR 0x0A \<notin> set (butlast (?b @ crlf))" using clean by (simp add: crlf_def butlast_append)
  ultimately show ?thesis using body clean unfolding forwardable_def has_bare_cr_or_nul_def by simp
qed

lemma forwarded_forwardable:
  assumes "forwarded line inp st res" "CHR 0x0A \<notin> set (butlast line)"
  shows "\<exists>b. px_sent (snd res) = px_sent st @ [To_upstream b] \<and> forwardable b"
proof -
  obtain p b where *: "parse_line (rstrip_crlf (py_decode line)) = Some p" "classify p = Read"
      "\<not> has_bare_cr_or_nul line" "nonsync_literal_size (rstrip_crlf (py_decode line)) = None"
      "forwarded_bytes p line b" "px_sent (snd res) = px_sent st @ [To_upstream b]"
    using assms(1) unfolding forwarded_def by blast
  define raw where "raw = py_decode (line_body line)"
  have raw: "rstrip_crlf (py_decode line) = raw" unfolding raw_def by (rule clean_line_raw [OF *(3) assms(2)])
  have clean: "CHR 0x0D \<notin> set raw" "CHR 0x00 \<notin> set raw" "CHR 0x0A \<notin> set raw"
    using clean_line(1-3) [OF *(3) assms(2)] by (simp_all add: raw_def ascii_in_decode code_pt_def)
  have "forwardable line"
  proof -
    have "server_verb (line_body line) \<in> set command_verbs" if "only_sp (line_body line)"
    proof -
      have "only_sp raw"
        using that space_ascii(1) ascii_in_decode by (fastforce simp: only_sp_def raw_def list_all_iff)
      then have "pc_command p = server_verb raw" using parse_line_server_verb *(1) raw by blast
      moreover have "pc_command p \<in> set command_verbs"
        using *(2) by (auto simp: classify_def command_verbs_def split: if_splits)
      ultimately show ?thesis using server_verb_decode [of "line_body line"] by (simp add: raw_def)
    qed
    moreover have "nonsync_literal_size (line_body line) = None"
      using *(4) nonsync_decode raw unfolding raw_def by simp
    ultimately show ?thesis using *(3) assms(2) by (simp add: forwardable_def)
  qed
  moreover have "forwardable (pc_tag p @ '' ENABLE '' @ py_join '' '' (filter_enable_args (pc_args p)) @ crlf)"
    if "pc_command p = ''ENABLE''" "filter_enable_args (pc_args p) \<noteq> []"
  proof (rule enable_forwardable)
    have "pc_tag p \<in> set (py_split raw)"
      using *(1) that(1) unfolding raw by (auto simp: parse_line_def Let_def split: if_splits intro!: nth_mem)
    then have t: "set (pc_tag p) \<subseteq> set raw" "\<forall>c \<in> set (pc_tag p). \<not> is_space c" "pc_tag p \<noteq> []"
      using py_split_subset py_split_tokens by blast+
    show "set (pc_tag p) \<inter> {CHR 0x0D, CHR 0x0A, CHR 0x00, sp} = {}"
      using t(1,2) clean by (auto simp: sp_def is_space_def code_pt_def)
    show "pc_tag p \<noteq> []" by (rule t(3))
    show "filter_enable_args (pc_args p) \<noteq> []" by (rule that(2))
    show "\<forall>a \<in> set (filter_enable_args (pc_args p)). py_upper a \<in> set ENABLE_ALLOWED"
      by (simp add: filter_enable_args_def)
  qed
  ultimately show ?thesis using *(5,6) by (auto simp: forwarded_bytes_def split: if_splits)
qed

definition safe_send :: "sent \<Rightarrow> bool" where
  "safe_send x = (case x of To_client b \<Rightarrow> True | To_upstream b \<Rightarrow> forwardable b)"

lemma safe_to_client: "to_client xs \<Longrightarrow> list_all safe_send xs"
  by (auto simp: to_client_def safe_send_def list_all_iff split: sent.splits)

lemma command_sends:
  assumes "CHR 0x0A \<notin> set (butlast line)"
  shows "\<exists>xs. px_sent (snd (client_command pe line inp st)) = px_sent st @ xs \<and> list_all safe_send xs"
  using command_outcome [of line inp st pe] forwarded_forwardable [OF _ assms]
  by (fastforce simp: answered_def safe_to_client safe_send_def)

section \<open>Properties\<close>

text \<open>C28: no command is left hanging: when the proxy goes on to the next line, the line before was
  blank, was forwarded as a read, or was answered with one tagged response carrying its own tag.\<close>

theorem every_command_answered:
  assumes "client_command pe line inp st = (Some rest, st')"
  shows "\<exists>xs. px_sent st' = px_sent st @ xs
    \<and> (xs = [] \<and> py_strip (rstrip_crlf (py_decode line)) = []
       \<or> (\<exists>b. xs = [To_upstream b])
       \<or> (\<exists>pre b. xs = pre @ [To_client b] \<and> is_answer (command_tag line) b \<and> (pre = [] \<or> pre = [ready])))"
  using command_outcome [of line inp st pe] assms by (auto simp: answered_def forwarded_def)

section \<open>Samples\<close>

definition sample_draw :: draw where
  "sample_draw = \<lparr>dr_clk = (\<lambda>k. 100), dr_mono = (\<lambda>k. 7), dr_op_id = ''op_9'', dr_flush_id = ''op_8'', dr_batch = ''b'',
     dr_flush_batch = ''f''\<rparr>"

definition sample_penv :: penv where
  "sample_penv = \<lparr>pe_env = sample_env, pe_decide = (\<lambda>row owner d. Inr None), pe_draw = (\<lambda>k. sample_draw),
     pe_gone = (\<lambda>xs. False), pe_mail = (\<lambda>b. None), pe_words = Some\<rparr>"

definition sample_connection :: connection where
  "sample_connection = \<lparr>cn_folder = Some ''INBOX'', cn_folder_id = Some 1, cn_select_lines = [], cn_in_select = False,
     cn_revert_trigger_tag = None, cn_agent_id = Some 1, cn_user_id = Some 1, cn_search_uid_mode = False,
     cn_capability_tag = None, cn_provider_profile = Some GMAIL_PROFILE, cn_pending_copy_intent = None,
     cn_special_use = Some Map.empty\<rparr>"

definition sample_proxy :: "db \<Rightarrow> proxy" where
  "sample_proxy d = \<lparr>px_conn = sample_connection, px_batches = [], px_world = sample_world\<lparr>w_db := d\<rparr>, px_sent = [],
     px_turn = 0\<rparr>"

lemma every_command_answered_witness:
  "\<exists>xs. px_sent (snd (client_command sample_penv ''a1 EXPUNGE'' [] (sample_proxy empty_db))) = [] @ xs
    \<and> (xs = [] \<and> py_strip (rstrip_crlf (py_decode ''a1 EXPUNGE'')) = []
       \<or> (\<exists>b. xs = [To_upstream b])
       \<or> (\<exists>pre b. xs = pre @ [To_client b] \<and> is_answer (command_tag ''a1 EXPUNGE'') b \<and> (pre = [] \<or> pre = [ready])))"
proof -
  have c: "has_bare_cr_or_nul ''a1 EXPUNGE'' = False" "nonsync_literal_size ''a1 EXPUNGE'' = None"
    "rstrip_crlf (py_decode ''a1 EXPUNGE'') = ''a1 EXPUNGE''"
    "map_option classify (parse_line ''a1 EXPUNGE'') = Some Blocked"
    by code_simp+
  then obtain p where p: "parse_line ''a1 EXPUNGE'' = Some p" "classify p = Blocked" by blast
  have "client_command sample_penv ''a1 EXPUNGE'' [] (sample_proxy empty_db)
      = (Some [], snd (client_command sample_penv ''a1 EXPUNGE'' [] (sample_proxy empty_db)))"
    unfolding client_command_def Let_def c by (simp add: c p reply_def emit_def Let_def sample_penv_def)
  from every_command_answered [OF this] show ?thesis by (simp add: sample_proxy_def)
qed

end
