(* ===== verification/Proxy_Laws.thy ===== *)
theory Proxy_Laws
  imports Proxy_Client Lifecycle Mirror
begin

text \<open>
  What the client side does to the database.  A relation that staging for the session's agent and the
  mirror's operations respect holds between the state before and after any command, and so after any run
  of the client loop; the audit chain, the lifecycle of operations, their ownership and the keys of the
  mirror are such relations.
\<close>

section \<open>Whose session it is\<close>

definition owner :: "proxy \<Rightarrow> nat option \<times> nat option" where
  "owner st = (cn_agent_id (px_conn st), cn_user_id (px_conn st))"

lemma set_conn_simps [simp]:
  "px_conn (set_conn f st) = f (px_conn st)" "px_conn (set_db d st) = px_conn st"
  "px_conn (snd (open_batch pe folder tk k st)) = px_conn st" "px_conn (snd (emit pe x inp st)) = px_conn st"
  "px_conn (snd (reply pe tag text inp st)) = px_conn st" "px_conn (snd (stage pe i clk rq st)) = px_conn st"
  by (auto simp: set_conn_def set_db_def open_batch_def emit_def reply_def stage_def Let_def split: prod.splits)

lemma owner_kept [simp]:
  "owner (set_db d st) = owner st" "owner (snd (open_batch pe folder tk k st)) = owner st"
  "owner (snd (emit pe x inp st)) = owner st" "owner (snd (reply pe tag text inp st)) = owner st"
  "owner (snd (stage pe i clk rq st)) = owner st" "owner (snd (load_special_use st)) = owner st"
  "owner (snd (known_folder_id pe p op st)) = owner st" "owner (snd (write_operation p st)) = owner st"
  by (auto simp: owner_def load_special_use_def known_folder_id_def write_operation_def Let_def split_beta
      split: option.split)

lemma owner_flush [simp]: "owner (flush_held pe held st) = owner st"
  by (simp add: flush_held_def owner_def Let_def split_beta)

lemma owner_prepare [simp]: "owner (snd (prepare_write pe p op st)) = owner st"
proof -
  have "owner (snd (optimistic_flags pe p op fid st)) = owner st" for fid st
    by (simp add: optimistic_flags_def split_beta split: option.split)
  then show ?thesis by (simp add: prepare_write_def Let_def split_beta)
qed

lemma owner_stage_write [simp]: "owner (snd (stage_write pe p op st)) = owner st"
  by (simp add: stage_write_def split_beta)

lemma agent_of: "cn_agent_id (px_conn st) = fst (owner st)"
  by (simp add: owner_def)

lemma owner_write [simp]: "owner (snd (handle_write pe p raw inp st)) = owner st"
proof -
  have h: "owner (snd (hold_copy pe p inp s)) = owner s" for s
    by (auto simp: hold_copy_def Let_def owner_def split: option.split)
  then show ?thesis by (simp add: handle_write_def Let_def split_beta split: option.split)
qed

lemma owner_discarding [simp]: "owner (snd (refuse_discarding pe line tag msg inp st)) = owner st"
  by (simp add: refuse_discarding_def split: discarded.split)

lemma owner_stage_append [simp]: "owner (snd (stage_append pe tag raw data inp st)) = owner st"
  by (simp add: stage_append_def Let_def split_beta)

lemma owner_append [simp]: "owner (snd (handle_append pe tag raw inp st)) = owner st"
proof -
  obtain r st1 where e: "emit pe ready inp st = (r, st1)" by force
  then have "owner st1 = owner st" using owner_kept(3) by (metis snd_conv)
  then show ?thesis by (simp add: handle_append_def e Let_def split: option.split prod.split)
qed

lemma owner_command [simp]: "owner (snd (client_command pe line inp st)) = owner st"
proof -
  have r: "owner (snd (handle_read pe p line inp st)) = owner st" for p
    by (simp add: handle_read_def Let_def owner_def track_tags_def track_select_def track_search_def)
  show ?thesis
    by (simp add: client_command_def handle_sync_literal_def handle_rejected_def Let_def r split: option.split action.split)
qed

section \<open>Relations a connection respects\<close>

locale connection_relation =
  fixes R :: "db \<Rightarrow> db \<Rightarrow> bool" and pe :: penv and a :: "nat option"
  assumes refl [simp]: "R d d" and trans: "R d d' \<Longrightarrow> R d' d'' \<Longrightarrow> R d d''"
    and create: "rq_agent_id rq = a
      \<Longrightarrow> R (w_db w) (w_db (snd (create_operation (pe_env pe) (pe_decide pe) clk i rq w)))"
    and folder: "R d (snd (get_or_create_folder name u now d))"
    and flags: "apply_optimistic_flag_update f s add rem now d = Some d' \<Longrightarrow> R d d'"
    and removal: "remove_messages_from_folder f s d = Some d' \<Longrightarrow> R d d'"
    and stats: "R d (snd (update_folder_stats name u ex rec uidv uidn uns now d))"
    and listed: "R d (upsert_folders_from_list names u su now d)"
    and message: "R d (upsert_message f uid sq fl sj sn dt sz mid now d)"
    and delivered: "R d (mark_reverts_delivered ids now d)"

lemma db_kept_px [simp]:
  "px_db (set_conn f st) = px_db st" "px_db (set_db d st) = d" "px_db (snd (open_batch pe folder tk k st)) = px_db st"
  "px_db (snd (load_special_use st)) = px_db st" "px_db (snd (emit pe x inp st)) = px_db st"
  "px_db (snd (write_operation p st)) = px_db st" "px_db (snd (reply pe tag text inp st)) = px_db st"
  by (auto simp: set_conn_def set_db_def open_batch_def load_special_use_def emit_def reply_def write_operation_def
      Let_def split: prod.splits option.splits)

lemma requests_agent [simp]:
  "rq_agent_id (imap_request c kind txt command) = cn_agent_id c"
  "rq_agent_id (append_request c op intent data bid) = cn_agent_id c"
  "rq_agent_id (flush_request c held bid) = cn_agent_id c"
  "rq_agent_id (write_request c op txt intent snap bid) = cn_agent_id c"
  "rq_agent_id (generic_request c p raw) = cn_agent_id c"
  by (simp_all add: imap_request_def append_request_def flush_request_def write_request_def generic_request_def Let_def)

lemma prepared_agent [simp]: "rq_agent_id (fst (prepare_write pe p op st)) = cn_agent_id (px_conn st)"
proof -
  have "owner (snd (optimistic_flags pe p op fid st)) = owner st" for fid st
    by (simp add: optimistic_flags_def split_beta split: option.split)
  then show ?thesis by (simp add: prepare_write_def Let_def split_beta agent_of)
qed

context connection_relation
begin

lemma staged: "rq_agent_id rq = a \<Longrightarrow> R (px_db st) (px_db (snd (stage pe i clk rq st)))"
  using create [of rq "px_world st" clk i] by (simp add: stage_def split_beta)

lemma flush: "fst (owner st) = a \<Longrightarrow> R (px_db st) (px_db (flush_held pe held st))"
  using staged [where st = "snd (open_batch pe (folder_or_inbox (px_conn st)) (dr_flush_batch (turn pe st)) 2 st)"]
  by (simp add: flush_held_def Let_def split_beta agent_of)

lemma prepared: "R (px_db st) (px_db (snd (prepare_write pe p op st)))"
proof -
  have known: "R (px_db st) (px_db (snd (known_folder_id pe p op st)))" for st
    by (simp add: known_folder_id_def split_beta folder)
  have snap: "R d (snd (flag_snapshot i op now d))" for i op now d
    by (auto simp: flag_snapshot_def Let_def intro: flags split: option.split)
  have flagged: "R (px_db st) (px_db (snd (optimistic_flags pe p op fid st)))" for fid st
    by (simp add: optimistic_flags_def split_beta snap split: option.split)
  have hidden: "R d (snd (hide_moved fid op snp d))" for fid op snp d
    using removal by (auto simp: hide_moved_def the_default_def split: option.split list.split)
  show ?thesis
    by (simp add: prepare_write_def Let_def split_beta) (meson trans known flagged hidden)
qed

lemma write_staged: "fst (owner st) = a \<Longrightarrow> R (px_db st) (px_db (snd (stage_write pe p op st)))"
  unfolding stage_write_def split_beta Let_def by (rule trans [OF prepared staged]) (simp add: agent_of)

lemma written:
  assumes "fst (owner st) = a" shows "R (px_db st) (px_db (snd (handle_write pe p raw inp st)))"
proof -
  define st1 where "st1 = (case cn_pending_copy_intent (px_conn st) of
      Some held \<Rightarrow> if is_store_deleted p then st else flush_held pe held st | None \<Rightarrow> st)"
  have st1: "R (px_db st) (px_db st1)" "fst (owner st1) = a"
    using assms by (simp_all add: st1_def flush split: option.split)
  have "R (px_db st1) (px_db (snd (case fst (write_operation p st1) of
      Some op \<Rightarrow> stage_write pe p op (snd (write_operation p st1))
    | None \<Rightarrow> stage pe i clk (generic_request (px_conn (snd (write_operation p st1))) p raw) (snd (write_operation p st1)))))"
    for i clk
    using write_staged [where st = "snd (write_operation p st1)"] staged [where st = "snd (write_operation p st1)"] st1(2)
    by (simp add: agent_of split: option.split)
  from trans [OF st1(1) this] st1(1) show ?thesis
    unfolding handle_write_def Let_def st1_def [symmetric]
    by (simp add: split_beta hold_copy_def Let_def split: option.split)
qed

lemma append_staged:
  "fst (owner st) = a \<Longrightarrow> R (px_db st) (px_db (snd (stage_append pe tag raw data inp st)))"
  using staged [where st = "snd (open_batch pe (append_folder_of raw) (dr_batch (turn pe st)) 0 (snd (load_special_use st)))"]
  by (simp add: stage_append_def Let_def split_beta agent_of)

lemma discarding [simp]: "px_db (snd (refuse_discarding pe line tag msg inp st)) = px_db st"
  by (simp add: refuse_discarding_def split: discarded.split)

lemma append:
  assumes "fst (owner st) = a" shows "R (px_db st) (px_db (snd (handle_append pe tag raw inp st)))"
proof -
  obtain r st1 where e: "emit pe ready inp st = (r, st1)" by force
  then have "px_db st1 = px_db st" "owner st1 = owner st" using db_kept_px(5) owner_kept(3) by (metis snd_conv)+
  then show ?thesis
    using append_staged [where st = st1] assms by (simp add: handle_append_def e Let_def split: option.split prod.split)
qed

lemma command:
  assumes "fst (owner st) = a" shows "R (px_db st) (px_db (snd (client_command pe line inp st)))"
proof -
  have l: "R (px_db st) (px_db (snd (handle_sync_literal pe raw inp st)))" for raw
    using assms by (simp add: handle_sync_literal_def Let_def append)
  have j: "px_db (snd (handle_rejected pe p raw inp st)) = px_db st" for p raw
    by (simp add: handle_rejected_def)
  have r: "px_db (snd (handle_read pe p line inp st)) = px_db st" for p
    by (simp add: handle_read_def Let_def)
  show ?thesis
    using assms by (simp add: client_command_def Let_def l j r written split: option.split action.split)
qed

end

text \<open>A relation between audit logs and operations alone ignores the mirror.\<close>

locale history_relation =
  fixes R :: "db \<Rightarrow> db \<Rightarrow> bool" and pe :: penv and a :: "nat option"
  assumes chain: "R d d' \<Longrightarrow> R d' d'' \<Longrightarrow> R d d''"
    and staging: "rq_agent_id rq = a
      \<Longrightarrow> R (w_db w) (w_db (snd (create_operation (pe_env pe) (pe_decide pe) clk i rq w)))"
    and mirror: "db_audit d' = db_audit d \<Longrightarrow> db_ops d' = db_ops d \<Longrightarrow> R d d'"

lemma mirror_other [simp]:
  "db_audit (snd (get_or_create_folder name u now d)) = db_audit d"
  "db_ops (snd (get_or_create_folder name u now d)) = db_ops d"
  "db_audit (snd (update_folder_stats name u ex rec uidv uidn uns now d)) = db_audit d"
  "db_ops (snd (update_folder_stats name u ex rec uidv uidn uns now d)) = db_ops d"
  "db_audit (upsert_message fid uid sq fl sj sn dt sz mid now d) = db_audit d"
  "db_ops (upsert_message fid uid sq fl sj sn dt sz mid now d) = db_ops d"
  "db_audit (mark_reverts_delivered ids now d) = db_audit d" "db_ops (mark_reverts_delivered ids now d) = db_ops d"
  by (auto simp: update_folder_stats_def upsert_message_def mark_reverts_delivered_def get_or_create_folder_def Let_def
      split_beta split: option.split)

lemma listed_other [simp]:
  "db_audit (upsert_folders_from_list names u roles now d) = db_audit d"
  "db_ops (upsert_folders_from_list names u roles now d) = db_ops d"
  by (induction names arbitrary: d) (auto simp: Let_def split_beta split: option.split)

sublocale history_relation \<subseteq> connection_relation
  by unfold_locales
    (auto intro: chain staging mirror simp: apply_optimistic_flag_update_def remove_messages_from_folder_def)

interpretation chained: history_relation "log_kept (env_digest (pe_env pe))" pe a for pe :: penv and a
  by unfold_locales (auto intro: chain.R_trans log_kept_same log_kept_create)

interpretation tracked: history_relation tracks pe a for pe :: penv and a
  by unfold_locales (auto intro: tracks_trans tracks_same tracks_stage simp: statuses_def)

text \<open>Operations are only added, and carry the agent of the session.\<close>

definition stamps :: "db \<Rightarrow> (string \<times> nat option) list" where
  "stamps d = map (\<lambda>r. (op_id r, op_agent_id r)) (db_ops d)"

definition owned :: "nat option \<Rightarrow> db \<Rightarrow> db \<Rightarrow> bool" where
  "owned a d d' \<longleftrightarrow> (\<exists>ys. stamps d' = stamps d @ ys \<and> list_all (\<lambda>x. snd x = a) ys)"

lemma owned_same: "stamps d' = stamps d \<Longrightarrow> owned a d d'"
  by (simp add: owned_def)

lemma owned_trans: "owned a d d' \<Longrightarrow> owned a d' d'' \<Longrightarrow> owned a d d''"
  by (fastforce simp: owned_def)

interpretation stamped: db_relation "owned a" for a
proof
  fix d d' assume k: "db_kept d d'"
  have "map op_id (db_ops x) = map fst (map (\<lambda>r. (op_id r, op_status r)) (db_ops x))"
    "stamps x = zip (map op_id (db_ops x)) (map op_agent_id (db_ops x))" for x
    by (simp_all add: stamps_def zip_map_map zip_same_conv_map)
  then have "stamps d' = stamps d" using k unfolding db_kept_def by metis
  then show "owned a d d'" by (rule owned_same)
qed (rule owned_trans)

lemma stamps_update [simp]:
  "stamps (insert_audit_event digest e d) = stamps d" "stamps (update_operation_status i st by' err now d) = stamps d"
  "stamps (set_schedule_and_urgency i t u d) = stamps d" "stamps (roll_back i now d) = stamps d"
  by (auto simp: stamps_def update_operation_status_def set_schedule_and_urgency_def set_status_def Let_def
      split: option.split intro!: map_upd_key)

lemma owned_decision: "within (owned a) (apply_auto_rule_decision env clk i row dec)"
proof (rule stamped.within_decision)
  show "within (owned a) (execute_operation env clk ''auto_rule'' i r)" for r
    by (rule stamped.within_execution)
      (simp_all add: owned_same record_execution_failure_def record_rate_exceeded_def record_executed_def)
qed (simp_all add: owned_same apply_reject_def apply_after_def apply_hold_def Let_def)

lemma owned_create:
  "owned (rq_agent_id rq) (w_db w) (w_db (snd (create_operation env decide clk i rq w)))"
proof (rule stamped.within_create)
  show "owned (rq_agent_id rq) (w_db w) d" if "insert_staged env i (clk 20) rq (w_db w) = Some d" for d
    using insert_staged_find(2) [OF that] by (simp add: owned_def stamps_def staged_row_def)
qed (rule owned_decision)

interpretation owned: history_relation "owned a" pe a for pe :: penv and a
  by unfold_locales (auto intro: owned_trans owned_create owned_same simp: stamps_def)

text \<open>The keys of the mirror stay unique.\<close>

definition mirror_kept :: "db \<Rightarrow> db \<Rightarrow> bool" where
  "mirror_kept d d' \<longleftrightarrow> (if mirror_wf d then mirror_wf d' else True)"

lemma mirror_kept_same:
  "db_folders d' = db_folders d \<Longrightarrow> db_folder_seq d' = db_folder_seq d \<Longrightarrow> db_messages d' = db_messages d
   \<Longrightarrow> mirror_kept d d'"
  by (simp add: mirror_kept_def mirror_wf_def folders_wf_def messages_wf_def)

lemma mirror_kept_trans: "mirror_kept d d' \<Longrightarrow> mirror_kept d' d'' \<Longrightarrow> mirror_kept d d''"
  by (simp add: mirror_kept_def split: if_splits)

interpretation keyed: db_relation mirror_kept
  by unfold_locales (auto intro: mirror_kept_trans mirror_kept_same simp: db_kept_def)

lemma mirror_same [simp]:
  "db_folders (insert_audit_event digest e d) = db_folders d" "db_folder_seq (insert_audit_event digest e d) = db_folder_seq d"
  "db_messages (insert_audit_event digest e d) = db_messages d"
  "db_folders (set_schedule_and_urgency i t u d) = db_folders d"
  "db_folder_seq (set_schedule_and_urgency i t u d) = db_folder_seq d"
  "db_messages (set_schedule_and_urgency i t u d) = db_messages d"
  "db_folders (update_operation_status i st by' err now d) = db_folders d"
  "db_folder_seq (update_operation_status i st by' err now d) = db_folder_seq d"
  "db_messages (update_operation_status i st by' err now d) = db_messages d"
  by (simp_all add: insert_audit_event_def insert_with_prev_def set_schedule_and_urgency_def update_operation_status_def Let_def)

lemma reverts_same [simp]:
  "db_folders (insert_pending_reverts rs now d) = db_folders d"
  "db_folder_seq (insert_pending_reverts rs now d) = db_folder_seq d"
  "db_messages (insert_pending_reverts rs now d) = db_messages d"
  by (induction rs now d rule: insert_pending_reverts.induct) (simp_all add: Let_def)

lemma mirror_kept_roll_back: "mirror_kept d (roll_back i now d)"
proof -
  have "mirror_kept d (snd (restore_from_snapshot i now d))"
    using mirror_wf_preserved [of d] by (simp add: mirror_kept_def)
  moreover have "mirror_kept d' (insert_pending_reverts rs now d')" for d' rs by (rule mirror_kept_same) simp_all
  ultimately show ?thesis by (auto simp: roll_back_def split_beta intro: mirror_kept_trans)
qed

lemma mirror_kept_create: "mirror_kept (w_db w) (w_db (snd (create_operation env decide clk i rq w)))"
proof (rule keyed.within_create)
  show "within mirror_kept (apply_auto_rule_decision env clk i row dec)" for row dec
  proof (rule keyed.within_decision)
    show "within mirror_kept (execute_operation env clk ''auto_rule'' i r)" for r
      by (rule keyed.within_execution)
        (simp_all add: mirror_kept_same record_execution_failure_def record_rate_exceeded_def record_executed_def)
    have "mirror_kept d (insert_audit_event digest e (update_operation_status i Rejected_op by' None now d))" for d digest e by' now
      by (simp add: mirror_kept_same)
    then show "mirror_kept d (apply_reject env clk i row dec d)" for d
      unfolding apply_reject_def by (rule mirror_kept_trans [OF _ mirror_kept_roll_back])
  qed (simp_all add: mirror_kept_same apply_after_def apply_hold_def Let_def)
qed (auto simp: insert_staged_def mirror_kept_same split: if_splits)

interpretation mirrored: connection_relation mirror_kept pe a for pe :: penv and a
proof unfold_locales
  show "mirror_kept d d" for d by (simp add: mirror_kept_same)
  show "mirror_kept d d''" if "mirror_kept d d'" "mirror_kept d' d''" for d d' d''
    using that by (rule mirror_kept_trans)
  show "mirror_kept (w_db w) (w_db (snd (create_operation (pe_env pe) (pe_decide pe) clk i rq w)))" for clk i rq w
    by (rule mirror_kept_create)
  show "mirror_kept d (mark_reverts_delivered ids now d)" for ids now d
    by (rule mirror_kept_same) (simp_all add: mark_reverts_delivered_def)
  show "mirror_kept d (snd (get_or_create_folder name u now d))" for name u now d
    using mirror_wf_preserved [of d] by (simp add: mirror_kept_def)
  show "mirror_kept d (snd (update_folder_stats name u ex rec uidv uidn uns now d))" for name u ex rec uidv uidn uns now d
    using mirror_wf_preserved [of d] by (simp add: mirror_kept_def)
  show "mirror_kept d (upsert_folders_from_list names u su now d)" for names u su now d
    using mirror_wf_preserved [of d] by (simp add: mirror_kept_def)
  show "mirror_kept d (upsert_message f uid sq fl sj sn dt sz mid now d)" for f uid sq fl sj sn dt sz mid now d
    using mirror_wf_preserved [of d] by (simp add: mirror_kept_def)
  show "mirror_kept d d'" if "apply_optimistic_flag_update f s add rem now d = Some d'" for f s add rem now d d'
    using mirror_wf_preserved [where d = d and f = f and s = s and add = add and rem = rem and now = now] that by (auto simp: mirror_kept_def the_default_def split: if_splits)
  show "mirror_kept d d'" if "remove_messages_from_folder f s d = Some d'" for f s d d'
    using mirror_wf_preserved [where d = d and f = f and s = s] that by (auto simp: mirror_kept_def the_default_def split: if_splits)
qed

section \<open>A write, then its rejection\<close>

text \<open>Preparing a write changes mirror rows only.\<close>

lemma prepare_write_other:
  "db_ops (px_db (snd (prepare_write pe p op st))) = db_ops (px_db st)"
proof -
  have known: "db_ops (px_db (snd (known_folder_id pe p op st))) = db_ops (px_db st)" for st
    by (simp add: known_folder_id_def split_beta)
  have flagged: "db_ops (px_db (snd (optimistic_flags pe p op fid st))) = db_ops (px_db st)" for fid st
    by (auto simp: optimistic_flags_def flag_snapshot_def apply_optimistic_flag_update_def Let_def split_beta
        split: option.split)
  have hidden: "db_ops (snd (hide_moved fid op snap d)) = db_ops d" for fid op snap d
    by (auto simp: hide_moved_def remove_messages_from_folder_def the_default_def split: option.split list.split)
  show ?thesis by (simp add: prepare_write_def Let_def split_beta known flagged hidden)
qed

lemma audit_insert_messages [simp]: "db_messages (insert_audit_event digest e d) = db_messages d"
  by (simp add: insert_audit_event_def insert_with_prev_def Let_def)

lemma reject_messages:
  assumes "find_op i d = Some r"
  shows "\<exists>d''. db_messages (do_reject env clk i row d) = db_messages (snd (restore_from_snapshot i (clk 12) d''))
    \<and> db_messages d'' = db_messages d \<and> map_option op_snapshot (find_op i d'') = Some (op_snapshot r)"
proof -
  let ?d = "insert_audit_event (env_digest env) (op_event (clk 10) ''rejected'' ''human'' i row None)
      (update_operation_status i Rejected_op ''human'' None (clk 11) d)"
  have "db_messages (do_reject env clk i row d) = db_messages (snd (restore_from_snapshot i (clk 12) ?d))"
    by (simp add: do_reject_def roll_back_def split_beta)
  moreover have "db_messages ?d = db_messages d" by (simp add: update_operation_status_def)
  moreover have "map_option op_snapshot (find_op i ?d) = Some (op_snapshot r)"
    using assms
    by (auto simp: update_operation_status_def find_op_def find_upd_key has_op_def set_status_def Let_def)
  ultimately show ?thesis by blast
qed

lemma stage_no_decision:
  assumes "pe_decide pe = (\<lambda>row owner d. Inr None)" "find_op i (px_db st) = None" "stage pe i clk rq st = (r, st')"
  shows "r = Inr (i, True)" "db_messages (px_db st') = db_messages (px_db st)"
    "find_op i (px_db st') = Some (staged_row i (clk 20) rq)"
proof -
  have "\<not> list_ex (has_op i) (db_ops (px_db st))"
    using assms(2) by (simp add: find_op_def find_None_all list_ex_iff)
  then obtain d where d: "insert_staged (pe_env pe) i (clk 20) rq (px_db st) = Some d" by (simp add: insert_staged_def)
  then have st': "r = Inr (i, True)" "px_db st' = d"
    using assms(1,3) by (auto simp: stage_def create_operation_def Let_def bindE_def lift_res_def ret_def)
  then show "r = Inr (i, True)" "find_op i (px_db st') = Some (staged_row i (clk 20) rq)"
    using insert_staged_find [OF d] by simp_all
  have "db_messages d = db_messages (px_db st)" using d by (auto simp: insert_staged_def split: if_splits)
  then show "db_messages (px_db st') = db_messages (px_db st)" by (simp add: st'(2))
qed

lemma trash_keeps [simp]:
  "po_message_ids (with_trash_folder st op) = po_message_ids op" "po_op_type (with_trash_folder st op) = po_op_type op"
  "po_flags_add (with_trash_folder st op) = po_flags_add op" "po_flags_remove (with_trash_folder st op) = po_flags_remove op"
  by (simp_all add: with_trash_folder_def)

lemma conn_folder [simp]: "cn_folder_id (px_conn st) = Some fid \<Longrightarrow> known_folder_id pe p op st = (Some fid, st)"
  by (simp add: known_folder_id_def)

lemma prepare_move:
  assumes "cn_folder_id (px_conn st) = Some fid" "po_message_ids op = [uids]" "po_op_type op = ''move''"
    "\<not> is_flag_op p op" "snapshot_messages fid uids (px_db st) = Some es"
  shows "rq_snapshot (fst (prepare_write pe p op st)) = Some es"
    "remove_messages_from_folder fid uids (px_db st) = Some (px_db (snd (prepare_write pe p op st)))"
proof -
  obtain d where d: "remove_messages_from_folder fid uids (px_db st) = Some d"
    using assms(5) by (auto simp: remove_messages_from_folder_def snapshot_messages_def)
  have "hide_moved (Some fid) (with_trash_folder st op) None (px_db st) = (Some es, d)"
    using assms(2,3,5) d by (simp add: hide_moved_def the_default_def)
  then show "rq_snapshot (fst (prepare_write pe p op st)) = Some es"
    "remove_messages_from_folder fid uids (px_db st) = Some (px_db (snd (prepare_write pe p op st)))"
    using assms(1,2,4) d
    by (simp_all add: prepare_write_def optimistic_flags_def Let_def split_beta write_request_def)
qed

lemma prepare_flags:
  assumes "cn_folder_id (px_conn st) = Some fid" "po_message_ids op = [uids]" "po_op_type op \<noteq> ''move''"
    "is_flag_op p op" "snapshot_messages fid uids (px_db st) = Some es" "es \<noteq> []"
  shows "rq_snapshot (fst (prepare_write pe p op st)) = Some es"
    "apply_optimistic_flag_update fid uids (po_flags_add op) (po_flags_remove op) (dr_clk (turn pe st) 31) (px_db st)
       = Some (px_db (snd (prepare_write pe p op st)))"
proof -
  obtain d where d: "apply_optimistic_flag_update fid uids (po_flags_add op) (po_flags_remove op)
      (dr_clk (turn pe st) 31) (px_db st) = Some d"
    using assms(5) by (auto simp: apply_optimistic_flag_update_def snapshot_messages_def)
  have "flag_snapshot fid op (dr_clk (turn pe st) 31) (px_db st) = (Some es, d)"
    using assms(2,5,6) d by (simp add: flag_snapshot_def)
  then show "rq_snapshot (fst (prepare_write pe p op st)) = Some es"
    "apply_optimistic_flag_update fid uids (po_flags_add op) (po_flags_remove op) (dr_clk (turn pe st) 31) (px_db st)
       = Some (px_db (snd (prepare_write pe p op st)))"
    using assms(1-4) d
    by (simp_all add: prepare_write_def optimistic_flags_def Let_def split_beta write_request_def hide_moved_def
        split: list.split)
qed

section \<open>Properties\<close>


text \<open>C33: a COPY to an archive folder, followed by marking the same messages deleted, is one MOVE: the
  COPY stages nothing, and the STORE stages and answers exactly what the MOVE would.\<close>

theorem copy_store_is_move:
  assumes "cn_pending_copy_intent (px_conn st) = None" "cn_provider_profile (px_conn st) = Some pr"
    and "is_archive_copy (Some pr) c" "pc_args c = uids # dest" "handle_write pe c raw inp st = (Some rest, st1)"
    and "is_store_deleted s" "pc_uid s" "hd (pc_args s) = uids"
    and "m = \<lparr>pc_tag = pc_tag s, pc_command = ''MOVE'', pc_uid = True, pc_args = uids # dest, pc_raw = raw'\<rparr>"
  shows "px_world st1 = px_world st
    \<and> handle_write pe s raw2 inp2 st1
        = handle_write pe m raw3 inp2 (set_conn (\<lambda>cn. cn\<lparr>cn_pending_copy_intent := None\<rparr>) st1)"
proof -
  define held where "held = \<lparr>pci_tag = pc_tag c, pci_uid_set = uids, pci_destination = copy_folder c\<rparr>"
  have hold: "hold_copy pe c inp st = (Some rest, st1)"
    using assms(1-3,5) by (simp add: handle_write_def Let_def)
  have st1: "st1 = snd (reply pe (pc_tag c) ''OK COPY completed'' inp
      (set_conn (\<lambda>cn. cn\<lparr>cn_pending_copy_intent := Some held\<rparr>) st))"
    using hold assms(2,4) by (simp add: hold_copy_def Let_def held_def arg_or_def)
  then have conn: "px_conn st1 = (px_conn st)\<lparr>cn_pending_copy_intent := Some held\<rparr>" "px_world st1 = px_world st"
    by (simp_all add: reply_def emit_def Let_def set_conn_def)
  have dest: "copy_folder c = destination_of ''?'' (uids # dest)" "dest \<noteq> []"
    using assms(3,4) by (auto simp: is_archive_copy_def copy_folder_def destination_of_def)
  let ?st2 = "set_conn (\<lambda>cn. cn\<lparr>cn_pending_copy_intent := None\<rparr>) st1"
  let ?op = "parse_move (pc_tag s) uids (copy_folder c)"
  have cmd: "py_upper (pc_command s) = ''STORE''" "pc_args s \<noteq> []" using assms(6) by (auto simp: is_store_deleted_def)
  have "\<not> is_flag_op q ?op" for q by (simp add: is_flag_op_def parse_move_def Let_def new_operation_def)
  then have "known_folder_id pe s ?op = known_folder_id pe m ?op" "optimistic_flags pe s ?op = optimistic_flags pe m ?op"
    by (simp_all add: fun_eq_iff known_folder_id_def optimistic_flags_def split: option.split)
  then have same: "stage_write pe s ?op = stage_write pe m ?op"
    by (simp add: fun_eq_iff stage_write_def prepare_write_def)
  have s: "write_operation s st1 = (Some ?op, ?st2)"
    using assms(6,8) cmd conn by (simp add: write_operation_def held_def)
  have upper: "py_upper ''MOVE'' = ''MOVE''" by code_simp
  have m: "write_operation m ?st2 = (Some ?op, ?st2)" "\<not> is_store_deleted m" "\<not> is_archive_copy q m" for q
    using dest upper by (simp_all add: write_operation_def set_conn_def assms(9) build_parsed_op_def arg_or_def
        is_store_deleted_def is_archive_copy_def)
  have "\<not> is_archive_copy q s" for q using cmd by (simp add: is_archive_copy_def)
  then show ?thesis
    using s m same conn assms(6,7,9) upper by (simp add: handle_write_def Let_def set_conn_def)
qed

section \<open>Samples\<close>


lemma copy_store_is_move_witness:
  "px_world (snd (handle_write sample_penv
       \<lparr>pc_tag = ''c1'', pc_command = ''COPY'', pc_uid = True, pc_args = [''7'', ''[Gmail]/Trash''], pc_raw = []\<rparr> [] []
       (sample_proxy sample_db))) = px_world (sample_proxy sample_db)"
proof -
  let ?c = "\<lparr>pc_tag = ''c1'', pc_command = ''COPY'', pc_uid = True, pc_args = [''7'', ''[Gmail]/Trash''], pc_raw = []\<rparr>"
  let ?s = "\<lparr>pc_tag = ''c2'', pc_command = ''STORE'', pc_uid = True, pc_args = [''7'', ''+FLAGS'', ''(Deleted)''], pc_raw = []\<rparr>"
  let ?st = "sample_proxy sample_db"
  have conn: "cn_pending_copy_intent (px_conn ?st) = None" "cn_provider_profile (px_conn ?st) = Some GMAIL_PROFILE"
    by (simp_all add: sample_proxy_def sample_connection_def)
  have arch: "is_archive_copy (Some GMAIL_PROFILE) ?c" "is_store_deleted ?s" by code_simp+
  have "handle_write sample_penv ?c [] [] ?st = (Some [], snd (handle_write sample_penv ?c [] [] ?st))"
    using conn arch(1) by (simp add: handle_write_def hold_copy_def reply_def emit_def Let_def sample_penv_def)
  from copy_store_is_move [OF conn arch(1) _ this arch(2) _ _ refl] show ?thesis by simp
qed

end
