(* ===== verification/Proxy_Server.thy ===== *)
theory Proxy_Server
  imports Proxy_Laws Response_Parser "HOL-Library.Char_ord" "HOL-Library.List_Lexorder"
begin

text \<open>
  The server side of an IMAP connection after login (\<open>gateway/proxy.py\<close>, \<open>_upstream_to_client\<close>): each
  line of the server is adjusted to what the agent's pending operations make of the mailbox, forwarded
  and used to keep the mirror up to date.  The input is the list of what successive reads return; the
  session and the database are shared with the client side.  One line is one step.
\<close>

section \<open>What is pending\<close>

text \<open>The UIDs of \<open>get_pending_move_uids_for_folder\<close>, each once.\<close>

definition entry_uids :: "string \<Rightarrow> int list" where
  "entry_uids entry =
     (let s = py_strip entry
      in if py_isdigit s then [int (nat_of_str s)]
         else case digits_range s of Some (lo, hi) \<Rightarrow> [lo..hi] | None \<Rightarrow> [])"

definition pending_move_uids :: "string \<Rightarrow> nat option \<Rightarrow> db \<Rightarrow> int list" where
  "pending_move_uids folder agent_id d =
     remdups (concat (map (\<lambda>r. concat (map entry_uids (list_or_empty (op_message_ids r))))
       (filter (\<lambda>r. pending_of_agent folder agent_id r \<and> op_type r = ''move'') (db_ops d))))"

text \<open>Those of the selected folder, and none when no folder is selected.\<close>

definition hidden_uids :: "proxy \<Rightarrow> int list" where
  "hidden_uids st =
     (if truthy (cn_folder (px_conn st))
      then pending_move_uids (or_empty (cn_folder (px_conn st))) (cn_agent_id (px_conn st)) (px_db st) else [])"

section \<open>Pending reverts\<close>

definition revert_line :: "nat \<Rightarrow> db \<Rightarrow> revert_row \<Rightarrow> string" where
  "revert_line folder_id d r =
     (let seq = (case get_message folder_id (rv_uid r) d of
                   Some m \<Rightarrow> (case me_sequence_num m of Some n \<Rightarrow> if n = 0 then 1 else n | None \<Rightarrow> 1)
                 | None \<Rightarrow> 1)
      in ''* '' @ str_of_nat seq @ '' FETCH (UID '' @ str_of_int (rv_uid r) @ '' FLAGS (''
           @ py_join '' '' (rv_true_flags r) @ ''))'' @ crlf)"

definition inject_pending_reverts :: "penv \<Rightarrow> proxy \<Rightarrow> proxy" where
  "inject_pending_reverts pe st =
     (case cn_folder_id (px_conn st) of
        None \<Rightarrow> st
      | Some fid \<Rightarrow>
          let rs = get_pending_reverts fid (px_db st);
              st1 = st\<lparr>px_sent := px_sent st @ map (\<lambda>r. To_client (revert_line fid (px_db st) r)) rs\<rparr>
          in if rs = [] then st
             else if pe_gone pe (px_sent st1) then st1
             else set_db (mark_reverts_delivered (map rv_id rs) (dr_clk (turn pe st) 40) (px_db st1)) st1)"

section \<open>Keeping the mirror up to date\<close>

definition RE_SELECT_UNTAGGED :: "rx list" where
  "RE_SELECT_UNTAGGED = rx_ilit ''* ''
     @ [Alt (rx_digits @ rx_ilit '' '' @ [Alt (rx_ilit ''EXISTS'') (rx_ilit ''RECENT'')])
            (rx_ilit ''OK ['' @ [Alt (rx_ilit ''UIDVALIDITY'') [Alt (rx_ilit ''UIDNEXT'') [Alt (rx_ilit ''UNSEEN'')
               [Alt (rx_ilit ''PERMANENTFLAGS'') (rx_ilit ''FLAGS'')]]]])]"

definition is_alnum :: "char \<Rightarrow> bool" where
  "is_alnum c \<longleftrightarrow> is_word c \<and> c \<noteq> CHR ''_''"

definition RE_SELECT_OK :: "rx list" where
  "RE_SELECT_OK = rx_some is_alnum @ rx_ilit '' OK [READ-'' @ [Alt (rx_ilit ''WRITE'') (rx_ilit ''ONLY'')] @ rx_ilit '']''"

definition RE_LIST_LINE :: "rx list" where
  "RE_LIST_LINE = rx_ilit ''* LIST'' @ [WordB]"

definition RE_FETCH_LINE :: "rx list" where
  "RE_FETCH_LINE = rx_ilit ''* '' @ rx_digits @ rx_ilit '' FETCH'' @ [WordB]"

definition RE_ENDS_LITERAL :: "rx list" where
  "RE_ENDS_LITERAL = rx_ilit ''{'' @ rx_digits @ rx_ilit ''}'' @ [Eol]"

definition sync_select :: "penv \<Rightarrow> proxy \<Rightarrow> proxy" where
  "sync_select pe st =
     (let c = px_conn st; info = parse_select_response (cn_select_lines c);
          (i, d) = update_folder_stats (or_empty (cn_folder c)) (cn_user_id c) (si_exists info) (si_recent info)
             (si_uidvalidity info) (si_uidnext info) (si_unseen info) (dr_clk (turn pe st) 41) (px_db st)
      in set_conn (\<lambda>c. c\<lparr>cn_select_lines := [], cn_in_select := False, cn_folder_id := Some i\<rparr>) (set_db d st))"

definition listed_roles :: "listed_folder list \<Rightarrow> (string \<times> string) list" where
  "listed_roles fs =
     List.map_filter (\<lambda>f. map_option (Pair (lf_name f)) (role_from_list_attributes (lf_attributes f))) fs"

definition sync_list :: "penv \<Rightarrow> string \<Rightarrow> proxy \<Rightarrow> proxy" where
  "sync_list pe line st =
     (let fs = parse_list_folders [line]; roles = listed_roles fs;
          d = upsert_folders_from_list (map lf_name fs) (cn_user_id (px_conn st)) (map_of (rev roles))
                (dr_clk (turn pe st) 42) (px_db st);
          cache = (\<lambda>su. map_add (the_default Map.empty su) (map_of (rev (map (map_prod py_lower id) roles))))
      in if fs = [] then st
         else set_conn (\<lambda>c. if roles = [] then c else c\<lparr>cn_special_use := Some (cache (cn_special_use c))\<rparr>) (set_db d st))"

definition sync_fetch :: "penv \<Rightarrow> string \<Rightarrow> proxy \<Rightarrow> proxy" where
  "sync_fetch pe line st =
     (if re_search RE_ENDS_LITERAL line \<noteq> None then st
      else case (cn_folder_id (px_conn st), parse_fetch_line line) of
        (Some fid, Some info) \<Rightarrow>
          (case fi_uid info of
             None \<Rightarrow> st
           | Some uid \<Rightarrow> set_db (upsert_message fid (int uid) (Some (fi_seq_num info)) (Some (fi_flags info))
               (fi_subject info) (fi_sender info) None (fi_size info) (fi_message_id info)
               (dr_clk (turn pe st) 43) (px_db st)) st)
      | _ \<Rightarrow> st)"

definition sync_upstream_line :: "penv \<Rightarrow> string \<Rightarrow> proxy \<Rightarrow> proxy" where
  "sync_upstream_line pe raw_line st =
     (let line = rstrip_crlf raw_line; c = px_conn st
      in if py_startswith line ''* '' \<and> cn_in_select c
         then set_conn (\<lambda>c. c\<lparr>cn_select_lines := cn_select_lines c @ [line]\<rparr>) st
         else if re_match RE_SELECT_UNTAGGED line \<noteq> None
         then set_conn (\<lambda>c. c\<lparr>cn_select_lines := cn_select_lines c @ [line], cn_in_select := True\<rparr>) st
         else if re_match RE_SELECT_OK line \<noteq> None \<and> cn_in_select c \<and> truthy (cn_folder c) then sync_select pe st
         else if re_match RE_LIST_LINE line \<noteq> None then sync_list pe line st
         else if re_match RE_FETCH_LINE line \<noteq> None then sync_fetch pe line st
         else st)"

section \<open>Substituting the flags\<close>

text \<open>
  The replacement text of \<open>re.sub\<close> is a template: a backslash starts an escape.  A letter that no
  escape uses, a group of its own or a missing one raises (\<open>None\<close>); \<open>g<0>\<close> is the whole match.  A
  character beyond ASCII is two bytes.
\<close>

definition latin1 :: "nat \<Rightarrow> string" where
  "latin1 n = (if n < 128 then [char_of n] else [char_of (192 + n div 64), char_of (128 + n mod 64)])"

definition is_octal :: "char \<Rightarrow> bool" where
  "is_octal c \<longleftrightarrow> 48 \<le> code_pt c \<and> code_pt c \<le> 55"

definition octal_value :: "string \<Rightarrow> nat" where
  "octal_value s = foldl (\<lambda>n c. 8 * n + digit_val c) 0 s"

definition ESCAPES :: "(char \<times> nat) list" where
  "ESCAPES = [(CHR ''a'', 7), (CHR ''b'', 8), (CHR ''f'', 12), (CHR ''n'', 10), (CHR ''r'', 13), (CHR ''t'', 9),
     (CHR ''v'', 11)]"

text \<open>The text of one escape, after its backslash, and how many characters of \<open>s\<close> it takes.\<close>

definition escape :: "string \<Rightarrow> char \<Rightarrow> string \<Rightarrow> (string \<times> nat) option" where
  "escape whole c s =
     (if c = CHR ''g'' then
        (let name = takeWhile (\<lambda>d. d \<noteq> CHR ''>'') (tl s)
         in if s \<noteq> [] \<and> hd s = CHR ''<'' \<and> Suc (length name) < length s \<and> py_int name = Some 0
            then Some (whole, length name + 2) else None)
      else if c = CHR ''0'' then
        (let ds = takeWhile is_octal (take 2 s) in Some (latin1 (octal_value ds mod 256), length ds))
      else if is_digit c then
        (let ds = c # take 2 s
         in if length ds = 3 \<and> list_all is_octal ds \<and> octal_value ds \<le> 255
            then Some (latin1 (octal_value ds), 2) else None)
      else case map_of ESCAPES c of
        Some n \<Rightarrow> Some ([char_of n], 0)
      | None \<Rightarrow> if c = bslash then Some ([bslash], 0) else if is_alnum c then None else Some ([bslash, c], 0))"

function expand_template :: "string \<Rightarrow> string \<Rightarrow> string option" where
  "expand_template whole [] = Some []"
| "expand_template whole (c # s) =
     (if c \<noteq> bslash then map_option (Cons c) (expand_template whole s)
      else case s of
        [] \<Rightarrow> None
      | e # t \<Rightarrow>
          (case escape whole e t of
             None \<Rightarrow> None
           | Some (x, n) \<Rightarrow> map_option (append x) (expand_template whole (drop n t))))"
  by pat_completeness auto
termination by (relation "measure (\<lambda>(w, s). length s)") auto

definition RE_FLAGS_FIELD :: "rx list" where
  "RE_FLAGS_FIELD = [WordB] @ rx_ilit ''FLAGS ('' @ [Many (rx_not '')'')] @ rx_lit '')''"

text \<open>\<open>re.sub\<close> with \<open>count=1\<close>; the template is read before anything is searched.\<close>

definition re_sub_first :: "rx list \<Rightarrow> string \<Rightarrow> string \<Rightarrow> string option" where
  "re_sub_first r template s =
     (case rx_search [Cap 0 r] None s of
        None \<Rightarrow> map_option (\<lambda>_. s) (expand_template [] template)
      | Some (g, rest) \<Rightarrow>
          map_option (\<lambda>x. take (length s - length rest - length (rx_group g 0)) s @ x @ rest)
            (expand_template (rx_group g 0) template))"

definition merged_flags :: "string list \<Rightarrow> string list \<Rightarrow> string list \<Rightarrow> string list" where
  "merged_flags current add remove = sort (remdups (filter (\<lambda>f. f \<notin> set remove) (current @ add)))"

section \<open>Adjusting a line\<close>

text \<open>A line as text, and the bytes that will be sent for it (without the line break).\<close>

type_synonym line = "string \<times> string"

definition rewritten :: "string \<Rightarrow> line" where
  "rewritten l = (l, l)"

definition relay_capabilities :: "proxy \<Rightarrow> line \<Rightarrow> line \<times> proxy" where
  "relay_capabilities st ln =
     (case cn_capability_tag (px_conn st) of
        None \<Rightarrow> (ln, st)
      | Some tag \<Rightarrow>
          if tag = [] then (ln, st)
          else if py_startswith (py_upper (fst ln)) ''* CAPABILITY '' then (rewritten (filter_capabilities (fst ln)), st)
          else if py_upper (takeWhile (\<lambda>c. c \<noteq> sp) (fst ln)) = tag
          then (ln, set_conn (\<lambda>c. c\<lparr>cn_capability_tag := None\<rparr>) st)
          else (ln, st))"

definition REVERT_TRIGGER_OK_RE :: "rx list" where
  "REVERT_TRIGGER_OK_RE = [Cap 1 (rx_some is_alnum)] @ rx_some is_space @ rx_ilit ''OK'' @ [WordB]"

definition deliver_reverts :: "penv \<Rightarrow> string \<Rightarrow> proxy \<Rightarrow> proxy" where
  "deliver_reverts pe l st =
     (case (cn_revert_trigger_tag (px_conn st), re_match REVERT_TRIGGER_OK_RE l) of
        (Some tag, Some g) \<Rightarrow>
          if tag \<noteq> [] \<and> py_upper (rx_group g 1) = tag
          then inject_pending_reverts pe (set_conn (\<lambda>c. c\<lparr>cn_revert_trigger_tag := None\<rparr>) st) else st
      | _ \<Rightarrow> st)"

definition RE_EXISTS_LINE :: "rx list" where
  "RE_EXISTS_LINE = rx_ilit ''* '' @ [Cap 1 rx_digits] @ rx_ilit '' EXISTS'' @ [Eol]"

definition RE_SEARCH_LINE :: "rx list" where
  "RE_SEARCH_LINE = rx_ilit ''* SEARCH'' @ [WordB]"

definition adjust_exists :: "int list \<Rightarrow> nat \<Rightarrow> line \<Rightarrow> line" where
  "adjust_exists hidden n ln =
     (if hidden \<noteq> [] \<and> n - length hidden \<noteq> n
      then rewritten (''* '' @ str_of_nat (n - length hidden) @ '' EXISTS'') else ln)"

definition filter_search :: "int list \<Rightarrow> line \<Rightarrow> line" where
  "filter_search hidden ln =
     (if hidden = [] then ln
      else let parts = py_split (fst ln)
        in rewritten (py_join '' '' (take 2 parts
             @ filter (\<lambda>u. \<not> (py_isdigit u \<and> int (nat_of_str u) \<in> set hidden)) (drop 2 parts))))"

definition adjust_counts :: "proxy \<Rightarrow> line \<Rightarrow> line" where
  "adjust_counts st ln =
     (case (if truthy (cn_folder (px_conn st)) then re_match RE_EXISTS_LINE (fst ln) else None) of
        Some g \<Rightarrow> adjust_exists (hidden_uids st) (rx_num g) ln
      | None \<Rightarrow>
          if re_match RE_SEARCH_LINE (fst ln) \<noteq> None \<and> cn_search_uid_mode (px_conn st) \<and> truthy (cn_folder (px_conn st))
          then filter_search (hidden_uids st) ln else ln)"

text \<open>A FETCH line of a message whose MOVE is pending.\<close>

definition fetch_hidden :: "proxy \<Rightarrow> string \<Rightarrow> bool" where
  "fetch_hidden st l \<longleftrightarrow>
     re_match RE_FETCH_LINE l \<noteq> None
     \<and> (case parse_fetch_line l of
          Some info \<Rightarrow> (case fi_uid info of Some uid \<Rightarrow> int uid \<in> set (hidden_uids st) | None \<Rightarrow> False)
        | None \<Rightarrow> False)"

definition patch_flags :: "proxy \<Rightarrow> line \<Rightarrow> line" where
  "patch_flags st ln =
     (if re_match RE_FETCH_LINE (fst ln) = None \<or> \<not> truthy (cn_folder (px_conn st)) then ln
      else case parse_fetch_line (fst ln) of
        None \<Rightarrow> ln
      | Some info \<Rightarrow>
          (case fi_uid info of
             None \<Rightarrow> ln
           | Some uid \<Rightarrow>
               let (add, rem) = get_pending_flag_changes_for_uid (or_empty (cn_folder (px_conn st))) (int uid)
                      (cn_agent_id (px_conn st)) (px_db st)
               in if add = [] \<and> rem = [] then ln
                  else case re_sub_first RE_FLAGS_FIELD
                      (''FLAGS ('' @ py_join '' '' (merged_flags (fi_flags info) add rem) @ '')'') (fst ln) of
                    None \<Rightarrow> ln
                  | Some l \<Rightarrow> if l \<noteq> fst ln then rewritten l else ln))"

section \<open>One line\<close>

definition forward :: "penv \<Rightarrow> string \<Rightarrow> proxy \<Rightarrow> bool \<times> proxy" where
  "forward pe b st =
     (let st' = st\<lparr>px_sent := px_sent st @ [To_client b]\<rparr> in (pe_gone pe (px_sent st'), st'))"

definition U2C_LITERAL_TAIL_RE :: "rx list" where
  "U2C_LITERAL_TAIL_RE = [Opt (rx_lit ''~'')] @ rx_lit ''{'' @ [Cap 1 rx_digits] @ rx_lit ''}'' @ [Eol]"

definition U2C_STATUS_RE :: "rx list" where
  "U2C_STATUS_RE = rx_ilit ''* '' @ [Alt (rx_ilit ''OK'') [Alt (rx_ilit ''NO'') [Alt (rx_ilit ''BAD'')
     [Alt (rx_ilit ''BYE'') (rx_ilit ''PREAUTH'')]]], WordB]"

text \<open>The size of the literal that a sent line announces.\<close>

definition announces :: "bool \<Rightarrow> string \<Rightarrow> nat option" where
  "announces continues out =
     (if continues \<or> (py_startswith out ''* '' \<and> re_match U2C_STATUS_RE out = None)
      then map_option rx_num (re_search U2C_LITERAL_TAIL_RE out) else None)"

text \<open>How the pump goes on: with so many literal bytes to relay and whether the next line continues a
  response, with the literal of a message, or not at all.\<close>

datatype line_result = Client_gone | Relayed nat bool | Fetch_literal nat nat

definition upstream_line :: "penv \<Rightarrow> bool \<Rightarrow> string \<Rightarrow> proxy \<Rightarrow> line_result \<times> proxy" where
  "upstream_line pe continues bytes st =
     (let (ln, st1) = relay_capabilities st (py_decode bytes, bytes);
          st2 = deliver_reverts pe (fst ln) st1;
          ln2 = adjust_counts st2 ln
      in case re_match RE_FETCH_LITERAL (fst ln2) of
           Some g \<Rightarrow>
             (let (gone, st3) = forward pe (snd ln2 @ crlf) st2
              in (if gone then Client_gone else Fetch_literal (nat_of_str (rx_group g 2)) (nat_of_str (rx_group g 3)), st3))
         | None \<Rightarrow>
             if fetch_hidden st2 (fst ln2) then (Relayed 0 False, sync_upstream_line pe (fst ln2) st2)
             else
               let ln3 = patch_flags st2 ln2; (gone, st3) = forward pe (snd ln3 @ crlf) st2
               in if gone then (Client_gone, st3)
                  else (case announces continues (snd ln3) of
                          Some n \<Rightarrow> Relayed n (n = 0) | None \<Rightarrow> Relayed 0 False,
                        sync_upstream_line pe (fst ln3) st3))"

section \<open>The pump\<close>

definition READ_CHUNK :: nat where
  "READ_CHUNK = 4096"

text \<open>\<open>read(n)\<close>: nothing at the end of the stream, otherwise at most \<open>n\<close> bytes of what has arrived.\<close>

definition read_some :: "nat \<Rightarrow> string list \<Rightarrow> (string \<times> string list) option" where
  "read_some n chunks =
     (case chunks of
        [] \<Rightarrow> None
      | c # cs \<Rightarrow> if c = [] then None else Some (take n c, if drop n c = [] then cs else drop n c # cs))"

definition next_part :: "nat \<Rightarrow> string \<Rightarrow> string list \<Rightarrow> (string \<times> string \<times> string list) option" where
  "next_part n buf chunks =
     (if buf \<noteq> [] then Some (take n buf, drop n buf, chunks)
      else map_option (\<lambda>(c, cs). (c, [], cs)) (read_some (min READ_CHUNK n) chunks))"

lemma next_part_nonempty: "next_part n buf chunks = Some (part, buf', chunks') \<Longrightarrow> 0 < n \<Longrightarrow> part \<noteq> []"
  by (auto simp: next_part_def read_some_def READ_CHUNK_def split: if_splits list.splits)

text \<open>Relaying the literal of a message; the result says whether the client went away, and keeps the
  beginning of the message for its headers.\<close>

function relay_literal ::
  "penv \<Rightarrow> nat \<Rightarrow> string \<Rightarrow> string \<Rightarrow> string list \<Rightarrow> proxy \<Rightarrow> bool \<times> string \<times> string \<times> string list \<times> proxy" where
  "relay_literal pe n hdr buf chunks st =
     (if n = 0 then (False, hdr, buf, chunks, st)
      else case next_part n buf chunks of
        None \<Rightarrow> (False, hdr, buf, chunks, st)
      | Some (part, buf', chunks') \<Rightarrow>
          (let hdr' = (if length hdr < HEADER_READ_LIMIT then hdr @ part else hdr); (gone, st') = forward pe part st
           in if gone then (True, hdr', buf', chunks', st')
              else relay_literal pe (n - length part) hdr' buf' chunks' st'))"
  by pat_completeness auto
termination
  by (relation "measure (\<lambda>(pe, n, hdr, buf, chunks, st). n)") (auto dest!: next_part_nonempty)

declare relay_literal.simps [simp del]

definition store_headers :: "penv \<Rightarrow> nat \<Rightarrow> string \<Rightarrow> proxy \<Rightarrow> proxy" where
  "store_headers pe uid hdr st =
     (case cn_folder_id (px_conn st) of
        None \<Rightarrow> st
      | Some fid \<Rightarrow>
          let (sender, subject, message_id) = extract_headers_from_rfc822 (pe_mail pe) (pe_words pe) hdr
          in if hdr = [] \<or> (sender = None \<and> subject = None \<and> message_id = None) then st
             else set_db (upsert_message fid (int uid) None None subject sender None None message_id
                    (dr_clk (turn pe st) 44) (px_db st)) st)"

record pump =
  pu_buffer :: string
  pu_literal :: nat
  pu_after :: bool
  pu_chunks :: "string list"

definition start_pump :: "string list \<Rightarrow> pump" where
  "start_pump chunks = \<lparr>pu_buffer = [], pu_literal = 0, pu_after = False, pu_chunks = chunks\<rparr>"

definition next_turn :: "proxy \<Rightarrow> proxy" where
  "next_turn st = st\<lparr>px_turn := Suc (px_turn st)\<rparr>"

definition relay_part :: "penv \<Rightarrow> pump \<Rightarrow> proxy \<Rightarrow> pump option \<times> proxy" where
  "relay_part pe pm st =
     (let part = take (pu_literal pm) (pu_buffer pm); left = pu_literal pm - length part; (gone, st') = forward pe part st
      in (if gone then None
          else Some (pm\<lparr>pu_buffer := drop (length part) (pu_buffer pm), pu_literal := left,
                        pu_after := (if left = 0 then True else pu_after pm)\<rparr>), st'))"

definition relay_line :: "penv \<Rightarrow> nat \<Rightarrow> pump \<Rightarrow> proxy \<Rightarrow> pump option \<times> proxy" where
  "relay_line pe k pm st =
     (let rest = drop (k + 2) (pu_buffer pm)
      in case upstream_line pe (pu_after pm) (take k (pu_buffer pm)) st of
           (Client_gone, st') \<Rightarrow> (None, st')
         | (Relayed n after, st') \<Rightarrow> (Some (pm\<lparr>pu_buffer := rest, pu_literal := n, pu_after := after\<rparr>), next_turn st')
         | (Fetch_literal uid n, st') \<Rightarrow>
             (case relay_literal pe n [] rest (pu_chunks pm) st' of
                (gone, hdr, buf, chunks, st'') \<Rightarrow>
                  if gone then (None, st'')
                  else (Some \<lparr>pu_buffer = buf, pu_literal = 0, pu_after = True, pu_chunks = chunks\<rparr>,
                        next_turn (store_headers pe uid hdr st''))))"

text \<open>What is left of an unfinished line is sent as it is, and forgotten.\<close>

definition read_more :: "penv \<Rightarrow> pump \<Rightarrow> proxy \<Rightarrow> pump option \<times> proxy" where
  "read_more pe pm st =
     (let (gone, st') = (if pu_buffer pm = [] then (False, st) else forward pe (pu_buffer pm) st)
      in if gone then (None, st')
         else case read_some READ_CHUNK (pu_chunks pm) of
           None \<Rightarrow> (None, st')
         | Some (c, cs) \<Rightarrow> (Some (pm\<lparr>pu_buffer := c, pu_chunks := cs\<rparr>), st'))"

definition upstream_step :: "penv \<Rightarrow> pump \<Rightarrow> proxy \<Rightarrow> pump option \<times> proxy" where
  "upstream_step pe pm st =
     (if pu_literal pm > 0 then
        (if pu_buffer pm \<noteq> [] then relay_part pe pm st else read_more pe pm st)
      else case py_find crlf (pu_buffer pm) of
        Some k \<Rightarrow> relay_line pe k pm st
      | None \<Rightarrow> read_more pe pm st)"

text \<open>Every step uses up input: the bytes still to come weigh more than those in the buffer.\<close>

definition pump_weight :: "string \<Rightarrow> string list \<Rightarrow> nat" where
  "pump_weight buf chunks = length buf + sum_list (map (\<lambda>c. 2 * length c + 1) chunks)"

lemma read_some_weight:
  assumes "read_some n chunks = Some (c, cs)" "0 < n" shows "pump_weight c cs < pump_weight [] chunks"
  using assms by (auto simp: read_some_def pump_weight_def split: list.splits if_splits)

lemma next_part_weight:
  "next_part n buf chunks = Some (part, buf', chunks') \<Longrightarrow> pump_weight buf' chunks' \<le> pump_weight buf chunks"
  by (auto simp: next_part_def read_some_def pump_weight_def split: if_splits list.splits)

lemma relay_literal_weight:
  "relay_literal pe n hdr buf chunks st = (gone, hdr', buf', chunks', st') \<Longrightarrow>
     pump_weight buf' chunks' \<le> pump_weight buf chunks"
proof (induction pe n hdr buf chunks st rule: relay_literal.induct)
  case (1 pe n hdr buf chunks st)
  show ?case
  proof (cases "n = 0 \<or> next_part n buf chunks = None")
    case True
    then show ?thesis using 1(2) by (auto simp: relay_literal.simps [of pe n] split: if_splits)
  next
    case False
    then obtain part b c where p: "next_part n buf chunks = Some (part, b, c)" by auto
    note w = next_part_weight [OF p]
    show ?thesis
    proof (cases "fst (forward pe part st)")
      case True
      then show ?thesis using 1(2) False p w by (auto simp: relay_literal.simps [of pe n] Let_def split_beta)
    next
      case go: False
      obtain st1 where f: "forward pe part st = (False, st1)" using go by (cases "forward pe part st") simp
      have "pump_weight buf' chunks' \<le> pump_weight b c"
        by (rule 1(1) [OF _ p refl refl refl f [symmetric]])
          (use 1(2) False p f in \<open>auto simp: relay_literal.simps [of pe n] Let_def\<close>)
      then show ?thesis using w by simp
    qed
  qed
qed

lemma py_find_bound: "py_find pat s = Some k \<Longrightarrow> k + length pat \<le> length s \<and> take (length pat) (drop k s) = pat"
proof (induction s arbitrary: k)
  case (Cons c s)
  have "length pat \<le> length (c # s)" if "py_startswith (c # s) pat"
    using that unfolding py_startswith_def by (metis length_take min.cobounded1 min.commute)
  then show ?case using Cons by (fastforce simp: py_startswith_def split: if_splits)
qed (simp split: if_splits)

lemma upstream_step_weight:
  assumes "upstream_step pe pm st = (Some pm', st')"
  shows "pump_weight (pu_buffer pm') (pu_chunks pm') < pump_weight (pu_buffer pm) (pu_chunks pm)"
proof -
  have more: "pump_weight (pu_buffer pm') (pu_chunks pm') < pump_weight (pu_buffer pm) (pu_chunks pm)"
    if m: "read_more pe pm st = (Some pm', st')"
  proof -
    obtain c cs where "read_some READ_CHUNK (pu_chunks pm) = Some (c, cs)" "pu_buffer pm' = c" "pu_chunks pm' = cs"
      using m by (auto simp: read_more_def split_beta split: if_splits option.splits)
    with read_some_weight show ?thesis by (fastforce simp: pump_weight_def READ_CHUNK_def)
  qed
  have part: ?thesis if "relay_part pe pm st = (Some pm', st')" "pu_literal pm > 0" "pu_buffer pm \<noteq> []"
    using that by (auto simp: relay_part_def Let_def pump_weight_def split: if_splits prod.splits)
  have line: ?thesis if "relay_line pe k pm st = (Some pm', st')" "py_find crlf (pu_buffer pm) = Some k" for k
  proof -
    have "k + 2 \<le> length (pu_buffer pm)" using py_find_bound [OF that(2)] by (simp add: crlf_def)
    then have "pump_weight (drop (k + 2) (pu_buffer pm)) (pu_chunks pm) < pump_weight (pu_buffer pm) (pu_chunks pm)"
      by (simp add: pump_weight_def)
    moreover have "pump_weight (pu_buffer pm') (pu_chunks pm') \<le> pump_weight (drop (k + 2) (pu_buffer pm)) (pu_chunks pm)"
      using that(1) by (auto simp: relay_line_def Let_def dest!: relay_literal_weight
          split: if_splits prod.splits line_result.splits)
    ultimately show ?thesis by simp
  qed
  show ?thesis
    using assms more part line unfolding upstream_step_def by (auto split: if_splits option.splits)
qed

function upstream_to_client :: "penv \<Rightarrow> pump \<Rightarrow> proxy \<Rightarrow> proxy" where
  "upstream_to_client pe pm st =
     (case upstream_step pe pm st of
        (None, st') \<Rightarrow> st'
      | (Some pm', st') \<Rightarrow> upstream_to_client pe pm' st')"
  by pat_completeness auto
termination
  by (relation "measure (\<lambda>(pe, pm, st). pump_weight (pu_buffer pm) (pu_chunks pm))")
    (auto dest!: upstream_step_weight [OF sym])

declare upstream_to_client.simps [simp del]

section \<open>What the server side changes\<close>

text \<open>It writes to the agent only, and leaves alone the operations, the audit log and whose session it is.\<close>

definition serves :: "proxy \<Rightarrow> proxy \<Rightarrow> bool" where
  "serves st st' \<longleftrightarrow>
     (\<exists>xs. px_sent st' = px_sent st @ xs \<and> to_client xs)
     \<and> db_audit (px_db st') = db_audit (px_db st) \<and> db_ops (px_db st') = db_ops (px_db st)
     \<and> cn_agent_id (px_conn st') = cn_agent_id (px_conn st) \<and> cn_user_id (px_conn st') = cn_user_id (px_conn st)"

lemma serves_refl [simp]: "serves st st"
  by (simp add: serves_def to_client_def)

lemma serves_trans: "serves a b \<Longrightarrow> serves b c \<Longrightarrow> serves a c"
  by (fastforce simp: serves_def to_client_def)

lemma serves_mirror:
  "px_sent st' = px_sent st \<Longrightarrow> db_audit (px_db st') = db_audit (px_db st) \<Longrightarrow> db_ops (px_db st') = db_ops (px_db st)
   \<Longrightarrow> cn_agent_id (px_conn st') = cn_agent_id (px_conn st) \<Longrightarrow> cn_user_id (px_conn st') = cn_user_id (px_conn st)
   \<Longrightarrow> serves st st'"
  by (simp add: serves_def to_client_def)

lemma serves_sync [simp]: "serves st (sync_upstream_line pe line st)"
  by (rule serves_mirror)
    (auto simp: sync_upstream_line_def sync_select_def sync_list_def sync_fetch_def Let_def split_beta split: option.split)

lemma serves_inject: "serves st (inject_pending_reverts pe st)"
  by (auto simp: inject_pending_reverts_def serves_def to_client_def Let_def list_all_iff split: option.split)

lemma serves_set_conn:
  "(\<And>c. cn_agent_id (f c) = cn_agent_id c) \<Longrightarrow> (\<And>c. cn_user_id (f c) = cn_user_id c) \<Longrightarrow> serves st (set_conn f st)"
  by (rule serves_mirror) simp_all

lemma serves_deliver: "serves st (deliver_reverts pe l st)"
  by (auto simp: deliver_reverts_def split: option.split intro!: serves_trans [OF serves_set_conn serves_inject])

lemma serves_capabilities: "serves st (snd (relay_capabilities st ln))"
  by (auto simp: relay_capabilities_def split: option.split intro!: serves_set_conn)

lemma serves_forward [simp]: "serves st (snd (forward pe b st))"
  by (auto simp: forward_def serves_def to_client_def Let_def)

lemma serves_line: "serves st (snd (upstream_line pe continues bytes st))"
proof -
  define ln st1 where "ln = fst (relay_capabilities st (py_decode bytes, bytes))"
    and "st1 = snd (relay_capabilities st (py_decode bytes, bytes))"
  define st2 where "st2 = deliver_reverts pe (fst ln) st1"
  have st2: "serves st st2"
    unfolding st2_def st1_def by (rule serves_trans [OF serves_capabilities serves_deliver])
  have f: "serves st (snd (forward pe b st2))" for b by (rule serves_trans [OF st2 serves_forward])
  have s: "serves st (sync_upstream_line pe l (snd (forward pe b st2)))" for l b by (rule serves_trans [OF f serves_sync])
  have h: "serves st (sync_upstream_line pe l st2)" for l by (rule serves_trans [OF st2 serves_sync])
  show ?thesis
    unfolding upstream_line_def Let_def split_beta ln_def [symmetric] st1_def [symmetric] st2_def [symmetric]
    using f s h by (auto split: option.split)
qed

lemma serves_literal:
  "relay_literal pe n hdr buf chunks st = (gone, hdr', buf', chunks', st') \<Longrightarrow> serves st st'"
proof (induction pe n hdr buf chunks st rule: relay_literal.induct)
  case (1 pe n hdr buf chunks st)
  show ?case
  proof (cases "n = 0 \<or> next_part n buf chunks = None")
    case True
    then show ?thesis using 1(2) by (auto simp: relay_literal.simps [of pe n] split: if_splits)
  next
    case False
    then obtain part b c where p: "next_part n buf chunks = Some (part, b, c)" by auto
    show ?thesis
    proof (cases "fst (forward pe part st)")
      case True
      then show ?thesis using 1(2) False p by (auto simp: relay_literal.simps [of pe n] Let_def split_beta)
    next
      case go: False
      obtain st1 where f: "forward pe part st = (False, st1)" using go by (cases "forward pe part st") simp
      have "serves st1 st'"
        by (rule 1(1) [OF _ p refl refl refl f [symmetric]])
          (use 1(2) False p f in \<open>auto simp: relay_literal.simps [of pe n] Let_def\<close>)
      then show ?thesis using serves_forward [of st pe part] serves_trans by (simp add: f)
    qed
  qed
qed

lemma serves_headers [simp]: "serves st (store_headers pe uid hdr st)"
  by (rule serves_mirror) (auto simp: store_headers_def split_beta split: option.split)

lemma serves_turn: "serves st st' \<Longrightarrow> serves st (next_turn st')"
  by (simp add: next_turn_def serves_def)

lemma serves_step: "serves st (snd (upstream_step pe pm st))"
proof -
  have "serves st (snd (relay_line pe k pm st))" for k
  proof -
    obtain res st1 where l: "upstream_line pe (pu_after pm) (take k (pu_buffer pm)) st = (res, st1)" by force
    then have st1: "serves st st1" using serves_line by (metis snd_conv)
    show ?thesis
    proof (cases res)
      case (Fetch_literal uid n)
      obtain g h b c st2 where r: "relay_literal pe n [] (drop (k + 2) (pu_buffer pm)) (pu_chunks pm) st1 = (g, h, b, c, st2)"
        by (metis prod_cases5)
      have "serves st st2" by (rule serves_trans [OF st1 serves_literal [OF r]])
      moreover from this have "serves st (next_turn (store_headers pe uid h st2))"
        by (intro serves_turn serves_trans [OF _ serves_headers])
      ultimately show ?thesis using Fetch_literal l r by (simp add: relay_line_def)
    qed (use l st1 in \<open>simp_all add: relay_line_def serves_turn\<close>)
  qed
  moreover have "serves st (snd (read_more pe pm st))"
    by (auto simp: read_more_def split_beta split: option.split)
  ultimately show ?thesis by (auto simp: upstream_step_def relay_part_def Let_def split_beta split: option.split)
qed

lemma serves_pump: "serves st (upstream_to_client pe pm st)"
proof (induction pe pm st rule: upstream_to_client.induct)
  case (1 pe pm st)
  obtain r st1 where s: "upstream_step pe pm st = (r, st1)" by force
  then have "serves st st1" using serves_step by (metis snd_conv)
  then show ?case using 1 s serves_trans by (cases r) (auto simp: upstream_to_client.simps [of pe pm])
qed

end
