(* ===== verification/Server_Laws.thy ===== *)
theory Server_Laws
  imports Proxy_Server
begin

text \<open>
  What the agent gets to see of the server's responses: the very bytes of the server as long as nothing
  is pending, and otherwise its own view, with the messages it has proposed to move hidden, and rejected
  proposals taken back before the response that the agent waits for.
\<close>

section \<open>Nothing is pending\<close>

text \<open>Neither an operation of the agent nor a response that is filtered.\<close>

definition unfiltered :: "proxy \<Rightarrow> bool" where
  "unfiltered st \<longleftrightarrow> cn_capability_tag (px_conn st) = None \<and> cn_revert_trigger_tag (px_conn st) = None
     \<and> list_all (\<lambda>r. \<not> (op_status r = Pending \<and> op_agent_id r = cn_agent_id (px_conn st))) (db_ops (px_db st))"

lemma quiet_pending: "unfiltered st \<Longrightarrow> r \<in> set (db_ops (px_db st)) \<Longrightarrow> \<not> pending_of_agent f (cn_agent_id (px_conn st)) r"
  by (auto simp: unfiltered_def pending_of_agent_def list_all_iff)

lemma quiet_hidden: "unfiltered st \<Longrightarrow> hidden_uids st = []"
  using quiet_pending [of st]
  by (auto simp: hidden_uids_def pending_move_uids_def filter_empty_conv)

lemma quiet_flags: "unfiltered st \<Longrightarrow> get_pending_flag_changes_for_uid f u (cn_agent_id (px_conn st)) (px_db st) = ([], [])"
  using quiet_pending [of st] by (auto simp: get_pending_flag_changes_for_uid_def Let_def filter_empty_conv)

lemma quiet_counts: "unfiltered st \<Longrightarrow> adjust_counts st ln = ln"
  by (simp add: adjust_counts_def quiet_hidden adjust_exists_def filter_search_def split: option.split)

lemma quiet_patch: "unfiltered st \<Longrightarrow> patch_flags st ln = ln"
  by (simp add: patch_flags_def quiet_flags split: option.split)

lemma quiet_shown: "unfiltered st \<Longrightarrow> \<not> fetch_hidden st l"
  by (simp add: fetch_hidden_def quiet_hidden split: option.split)

lemma sync_tags:
  "cn_capability_tag (px_conn (sync_upstream_line pe l st)) = cn_capability_tag (px_conn st)"
  "cn_revert_trigger_tag (px_conn (sync_upstream_line pe l st)) = cn_revert_trigger_tag (px_conn st)"
  by (auto simp: sync_upstream_line_def sync_select_def sync_list_def sync_fetch_def Let_def split_beta split: option.split)

lemma sync_sent [simp]: "px_sent (sync_upstream_line pe l st) = px_sent st"
  by (auto simp: sync_upstream_line_def sync_select_def sync_list_def sync_fetch_def Let_def split_beta split: option.split)

lemma headers_sent [simp]: "px_sent (store_headers pe uid hdr st) = px_sent st"
  by (simp add: store_headers_def split_beta split: option.split)

lemma quiet_serves:
  "serves st st' \<Longrightarrow> cn_capability_tag (px_conn st') = cn_capability_tag (px_conn st)
   \<Longrightarrow> cn_revert_trigger_tag (px_conn st') = cn_revert_trigger_tag (px_conn st) \<Longrightarrow> unfiltered st \<Longrightarrow> unfiltered st'"
  by (auto simp: unfiltered_def serves_def)

lemma quiet_sync [simp]: "unfiltered st \<Longrightarrow> unfiltered (sync_upstream_line pe l st)"
  by (rule quiet_serves [OF serves_sync]) (simp_all add: sync_tags)

lemma forward_simps [simp]:
  "px_sent (snd (forward pe b st)) = px_sent st @ [To_client b]" "px_conn (snd (forward pe b st)) = px_conn st"
  by (simp_all add: forward_def Let_def)

lemma quiet_forward [simp]: "unfiltered st \<Longrightarrow> unfiltered (snd (forward pe b st))"
  by (rule quiet_serves [OF serves_forward]) simp_all

lemma quiet_headers [simp]: "unfiltered st \<Longrightarrow> unfiltered (store_headers pe uid hdr st)"
  by (rule quiet_serves [OF serves_headers]) (simp_all add: store_headers_def split_beta split: option.split)

text \<open>What was sent to the agent, as one string of bytes.\<close>

definition sent_bytes :: "sent list \<Rightarrow> string" where
  "sent_bytes xs = concat (map (\<lambda>x. case x of To_client b \<Rightarrow> b | To_upstream b \<Rightarrow> []) xs)"

lemma sent_bytes_simps [simp]:
  "sent_bytes [] = []" "sent_bytes (xs @ ys) = sent_bytes xs @ sent_bytes ys" "sent_bytes [To_client b] = b"
  by (simp_all add: sent_bytes_def)

lemma never_gone: "pe_gone pe = (\<lambda>xs. False) \<Longrightarrow> fst (forward pe b st) = False"
  by (simp add: forward_def Let_def)

lemma quiet_line:
  assumes "unfiltered st" "pe_gone pe = (\<lambda>xs. False)"
  shows "unfiltered (snd (upstream_line pe continues bytes st))"
    "px_sent (snd (upstream_line pe continues bytes st)) = px_sent st @ [To_client (bytes @ crlf)]"
    "fst (upstream_line pe continues bytes st) \<noteq> Client_gone"
proof -
  have r: "relay_capabilities st (py_decode bytes, bytes) = ((py_decode bytes, bytes), st)" and d: "deliver_reverts pe l st = st" for l
    using assms(1) by (simp_all add: relay_capabilities_def deliver_reverts_def unfiltered_def)
  note q = quiet_counts [OF assms(1)] quiet_patch [OF assms(1)] quiet_shown [OF assms(1)]
  show "unfiltered (snd (upstream_line pe continues bytes st))"
    "px_sent (snd (upstream_line pe continues bytes st)) = px_sent st @ [To_client (bytes @ crlf)]"
    "fst (upstream_line pe continues bytes st) \<noteq> Client_gone"
    using assms(1) by (simp_all add: upstream_line_def r d q Let_def split_beta never_gone [OF assms(2)] split: option.split)
qed

text \<open>All bytes, sent or still to come.\<close>

definition all_bytes :: "string \<Rightarrow> string list \<Rightarrow> proxy \<Rightarrow> string" where
  "all_bytes buf chunks st = sent_bytes (px_sent st) @ buf @ concat chunks"

lemma read_some_bytes: "read_some n chunks = Some (c, cs) \<Longrightarrow> c @ concat cs = concat chunks"
  by (auto simp: read_some_def split: list.splits if_splits)

lemma next_part_bytes:
  "next_part n buf chunks = Some (part, buf', chunks') \<Longrightarrow> part @ buf' @ concat chunks' = buf @ concat chunks"
  using read_some_bytes by (fastforce simp: next_part_def split: if_splits)

abbreviation full :: "string list \<Rightarrow> bool" where
  "full chunks \<equiv> [] \<notin> set chunks"

lemma read_some_full: "read_some n chunks = Some (c, cs) \<Longrightarrow> full chunks \<Longrightarrow> full cs"
  by (auto simp: read_some_def split: list.splits if_splits)

lemma next_part_full: "next_part n buf chunks = Some (part, buf', chunks') \<Longrightarrow> full chunks \<Longrightarrow> full chunks'"
  using read_some_full by (fastforce simp: next_part_def split: if_splits)

lemma quiet_literal:
  assumes "pe_gone pe = (\<lambda>xs. False)"
  shows "relay_literal pe n hdr buf chunks st = (gone, hdr', buf', chunks', st') \<Longrightarrow> unfiltered st \<Longrightarrow> full chunks
    \<Longrightarrow> \<not> gone \<and> unfiltered st' \<and> full chunks' \<and> all_bytes buf' chunks' st' = all_bytes buf chunks st"
proof (induction n arbitrary: hdr buf chunks st rule: less_induct)
  case (less n)
  show ?case
  proof (cases "n = 0 \<or> next_part n buf chunks = None")
    case True
    then show ?thesis using less.prems by (auto simp: relay_literal.simps [of pe n] split: if_splits)
  next
    case False
    then obtain part b c where p: "next_part n buf chunks = Some (part, b, c)" by auto
    obtain st1 where f: "forward pe part st = (False, st1)" using never_gone [OF assms] by (metis prod.collapse)
    define h where "h = (if length hdr < HEADER_READ_LIMIT then hdr @ part else hdr)"
    have r: "relay_literal pe (n - length part) h b c st1 = (gone, hdr', buf', chunks', st')"
      using less.prems(1) False p f by (simp add: relay_literal.simps [of pe n] Let_def h_def)
    have "st1 = snd (forward pe part st)" by (simp add: f)
    then have st1: "unfiltered st1" "all_bytes b c st1 = all_bytes buf chunks st"
      using less.prems(2) next_part_bytes [OF p] by (simp_all add: all_bytes_def)
    have "n - length part < n" using False next_part_nonempty [OF p] by simp
    from less.IH [OF this r st1(1) next_part_full [OF p less.prems(3)]] st1(2) show ?thesis by simp
  qed
qed

lemma quiet_more:
  assumes "pe_gone pe = (\<lambda>xs. False)" "read_more pe pm st = (r, st')" "unfiltered st" "full (pu_chunks pm)"
  shows "unfiltered st' \<and> (case r of
      Some pm' \<Rightarrow> full (pu_chunks pm') \<and> all_bytes (pu_buffer pm') (pu_chunks pm') st' = all_bytes (pu_buffer pm) (pu_chunks pm) st
    | None \<Rightarrow> sent_bytes (px_sent st') = all_bytes (pu_buffer pm) (pu_chunks pm) st)"
proof -
  define s1 where "s1 = (if pu_buffer pm = [] then st else snd (forward pe (pu_buffer pm) st))"
  have s1: "unfiltered s1" "sent_bytes (px_sent s1) = sent_bytes (px_sent st) @ pu_buffer pm"
    using assms(3) by (simp_all add: s1_def)
  have more: "(r, st') = (case read_some READ_CHUNK (pu_chunks pm) of
      None \<Rightarrow> (None, s1) | Some (c, cs) \<Rightarrow> (Some (pm\<lparr>pu_buffer := c, pu_chunks := cs\<rparr>), s1))"
    using assms(2) never_gone [OF assms(1), of "pu_buffer pm" st]
    unfolding s1_def by (cases "pu_buffer pm = []") (simp_all add: read_more_def split_beta)
  have "concat (pu_chunks pm) = []" if "read_some READ_CHUNK (pu_chunks pm) = None"
    using that assms(4) by (auto simp: read_some_def split: list.splits if_splits)
  then show ?thesis
    using more s1 read_some_bytes read_some_full [OF _ assms(4)]
    by (cases "read_some READ_CHUNK (pu_chunks pm)") (auto simp: all_bytes_def)
qed

lemma quiet_relay_line:
  assumes "pe_gone pe = (\<lambda>xs. False)" "relay_line pe k pm st = (r, st')" "unfiltered st" "full (pu_chunks pm)"
    and "py_find crlf (pu_buffer pm) = Some k"
  shows "unfiltered st' \<and> (\<exists>pm'. r = Some pm' \<and> full (pu_chunks pm')
    \<and> all_bytes (pu_buffer pm') (pu_chunks pm') st' = all_bytes (pu_buffer pm) (pu_chunks pm) st)"
proof -
  obtain res st1 where l: "upstream_line pe (pu_after pm) (take k (pu_buffer pm)) st = (res, st1)" by force
  note ql = quiet_line [OF assms(3,1), of "pu_after pm" "take k (pu_buffer pm)", unfolded l, simplified]
  have "take 2 (drop k (pu_buffer pm)) = crlf" using py_find_bound [OF assms(5)] by (simp add: crlf_def numeral_2_eq_2)
  then have "pu_buffer pm = take k (pu_buffer pm) @ crlf @ drop (k + 2) (pu_buffer pm)"
    by (metis add.commute append_take_drop_id drop_drop)
  then have bytes: "all_bytes (drop (k + 2) (pu_buffer pm)) (pu_chunks pm) st1 = all_bytes (pu_buffer pm) (pu_chunks pm) st"
    using ql(2) by (simp add: all_bytes_def)
  have turn: "unfiltered (next_turn s) = unfiltered s" "px_sent (next_turn s) = px_sent s" for s by (simp_all add: next_turn_def unfiltered_def)
  show ?thesis
  proof (cases res)
    case (Fetch_literal uid n)
    obtain g h b c st2 where f: "relay_literal pe n [] (drop (k + 2) (pu_buffer pm)) (pu_chunks pm) st1 = (g, h, b, c, st2)"
      by (metis prod_cases5)
    from quiet_literal [OF assms(1) f ql(1) assms(4)] bytes show ?thesis
      using assms(2) Fetch_literal l f by (auto simp: relay_line_def turn all_bytes_def)
  qed (use assms(2,4) l ql bytes in \<open>auto simp: relay_line_def turn all_bytes_def\<close>)
qed

lemma quiet_step:
  assumes "pe_gone pe = (\<lambda>xs. False)" "upstream_step pe pm st = (r, st')" "unfiltered st" "full (pu_chunks pm)"
  shows "unfiltered st' \<and> (case r of
      Some pm' \<Rightarrow> full (pu_chunks pm') \<and> all_bytes (pu_buffer pm') (pu_chunks pm') st' = all_bytes (pu_buffer pm) (pu_chunks pm) st
    | None \<Rightarrow> sent_bytes (px_sent st') = all_bytes (pu_buffer pm) (pu_chunks pm) st)"
proof -
  have part: "unfiltered st' \<and> (\<exists>pm'. r = Some pm' \<and> full (pu_chunks pm')
      \<and> all_bytes (pu_buffer pm') (pu_chunks pm') st' = all_bytes (pu_buffer pm) (pu_chunks pm) st)"
    if "relay_part pe pm st = (r, st')"
    using that assms(3,4) never_gone [OF assms(1)] by (auto simp: relay_part_def Let_def split_beta all_bytes_def min_def)
  show ?thesis
    using assms(2) quiet_more [OF assms(1) _ assms(3,4)] quiet_relay_line [OF assms(1) _ assms(3,4)] part
    unfolding upstream_step_def by (fastforce split: if_splits option.splits)
qed

lemma quiet_pump:
  assumes "pe_gone pe = (\<lambda>xs. False)"
  shows "unfiltered st \<Longrightarrow> full (pu_chunks pm) \<Longrightarrow>
    sent_bytes (px_sent (upstream_to_client pe pm st)) = all_bytes (pu_buffer pm) (pu_chunks pm) st"
proof (induction "pump_weight (pu_buffer pm) (pu_chunks pm)" arbitrary: pm st rule: less_induct)
  case less
  obtain r st1 where s: "upstream_step pe pm st = (r, st1)" by force
  note q = quiet_step [OF assms s less.prems]
  show ?case
  proof (cases r)
    case (Some pm')
    have "pump_weight (pu_buffer pm') (pu_chunks pm') < pump_weight (pu_buffer pm) (pu_chunks pm)"
      using upstream_step_weight s Some by simp
    from less.hyps [OF this] q s Some show ?thesis by (simp add: upstream_to_client.simps [of pe pm])
  qed (use q s in \<open>simp add: upstream_to_client.simps [of pe pm]\<close>)
qed

section \<open>Kinds of lines\<close>

text \<open>A line that does not begin with a star is neither counted, filtered, hidden nor patched.\<close>

lemma star_lower [simp]: "lower_char (CHR ''*'') = CHR ''*''" "lower_char c = CHR ''*'' \<longleftrightarrow> c = CHR ''*''"
proof -
  show star: "lower_char (CHR ''*'') = CHR ''*''" by code_simp
  have "\<not> (65 \<le> code_pt c \<and> code_pt c \<le> 90)" if "lower_char c = CHR ''*''"
  proof
    assume u: "65 \<le> code_pt c \<and> code_pt c \<le> 90"
    then have "code_pt (lower_char c) = code_pt c + 32" by (simp add: lower_char_def code_pt_def)
    then show False using that u by (simp add: code_pt_def)
  qed
  then show "lower_char c = CHR ''*'' \<longleftrightarrow> c = CHR ''*''" using star by (auto simp: lower_char_def)
qed

lemma unstarred:
  assumes "hd l \<noteq> CHR ''*''"
  shows "re_match RE_EXISTS_LINE l = None" "re_match RE_SEARCH_LINE l = None" "re_match RE_FETCH_LITERAL l = None"
    "re_match RE_FETCH_LINE l = None"
  using assms by (cases l; simp add: re_match_def RE_EXISTS_LINE_def RE_SEARCH_LINE_def RE_FETCH_LITERAL_def RE_FETCH_LINE_def)+

lemma unstarred_plain:
  assumes "hd (fst ln) \<noteq> CHR ''*''"
  shows "adjust_counts st ln = ln" "\<not> fetch_hidden st (fst ln)" "patch_flags st ln = ln"
  using unstarred [OF assms] by (simp_all add: adjust_counts_def fetch_hidden_def patch_flags_def split: option.split)

lemma alnum_word: "is_alnum c \<Longrightarrow> code_pt c < 128 \<and> c \<noteq> CHR ''*'' \<and> c \<noteq> sp \<and> \<not> is_space c"
  by (auto simp: is_alnum_def is_word_def is_digit_def code_pt_def sp_def is_space_def)

lemma tagged_ok:
  assumes "t \<noteq> []" "list_all is_alnum t"
  shows "re_match REVERT_TRIGGER_OK_RE (t @ '' OK '' @ text) = Some [(1, t)]"
proof -
  have o: "\<not> is_alnum (CHR '' '')" "is_space (CHR '' '')" "\<not> is_space (CHR ''O'')" "word_at (Some (CHR ''K''))"
    "\<not> word_at (Some (CHR '' ''))" by code_simp+
  have "rx_match (EndCap 1 (t @ '' OK '' @ text) # rx_some is_space @ rx_ilit ''OK'' @ [WordB]) prev ('' OK '' @ text) []
      = Some ([(1, t)], CHR '' '' # text)" for prev
    using o by (simp add: rx_match.simps(3) head_opt_def)
  then have "rx_match (One is_alnum # Many is_alnum # EndCap 1 (t @ '' OK '' @ text) # rx_some is_space @ rx_ilit ''OK'' @ [WordB])
      None (t @ '' OK '' @ text) [] = Some ([(1, t)], CHR '' '' # text)"
    by (intro rx_match_some_greedy) (use assms o in auto)
  then show ?thesis by (simp add: re_match_def REVERT_TRIGGER_OK_RE_def)
qed

lemma number_then:
  assumes "list_all is_digit ds" "s = [] \<or> \<not> is_digit (hd s)" "post \<noteq> []" "\<not> is_digit (hd post)"
  shows "rx_match (Many is_digit # EndCap m t # rx_ilit post @ k) prev (ds @ s) g
      = rx_match (EndCap m t # rx_ilit post @ k) (last_opt prev ds) s g"
    "rx_match (Many is_digit # rx_ilit post @ k) prev (ds @ s) g = rx_match (rx_ilit post @ k) (last_opt prev ds) s g"
proof -
  have n: "lower_char c \<noteq> lower_char (hd post)" if "is_digit c" for c
    using that assms(4) by (auto simp: lower_char_def is_digit_def code_pt_def split: if_splits)
  show "rx_match (Many is_digit # EndCap m t # rx_ilit post @ k) prev (ds @ s) g
      = rx_match (EndCap m t # rx_ilit post @ k) (last_opt prev ds) s g"
    "rx_match (Many is_digit # rx_ilit post @ k) prev (ds @ s) g = rx_match (rx_ilit post @ k) (last_opt prev ds) s g"
    by (rule rx_match_many_det [OF assms(1,2)], use n assms(3) in \<open>cases post; simp\<close>)+
qed

lemma fetch_line_kinds:
  assumes "l = ''* '' @ str_of_nat n @ '' FETCH ('' @ body"
  shows "re_match RE_FETCH_LINE l \<noteq> None" "re_match RE_EXISTS_LINE l = None" "re_match RE_SEARCH_LINE l = None"
    "re_match REVERT_TRIGGER_OK_RE l = None" "\<not> py_startswith (py_upper l) ''* CAPABILITY ''"
proof -
  obtain d ds where ds: "str_of_nat n = d # ds" "is_digit d" "list_all is_digit ds"
    using str_of_nat_digits [of n] by (cases "str_of_nat n") auto
  have o: "\<not> is_digit (CHR '' '')" "\<not> is_alnum (CHR ''*'')" "word_at (Some (CHR ''H''))" "\<not> word_at (Some (CHR '' ''))"
    "lower_char (CHR ''F'') \<noteq> lower_char (CHR ''E'')" by code_simp+
  have d: "lower_char d \<noteq> lower_char (CHR ''S'')" "upper_char d \<noteq> CHR ''C''"
    using ds(2) by (auto simp: lower_char_def upper_char_def is_digit_def code_pt_def split: if_splits)
  show "re_match RE_FETCH_LINE l \<noteq> None"
    using ds o number_then(2) [OF ds(3), of "'' FETCH ('' @ body" "'' FETCH''" "[WordB]" "Some d" "[]"]
    by (simp add: re_match_def RE_FETCH_LINE_def assms head_opt_def)
  show "re_match RE_EXISTS_LINE l = None"
    using ds o number_then(1) [OF ds(3), of "'' FETCH ('' @ body" "'' EXISTS''" 1 "str_of_nat n @ '' FETCH ('' @ body" "[Eol]" "Some d" "[]"]
    by (simp add: re_match_def RE_EXISTS_LINE_def assms)
  show "re_match RE_SEARCH_LINE l = None" using d ds by (simp add: re_match_def RE_SEARCH_LINE_def assms)
  show "re_match REVERT_TRIGGER_OK_RE l = None" using o by (simp add: re_match_def REVERT_TRIGGER_OK_RE_def assms)
  show "\<not> py_startswith (py_upper l) ''* CAPABILITY ''" using d ds by (simp add: py_startswith_def py_upper_def assms)
qed

lemma entry_uids_iff: "u \<in> set (entry_uids e) \<longleftrightarrow> entry_has_uid u e"
  by (auto simp: entry_uids_def entry_has_uid_def Let_def split: option.split)

lemma pending_move_uids_iff: "u \<in> set (pending_move_uids f a d) \<longleftrightarrow> pending_move_uid f a u d"
  by (auto simp: pending_move_uids_def pending_move_uid_def list_ex_iff entry_uids_iff)

lemma sync_reverts [simp]: "db_reverts (px_db (sync_upstream_line pe l st)) = db_reverts (px_db st)"
proof -
  have f: "db_reverts (snd (get_or_create_folder n u now d)) = db_reverts d" for n u now d
    by (auto simp: get_or_create_folder_def Let_def split: option.split)
  have l: "db_reverts (upsert_folders_from_list names u su now d) = db_reverts d" for names u su now d
    by (induction names arbitrary: d) (auto simp: Let_def split_beta f split: option.split)
  have s: "db_reverts (snd (update_folder_stats n u a b c e g now d)) = db_reverts d" for n u a b c e g now d
    by (simp add: update_folder_stats_def Let_def split_beta f)
  have m: "db_reverts (upsert_message fid uid sq fl sj sn dt sz mid now d) = db_reverts d" for fid uid sq fl sj sn dt sz mid now d
    by (simp add: upsert_message_def)
  show ?thesis
    by (auto simp: sync_upstream_line_def sync_select_def sync_list_def sync_fetch_def Let_def split_beta l s m split: option.split)
qed

lemma delivered_all:
  "get_pending_reverts fid (mark_reverts_delivered (map rv_id (get_pending_reverts fid d)) now d) = []"
proof -
  have "rv_id r \<in> set (map rv_id (get_pending_reverts fid d))"
    if "r \<in> set (db_reverts d)" "rv_folder_id r = fid" "rv_delivered_at r = None" for r
    using that by (auto simp: get_pending_reverts_def)
  then have "set (get_pending_reverts fid (mark_reverts_delivered (map rv_id (get_pending_reverts fid d)) now d)) = {}"
    unfolding get_pending_reverts_def [of fid "mark_reverts_delivered _ _ _"] by (auto simp: mark_reverts_delivered_def upd_def)
  then show ?thesis by simp
qed

section \<open>Flags that cannot be patched\<close>

text \<open>A template whose first backslash is followed by a letter without an escape is refused.\<close>

lemma expand_refused:
  "bslash \<notin> set x \<Longrightarrow> escape w e t = None \<Longrightarrow> expand_template w (x @ bslash # e # t) = None"
  by (induction x) auto

definition capital :: "char \<Rightarrow> bool" where
  "capital c \<longleftrightarrow> 65 \<le> code_pt c \<and> code_pt c \<le> 90"

lemma escape_capital:
  assumes "capital e" shows "escape w e t = None"
proof -
  have "list_all (\<lambda>x. \<not> capital (fst x)) ESCAPES" "\<not> capital (CHR ''g'')" "\<not> capital (CHR ''0'')" "\<not> capital bslash"
    by code_simp+
  then have "e \<noteq> CHR ''g''" "e \<noteq> CHR ''0''" "map_of ESCAPES e = None" "e \<noteq> bslash"
    using assms by (auto simp: map_of_eq_None_iff list_all_iff)
  moreover have "\<not> is_digit e" "is_word e" using assms by (auto simp: capital_def is_digit_def is_word_def)
  moreover have "e \<noteq> CHR ''_''" using assms by (auto simp: capital_def code_pt_def)
  ultimately show ?thesis by (simp add: escape_def is_alnum_def)
qed

text \<open>A keyword has no backslash, a system flag is a backslash and a capitalised name.\<close>

definition keyword_flag :: "string \<Rightarrow> bool" where
  "keyword_flag f \<longleftrightarrow> bslash \<notin> set f"

definition system_flag :: "string \<Rightarrow> bool" where
  "system_flag f \<longleftrightarrow> (case f of b # c # _ \<Rightarrow> b = bslash \<and> capital c | _ \<Rightarrow> False)"

lemma first_system_flag:
  "\<exists>f \<in> set fs. system_flag f \<Longrightarrow> \<forall>f \<in> set fs. keyword_flag f \<or> system_flag f
   \<Longrightarrow> \<exists>x e t. py_join '' '' fs = x @ bslash # e # t \<and> bslash \<notin> set x \<and> capital e"
proof (induction fs)
  case (Cons f fs)
  show ?case
  proof (cases "system_flag f")
    case True
    then obtain e r where "f = bslash # e # r" "capital e" by (auto simp: system_flag_def split: list.splits)
    then have "py_join '' '' (f # fs) = [] @ bslash # e # r @ (if fs = [] then [] else '' '' @ py_join '' '' fs)"
      by (simp add: py_join_Cons)
    then show ?thesis using \<open>capital e\<close> by (metis empty_iff list.set(1))
  next
    case False
    then have f: "keyword_flag f" "fs \<noteq> []" using Cons.prems by auto
    then obtain x e t where "py_join '' '' fs = x @ bslash # e # t" "bslash \<notin> set x" "capital e"
      using Cons False by auto
    then have "py_join '' '' (f # fs) = (f @ '' '' @ x) @ bslash # e # t" "bslash \<notin> set (f @ '' '' @ x)"
      using f by (simp_all add: py_join_Cons keyword_flag_def)
    then show ?thesis using \<open>capital e\<close> by blast
  qed
qed simp

lemma flags_template_refused:
  assumes "\<exists>f \<in> set fs. system_flag f" "\<forall>f \<in> set fs. keyword_flag f \<or> system_flag f"
  shows "expand_template w (''FLAGS ('' @ py_join '' '' fs @ '')'') = None"
proof -
  obtain x e t where x: "py_join '' '' fs = x @ bslash # e # t" "bslash \<notin> set x" "capital e"
    using first_system_flag [OF assms] by blast
  have "expand_template w ((''FLAGS ('' @ x) @ bslash # e # (t @ '')'')) = None"
    by (rule expand_refused) (use x escape_capital in auto)
  then show ?thesis using x(1) by simp
qed

text \<open>A line that reports new messages opens the collection for a SELECT, and nothing but the end of one
  closes it.\<close>

lemma exists_line: "re_match RE_SELECT_UNTAGGED (''* '' @ str_of_nat n @ '' EXISTS'') \<noteq> None"
proof -
  obtain d ds where ds: "str_of_nat n = d # ds" "is_digit d" "list_all is_digit ds"
    using str_of_nat_digits [of n] by (cases "str_of_nat n") auto
  have o: "\<not> is_digit (CHR '' '')" by code_simp
  have "rx_match (Many is_digit # rx_ilit '' '' @ [Alt (rx_ilit ''EXISTS'') (rx_ilit ''RECENT'')]) (Some d) (ds @ '' EXISTS'') []
      = rx_match (rx_ilit '' '' @ [Alt (rx_ilit ''EXISTS'') (rx_ilit ''RECENT'')]) (last_opt (Some d) ds) '' EXISTS'' []"
    by (rule number_then(2)) (use ds o in auto)
  then show ?thesis using ds by (simp add: re_match_def RE_SELECT_UNTAGGED_def)
qed

lemma rstrip_plain: "s \<noteq> [] \<Longrightarrow> last s \<notin> {CHR 0x0D, CHR 0x0A} \<Longrightarrow> rstrip_crlf s = s"
  by (cases s rule: rev_cases) (auto simp: rstrip_crlf_def rstrip_if_def)

lemma collecting:
  "cn_in_select (px_conn st) \<Longrightarrow> list_all (\<lambda>l. py_startswith (rstrip_crlf l) ''* '') ls
   \<Longrightarrow> px_db (fold (sync_upstream_line pe) ls st) = px_db st \<and> cn_in_select (px_conn (fold (sync_upstream_line pe) ls st))"
proof (induction ls arbitrary: st)
  case (Cons l ls)
  let ?st = "set_conn (\<lambda>c. c\<lparr>cn_select_lines := cn_select_lines c @ [rstrip_crlf l]\<rparr>) st"
  have "sync_upstream_line pe l st = ?st" using Cons.prems by (simp add: sync_upstream_line_def Let_def)
  then show ?case using Cons.IH [of ?st] Cons.prems by simp
qed simp

section \<open>Properties\<close>

text \<open>C31: as long as nothing is pending, the proxy is transparent: however the server's bytes are cut
  into reads, lines, literals and unfinished lines, the agent receives exactly those bytes, in order.\<close>

theorem quiet_relay_transparent:
  assumes "cn_capability_tag (px_conn st) = None" "cn_revert_trigger_tag (px_conn st) = None"
    and "\<forall>r \<in> set (db_ops (px_db st)). \<not> (op_status r = Pending \<and> op_agent_id r = cn_agent_id (px_conn st))"
    and "pe_gone pe = (\<lambda>xs. False)" "[] \<notin> set chunks"
  shows "concat (map (\<lambda>x. case x of To_client b \<Rightarrow> b | To_upstream b \<Rightarrow> [])
      (px_sent (upstream_to_client pe (start_pump chunks) st)))
    = concat (map (\<lambda>x. case x of To_client b \<Rightarrow> b | To_upstream b \<Rightarrow> []) (px_sent st)) @ concat chunks"
proof -
  have "unfiltered st" using assms(1-3) by (simp add: unfiltered_def list_all_iff)
  from quiet_pump [OF assms(4) this, of "start_pump chunks"] assms(5) show ?thesis
    by (simp add: start_pump_def all_bytes_def sent_bytes_def)
qed


text \<open>A message that the agent has proposed to move out of the selected folder is gone for it: the
  server's FETCH responses about it update the mirror but are not shown.\<close>

theorem pending_move_hidden:
  assumes "py_decode bytes = ''* '' @ str_of_nat n @ '' FETCH ('' @ body" "re_match RE_FETCH_LITERAL (py_decode bytes) = None"
    and "parse_fetch_line (py_decode bytes) = Some info" "fi_uid info = Some u"
    and "cn_folder (px_conn st) = Some f" "f \<noteq> []"
    and "pending_move_uid f (cn_agent_id (px_conn st)) (int u) (px_db st)"
  shows "px_sent (snd (upstream_line pe continues bytes st)) = px_sent st"
proof -
  note kinds = fetch_line_kinds [OF assms(1)]
  define st1 where "st1 = snd (relay_capabilities st (py_decode bytes, bytes))"
  have r: "relay_capabilities st (py_decode bytes, bytes) = ((py_decode bytes, bytes), st1)"
    using kinds(5) by (auto simp: relay_capabilities_def st1_def split: option.split)
  have st1: "px_sent st1 = px_sent st" "px_db st1 = px_db st" "cn_folder (px_conn st1) = Some f"
    "cn_agent_id (px_conn st1) = cn_agent_id (px_conn st)"
    using assms(5) by (auto simp: st1_def relay_capabilities_def set_conn_def split: option.split)
  have "deliver_reverts pe (py_decode bytes) st1 = st1"
    using kinds(4) by (simp add: deliver_reverts_def split: option.split)
  moreover have "adjust_counts st1 (py_decode bytes, bytes) = (py_decode bytes, bytes)"
    using kinds(2,3) by (simp add: adjust_counts_def)
  moreover have "fetch_hidden st1 (py_decode bytes)"
    using kinds(1) assms(3-7) st1 by (simp add: fetch_hidden_def hidden_uids_def pending_move_uids_iff truthy_def or_empty_def)
  ultimately show ?thesis using assms(2) st1(1) by (simp add: upstream_line_def r Let_def)
qed

text \<open>A pending flag change never shows in the server's own FETCH responses when the flags to show
  include a system flag such as Seen or Deleted: its backslash is no valid escape of the substitution, which
  fails, and the line goes out with the flags the server knows.\<close>

theorem system_flags_not_patched:
  assumes "parse_fetch_line (fst ln) = Some info" "fi_uid info = Some u" "cn_folder (px_conn st) = Some f"
    and "get_pending_flag_changes_for_uid f (int u) (cn_agent_id (px_conn st)) (px_db st) = (add, rem)"
    and "\<exists>g \<in> set (merged_flags (fi_flags info) add rem). system_flag g"
    and "\<forall>g \<in> set (merged_flags (fi_flags info) add rem). keyword_flag g \<or> system_flag g"
  shows "patch_flags st ln = ln"
proof -
  have "re_sub_first RE_FLAGS_FIELD (''FLAGS ('' @ py_join '' '' (merged_flags (fi_flags info) add rem) @ '')'') l = None" for l
    using flags_template_refused [OF assms(5,6)] by (simp add: re_sub_first_def split: option.split)
  then show ?thesis using assms(1-4) by (simp add: patch_flags_def or_empty_def Let_def)
qed

text \<open>After a report of new messages outside a SELECT the mirror stands still: no untagged response
  updates it, whatever it says, until the next SELECT completes.\<close>

theorem unsolicited_exists_stops_mirror:
  assumes "list_all (\<lambda>l. py_startswith (rstrip_crlf l) ''* '') ls"
  shows "px_db (fold (sync_upstream_line pe) ls (sync_upstream_line pe (''* '' @ str_of_nat n @ '' EXISTS'') st)) = px_db st"
proof -
  let ?l = "''* '' @ str_of_nat n @ '' EXISTS''"
  have "rstrip_crlf ?l = ?l" by (rule rstrip_plain) simp_all
  then have "px_db (sync_upstream_line pe ?l st) = px_db st" "cn_in_select (px_conn (sync_upstream_line pe ?l st))"
    using exists_line [of n] by (auto simp: sync_upstream_line_def Let_def py_startswith_def)
  then show ?thesis using collecting [OF _ assms] by simp
qed

section \<open>Samples\<close>

text \<open>A capability response cut in two by a read is not filtered.\<close>

lemma cut_capability_unfiltered:
  "px_sent (upstream_to_client sample_penv (start_pump [''* CAPAB'', ''ILITY LITERAL+'' @ crlf])
     (set_conn (\<lambda>c. c\<lparr>cn_capability_tag := Some ''A1''\<rparr>) (sample_proxy empty_db)))
   = [To_client ''* CAPAB'', To_client (''ILITY LITERAL+'' @ crlf)]"
proof -
  let ?st = "set_conn (\<lambda>c. c\<lparr>cn_capability_tag := Some ''A1''\<rparr>) (sample_proxy empty_db)"
  let ?st1 = "snd (forward sample_penv ''* CAPAB'' ?st)"
  let ?b = "''ILITY LITERAL+''"
  have gone: "pe_gone sample_penv = (\<lambda>xs. False)" by (simp add: sample_penv_def)
  have cap: "relay_capabilities ?st1 (py_decode ?b, ?b) = ((?b, ?b), ?st1)"
  proof -
    have "py_decode ?b = ?b" "\<not> py_startswith (py_upper ?b) ''* CAPABILITY ''" "py_upper (takeWhile (\<lambda>c. c \<noteq> sp) ?b) \<noteq> ''A1''"
      by code_simp+
    then show ?thesis by (simp add: relay_capabilities_def)
  qed
  have rev: "deliver_reverts sample_penv l ?st1 = ?st1" for l
    by (simp add: deliver_reverts_def sample_proxy_def sample_connection_def)
  have kind: "adjust_counts ?st1 (?b, ?b) = (?b, ?b)" "\<not> fetch_hidden ?st1 ?b" "patch_flags ?st1 (?b, ?b) = (?b, ?b)"
    "re_match RE_FETCH_LITERAL ?b = None"
    using unstarred_plain [of "(?b, ?b)" ?st1] unstarred(3) [of ?b] by simp_all
  have "announces False ?b = None" by code_simp
  then have line: "upstream_line sample_penv False ?b ?st1
      = (Relayed 0 False, sync_upstream_line sample_penv ?b (snd (forward sample_penv (?b @ crlf) ?st1)))"
    using never_gone [OF gone] by (simp only: upstream_line_def cap rev kind Let_def split_beta fst_conv snd_conv
        option.case if_False)
  define st2 where "st2 = next_turn (sync_upstream_line sample_penv ?b (snd (forward sample_penv (?b @ crlf) ?st1)))"
  have "upstream_step sample_penv (start_pump [''* CAPAB'', ?b @ crlf]) ?st
      = (Some \<lparr>pu_buffer = ''* CAPAB'', pu_literal = 0, pu_after = False, pu_chunks = [?b @ crlf]\<rparr>, ?st)"
    by (simp add: upstream_step_def start_pump_def crlf_def read_more_def read_some_def READ_CHUNK_def)
  moreover have "upstream_step sample_penv \<lparr>pu_buffer = ''* CAPAB'', pu_literal = 0, pu_after = False, pu_chunks = [?b @ crlf]\<rparr> ?st
      = (Some \<lparr>pu_buffer = ?b @ crlf, pu_literal = 0, pu_after = False, pu_chunks = []\<rparr>, ?st1)"
    using never_gone [OF gone]
    by (simp add: upstream_step_def read_more_def read_some_def READ_CHUNK_def crlf_def py_startswith_def split_beta)
  moreover have "upstream_step sample_penv \<lparr>pu_buffer = ?b @ crlf, pu_literal = 0, pu_after = False, pu_chunks = []\<rparr> ?st1
      = (Some \<lparr>pu_buffer = [], pu_literal = 0, pu_after = False, pu_chunks = []\<rparr>, st2)"
    using line by (simp add: upstream_step_def relay_line_def st2_def crlf_def py_startswith_def)
  moreover have "upstream_step sample_penv \<lparr>pu_buffer = [], pu_literal = 0, pu_after = False, pu_chunks = []\<rparr> st2 = (None, st2)"
    by (simp add: upstream_step_def crlf_def read_more_def read_some_def)
  ultimately have "upstream_to_client sample_penv (start_pump [''* CAPAB'', ?b @ crlf]) ?st = st2"
    by (simp add: upstream_to_client.simps)
  moreover have "px_sent st2 = px_sent ?st1 @ [To_client (?b @ crlf)]" by (simp add: st2_def next_turn_def)
  ultimately show ?thesis by (simp add: sample_proxy_def set_conn_def)
qed

lemma quiet_relay_transparent_witness:
  "concat (map (\<lambda>x. case x of To_client b \<Rightarrow> b | To_upstream b \<Rightarrow> [])
      (px_sent (upstream_to_client sample_penv (start_pump [''* 1 FETCH (UID 7 BODY[] {3}'' @ crlf, ''ab'', ''c)'' @ crlf]) (sample_proxy empty_db))))
   = ''* 1 FETCH (UID 7 BODY[] {3}'' @ crlf @ ''abc)'' @ crlf"
proof -
  have "px_sent (sample_proxy empty_db) = []" by (simp add: sample_proxy_def)
  then show ?thesis
    using quiet_relay_transparent [of "sample_proxy empty_db" sample_penv "[''* 1 FETCH (UID 7 BODY[] {3}'' @ crlf, ''ab'', ''c)'' @ crlf]"]
    by (simp add: sample_proxy_def sample_connection_def empty_db_def sample_penv_def)
qed

definition sample_revert :: revert_row where
  "sample_revert = \<lparr>rv_id = 4, rv_operation_id = ''op_1'', rv_folder_id = 1, rv_uid = 7, rv_true_flags = [''Seen''],
     rv_created_at = 5, rv_delivered_at = None\<rparr>"


definition sample_move :: op_row where
  "sample_move = sample_op\<lparr>op_type := ''move'', op_agent_id := Some 1, op_message_ids := Some [''7''],
     op_folder_from := Some ''INBOX''\<rparr>"

lemma pending_move_hidden_witness:
  "px_sent (snd (upstream_line sample_penv False (''* '' @ str_of_nat 3 @ '' FETCH ('' @ ''UID 7 FLAGS ())'')
     (sample_proxy (empty_db\<lparr>db_ops := [sample_move]\<rparr>)))) = []"
proof -
  let ?b = "''* '' @ str_of_nat 3 @ '' FETCH ('' @ ''UID 7 FLAGS ())''"
  let ?d = "empty_db\<lparr>db_ops := [sample_move]\<rparr>"
  have c: "py_decode ?b = ?b" "re_match RE_FETCH_LITERAL ?b = None" "map_option fi_uid (parse_fetch_line ?b) = Some (Some 7)"
    "pending_move_uid ''INBOX'' (Some 1) (int 7) ?d"
    by code_simp+
  obtain info where info: "parse_fetch_line ?b = Some info" "fi_uid info = Some 7" using c(3) by auto
  have "px_sent (snd (upstream_line sample_penv False ?b (sample_proxy ?d))) = px_sent (sample_proxy ?d)"
    by (rule pending_move_hidden [where n = 3 and body = "''UID 7 FLAGS ())''" and info = info and u = 7 and f = "''INBOX''"])
      (use c info in \<open>simp_all add: sample_proxy_def sample_connection_def\<close>)
  then show ?thesis by (simp add: sample_proxy_def)
qed

definition sample_store :: op_row where
  "sample_store = sample_op\<lparr>op_type := ''mark_read'', op_agent_id := Some 1, op_message_ids := Some [''7''],
     op_folder_from := Some ''INBOX'', op_flags_add := Some [bslash # ''Seen''], op_flags_remove := None\<rparr>"

lemma system_flags_not_patched_witness:
  "patch_flags (sample_proxy (empty_db\<lparr>db_ops := [sample_store]\<rparr>)) (''* 3 FETCH (UID 7 FLAGS ())'', ''x'')
    = (''* 3 FETCH (UID 7 FLAGS ())'', ''x'')"
proof -
  let ?l = "''* 3 FETCH (UID 7 FLAGS ())''"
  let ?st = "sample_proxy (empty_db\<lparr>db_ops := [sample_store]\<rparr>)"
  have c: "map_option (\<lambda>i. (fi_uid i, fi_flags i)) (parse_fetch_line ?l) = Some (Some 7, [])" by code_simp
  have e: "entry_has_uid (int 7) ''7''" "''mark_read'' \<in> set FLAG_OP_TYPES" "capital (CHR ''S'')" by code_simp+
  then have p: "get_pending_flag_changes_for_uid ''INBOX'' (int 7) (Some 1) (empty_db\<lparr>db_ops := [sample_store]\<rparr>)
      = ([bslash # ''Seen''], [])"
    by (simp add: get_pending_flag_changes_for_uid_def sample_store_def sample_op_def pending_of_agent_def list_or_empty_def)
  have g: "system_flag (bslash # ''Seen'')" using e(3) by (simp add: system_flag_def)
  obtain info where info: "parse_fetch_line ?l = Some info" "fi_uid info = Some 7" "fi_flags info = []" using c by auto
  have m: "merged_flags [] [bslash # ''Seen''] [] = [bslash # ''Seen'']" by (simp add: merged_flags_def)
  show ?thesis
  proof (rule system_flags_not_patched)
    show "parse_fetch_line (fst (?l, ''x'')) = Some info" unfolding fst_conv by (rule info(1))
    show "cn_folder (px_conn ?st) = Some ''INBOX''" by (simp add: sample_proxy_def sample_connection_def)
    have "px_db ?st = empty_db\<lparr>db_ops := [sample_store]\<rparr>" "cn_agent_id (px_conn ?st) = Some 1"
      by (simp_all add: sample_proxy_def sample_connection_def)
    then show "get_pending_flag_changes_for_uid ''INBOX'' (int 7) (cn_agent_id (px_conn ?st)) (px_db ?st) = ([bslash # ''Seen''], [])"
      using p by (simp only:)
    show "fi_uid info = Some 7" by (rule info(2))
    show "\<exists>g \<in> set (merged_flags (fi_flags info) [bslash # ''Seen''] []). system_flag g"
      "\<forall>g \<in> set (merged_flags (fi_flags info) [bslash # ''Seen''] []). keyword_flag g \<or> system_flag g"
      unfolding info(3) m using g by auto
  qed
qed

lemma unsolicited_exists_stops_mirror_witness:
  "px_db (fold (sync_upstream_line sample_penv) [''* 3 FETCH (UID 7 FLAGS ())'']
      (sync_upstream_line sample_penv (''* '' @ str_of_nat 4 @ '' EXISTS'') (sample_proxy sample_db)))
   = px_db (sample_proxy sample_db)"
proof (rule unsolicited_exists_stops_mirror)
  show "list_all (\<lambda>l. py_startswith (rstrip_crlf l) ''* '') [''* 3 FETCH (UID 7 FLAGS ())'']" by code_simp
qed

end
