(* ===== verification/Proxy_Connection.thy ===== *)
theory Proxy_Connection
  imports Proxy_Server
begin

text \<open>
  An IMAP connection after login (\<open>gateway/proxy.py\<close>, the end of \<open>handle_client\<close>): the two pumps run as
  tasks over one session, in any order, until the first of them ends.  A step is one command of the
  agent or one step of the server pump.
\<close>

section \<open>Steps\<close>

record link =
  ln_input :: string
  ln_pump :: pump
  ln_proxy :: proxy
  ln_open :: bool

inductive conn_step :: "penv \<Rightarrow> link \<Rightarrow> link \<Rightarrow> bool" for pe where
  agent: "ln_open l \<Longrightarrow> read_line (ln_input l) = Some (line, rest) \<Longrightarrow> line \<noteq> []
    \<Longrightarrow> client_command pe line rest (ln_proxy l) = (Some rest', st)
    \<Longrightarrow> conn_step pe l (l\<lparr>ln_input := rest', ln_proxy := next_turn st\<rparr>)"
| agent_ends: "ln_open l \<Longrightarrow> read_line (ln_input l) = Some (line, rest) \<Longrightarrow> line \<noteq> []
    \<Longrightarrow> client_command pe line rest (ln_proxy l) = (None, st)
    \<Longrightarrow> conn_step pe l (l\<lparr>ln_proxy := st, ln_open := False\<rparr>)"
| agent_gone: "ln_open l \<Longrightarrow> read_line (ln_input l) \<in> {None, Some ([], [])}
    \<Longrightarrow> conn_step pe l (l\<lparr>ln_open := False\<rparr>)"
| server: "ln_open l \<Longrightarrow> upstream_step pe (ln_pump l) (ln_proxy l) = (Some pm, st)
    \<Longrightarrow> conn_step pe l (l\<lparr>ln_pump := pm, ln_proxy := st\<rparr>)"
| server_ends: "ln_open l \<Longrightarrow> upstream_step pe (ln_pump l) (ln_proxy l) = (None, st)
    \<Longrightarrow> conn_step pe l (l\<lparr>ln_proxy := st, ln_open := False\<rparr>)"

inductive_cases conn_step_cases: "conn_step pe l l'"

section \<open>Every step uses up input\<close>

definition to_come :: "link \<Rightarrow> nat" where
  "to_come l =
     (if ln_open l then Suc (length (ln_input l) + pump_weight (pu_buffer (ln_pump l)) (pu_chunks (ln_pump l))) else 0)"

lemma step_weight: "conn_step pe l l' \<Longrightarrow> to_come l' < to_come l"
proof (induction rule: conn_step.induct)
  case (agent l line rest rest' st)
  have "length rest' \<le> length rest" using outcome_tail [OF agent(4)] by auto
  moreover have "length rest < length (ln_input l)" using read_line_split [OF agent(2)] agent(3) by simp
  ultimately show ?case using agent(1) by (simp add: to_come_def)
next
  case (server l pm st)
  then show ?case using upstream_step_weight [OF server(2)] by (simp add: to_come_def)
qed (simp_all add: to_come_def)

lemma steps_weight: "(conn_step pe ^^ n) l l' \<Longrightarrow> n + to_come l' \<le> to_come l"
proof (induction n arbitrary: l')
  case (Suc n)
  then obtain m where "(conn_step pe ^^ n) l m" "conn_step pe m l'" by auto
  then show ?case using Suc.IH [of m] step_weight [of pe m l'] by simp
qed simp

text \<open>An open connection can always go on.\<close>

lemma step_exists: "ln_open l \<Longrightarrow> \<exists>l'. conn_step pe l l'"
  by (cases "upstream_step pe (ln_pump l) (ln_proxy l)", cases "fst (upstream_step pe (ln_pump l) (ln_proxy l))")
    (auto dest: server server_ends)

section \<open>What a connection respects\<close>

lemma owner_turn [simp]: "owner (next_turn st) = owner st" and db_turn [simp]: "px_db (next_turn st) = px_db st"
  by (simp_all add: owner_def next_turn_def)

lemma serves_owner: "serves st st' \<Longrightarrow> owner st' = owner st"
  by (simp add: serves_def owner_def)

lemma step_owner: "conn_step pe l l' \<Longrightarrow> owner (ln_proxy l') = owner (ln_proxy l)"
proof (induction rule: conn_step.induct)
  case (agent l line rest rest' st)
  then show ?case using owner_command [of pe line rest "ln_proxy l"] by simp
next
  case (agent_ends l line rest st)
  then show ?case using owner_command [of pe line rest "ln_proxy l"] by simp
next
  case (server l pm st)
  then show ?case using serves_owner [OF serves_step [of "ln_proxy l" pe "ln_pump l"]] by simp
next
  case (server_ends l st)
  then show ?case using serves_owner [OF serves_step [of "ln_proxy l" pe "ln_pump l"]] by simp
qed simp

context connection_relation
begin

lemma sync: "R (px_db st) (px_db (sync_upstream_line pe l st))"
proof -
  have "R (px_db st) (px_db (sync_select pe st))" by (simp add: sync_select_def split_beta Let_def stats)
  moreover have "R (px_db st) (px_db (sync_list pe x st))" for x by (simp add: sync_list_def Let_def listed)
  moreover have "R (px_db st) (px_db (sync_fetch pe x st))" for x
    by (simp add: sync_fetch_def message split: option.split)
  ultimately show ?thesis by (simp add: sync_upstream_line_def Let_def)
qed

lemma headers: "R (px_db st) (px_db (store_headers pe uid hdr st))"
  by (simp add: store_headers_def split_beta message split: option.split)

lemma injected: "R (px_db st) (px_db (deliver_reverts pe l st))"
proof -
  have "R (px_db st) (px_db (inject_pending_reverts pe st))" for st
    by (simp add: inject_pending_reverts_def Let_def delivered split: option.split)
  from this [of "set_conn f st" for f] show ?thesis by (simp add: deliver_reverts_def split: option.split)
qed

lemma line: "R (px_db st) (px_db (snd (upstream_line pe continues bytes st)))"
proof -
  have c: "px_db (snd (relay_capabilities st ln)) = px_db st" for ln
    by (simp add: relay_capabilities_def split: option.split)
  have f: "px_db (snd (forward pe b st)) = px_db st" for b st by (simp add: forward_def Let_def)
  define ln st1 where "ln = fst (relay_capabilities st (py_decode bytes, bytes))"
    and "st1 = snd (relay_capabilities st (py_decode bytes, bytes))"
  define st2 where "st2 = deliver_reverts pe (fst ln) st1"
  have st2: "R (px_db st) (px_db st2)" using injected [of st1] c by (simp add: st1_def st2_def)
  have s: "R (px_db st) (px_db (sync_upstream_line pe l st3))" if "px_db st3 = px_db st2" for l st3
    using trans [OF st2] sync [of st3] that by simp
  show ?thesis
    unfolding upstream_line_def Let_def split_beta ln_def [symmetric] st1_def [symmetric] st2_def [symmetric]
    using st2 s f by (auto split: option.split)
qed

lemma literal:
  "relay_literal pe n hdr buf chunks st = (gone, hdr', buf', chunks', st') \<Longrightarrow> px_db st' = px_db st"
proof (induction pe n hdr buf chunks st rule: relay_literal.induct)
  case (1 pe n hdr buf chunks st)
  then show ?case
    by (subst (asm) (2) relay_literal.simps)
      (auto simp: forward_def Let_def split: if_splits option.splits prod.splits)
qed

lemma pumped: "R (px_db st) (px_db (snd (upstream_step pe pm st)))"
proof -
  have f: "px_db (snd (forward pe b st)) = px_db st" for b st by (simp add: forward_def Let_def)
  have "R (px_db st) (px_db (snd (relay_line pe k pm st)))" for k
  proof -
    obtain res st1 where l: "upstream_line pe (pu_after pm) (take k (pu_buffer pm)) st = (res, st1)" by force
    then have st1: "R (px_db st) (px_db st1)" using line by (metis snd_conv)
    show ?thesis
    proof (cases res)
      case (Fetch_literal uid n)
      obtain g h b c st2 where r: "relay_literal pe n [] (drop (k + 2) (pu_buffer pm)) (pu_chunks pm) st1 = (g, h, b, c, st2)"
        by (metis prod_cases5)
      then have "px_db st2 = px_db st1" by (rule literal)
      then show ?thesis using Fetch_literal l r st1 trans [OF st1] headers [of st2] by (simp add: relay_line_def)
    qed (use l st1 in \<open>simp_all add: relay_line_def\<close>)
  qed
  moreover have "px_db (snd (read_more pe pm st)) = px_db st" by (simp add: read_more_def f split_beta split: option.split)
  ultimately show ?thesis
    by (auto simp: upstream_step_def relay_part_def Let_def f split_beta split: option.split)
qed

lemma step: "conn_step pe l l' \<Longrightarrow> fst (owner (ln_proxy l)) = a \<Longrightarrow> R (px_db (ln_proxy l)) (px_db (ln_proxy l'))"
proof (induction rule: conn_step.induct)
  case (agent l line rest rest' st)
  then show ?case using command [of "ln_proxy l" line rest] by simp
next
  case (agent_ends l line rest st)
  then show ?case using command [of "ln_proxy l" line rest] by simp
next
  case (server l pm st)
  then show ?case using pumped [of "ln_proxy l" "ln_pump l"] by simp
next
  case (server_ends l st)
  then show ?case using pumped [of "ln_proxy l" "ln_pump l"] by simp
qed simp

lemma run:
  assumes "(conn_step pe)\<^sup>*\<^sup>* l l'" "fst (owner (ln_proxy l)) = a"
  shows "R (px_db (ln_proxy l)) (px_db (ln_proxy l'))" "fst (owner (ln_proxy l')) = a"
  using assms by (induction rule: rtranclp_induct) (auto intro: trans step simp: step_owner)

end

lemma step_sends:
  "conn_step pe l l' \<Longrightarrow> \<exists>xs. px_sent (ln_proxy l') = px_sent (ln_proxy l) @ xs \<and> list_all safe_send xs"
proof (induction rule: conn_step.induct)
  case (agent l line rest rest' st)
  then show ?case
    using command_sends [OF read_line_one [OF agent(2)], of pe rest "ln_proxy l"] by (simp add: next_turn_def)
next
  case (agent_ends l line rest st)
  then show ?case using command_sends [OF read_line_one [OF agent_ends(2)], of pe rest "ln_proxy l"] by simp
next
  case (server l pm st)
  then show ?case using serves_step [of "ln_proxy l" pe "ln_pump l"] by (auto simp: serves_def safe_to_client)
next
  case (server_ends l st)
  then show ?case using serves_step [of "ln_proxy l" pe "ln_pump l"] by (auto simp: serves_def safe_to_client)
qed (simp add: safe_send_def)

section \<open>The pumps as loops\<close>

lemma client_loop_run:
  "ln_open l \<Longrightarrow> \<exists>l'. (conn_step pe)\<^sup>*\<^sup>* l l' \<and> \<not> ln_open l'
     \<and> ln_proxy l' = client_to_upstream pe (ln_input l) (ln_proxy l)"
proof (induction "length (ln_input l)" arbitrary: l rule: less_induct)
  case less
  show ?case
  proof (cases "read_line (ln_input l) \<in> {None, Some ([], [])}")
    case True
    then have "client_to_upstream pe (ln_input l) (ln_proxy l) = ln_proxy l"
      by (auto simp: client_to_upstream.simps [of pe "ln_input l"])
    then show ?thesis using agent_gone [OF less.prems True, of pe]
      by (intro exI [of _ "l\<lparr>ln_open := False\<rparr>"]) auto
  next
    case False
    then obtain line rest where r: "read_line (ln_input l) = Some (line, rest)" by (cases "read_line (ln_input l)") auto
    have "line \<noteq> []"
    proof
      assume "line = []"
      then have "rest = []" using r by (cases "ln_input l") (auto simp: read_line_def Let_def split: if_splits)
      then show False using False r \<open>line = []\<close> by simp
    qed
    note loop = client_to_upstream.simps [of pe "ln_input l" "ln_proxy l"] r this
    obtain res st where c: "client_command pe line rest (ln_proxy l) = (res, st)" by force
    show ?thesis
    proof (cases res)
      case None
      then show ?thesis using agent_ends [OF less.prems r \<open>line \<noteq> []\<close>] c loop
        by (intro exI [of _ "l\<lparr>ln_proxy := st, ln_open := False\<rparr>"]) auto
    next
      case (Some rest')
      let ?m = "l\<lparr>ln_input := rest', ln_proxy := next_turn st\<rparr>"
      have one: "conn_step pe l ?m" using agent [OF less.prems r \<open>line \<noteq> []\<close>] c Some by simp
      have "length rest' < length (ln_input l)"
        using outcome_tail c Some read_line_split [OF r] \<open>line \<noteq> []\<close> by fastforce
      then obtain l' where "(conn_step pe)\<^sup>*\<^sup>* ?m l'" "\<not> ln_open l'"
          "ln_proxy l' = client_to_upstream pe rest' (next_turn st)"
        using less.hyps [of ?m] less.prems by auto
      then show ?thesis using one c Some loop by (intro exI [of _ l']) (auto simp: next_turn_def)
    qed
  qed
qed

lemma server_loop_run:
  "ln_open l \<Longrightarrow> \<exists>l'. (conn_step pe)\<^sup>*\<^sup>* l l' \<and> \<not> ln_open l'
     \<and> ln_proxy l' = upstream_to_client pe (ln_pump l) (ln_proxy l)"
proof (induction "pump_weight (pu_buffer (ln_pump l)) (pu_chunks (ln_pump l))" arbitrary: l rule: less_induct)
  case less
  note loop = upstream_to_client.simps [of pe "ln_pump l" "ln_proxy l"]
  obtain r st where s: "upstream_step pe (ln_pump l) (ln_proxy l) = (r, st)" by force
  show ?case
  proof (cases r)
    case None
    then show ?thesis using server_ends [OF less.prems, of pe] s loop
      by (intro exI [of _ "l\<lparr>ln_proxy := st, ln_open := False\<rparr>"]) auto
  next
    case (Some pm)
    let ?m = "l\<lparr>ln_pump := pm, ln_proxy := st\<rparr>"
    have one: "conn_step pe l ?m" using server [OF less.prems] s Some by simp
    obtain l' where "(conn_step pe)\<^sup>*\<^sup>* ?m l'" "\<not> ln_open l'" "ln_proxy l' = upstream_to_client pe pm st"
      using less.hyps [of ?m] less.prems upstream_step_weight [of pe "ln_pump l" "ln_proxy l" pm st] s Some by auto
    then show ?thesis using one s Some loop by (intro exI [of _ l']) auto
  qed
qed

lemma run_sends:
  "(conn_step pe)\<^sup>*\<^sup>* l l'
   \<Longrightarrow> \<exists>xs. px_sent (ln_proxy l') = px_sent (ln_proxy l) @ xs \<and> list_all safe_send xs"
proof (induction rule: rtranclp_induct)
  case (step m n)
  then show ?case using step_sends [OF step(2)] by fastforce
qed simp

section \<open>Properties\<close>


text \<open>However the pumps interleave, a verified audit log stays verified and every operation that
  existed is still there and has moved only along its lifecycle.\<close>

theorem connection_keeps_history:
  assumes "(conn_step pe)\<^sup>*\<^sup>* l l'" "fst (verify_audit_chain (env_digest (pe_env pe)) (px_db (ln_proxy l)))"
    and "distinct (op_keys (px_db (ln_proxy l)))" "find_op i (px_db (ln_proxy l)) = Some r"
  shows "fst (verify_audit_chain (env_digest (pe_env pe)) (px_db (ln_proxy l')))
    \<and> (\<exists>r'. find_op i (px_db (ln_proxy l')) = Some r' \<and> lifecycle\<^sup>*\<^sup>* (op_status r) (op_status r'))"
proof -
  have "follows (px_db (ln_proxy l)) (px_db (ln_proxy l'))" "distinct (op_keys (px_db (ln_proxy l')))"
    using tracked.run(1) [OF assms(1) refl] assms(3) by (simp_all add: tracks_def)
  then show ?thesis
    using chained.run(1) [OF assms(1) refl] assms(2) follows_find [OF _ _ assms(4)]
    unfolding log_kept_def by (metis (full_types))
qed

text \<open>A connection only adds operations, and every one it adds carries the agent that logged in,
  whatever the agent names in its commands and whatever the server answers.\<close>

theorem operations_belong_to_agent:
  assumes "(conn_step pe)\<^sup>*\<^sup>* l l'"
  shows "\<exists>new. map (\<lambda>r. (op_id r, op_agent_id r)) (db_ops (px_db (ln_proxy l')))
      = map (\<lambda>r. (op_id r, op_agent_id r)) (db_ops (px_db (ln_proxy l))) @ new
    \<and> list_all (\<lambda>x. snd x = cn_agent_id (px_conn (ln_proxy l))) new"
  using owned.run(1) [OF assms refl] by (simp add: owned_def stamps_def owner_def)

text \<open>C29: the mirror stays well-formed through a whole connection: folder ids are unique and known, a
  tenant has one row per folder name and a folder one row per UID.\<close>

theorem connection_keeps_mirror:
  assumes "(conn_step pe)\<^sup>*\<^sup>* l l'" "mirror_wf (px_db (ln_proxy l))"
  shows "mirror_wf (px_db (ln_proxy l'))"
  using mirrored.run(1) [OF assms(1) refl] assms(2) by (simp add: mirror_kept_def)

text \<open>C30: every connection comes to an end once its two peers have said all they have to say: no
  interleaving takes more steps than there is input, and an open connection is never stuck.\<close>

theorem connection_ends:
  "(\<forall>n l'. (conn_step pe ^^ n) l l' \<longrightarrow> n + to_come l' \<le> to_come l)
   \<and> (ln_open l \<longrightarrow> (\<exists>l'. conn_step pe l l'))"
  using steps_weight step_exists by blast

text \<open>The two loops of the code are runs of the connection: each, on its own, is one way for the
  steps to interleave until the connection ends.\<close>

theorem loops_are_runs:
  assumes "ln_open l"
  shows "(\<exists>l'. (conn_step pe)\<^sup>*\<^sup>* l l' \<and> \<not> ln_open l' \<and> ln_proxy l' = client_to_upstream pe (ln_input l) (ln_proxy l))
    \<and> (\<exists>l'. (conn_step pe)\<^sup>*\<^sup>* l l' \<and> \<not> ln_open l' \<and> ln_proxy l' = upstream_to_client pe (ln_pump l) (ln_proxy l))"
  using client_loop_run [OF assms] server_loop_run [OF assms] by blast

section \<open>Samples\<close>

definition sample_link :: "string \<Rightarrow> string list \<Rightarrow> db \<Rightarrow> link" where
  "sample_link inp chunks d = \<lparr>ln_input = inp, ln_pump = start_pump chunks, ln_proxy = sample_proxy d, ln_open = True\<rparr>"

lemma sample_run:
  "\<exists>l'. (conn_step sample_penv)\<^sup>*\<^sup>* (sample_link inp chunks d) l'
     \<and> ln_proxy l' = client_to_upstream sample_penv inp (sample_proxy d)"
  using client_loop_run [of "sample_link inp chunks d" sample_penv] by (auto simp: sample_link_def)

lemma sample_link_proxy [simp]: "ln_proxy (sample_link inp chunks d) = sample_proxy d"
  by (simp add: sample_link_def)


lemma connection_keeps_history_witness:
  "\<exists>r'. find_op ''op_1'' (px_db (client_to_upstream sample_penv ''a1 UID MOVE 7 Trash'' (sample_proxy sample_pending_db))) = Some r'
     \<and> lifecycle\<^sup>*\<^sup>* (op_status sample_expiring) (op_status r')"
proof -
  obtain l' where l': "(conn_step sample_penv)\<^sup>*\<^sup>* (sample_link ''a1 UID MOVE 7 Trash'' [] sample_pending_db) l'"
      "ln_proxy l' = client_to_upstream sample_penv ''a1 UID MOVE 7 Trash'' (sample_proxy sample_pending_db)"
    using sample_run by blast
  have "find_op ''op_1'' (px_db (sample_proxy sample_pending_db)) = Some sample_expiring"
    "distinct (op_keys (px_db (sample_proxy sample_pending_db)))"
    "fst (verify_audit_chain (env_digest (pe_env sample_penv)) (px_db (sample_proxy sample_pending_db)))"
    by (simp_all add: sample_proxy_def sample_pending_simps find_op_def has_op_def sample_pending_db_def sample_auth_db_def
        verify_audit_chain_def verify_rows_def empty_db_def sample_penv_def sample_world_def)
  with connection_keeps_history [OF l'(1), of "''op_1''" sample_expiring] show ?thesis by (simp add: l'(2))
qed

lemma operations_belong_to_agent_witness:
  "\<exists>new. map (\<lambda>r. (op_id r, op_agent_id r))
      (db_ops (px_db (client_to_upstream sample_penv ''a1 UID MOVE 7 Trash'' (sample_proxy sample_pending_db))))
    = (''op_1'', op_agent_id sample_expiring) # new \<and> list_all (\<lambda>x. snd x = Some 1) new"
proof -
  obtain l' where l': "(conn_step sample_penv)\<^sup>*\<^sup>* (sample_link ''a1 UID MOVE 7 Trash'' [] sample_pending_db) l'"
      "ln_proxy l' = client_to_upstream sample_penv ''a1 UID MOVE 7 Trash'' (sample_proxy sample_pending_db)"
    using sample_run by blast
  have "map (\<lambda>r. (op_id r, op_agent_id r)) (db_ops (px_db (sample_proxy sample_pending_db))) = [(''op_1'', op_agent_id sample_expiring)]"
    "cn_agent_id (px_conn (sample_proxy sample_pending_db)) = Some 1"
    by (simp_all add: sample_proxy_def sample_connection_def sample_pending_simps sample_pending_db_def)
  with operations_belong_to_agent [OF l'(1)] show ?thesis by (simp add: l'(2))
qed

lemma connection_keeps_mirror_witness:
  "mirror_wf (px_db (client_to_upstream sample_penv ''a1 UID MOVE 7 Trash'' (sample_proxy empty_db)))"
proof -
  obtain l' where l': "(conn_step sample_penv)\<^sup>*\<^sup>* (sample_link ''a1 UID MOVE 7 Trash'' [] empty_db) l'"
      "ln_proxy l' = client_to_upstream sample_penv ''a1 UID MOVE 7 Trash'' (sample_proxy empty_db)"
    using sample_run by blast
  have "mirror_wf (px_db (sample_proxy empty_db))"
    by (simp add: mirror_wf_def folders_wf_def messages_wf_def empty_db_def sample_proxy_def)
  with connection_keeps_mirror [OF l'(1)] show ?thesis by (simp add: l'(2))
qed

lemma connection_ends_witness:
  "(\<exists>l'. conn_step sample_penv (sample_link ''x'' [''y''] empty_db) l')
   \<and> {n. \<exists>l'. (conn_step sample_penv ^^ n) (sample_link ''x'' [''y''] empty_db) l'} \<subseteq> {..5}"
proof -
  have "ln_open (sample_link ''x'' [''y''] empty_db)" by (simp add: sample_link_def)
  moreover have "to_come (sample_link ''x'' [''y''] empty_db) = 5"
    by (simp add: to_come_def sample_link_def start_pump_def pump_weight_def)
  ultimately show ?thesis
    using connection_ends [of sample_penv "sample_link ''x'' [''y''] empty_db"] by fastforce
qed

lemma loops_are_runs_witness:
  "\<exists>l'. (conn_step sample_penv)\<^sup>*\<^sup>* (sample_link ''a1 NOOP'' [''* OK'', crlf] empty_db) l' \<and> \<not> ln_open l'
    \<and> ln_proxy l' = upstream_to_client sample_penv (start_pump [''* OK'', crlf]) (sample_proxy empty_db)"
  using loops_are_runs [of "sample_link ''a1 NOOP'' [''* OK'', crlf] empty_db" sample_penv] by (simp add: sample_link_def)

end
