(* ===== verification/Agent_Login.thy ===== *)
theory Agent_Login
  imports Controls Agent_Auth Upstream
begin

text \<open>
  A login attempt of an agent, as both proxies make it (\<open>gateway/proxy.py\<close>, \<open>gateway/smtp_proxy.py\<close>):
  admission by the abuse protector, the check of the credential, and the record of the outcome; and
  the bearer string of an OAuth2 login upstream (\<open>gateway/oauth2_tokens.py\<close>).
\<close>

text \<open>\<open>gt_verify\<close>: bcrypt's comparison; \<open>gt_clk k\<close>: the \<open>k\<close>-th reading of the clock.\<close>

record gate =
  gt_verify :: "string \<Rightarrow> string \<Rightarrow> bool"
  gt_config :: abuse_config
  gt_ip :: string
  gt_clk :: "nat \<Rightarrow> int"

datatype admission = Blocked_for int | Denied | Admitted agent_row

definition account_name :: "string \<Rightarrow> string" where
  "account_name user = (if user = [] then ''<unknown>'' else user)"

definition try_login :: "gate \<Rightarrow> nat \<Rightarrow> string \<Rightarrow> string \<Rightarrow> db \<Rightarrow> abuse_state \<Rightarrow> admission \<times> abuse_state" where
  "try_login g k user pw d st =
     (let (dec, st1) = start_attempt (gt_config g) (gt_ip g) (account_name user) (gt_clk g k) st
      in if \<not> ad_allowed dec then (Blocked_for (ad_retry_after dec), st1)
         else case verify_agent_login (gt_verify g) user pw d of
           None \<Rightarrow> (Denied, snd (record_failure (gt_config g) (gt_ip g) (account_name user) (gt_clk g (Suc k)) st1))
         | Some a \<Rightarrow> (Admitted a, record_success (gt_ip g) (account_name user) st1))"

text \<open>\<open>base64.b64encode(raw.encode("ascii"))\<close>; an access token is never written down elsewhere.\<close>

definition build_xoauth2_string :: "string \<Rightarrow> string \<Rightarrow> string option" where
  "build_xoauth2_string email tok =
     (let raw = ''user='' @ email @ [CHR 0x01] @ ''auth=Bearer '' @ tok @ [CHR 0x01, CHR 0x01]
      in if list_all (\<lambda>c. code_pt c < 128) raw then Some (b64encode raw) else None)"

text \<open>The password of a plain login; an absent one is formatted as Python formats \<open>None\<close>.\<close>

definition upstream_password_of :: "env \<Rightarrow> agent_row \<Rightarrow> failure + string" where
  "upstream_password_of env a =
     (case ag_upstream_password a of None \<Rightarrow> Inr ''None'' | Some s \<Rightarrow> env_secret env s)"

definition xoauth2_string_of :: "env \<Rightarrow> agent_row \<Rightarrow> failure + string" where
  "xoauth2_string_of env a =
     (case env_token env (ag_id a) of
        Inl e \<Rightarrow> Inl e
      | Inr (email, tok) \<Rightarrow>
          (case build_xoauth2_string email tok of
             None \<Rightarrow> Inl (Library ''ascii codec'') | Some s \<Rightarrow> Inr s))"

definition oauth_agent :: "agent_row \<Rightarrow> bool" where
  "oauth_agent a = truthy (ag_oauth2_provider a)"

section \<open>Lemmas\<close>

text \<open>A credential that may log in: it is stored, matches the token, and it and its owner are live.\<close>

definition live_login :: "(string \<Rightarrow> string \<Rightarrow> bool) \<Rightarrow> string \<Rightarrow> string \<Rightarrow> db \<Rightarrow> agent_row \<Rightarrow> bool" where
  "live_login verify_pw user pw d a \<longleftrightarrow>
     ag_agent_username a = user \<and> verify_pw pw (ag_hashed_token a) \<and> a \<in> set (db_agents d)
     \<and> agent_active d a"

lemma verified_live: "verify_agent_login v user pw d = Some a \<Longrightarrow> live_login v user pw d a"
  by (auto simp: verify_agent_login_def live_login_def split: if_splits option.splits dest!: find_Some_in)

lemma admitted_live: "try_login g k user pw d st = (Admitted a, st') \<Longrightarrow> live_login (gt_verify g) user pw d a"
  by (auto simp: try_login_def split_beta Let_def split: if_splits option.splits intro: verified_live)

lemma admitted_allowed:
  "try_login g k user pw d st = (Admitted a, st')
   \<Longrightarrow> ad_allowed (fst (start_attempt (gt_config g) (gt_ip g) (account_name user) (gt_clk g k) st))"
  by (auto simp: try_login_def split_beta Let_def split: if_splits)

text \<open>An attempt is at most one admission and one record of its outcome.\<close>

lemma attempt_events:
  "\<exists>es. snd (try_login g k user pw d st) = fold (auth_step (gt_config g)) es st \<and> length es \<le> 2
     \<and> es \<noteq> [] \<and> hd es = Attempt (gt_ip g) (account_name user) (gt_clk g k)"
proof -
  define st1 where "st1 = snd (start_attempt (gt_config g) (gt_ip g) (account_name user) (gt_clk g k) st)"
  let ?a = "Attempt (gt_ip g) (account_name user) (gt_clk g k)"
  let ?f = "Failed_login (gt_ip g) (account_name user) (gt_clk g (Suc k))"
  let ?s = "Succeeded (gt_ip g) (account_name user)"
  have s1: "fold (auth_step (gt_config g)) [?a] st = st1" by (simp add: st1_def)
  have s2: "fold (auth_step (gt_config g)) [?a, e] st = auth_step (gt_config g) e st1" for e
    by (simp add: st1_def)
  have "snd (try_login g k user pw d st) \<in> {st1, auth_step (gt_config g) ?f st1, auth_step (gt_config g) ?s st1}"
    by (simp add: try_login_def split_beta Let_def st1_def split: option.split)
  then show ?thesis
    using s1 s2 [of ?f] s2 [of ?s]
    by (elim insertE) (force intro: exI [of _ "[?a]"] exI [of _ "[?a, ?f]"] exI [of _ "[?a, ?s]"])+
qed

end
