(* ===== verification/Proxy_Login.thy ===== *)
theory Proxy_Login
  imports Proxy_Connection Agent_Login
begin

text \<open>
  The beginning of an IMAP connection (\<open>gateway/proxy.py\<close>, \<open>handle_client\<close> up to the pumps): the lines
  before authentication, the one login attempt, the login upstream, and the discovery of folder roles.
  \<open>None\<close> as a result: the connection is over.
\<close>

section \<open>State\<close>

text \<open>
  \<open>hs_in\<close> and \<open>hs_up\<close> are what the agent and the server will still send.  \<open>le_connect\<close>: whether the server
  can be reached; \<open>le_late tag lines\<close>: the time for the answer to a discovery command is up after these
  lines; \<open>le_overrun\<close>: what a line longer than the buffer leaves of the stream.
\<close>

record lenv =
  le_penv :: penv
  le_gate :: gate
  le_connect :: "string \<Rightarrow> nat \<Rightarrow> bool"
  le_late :: "string \<Rightarrow> string list \<Rightarrow> bool"
  le_overrun :: "string \<Rightarrow> string"

record handshake =
  hs_in :: string
  hs_up :: string
  hs_sent :: "sent list"
  hs_abuse :: abuse_state
  hs_world :: world

text \<open>A write, and whether it raised because the peer had gone.\<close>

definition say :: "lenv \<Rightarrow> sent \<Rightarrow> handshake \<Rightarrow> bool \<times> handshake" where
  "say le x h =
     (let h' = h\<lparr>hs_sent := hs_sent h @ [x]\<rparr> in (pe_gone (le_penv le) (hs_sent h'), h'))"

abbreviation say_agent :: "lenv \<Rightarrow> string \<Rightarrow> handshake \<Rightarrow> bool \<times> handshake" where
  "say_agent le b \<equiv> say le (To_client b)"

definition bye :: "lenv \<Rightarrow> string \<Rightarrow> handshake \<Rightarrow> 'a option \<times> handshake" where
  "bye le b h = (None, snd (say_agent le b h))"

section \<open>Before authentication\<close>

datatype heard = Next_line | Hang_up | Presents string string string

definition heard_on :: "bool \<times> handshake \<Rightarrow> heard \<times> handshake" where
  "heard_on r = (if fst r then Hang_up else Next_line, snd r)"

definition strip_quotes :: "string \<Rightarrow> string" where
  "strip_quotes = strip_if (\<lambda>c. c = dquote)"

definition decoded_login :: "string \<Rightarrow> string \<times> string" where
  "decoded_login payload = (case decode_sasl_plain payload of Some p \<Rightarrow> p | None \<Rightarrow> ([], []))"

text \<open>\<open>AUTHENTICATE\<close>: \<open>ws\<close> are the words after it.\<close>

definition authenticate_command :: "lenv \<Rightarrow> string \<Rightarrow> string list \<Rightarrow> handshake \<Rightarrow> heard \<times> handshake" where
  "authenticate_command le tag ws h =
     (case ws of
        [] \<Rightarrow> heard_on (say_agent le (tag @ '' NO Unsupported auth mechanism '' @ em_dash
                 @ '' use LOGIN or AUTHENTICATE PLAIN'' @ crlf) h)
      | mech # args \<Rightarrow>
          if py_upper mech \<noteq> ''PLAIN'' then
            heard_on (say_agent le (tag @ '' NO Unsupported auth mechanism '' @ em_dash
                 @ '' use LOGIN or AUTHENTICATE PLAIN'' @ crlf) h)
          else case args of
            payload # _ \<Rightarrow> (Presents tag (fst (decoded_login payload)) (snd (decoded_login payload)), h)
          | [] \<Rightarrow>
              (case say_agent le (''+ '' @ crlf) h of
                 (True, h1) \<Rightarrow> (Hang_up, h1)
               | (False, h1) \<Rightarrow>
                   (case read_line (hs_in h1) of
                      None \<Rightarrow> (Hang_up, h1)
                    | Some (line, rest) \<Rightarrow>
                        let p = decoded_login (py_strip (py_decode line))
                        in (Presents tag (fst p) (snd p), h1\<lparr>hs_in := rest\<rparr>))))"

definition pre_auth_line :: "lenv \<Rightarrow> string \<Rightarrow> handshake \<Rightarrow> heard \<times> handshake" where
  "pre_auth_line le raw h =
     (case py_split raw of
        [] \<Rightarrow> (Next_line, h)
      | tag # ws \<Rightarrow>
          let cmd = (case ws of c # _ \<Rightarrow> py_upper c | [] \<Rightarrow> []); args = tl ws
          in if cmd = ''CAPABILITY'' then
               heard_on (say_agent le (''* CAPABILITY IMAP4rev1 AUTH=PLAIN AUTH=LOGIN'' @ crlf
                  @ tag @ '' OK CAPABILITY completed'' @ crlf) h)
             else if cmd = ''LOGOUT'' then
               (Hang_up, snd (say_agent le (''* BYE Logging out'' @ crlf @ tag @ '' OK LOGOUT completed'' @ crlf) h))
             else if cmd \<noteq> ''LOGIN'' \<and> cmd \<noteq> ''AUTHENTICATE'' then
               heard_on (say_agent le (tag @ '' NO [CLIENTBUG] '' @ cmd @ '' is not permitted before authentication ''
                  @ em_dash @ '' send: LOGIN <agent_user> <agent_token>'' @ crlf) h)
             else if cmd = ''AUTHENTICATE'' then authenticate_command le tag args h
             else (Presents tag (if args = [] then [] else strip_quotes (hd args))
                     (strip_quotes (py_join '' '' (tl args))), h))"

lemma say_fields [simp]:
  "hs_in (snd (say le x h)) = hs_in h" "hs_up (snd (say le x h)) = hs_up h"
  "hs_sent (snd (say le x h)) = hs_sent h @ [x]" "hs_abuse (snd (say le x h)) = hs_abuse h"
  "hs_world (snd (say le x h)) = hs_world h"
  by (simp_all add: say_def Let_def)

lemma say_eq: "say le x h = (g, h1) \<Longrightarrow> h1 = h\<lparr>hs_sent := hs_sent h @ [x]\<rparr>"
  by (simp add: say_def Let_def)

text \<open>Only the agent is spoken to, and its stream only gets shorter.\<close>

definition to_agent :: "handshake \<Rightarrow> handshake \<Rightarrow> bool" where
  "to_agent h h' \<longleftrightarrow> (\<exists>xs. hs_sent h' = hs_sent h @ xs \<and> to_client xs) \<and> length (hs_in h') \<le> length (hs_in h)
     \<and> hs_up h' = hs_up h \<and> hs_abuse h' = hs_abuse h \<and> hs_world h' = hs_world h"

lemma to_agent_refl [simp]: "to_agent h h"
  by (auto simp: to_agent_def to_client_def)

lemma to_agent_trans: "to_agent h h1 \<Longrightarrow> to_agent h1 h2 \<Longrightarrow> to_agent h h2"
  by (fastforce simp: to_agent_def to_client_def)

lemma to_agent_say [simp]: "to_agent h (snd (say_agent le b h))"
  by (auto simp: to_agent_def to_client_def)

lemma read_line_length:
  assumes "read_line s = Some (line, rest)" shows "length rest \<le> length s" "line \<noteq> [] \<Longrightarrow> length rest < length s"
  using read_line_split [OF assms] by auto

lemma authenticate_to_agent: "to_agent h (snd (authenticate_command le tag ws h))"
  by (auto simp: authenticate_command_def heard_on_def Let_def to_agent_def to_client_def
      split: list.split option.split prod.split bool.split dest!: say_eq read_line_length)

lemma pre_auth_to_agent: "to_agent h (snd (pre_auth_line le raw h))"
  using authenticate_to_agent
  by (auto simp: pre_auth_line_def heard_on_def Let_def split: list.split)

function await_login :: "lenv \<Rightarrow> handshake \<Rightarrow> (string \<times> string \<times> string) option \<times> handshake" where
  "await_login le h =
     (case read_line (hs_in h) of
        None \<Rightarrow> (None, h)
      | Some (line, rest) \<Rightarrow>
          if line = [] then (None, h)
          else case pre_auth_line le (rstrip_crlf (py_decode line)) (h\<lparr>hs_in := rest\<rparr>) of
            (Next_line, h1) \<Rightarrow> await_login le h1
          | (Hang_up, h1) \<Rightarrow> (None, h1)
          | (Presents tag user pw, h1) \<Rightarrow> (Some (tag, user, pw), h1))"
  by pat_completeness auto
termination
proof (relation "measure (\<lambda>(le, h). length (hs_in h))", goal_cases)
  case (2 le h p line rest r h1)
  have "to_agent (h\<lparr>hs_in := rest\<rparr>) h1"
    using pre_auth_to_agent [of "h\<lparr>hs_in := rest\<rparr>" le "rstrip_crlf (py_decode line)"] 2 by (metis snd_conv)
  moreover have "length rest < length (hs_in h)" using read_line_length(2) [of "hs_in h" line rest] 2 by simp
  ultimately show ?case by (simp add: to_agent_def)
qed simp

declare await_login.simps [simp del]

section \<open>The login attempt\<close>

definition blocked_text :: "string \<Rightarrow> int \<Rightarrow> string" where
  "blocked_text tag retry =
     ''* BYE Too many authentication attempts. Retry in '' @ str_of_int retry @ ''s'' @ crlf
     @ tag @ '' NO [LIMIT] Too many authentication attempts '' @ em_dash @ '' retry in '' @ str_of_int retry @ ''s'' @ crlf"

definition denied_text :: "string \<Rightarrow> string" where
  "denied_text tag =
     ''* BYE Authentication failed'' @ crlf
     @ tag @ '' NO [AUTHENTICATIONFAILED] Authentication credentials invalid'' @ crlf"

definition admit :: "lenv \<Rightarrow> handshake \<Rightarrow> (string \<times> agent_row) option \<times> handshake" where
  "admit le h =
     (case await_login le h of
        (None, h1) \<Rightarrow> (None, h1)
      | (Some (tag, user, pw), h1) \<Rightarrow>
          (case try_login (le_gate le) 0 user pw (w_db (hs_world h1)) (hs_abuse h1) of
             (Blocked_for retry, ab) \<Rightarrow> bye le (blocked_text tag retry) (h1\<lparr>hs_abuse := ab\<rparr>)
           | (Denied, ab) \<Rightarrow> bye le (denied_text tag) (h1\<lparr>hs_abuse := ab\<rparr>)
           | (Admitted a, ab) \<Rightarrow> (Some (tag, a), h1\<lparr>hs_abuse := ab\<rparr>)))"

section \<open>Login upstream\<close>

text \<open>The secret of the login command; \<open>Inl (Token_failed e)\<close> is answered, any other failure escapes.\<close>

definition login_command :: "env \<Rightarrow> string \<Rightarrow> agent_row \<Rightarrow> failure + string" where
  "login_command env tag a =
     (if oauth_agent a then
        (case xoauth2_string_of env a of
           Inl e \<Rightarrow> Inl e | Inr s \<Rightarrow> Inr (tag @ '' AUTHENTICATE XOAUTH2 '' @ s @ crlf))
      else (case upstream_password_of env a of
           Inl e \<Rightarrow> Inl e | Inr p \<Rightarrow> Inr (tag @ '' LOGIN '' @ ag_upstream_user a @ '' '' @ p @ crlf)))"

text \<open>Lines up to the tagged completion or a challenge are passed on, capabilities filtered.\<close>

function auth_response ::
  "lenv \<Rightarrow> string \<Rightarrow> string \<Rightarrow> handshake \<Rightarrow> (string \<times> string) option \<times> handshake" where
  "auth_response le tag caps h =
     (case read_line (hs_up h) of
        None \<Rightarrow> (None, h)
      | Some (line, rest) \<Rightarrow>
          let h1 = h\<lparr>hs_up := rest\<rparr>
          in if line = [] \<or> py_startswith line ''+ '' \<or> py_startswith line (tag @ '' '') then (Some (line, caps), h1)
             else let named = py_contains (py_upper line) ''CAPABILITY'';
                      shown = (if named then filter_capabilities (rstrip_crlf (py_decode line)) @ crlf else line)
                  in case say_agent le shown h1 of
                       (True, h2) \<Rightarrow> (None, h2)
                     | (False, h2) \<Rightarrow>
                         auth_response le tag (if named then caps @ '' '' @ py_decode line else caps) h2)"
  by pat_completeness auto
termination
proof (relation "measure (\<lambda>(le, tag, caps, h). length (hs_up h))", goal_cases)
  case (2 le tag caps h p line rest h1 named shown r h2)
  then show ?case using read_line_length(2) [of "hs_up h" line rest] by (auto dest!: say_eq [OF sym])
qed simp

declare auth_response.simps [simp del]

definition upstream_failed_text :: "string \<Rightarrow> string" where
  "upstream_failed_text tag =
     tag @ '' NO [AUTHENTICATIONFAILED] Upstream XOAUTH2 authentication failed '' @ em_dash
     @ '' token may be expired, re-authorize the agent'' @ crlf"

definition token_failed_text :: "string \<Rightarrow> string" where
  "token_failed_text tag =
     tag @ '' NO [AUTHENTICATIONFAILED] Upstream OAuth2 token is invalid or expired '' @ em_dash
     @ '' re-authorize the agent'' @ crlf"

definition unreachable_text :: "string \<Rightarrow> agent_row \<Rightarrow> string" where
  "unreachable_text tag a =
     tag @ '' NO [UNAVAILABLE] Upstream IMAP server temporarily unreachable ('' @ ag_upstream_host a @ '':''
     @ str_of_nat (ag_upstream_imap_port a) @ '') '' @ em_dash @ '' try again later'' @ crlf"

text \<open>A rejected bearer login: the empty response that ends the exchange, its last line, and the refusal.\<close>

definition abort_xoauth2 :: "lenv \<Rightarrow> string \<Rightarrow> handshake \<Rightarrow> 'a option \<times> handshake" where
  "abort_xoauth2 le tag h =
     (case say le (To_upstream crlf) h of
        (True, h1) \<Rightarrow> (None, h1)
      | (False, h1) \<Rightarrow>
          (case read_line (hs_up h1) of
             None \<Rightarrow> (None, h1)
           | Some (line, rest) \<Rightarrow> bye le (upstream_failed_text tag) (h1\<lparr>hs_up := rest\<rparr>)))"

text \<open>The completion that the agent saw, and the capability text seen.\<close>

definition finish_auth :: "lenv \<Rightarrow> string \<Rightarrow> agent_row \<Rightarrow> handshake \<Rightarrow> (string \<times> string) option \<times> handshake" where
  "finish_auth le tag a h =
     (case auth_response le tag [] h of
        (None, h1) \<Rightarrow> (None, h1)
      | (Some (resp, caps), h1) \<Rightarrow>
          if oauth_agent a \<and> py_startswith resp ''+ '' then abort_xoauth2 le tag h1
          else if oauth_agent a \<and> \<not> py_contains (py_upper resp) '' OK '' then bye le (upstream_failed_text tag) h1
          else let shown = (if py_contains (py_upper resp) ''CAPABILITY''
                            then filter_capabilities (rstrip_crlf (py_decode resp)) @ crlf else resp)
               in case say_agent le shown h1 of
                    (True, h2) \<Rightarrow> (None, h2)
                  | (False, h2) \<Rightarrow> (Some (shown, caps), h2))"

section \<open>Folder roles\<close>

definition DISCOVERY_MAX_LINES :: nat where
  "DISCOVERY_MAX_LINES = 2000"

function read_upstream_until_tagged ::
  "lenv \<Rightarrow> string \<Rightarrow> string list \<Rightarrow> handshake \<Rightarrow> string list option \<times> handshake" where
  "read_upstream_until_tagged le tag lines h =
     (if length lines \<ge> DISCOVERY_MAX_LINES \<or> le_late le tag lines then (None, h)
      else case read_line (hs_up h) of
        None \<Rightarrow> (None, h\<lparr>hs_up := le_overrun le (hs_up h)\<rparr>)
      | Some (line, rest) \<Rightarrow>
          let h1 = h\<lparr>hs_up := rest\<rparr>
          in if line = [] then (None, h1)
             else if py_startswith line (tag @ '' '') then (Some lines, h1)
             else read_upstream_until_tagged le tag (lines @ [rstrip_crlf (py_decode line)]) h1)"
  by pat_completeness auto
termination
  by (relation "measure (\<lambda>(le, tag, lines, h). length (hs_up h))") (auto dest: read_line_length(2))

declare read_upstream_until_tagged.simps [simp del]

definition CAPABILITY_PROBE :: string where
  "CAPABILITY_PROBE = ''nuvcap0 CAPABILITY'' @ crlf"

definition LIST_PROBE :: string where
  "LIST_PROBE = ''nuvlist0 LIST '' @ [dquote, dquote] @ '' '' @ [dquote] @ ''*'' @ [dquote]
     @ '' RETURN (SPECIAL-USE)'' @ crlf"

definition store_roles :: "lenv \<Rightarrow> nat option \<Rightarrow> string list \<Rightarrow> handshake \<Rightarrow> handshake" where
  "store_roles le user_id lines h =
     (let fs = parse_list_folders (filter (\<lambda>l. py_startswith (py_upper l) ''* LIST'') lines)
      in if fs = [] then h
         else h\<lparr>hs_world := (hs_world h)\<lparr>w_db := upsert_folders_from_list (map lf_name fs) user_id
                  (map_of (rev (listed_roles fs))) (gt_clk (le_gate le) 2) (w_db (hs_world h))\<rparr>\<rparr>)"

definition list_roles :: "lenv \<Rightarrow> nat option \<Rightarrow> handshake \<Rightarrow> handshake" where
  "list_roles le user_id h =
     (case say le (To_upstream LIST_PROBE) h of
        (True, h1) \<Rightarrow> h1
      | (False, h1) \<Rightarrow>
          (case read_upstream_until_tagged le ''nuvlist0'' [] h1 of
             (None, h2) \<Rightarrow> h2
           | (Some lines, h2) \<Rightarrow> store_roles le user_id lines h2))"

definition discover_special_use :: "lenv \<Rightarrow> nat option \<Rightarrow> string \<Rightarrow> handshake \<Rightarrow> handshake" where
  "discover_special_use le user_id known_caps h =
     (if py_contains (py_upper known_caps) ''SPECIAL-USE'' then list_roles le user_id h
      else case say le (To_upstream CAPABILITY_PROBE) h of
        (True, h1) \<Rightarrow> h1
      | (False, h1) \<Rightarrow>
          (case read_upstream_until_tagged le ''nuvcap0'' [] h1 of
             (None, h2) \<Rightarrow> h2
           | (Some lines, h2) \<Rightarrow>
               if py_contains (py_upper (py_join '' '' lines)) ''SPECIAL-USE'' then list_roles le user_id h2 else h2))"

section \<open>The session\<close>

definition open_session :: "agent_row \<Rightarrow> db \<Rightarrow> connection" where
  "open_session a d =
     \<lparr>cn_folder = None, cn_folder_id = None, cn_select_lines = [], cn_in_select = False,
      cn_revert_trigger_tag = None, cn_agent_id = Some (ag_id a), cn_user_id = Some (ag_user_id a),
      cn_search_uid_mode = False, cn_capability_tag = None,
      cn_provider_profile = Some (detect_provider (ag_upstream_host a)), cn_pending_copy_intent = None,
      cn_special_use = Some (get_special_use_folders (Some (ag_user_id a)) d)\<rparr>"

definition start_session :: "lenv \<Rightarrow> agent_row \<Rightarrow> string \<Rightarrow> string \<Rightarrow> handshake \<Rightarrow> connection \<times> handshake" where
  "start_session le a resp caps h =
     (let h1 = (if py_contains (py_upper resp) '' OK ''
                then discover_special_use le (Some (ag_user_id a)) (caps @ '' '' @ py_decode resp) h else h)
      in (open_session a (w_db (hs_world h1)), h1))"

definition log_in_upstream :: "lenv \<Rightarrow> string \<Rightarrow> agent_row \<Rightarrow> handshake \<Rightarrow> connection option \<times> handshake" where
  "log_in_upstream le tag a h =
     (let command = login_command (pe_env (le_penv le)) tag a
      in if \<not> oauth_agent a \<and> isl command then (None, h)
         else if \<not> le_connect le (ag_upstream_host a) (ag_upstream_imap_port a)
         then bye le (unreachable_text tag a) h
         else case read_line (hs_up h) of
           None \<Rightarrow> (None, h)
         | Some (greeting, rest) \<Rightarrow>
             let h1 = h\<lparr>hs_up := rest\<rparr>
             in case command of
                  Inl (Token_failed e) \<Rightarrow> bye le (token_failed_text tag) h1
                | Inl e \<Rightarrow> (None, h1)
                | Inr b \<Rightarrow>
                    (case say le (To_upstream b) h1 of
                       (True, h2) \<Rightarrow> (None, h2)
                     | (False, h2) \<Rightarrow>
                         (case finish_auth le tag a h2 of
                            (None, h3) \<Rightarrow> (None, h3)
                          | (Some (resp, caps), h3) \<Rightarrow> map_prod Some id (start_session le a resp caps h3))))"

definition handle_client :: "lenv \<Rightarrow> handshake \<Rightarrow> connection option \<times> handshake" where
  "handle_client le h =
     (case say_agent le (''* OK Nuvrail IMAP proxy ready'' @ crlf) h of
        (True, h1) \<Rightarrow> (None, h1)
      | (False, h1) \<Rightarrow>
          (case admit le h1 of
             (None, h2) \<Rightarrow> (None, h2)
           | (Some (tag, a), h2) \<Rightarrow> log_in_upstream le tag a h2))"

text \<open>The pumps start on what the two peers have still to say, the server's in whatever pieces.\<close>

definition pumps_from :: "connection \<Rightarrow> batches \<Rightarrow> string list \<Rightarrow> handshake \<Rightarrow> link" where
  "pumps_from c bs chunks h =
     \<lparr>ln_input = hs_in h, ln_pump = start_pump chunks,
      ln_proxy = \<lparr>px_conn = c, px_batches = bs, px_world = hs_world h, px_sent = hs_sent h, px_turn = 0\<rparr>,
      ln_open = True\<rparr>"

lemma await_to_agent: "to_agent h (snd (await_login le h))"
proof (induction le h rule: await_login.induct)
  case (1 le h)
  show ?case
  proof (cases "read_line (hs_in h)")
    case (Some p)
    obtain line rest where p: "p = (line, rest)" by (cases p)
    obtain x h1 where x: "pre_auth_line le (rstrip_crlf (py_decode line)) (h\<lparr>hs_in := rest\<rparr>) = (x, h1)" by force
    have "to_agent h (h\<lparr>hs_in := rest\<rparr>)"
      using Some p by (auto simp: to_agent_def to_client_def dest: read_line_length(1))
    then have h1: "to_agent h h1"
      using pre_auth_to_agent [of "h\<lparr>hs_in := rest\<rparr>" le "rstrip_crlf (py_decode line)"] x to_agent_trans by simp
    have "to_agent h1 (snd (await_login le h1))" if "x = Next_line" "line \<noteq> []"
      using "1.IH" [OF Some p [symmetric] that(2) x [symmetric] that(1)] .
    then show ?thesis using Some p x h1 to_agent_trans by (cases x) (auto simp: await_login.simps [of le h])
  qed (simp add: await_login.simps [of le h])
qed

section \<open>What is sent upstream\<close>

text \<open>
  \<open>speaks P h h'\<close>: from \<open>h\<close> to \<open>h'\<close> the handshake only sent what \<open>P\<close> allows, left the abuse protector
  alone, and did no more to the database than to record folder lists.
\<close>

definition folders_listed :: "db \<Rightarrow> db \<Rightarrow> bool" where
  "folders_listed d d' \<longleftrightarrow> (\<exists>names u su now. d' = upsert_folders_from_list names u su now d)"

definition speaks :: "(sent \<Rightarrow> bool) \<Rightarrow> handshake \<Rightarrow> handshake \<Rightarrow> bool" where
  "speaks P h h' \<longleftrightarrow> (\<exists>xs. hs_sent h' = hs_sent h @ xs \<and> list_all P xs) \<and> hs_abuse h' = hs_abuse h
     \<and> folders_listed\<^sup>*\<^sup>* (w_db (hs_world h)) (w_db (hs_world h'))"

lemma speaks_stored: "speaks P h h1 \<Longrightarrow> speaks P h (store_roles le u lines h1)"
proof -
  have "folders_listed d (upsert_folders_from_list names u su now d)" for d names su now
    unfolding folders_listed_def by blast
  then show "speaks P h h1 \<Longrightarrow> ?thesis"
    by (auto simp: speaks_def store_roles_def Let_def intro: rtranclp.rtrancl_into_rtrancl)
qed

lemma speaks_fields [simp]:
  "speaks P (h\<lparr>hs_in := r\<rparr>) h1 = speaks P h h1" "speaks P (h\<lparr>hs_up := r\<rparr>) h1 = speaks P h h1"
  "speaks P h (h1\<lparr>hs_in := r\<rparr>) = speaks P h h1" "speaks P h (h1\<lparr>hs_up := r\<rparr>) = speaks P h h1"
  by (simp_all add: speaks_def)

lemma speaks_refl [simp]: "speaks P h h"
  by (simp add: speaks_def)

lemma speaks_trans [trans]: "speaks P h h1 \<Longrightarrow> speaks P h1 h2 \<Longrightarrow> speaks P h h2"
  by (auto simp: speaks_def)

lemma speaks_say: "P x \<Longrightarrow> speaks P h (snd (say le x h))"
  by (simp add: speaks_def)

locale talk =
  fixes P :: "sent \<Rightarrow> bool"
  assumes client: "P (To_client b)"
begin

lemma said: "say le x h = (g, h1) \<Longrightarrow> P x \<Longrightarrow> speaks P h h1"
  using speaks_say [of P x h le] by simp

lemma heard: "to_agent h h' \<Longrightarrow> speaks P h h'"
proof -
  have "P x" if "case x of To_client _ \<Rightarrow> True | To_upstream _ \<Rightarrow> False" for x
    using that client by (cases x) auto
  then have "to_client xs \<Longrightarrow> list_all P xs" for xs by (auto simp: to_client_def list_all_iff)
  then show "to_agent h h' \<Longrightarrow> speaks P h h'" by (auto simp: to_agent_def speaks_def)
qed

lemma ended: "speaks P h (snd (bye le b h))"
  by (simp add: bye_def speaks_say client)

lemma ended_up: "speaks P h (snd (bye le b (h\<lparr>hs_up := r\<rparr>)))"
  using ended [of "h\<lparr>hs_up := r\<rparr>" le b] by simp

end

locale speech = talk +
  assumes probes: "P (To_upstream crlf)" "P (To_upstream CAPABILITY_PROBE)" "P (To_upstream LIST_PROBE)"
begin

lemma responded: "speaks P h (snd (auth_response le tag caps h))"
proof (induction "length (hs_up h)" arbitrary: caps h rule: less_induct)
  case less
  show ?case
  proof (cases "read_line (hs_up h)")
    case (Some p)
    obtain line rest where p: "p = (line, rest)" by (cases p)
    let ?named = "py_contains (py_upper line) ''CAPABILITY''"
    define shown where "shown = (if ?named then filter_capabilities (rstrip_crlf (py_decode line)) @ crlf else line)"
    define more where "more = (if ?named then caps @ '' '' @ py_decode line else caps)"
    obtain g h2 where g: "say_agent le shown (h\<lparr>hs_up := rest\<rparr>) = (g, h2)" by force
    have "speaks P h2 (snd (auth_response le tag more h2))" if "line \<noteq> []"
      using read_line_length(2) [of "hs_up h" line rest] Some p that say_eq [OF g] by (intro less) simp
    moreover have "speaks P h h2" using said [OF g client] by simp
    ultimately show ?thesis
      using Some p g speaks_trans
      by (cases g) (auto simp: auth_response.simps [of le tag caps h] Let_def shown_def [symmetric] more_def [symmetric])
  qed (simp add: auth_response.simps [of le tag caps h])
qed

lemma tagged: "speaks P h (snd (read_upstream_until_tagged le tag lines h))"
proof (induction le tag lines h rule: read_upstream_until_tagged.induct)
  case (1 le tag lines h)
  show ?case
    using 1 by (subst read_upstream_until_tagged.simps) (auto simp: Let_def split: option.split)
qed

lemma tagged_eq: "read_upstream_until_tagged le tag lines h = (r, h1) \<Longrightarrow> speaks P h h1"
  using tagged [of h le tag lines] by simp

lemma listed: "speaks P h (list_roles le u h)"
proof -
  obtain g h1 where g: "say le (To_upstream LIST_PROBE) h = (g, h1)" by force
  obtain r h2 where r: "read_upstream_until_tagged le ''nuvlist0'' [] h1 = (r, h2)" by force
  have "speaks P h h2" using said [OF g probes(3)] tagged_eq [OF r] by (rule speaks_trans)
  then show ?thesis
    using g r said [OF g probes(3)]
    by (auto simp: list_roles_def intro: speaks_stored split: bool.split option.split)
qed

lemma discovered: "speaks P h (discover_special_use le u caps h)"
proof -
  obtain g h1 where g: "say le (To_upstream CAPABILITY_PROBE) h = (g, h1)" by force
  obtain r h2 where r: "read_upstream_until_tagged le ''nuvcap0'' [] h1 = (r, h2)" by force
  have h2: "speaks P h h2" using said [OF g probes(2)] tagged_eq [OF r] by (rule speaks_trans)
  then show ?thesis
    using g r said [OF g probes(2)] speaks_trans [OF h2 listed]
    by (auto simp: discover_special_use_def listed split: bool.split option.split)
qed

lemma finished: "speaks P h (snd (finish_auth le tag a h))"
proof -
  obtain r h1 where r: "auth_response le tag [] h = (r, h1)" by force
  have h1: "speaks P h h1" using responded [of h le tag "[]"] r by simp
  have abort: "speaks P h1 (snd (abort_xoauth2 le tag h1 :: 'a option \<times> handshake))" for h1
  proof -
    obtain g h2 where g: "say le (To_upstream crlf) h1 = (g, h2)" by force
    then show ?thesis
      using said [OF g probes(1)] speaks_trans [OF said [OF g probes(1)] ended_up]
      by (auto simp: abort_xoauth2_def split: bool.split option.split)
  qed
  show ?thesis
  proof (cases r)
    case (Some p)
    then show ?thesis
      using r speaks_trans [OF h1 abort] speaks_trans [OF h1 ended] speaks_trans [OF h1 said [OF _ client]]
      by (auto simp: finish_auth_def Let_def split: prod.split bool.split)
  qed (use r h1 in \<open>simp add: finish_auth_def\<close>)
qed

lemma started: "speaks P h (snd (start_session le a resp caps h))"
  by (simp add: start_session_def Let_def discovered)

lemma logged_in:
  assumes "\<And>b. login_command (pe_env (le_penv le)) tag a = Inr b \<Longrightarrow> P (To_upstream b)"
  shows "speaks P h (snd (log_in_upstream le tag a h))"
proof (cases "login_command (pe_env (le_penv le)) tag a")
  case (Inl e)
  then show ?thesis
    using ended ended_up by (cases e) (auto simp: log_in_upstream_def Let_def split: option.split)
next
  case (Inr b)
  have sent: "speaks P h1 (snd (say le (To_upstream b) h1))" for h1 using assms [OF Inr] by (rule speaks_say)
  have after: "speaks P h2 (snd (case finish_auth le tag a h2 of (None, h3) \<Rightarrow> (None, h3)
      | (Some (resp, caps), h3) \<Rightarrow> map_prod Some id (start_session le a resp caps h3)))" for h2
  proof -
    obtain r h3 where r: "finish_auth le tag a h2 = (r, h3)" by force
    have "speaks P h2 h3" using finished [of h2 le tag a] r by simp
    then show ?thesis using r speaks_trans [OF _ started] by (auto split: option.split)
  qed
  have go: "speaks P h1 (snd (case say le (To_upstream b) h1 of (True, h2) \<Rightarrow> (None, h2) | (False, h2) \<Rightarrow>
      (case finish_auth le tag a h2 of (None, h3) \<Rightarrow> (None, h3)
      | (Some (resp, caps), h3) \<Rightarrow> map_prod Some id (start_session le a resp caps h3))))" for h1
  proof -
    obtain g h2 where g: "say le (To_upstream b) h1 = (g, h2)" by force
    then show ?thesis using sent [of h1] speaks_trans [OF sent after, of h1] by (simp split: bool.split)
  qed
  show ?thesis
    using Inr ended go [of "h\<lparr>hs_up := r\<rparr>" for r] by (auto simp: log_in_upstream_def Let_def split: option.split)
qed

end

section \<open>Who a session belongs to\<close>

text \<open>The bytes the login of an agent may send upstream.\<close>

definition login_send :: "env \<Rightarrow> string \<Rightarrow> agent_row \<Rightarrow> sent \<Rightarrow> bool" where
  "login_send env tag a x =
     (case x of
        To_client b \<Rightarrow> True
      | To_upstream b \<Rightarrow> login_command env tag a = Inr b \<or> b \<in> {crlf, CAPABILITY_PROBE, LIST_PROBE})"

interpretation login_speech: speech "login_send env tag a" for env tag a
  by unfold_locales (simp_all add: login_send_def)

definition only_agent :: "sent \<Rightarrow> bool" where
  "only_agent x = (case x of To_client b \<Rightarrow> True | To_upstream b \<Rightarrow> False)"

interpretation agent_talk: talk only_agent
  by unfold_locales (simp add: only_agent_def)

lemma session_of:
  assumes "log_in_upstream le tag a h = (Some c, h')" shows "c = open_session a (w_db (hs_world h'))"
proof -
  obtain resp caps h3 where "start_session le a resp caps h3 = (c, h')"
    using assms by (auto simp: log_in_upstream_def bye_def Let_def map_prod_def split: if_splits option.splits prod.splits
        bool.splits sum.splits failure.splits)
  then show ?thesis by (auto simp: start_session_def Let_def)
qed

text \<open>A handshake speaks to the agent only until a login is admitted, and then as that login may.\<close>

definition admitted_as :: "lenv \<Rightarrow> handshake \<Rightarrow> string \<Rightarrow> agent_row \<Rightarrow> bool" where
  "admitted_as le h tag a \<longleftrightarrow>
     (\<exists>user pw ab. try_login (le_gate le) 0 user pw (w_db (hs_world h)) (hs_abuse h) = (Admitted a, ab))"

definition spoke :: "(sent \<Rightarrow> bool) \<Rightarrow> handshake \<Rightarrow> handshake \<Rightarrow> bool" where
  "spoke P h h' \<longleftrightarrow> (\<exists>xs. hs_sent h' = hs_sent h @ xs \<and> list_all P xs)
     \<and> folders_listed\<^sup>*\<^sup>* (w_db (hs_world h)) (w_db (hs_world h'))"

lemma speaks_spoke: "speaks P h h' \<Longrightarrow> spoke P h h'"
  by (simp add: speaks_def spoke_def)

lemma spoke_abuse [simp]: "spoke P (h\<lparr>hs_abuse := ab\<rparr>) h' = spoke P h h'" "spoke P h (h'\<lparr>hs_abuse := ab\<rparr>) = spoke P h h'"
  by (simp_all add: spoke_def)

lemma spoke_trans: "spoke P h h1 \<Longrightarrow> spoke P h1 h2 \<Longrightarrow> spoke P h h2"
  by (auto simp: spoke_def)

lemma spoke_mono: "spoke P h h' \<Longrightarrow> (\<And>x. P x \<Longrightarrow> Q x) \<Longrightarrow> spoke Q h h'"
  by (auto simp: spoke_def list_all_iff)

lemma spoke_bye: "spoke only_agent h (snd (bye le b h))"
  by (rule speaks_spoke [OF agent_talk.ended])

lemma handshake_cases:
  assumes "handle_client le h = (r, h')"
  shows "(r = None \<and> spoke only_agent h h')
    \<or> (\<exists>tag a. admitted_as le h tag a \<and> spoke (login_send (pe_env (le_penv le)) tag a) h h'
        \<and> (\<forall>c. r = Some c \<longrightarrow> c = open_session a (w_db (hs_world h'))))"
proof -
  obtain g h1 where g: "say_agent le (''* OK Nuvrail IMAP proxy ready'' @ crlf) h = (g, h1)" by force
  have h1: "spoke only_agent h h1" "hs_world h1 = hs_world h" "hs_abuse h1 = hs_abuse h"
    using agent_talk.said [OF g agent_talk.client] say_eq [OF g] by (auto intro: speaks_spoke)
  obtain x h2 where x: "await_login le h1 = (x, h2)" by force
  then have t: "to_agent h1 h2" using await_to_agent [of h1 le] by simp
  have h2: "spoke only_agent h h2" "hs_world h2 = hs_world h" "hs_abuse h2 = hs_abuse h"
    using spoke_trans [OF h1(1) speaks_spoke [OF agent_talk.heard [OF t]]] t h1 by (auto simp: to_agent_def)
  have refuse: ?thesis if "r = None" "h' = snd (say_agent le b (h2\<lparr>hs_abuse := ab\<rparr>))" for b ab
    using spoke_trans [OF h2(1), of h'] spoke_bye [of "h2\<lparr>hs_abuse := ab\<rparr>" le b] that by (simp add: bye_def)
  show ?thesis
  proof (cases "g \<or> x = None")
    case True
    then show ?thesis using assms g h1 x h2 by (cases g) (auto simp: handle_client_def admit_def)
  next
    case False
    then obtain tag user pw where s: "\<not> g" "x = Some (tag, user, pw)" by auto
    obtain adm ab where l: "try_login (le_gate le) 0 user pw (w_db (hs_world h)) (hs_abuse h) = (adm, ab)" by force
    show ?thesis
    proof (cases adm)
      case (Admitted a)
      have "log_in_upstream le tag a (h2\<lparr>hs_abuse := ab\<rparr>) = (r, h')"
        using assms g x s l h2 Admitted by (simp add: handle_client_def admit_def)
      moreover have "speaks (login_send (pe_env (le_penv le)) tag a) (h2\<lparr>hs_abuse := ab\<rparr>)
          (snd (log_in_upstream le tag a (h2\<lparr>hs_abuse := ab\<rparr>)))"
        by (rule login_speech.logged_in) (simp add: login_send_def)
      moreover have "spoke (login_send (pe_env (le_penv le)) tag a) h h2"
        by (rule spoke_mono [OF h2(1)]) (simp add: only_agent_def login_send_def split: sent.splits)
      ultimately have "spoke (login_send (pe_env (le_penv le)) tag a) h h'"
        "\<forall>c. r = Some c \<longrightarrow> c = open_session a (w_db (hs_world h'))"
        using spoke_trans [of _ h h2 h'] session_of by (auto dest!: speaks_spoke)
      then show ?thesis using l Admitted unfolding admitted_as_def by blast
    next
      case (Blocked_for k)
      then have "r = None" "h' = snd (say_agent le (blocked_text tag k) (h2\<lparr>hs_abuse := ab\<rparr>))"
        using assms g x s l h2 by (auto simp: handle_client_def admit_def bye_def)
      then show ?thesis by (rule refuse)
    next
      case Denied
      then have "r = None" "h' = snd (say_agent le (denied_text tag) (h2\<lparr>hs_abuse := ab\<rparr>))"
        using assms g x s l h2 by (auto simp: handle_client_def admit_def bye_def)
      then show ?thesis by (rule refuse)
    qed
  qed
qed

lemma listed_keeps: "folders_listed\<^sup>*\<^sup>* d d' \<Longrightarrow> stamps d' = stamps d"
  by (induction rule: rtranclp_induct) (auto simp: folders_listed_def stamps_def)

lemma at_most_one_attempt:
  "\<exists>es. hs_abuse (snd (handle_client le h)) = fold (auth_step (gt_config (le_gate le))) es (hs_abuse h) \<and> length es \<le> 2"
proof -
  obtain g h1 where g: "say_agent le (''* OK Nuvrail IMAP proxy ready'' @ crlf) h = (g, h1)" by force
  obtain x h2 where x: "await_login le h1 = (x, h2)" by force
  have h2: "hs_abuse h1 = hs_abuse h" "hs_abuse h2 = hs_abuse h"
    using await_to_agent [of h1 le] x say_eq [OF g] by (auto simp: to_agent_def)
  have up: "hs_abuse (snd (log_in_upstream le tag a h)) = hs_abuse h" for tag a h
    using login_speech.logged_in [of le tag a "pe_env (le_penv le)" tag a h] by (simp add: login_send_def speaks_def)
  have "hs_abuse (snd (handle_client le h)) = hs_abuse h
      \<or> (\<exists>user pw d. hs_abuse (snd (handle_client le h)) = snd (try_login (le_gate le) 0 user pw d (hs_abuse h)))"
  proof (cases "g \<or> x = None")
    case True
    then show ?thesis using g x h2 by (cases g) (auto simp: handle_client_def admit_def)
  next
    case False
    then obtain tag user pw where s: "\<not> g" "x = Some (tag, user, pw)" by auto
    obtain adm ab where l: "try_login (le_gate le) 0 user pw (w_db (hs_world h2)) (hs_abuse h) = (adm, ab)" by force
    then have "hs_abuse (snd (handle_client le h)) = ab"
      using g x s h2 up by (cases adm) (simp_all add: handle_client_def admit_def bye_def)
    then show ?thesis using l by (metis snd_conv)
  qed
  then show ?thesis
  proof
    assume "hs_abuse (snd (handle_client le h)) = hs_abuse h"
    then show ?thesis by (intro exI [of _ "[]"]) simp
  qed (use attempt_events in metis)
qed

section \<open>Properties\<close>

text \<open>C2: nothing is sent to a mail server before a login attempt that the abuse protector admits presents
  the token of a live agent of a live account; what is sent then is that agent's login, the end of a failed
  exchange and the proxy's two questions about folders, and a session is opened for that agent alone.\<close>

theorem login_guards_upstream:
  assumes "handle_client le h = (r, h')" "hs_sent h = []"
  shows "r = None \<and> (\<exists>ys. hs_sent h' = map To_client ys)
    \<or> (\<exists>tag user pw a. live_login (gt_verify (le_gate le)) user pw (w_db (hs_world h)) a
        \<and> ad_allowed (fst (start_attempt (gt_config (le_gate le)) (gt_ip (le_gate le)) (account_name user)
             (gt_clk (le_gate le) 0) (hs_abuse h)))
        \<and> list_all (login_send (pe_env (le_penv le)) tag a) (hs_sent h')
        \<and> (\<forall>c. r = Some c \<longrightarrow> cn_agent_id c = Some (ag_id a) \<and> cn_user_id c = Some (ag_user_id a)))"
proof -
  have only: "\<exists>ys. xs = map To_client ys" if "list_all only_agent xs" for xs
    using that by (induction xs) (auto simp: only_agent_def split: sent.splits intro: exI [of _ "_ # _"])
  from handshake_cases [OF assms(1)] show ?thesis
  proof
    assume "\<exists>tag a. admitted_as le h tag a \<and> spoke (login_send (pe_env (le_penv le)) tag a) h h'
        \<and> (\<forall>c. r = Some c \<longrightarrow> c = open_session a (w_db (hs_world h')))"
    then obtain tag a user pw ab where a: "spoke (login_send (pe_env (le_penv le)) tag a) h h'"
        "\<forall>c. r = Some c \<longrightarrow> c = open_session a (w_db (hs_world h'))"
        "try_login (le_gate le) 0 user pw (w_db (hs_world h)) (hs_abuse h) = (Admitted a, ab)"
      unfolding admitted_as_def by blast
    have "list_all (login_send (pe_env (le_penv le)) tag a) (hs_sent h')"
      using a(1) assms(2) by (simp add: spoke_def)
    moreover have "cn_agent_id (open_session a d) = Some (ag_id a) \<and> cn_user_id (open_session a d) = Some (ag_user_id a)" for d
      by (simp add: open_session_def)
    then have "\<forall>c. r = Some c \<longrightarrow> cn_agent_id c = Some (ag_id a) \<and> cn_user_id c = Some (ag_user_id a)"
      using a(2) by metis
    ultimately show ?thesis using admitted_live [OF a(3)] admitted_allowed [OF a(3)] by blast
  qed (use only assms(2) in \<open>simp add: spoke_def\<close>)
qed


section \<open>Samples\<close>

definition sample_lenv :: lenv where
  "sample_lenv = \<lparr>le_penv = sample_penv,
     le_gate = \<lparr>gt_verify = (=), gt_config = sample_abuse_config, gt_ip = ''192.0.2.1'', gt_clk = (\<lambda>k. 100)\<rparr>,
     le_connect = (\<lambda>host port. True), le_late = (\<lambda>tag lines. False), le_overrun = (\<lambda>s. [])\<rparr>"

definition sample_completion :: string where
  "sample_completion = ''a OK done'' @ crlf"

definition sample_handshake :: "string \<Rightarrow> handshake" where
  "sample_handshake next_lines = \<lparr>hs_in = ''a LOGIN nuvrail_1a t0k'' @ crlf @ next_lines, hs_up = ''* OK'' @ crlf @ sample_completion,
     hs_sent = [], hs_abuse = fresh_abuse_state, hs_world = sample_world\<lparr>w_db := sample_auth_db\<rparr>\<rparr>"

lemma read_line_crlf:
  assumes "CHR 0x0A \<notin> set l" "length l < 1000"
  shows "read_line (l @ crlf @ r) = Some (l @ crlf, r)"
proof -
  have "takeWhile (\<lambda>c. c \<noteq> CHR 0x0A) (l @ crlf @ r) = l @ [CHR 0x0D]"
    using assms(1) by (simp add: crlf_def takeWhile_append)
  then show ?thesis using assms(2) by (simp add: read_line_def STREAM_LIMIT_def crlf_def)
qed

lemma sample_words:
  "py_split (rstrip_crlf (py_decode (''a LOGIN nuvrail_1a t0k'' @ crlf))) = [''a'', ''LOGIN'', ''nuvrail_1a'', ''t0k'']"
  "py_upper ''LOGIN'' = ''LOGIN''" "strip_quotes ''nuvrail_1a'' = ''nuvrail_1a''" "strip_quotes ''t0k'' = ''t0k''"
  by code_simp+

lemma sample_responses:
  "py_startswith sample_completion ''+ '' = False" "py_startswith sample_completion ''a '' = True"
  "py_contains (py_upper sample_completion) ''CAPABILITY'' = False"
  by code_simp+

lemma sample_try:
  "\<exists>ab. try_login (le_gate sample_lenv) 0 ''nuvrail_1a'' ''t0k'' sample_auth_db fresh_abuse_state = (Admitted sample_agent, ab)"
  by (simp add: try_login_def sample_lenv_def start_attempt_def account_name_def fresh_abuse_state_def Let_def
      get_retry_seconds_def ip_key_def account_key_def prune_def bucket_def sample_abuse_config_def sample_auth_db_def
      sample_agent_def sample_user_def empty_db_def verify_agent_login_def agent_active_def user_active_def)

lemma sample_upstream:
  assumes "hs_up h = ''* OK'' @ crlf @ sample_completion"
  shows "\<exists>c h'. log_in_upstream sample_lenv ''a'' sample_agent h = (Some c, h')"
proof -
  have sends: "say sample_lenv x h = (False, h\<lparr>hs_sent := hs_sent h @ [x]\<rparr>)" for x h
    by (simp add: say_def Let_def sample_lenv_def sample_penv_def)
  have lines: "read_line (''* OK'' @ crlf @ r) = Some (''* OK'' @ crlf, r)" "read_line sample_completion = Some (sample_completion, [])" for r
    using read_line_crlf [of "''* OK''" r] read_line_crlf [of "''a OK done''" "[]"] by (simp_all add: sample_completion_def)
  have c: "login_command (pe_env (le_penv sample_lenv)) ''a'' sample_agent = Inr (''a LOGIN a@b.example pw'' @ crlf)"
    by (simp add: login_command_def oauth_agent_def truthy_def upstream_password_of_def sample_agent_def sample_lenv_def
        sample_penv_def sample_env_def)
  have o: "\<not> oauth_agent sample_agent" by (simp add: oauth_agent_def truthy_def sample_agent_def)
  have up: "le_connect sample_lenv host port" for host port by (simp add: sample_lenv_def)
  have tag: "''a'' @ '' '' = ''a ''" by simp
  have r: "auth_response sample_lenv ''a'' [] h1 = (Some (sample_completion, []), h1\<lparr>hs_up := []\<rparr>)"
    if "hs_up h1 = sample_completion" for h1
    unfolding auth_response.simps [of sample_lenv "''a''" "[]" h1] that lines option.case prod.case Let_def tag
      sample_responses by simp
  show ?thesis
    unfolding log_in_upstream_def Let_def c assms lines sends
    by (simp add: o up r finish_auth_def sends sample_responses map_prod_def split_beta)
qed

lemma sample_pre_auth:
  "pre_auth_line sample_lenv (rstrip_crlf (py_decode (''a LOGIN nuvrail_1a t0k'' @ crlf))) h
   = (Presents ''a'' ''nuvrail_1a'' ''t0k'', h)"
  unfolding pre_auth_line_def sample_words list.case list.sel Let_def by (simp add: sample_words)

lemma sample_await:
  assumes "hs_in h = ''a LOGIN nuvrail_1a t0k'' @ crlf @ next_lines"
  shows "await_login sample_lenv h = (Some (''a'', ''nuvrail_1a'', ''t0k''), h\<lparr>hs_in := next_lines\<rparr>)"
proof -
  have "read_line (''a LOGIN nuvrail_1a t0k'' @ crlf @ next_lines) = Some (''a LOGIN nuvrail_1a t0k'' @ crlf, next_lines)"
    by (rule read_line_crlf) simp_all
  then show ?thesis
    unfolding await_login.simps [of sample_lenv h] assms by (simp only: option.case prod.case sample_pre_auth heard.case) simp
qed

lemma sample_session: "\<exists>c h'. handle_client sample_lenv (sample_handshake next_lines) = (Some c, h')"
proof -
  define h where "h = (sample_handshake next_lines)\<lparr>hs_sent := [To_client (''* OK Nuvrail IMAP proxy ready'' @ crlf)]\<rparr>"
  have g: "say_agent sample_lenv (''* OK Nuvrail IMAP proxy ready'' @ crlf) (sample_handshake next_lines) = (False, h)"
    by (simp add: say_def Let_def sample_lenv_def sample_penv_def h_def sample_handshake_def)
  have h: "hs_in h = ''a LOGIN nuvrail_1a t0k'' @ crlf @ next_lines" "hs_up h = ''* OK'' @ crlf @ sample_completion"
    "w_db (hs_world h) = sample_auth_db" "hs_abuse h = fresh_abuse_state"
    by (simp_all add: h_def sample_handshake_def)
  obtain ab where ab: "try_login (le_gate sample_lenv) 0 ''nuvrail_1a'' ''t0k'' sample_auth_db fresh_abuse_state
      = (Admitted sample_agent, ab)"
    using sample_try by blast
  have "admit sample_lenv h = (Some (''a'', sample_agent), h\<lparr>hs_in := next_lines, hs_abuse := ab\<rparr>)"
    unfolding admit_def sample_await [OF h(1)] by (simp add: h ab)
  then show ?thesis
    unfolding handle_client_def g using sample_upstream [of "h\<lparr>hs_in := next_lines, hs_abuse := ab\<rparr>"] h by simp
qed

lemma login_guards_upstream_witness:
  "\<exists>c h'. handle_client sample_lenv (sample_handshake []) = (Some c, h')
     \<and> (\<exists>tag user pw a. live_login (=) user pw sample_auth_db a \<and> list_all (login_send sample_env tag a) (hs_sent h')
          \<and> cn_agent_id c = Some (ag_id a))"
proof -
  obtain c h' where s: "handle_client sample_lenv (sample_handshake []) = (Some c, h')" using sample_session by blast
  have "hs_sent (sample_handshake []) = []" by (simp add: sample_handshake_def)
  from login_guards_upstream [OF s this] show ?thesis
    using s by (auto simp: sample_lenv_def sample_penv_def sample_handshake_def)
qed


text \<open>A password with a space reaches the server as one argument too many.\<close>

lemma login_password_unquoted:
  "login_command sample_env ''a'' (sample_agent\<lparr>ag_upstream_password := Some ''my pass''\<rparr>)
     = Inr (''a LOGIN a@b.example my pass'' @ crlf)"
  by (simp add: login_command_def oauth_agent_def truthy_def upstream_password_of_def sample_agent_def sample_env_def)

end
