(* ===== verification/Mime_Render.thy ===== *)
theory Mime_Render
  imports Utf8 Regex
begin

text \<open>
  What the reviewer of a send reads (\<open>gateway/mime_render.py\<close>): the best text part of the message, HTML
  reduced to text, newlines normalised and the length capped.  The \<open>email\<close> package is a parameter.
\<close>

section \<open>The mail library\<close>

text \<open>
  A leaf of a parsed message: its content type, its disposition (empty when it has none), its file name,
  its character set, and its payload with the transfer encoding undone (\<open>None\<close>: there is none, or undoing
  it raises).
\<close>

record mail_part =
  mp_type :: string
  mp_disposition :: string
  mp_filename :: string
  mp_charset :: "string option"
  mp_payload :: "string option"

text \<open>
  \<open>ml_parse\<close>: \<open>message_from_string\<close> and \<open>walk\<close>, whether there are headers, and the leaves in order; \<open>None\<close> when it
  raises.  \<open>ml_decode\<close>: a character set's lossy decoding, \<open>None\<close> for a name it does not know;
  \<open>ml_unescape\<close>: \<open>html.unescape\<close>.
\<close>

record mail_lib =
  ml_parse :: "string \<Rightarrow> (bool \<times> mail_part list) option"
  ml_decode :: "string \<Rightarrow> string \<Rightarrow> string option"
  ml_unescape :: "string \<Rightarrow> string"

section \<open>HTML\<close>

definition drop_spaces :: "string \<Rightarrow> string" where
  "drop_spaces = dropWhile is_space"

text \<open>The name of an opening \<open>script\<close> or \<open>style\<close> tag at the start, and what follows its \<open>>\<close>.\<close>

definition opened_block :: "string \<Rightarrow> (string \<times> string) option" where
  "opened_block s =
     (case s of
        [] \<Rightarrow> None
      | c # r \<Rightarrow>
          let r1 = drop_spaces r;
              name = (if py_startswith (py_lower r1) ''script'' then ''script''
                      else if py_startswith (py_lower r1) ''style'' then ''style'' else []);
              r2 = dropWhile (\<lambda>c. c \<noteq> CHR ''>'') (drop (length name) r1)
          in if c = CHR ''<'' \<and> name \<noteq> [] \<and> r2 \<noteq> [] then Some (name, tl r2) else None)"

text \<open>What follows a closing tag of that name at the start.\<close>

definition closed_block :: "string \<Rightarrow> string \<Rightarrow> string option" where
  "closed_block name s =
     (case s of
        [] \<Rightarrow> None
      | c # r \<Rightarrow>
          let r1 = drop_spaces r; r2 = drop_spaces (tl r1); r3 = drop_spaces (drop (length name) r2)
          in if c = CHR ''<'' \<and> py_startswith r1 ''/'' \<and> py_startswith (py_lower r2) name \<and> py_startswith r3 ''>''
             then Some (tl r3) else None)"

fun after_close :: "string \<Rightarrow> string \<Rightarrow> string option" where
  "after_close name [] = None"
| "after_close name (c # s) =
     (case closed_block name (c # s) of Some r \<Rightarrow> Some r | None \<Rightarrow> after_close name s)"

text \<open>The end of a \<open>script\<close> or \<open>style\<close> element that starts here, of a closing block tag, of a tag.\<close>

definition script_style :: "string \<Rightarrow> string option" where
  "script_style s = (case opened_block s of Some (name, r) \<Rightarrow> after_close name r | None \<Rightarrow> None)"

definition BLOCK_TAGS :: "string list" where
  "BLOCK_TAGS = [''p'', ''div'', ''br'', ''li'', ''tr'', ''h1'', ''h2'', ''h3'', ''h4'', ''h5'', ''h6'', ''table'', ''ul'',
     ''ol'', ''blockquote'']"

definition block_break :: "string \<Rightarrow> string option" where
  "block_break s =
     (if py_startswith s ''</'' then
        (let r1 = drop_spaces (drop 2 s); name = takeWhile (\<lambda>c. c \<noteq> CHR ''>'' \<and> \<not> is_space c) r1;
             r2 = drop_spaces (drop (length name) r1)
         in if py_lower name \<in> set BLOCK_TAGS \<and> py_startswith r2 ''>'' then Some (tl r2) else None)
      else None)"

definition any_tag :: "string \<Rightarrow> string option" where
  "any_tag s =
     (let r = dropWhile (\<lambda>c. c \<noteq> CHR ''>'') (tl s)
      in if py_startswith s ''<'' \<and> tl s \<noteq> [] \<and> hd (tl s) \<noteq> CHR ''>'' \<and> r \<noteq> [] then Some (tl r) else None)"

text \<open>\<open>re.sub\<close> with a matcher of non-empty prefixes: each leftmost match is replaced.\<close>

function sub_matches :: "(string \<Rightarrow> string option) \<Rightarrow> string \<Rightarrow> string \<Rightarrow> string" where
  "sub_matches m new [] = []"
| "sub_matches m new (c # s) =
     (case m (c # s) of
        Some r \<Rightarrow> if length r \<le> length s then new @ sub_matches m new r else c # sub_matches m new s
      | None \<Rightarrow> c # sub_matches m new s)"
  by pat_completeness auto
termination by (relation "measure (\<lambda>(m, new, s). length s)") auto

text \<open>\<open>str.splitlines\<close> at the line ends of ASCII text.\<close>

definition line_end :: "char \<Rightarrow> bool" where
  "line_end c \<longleftrightarrow> code_pt c \<in> {10, 11, 12, 13, 28, 29, 30}"

function splitlines :: "string \<Rightarrow> string list" where
  "splitlines s =
     (if s = [] then []
      else case dropWhile (\<lambda>c. \<not> line_end c) s of
        [] \<Rightarrow> [s]
      | c # r \<Rightarrow> takeWhile (\<lambda>c. \<not> line_end c) s
               # splitlines (if c = CHR 0x0D \<and> py_startswith r [CHR 0x0A] then tl r else r))"
  by pat_completeness auto
termination
proof (relation "measure length", goal_cases)
  case (2 s c r)
  then have "length (c # r) \<le> length s" by (metis length_dropWhile_le)
  then show ?case by (auto simp: le_diff_conv)
qed simp

declare splitlines.simps [simp del]

fun collapse_blank :: "bool \<Rightarrow> string list \<Rightarrow> string list" where
  "collapse_blank blank [] = []"
| "collapse_blank blank (l # ls) =
     (if py_strip l \<noteq> [] then l # collapse_blank False ls
      else if \<not> blank then [] # collapse_blank True ls
      else collapse_blank blank ls)"

definition html_to_text :: "mail_lib \<Rightarrow> string \<Rightarrow> string" where
  "html_to_text ml raw =
     (let t1 = sub_matches script_style [] raw;
          t2 = sub_matches block_break [CHR 0x0A] t1;
          t3 = ml_unescape ml (sub_matches any_tag [] t2)
      in py_strip (py_join [CHR 0x0A] (collapse_blank False (map (rstrip_if is_space) (splitlines t3)))))"

section \<open>Parts\<close>

definition part_text :: "mail_lib \<Rightarrow> mail_part \<Rightarrow> string option" where
  "part_text ml p =
     map_option (\<lambda>b. case ml_decode ml (if mp_charset p = None \<or> mp_charset p = Some [] then ''utf-8'' else the (mp_charset p)) b of
        Some t \<Rightarrow> t | None \<Rightarrow> py_decode b) (mp_payload p)"

definition is_attachment :: "mail_part \<Rightarrow> bool" where
  "is_attachment p \<longleftrightarrow> py_lower (mp_disposition p) = ''attachment'' \<or> mp_filename p \<noteq> []"

fun best_text :: "mail_lib \<Rightarrow> string option \<Rightarrow> mail_part list \<Rightarrow> string option" where
  "best_text ml html [] = html"
| "best_text ml html (p # ps) =
     (if mp_type p \<notin> {''text/plain'', ''text/html''} \<or> is_attachment p then best_text ml html ps
      else case part_text ml p of
        None \<Rightarrow> best_text ml html ps
      | Some t \<Rightarrow>
          if t = [] then best_text ml html ps
          else if mp_type p = ''text/plain'' then Some t
          else best_text ml (if html = None then Some (html_to_text ml t) else html) ps)"

section \<open>Rendering\<close>

definition MAX_RENDERED_CHARS :: nat where
  "MAX_RENDERED_CHARS = 100000"

definition truncation_mark :: string where
  "truncation_mark = CHR 0x0A # [CHR 0xE2, CHR 0x80, CHR 0xA6] @ '' (truncated for review)''"

definition normalise :: "string \<Rightarrow> string" where
  "normalise t =
     (let n = py_replace [CHR 0x0D] [CHR 0x0A] (py_replace [CHR 0x0D, CHR 0x0A] [CHR 0x0A] t)
      in if utf8_length n > MAX_RENDERED_CHARS then utf8_take MAX_RENDERED_CHARS n @ truncation_mark else n)"

definition render_body :: "mail_lib \<Rightarrow> string \<Rightarrow> string" where
  "render_body ml raw =
     (if raw = [] then raw
      else case ml_parse ml raw of
        None \<Rightarrow> raw
      | Some (headers, parts) \<Rightarrow>
          if \<not> headers then normalise raw
          else case best_text ml None parts of None \<Rightarrow> normalise raw | Some t \<Rightarrow> normalise t)"

section \<open>Lemmas\<close>

lemma normalise_length: "utf8_length (normalise t) \<le> MAX_RENDERED_CHARS + 25"
proof -
  have "utf8_length truncation_mark = 25" by code_simp
  then show ?thesis by (simp add: normalise_def Let_def utf8_take_length)
qed

lemma py_replace_char_gone: "c \<notin> set (py_replace [c] [d] s)" if "c \<noteq> d"
  using that by (induction s) (auto simp: py_startswith_def)

lemma utf8_take_subset: "set (utf8_take n s) \<subseteq> set s"
  by (induction n s rule: utf8_take.induct) (auto split: nat.splits)

lemma normalise_no_cr: "CHR 0x0D \<notin> set (normalise t)"
proof -
  define n where "n = py_replace [CHR 0x0D] [CHR 0x0A] (py_replace [CHR 0x0D, CHR 0x0A] [CHR 0x0A] t)"
  have "CHR 0x0D \<notin> set n" unfolding n_def by (rule py_replace_char_gone) simp
  moreover have "CHR 0x0D \<notin> set truncation_mark" by code_simp
  ultimately show ?thesis
    using utf8_take_subset [of MAX_RENDERED_CHARS n] by (auto simp: normalise_def Let_def n_def [symmetric])
qed

end
