(* ===== verification/Smtp_Proxy.thy ===== *)
theory Smtp_Proxy
  imports Proxy_Client Agent_Login Mime_Render
begin

text \<open>
  The SMTP proxy (\<open>gateway/smtp_proxy.py\<close>): one coroutine that reads the agent's commands, logs in
  upstream for an authenticated agent, forwards the envelope commands, and stages the message of \<open>DATA\<close>
  instead of forwarding it.
\<close>

section \<open>Responses\<close>

text \<open>A complete reply, its continuation lines included; \<open>None\<close>: a line was too long for the buffer.\<close>

function read_smtp_response :: "string \<Rightarrow> (string list \<times> string) option" where
  "read_smtp_response inp =
     (case read_line inp of
        None \<Rightarrow> None
      | Some (line, rest) \<Rightarrow>
          if line = [] then Some ([], rest)
          else if length line < 4 \<or> line ! 3 \<noteq> CHR ''-'' then Some ([line], rest)
          else map_option (apfst (Cons line)) (read_smtp_response rest))"
  by pat_completeness auto
termination by (relation "measure length") (auto dest!: read_line_split)

declare read_smtp_response.simps [simp del]

section \<open>Headers of the message\<close>

definition SEND_HEADERS :: "string list" where
  "SEND_HEADERS = [''subject'', ''in-reply-to'', ''references'']"

text \<open>The headers found so far, newest first, and the one a continuation line extends.\<close>

type_synonym send_headers = "(string \<times> string) list"

definition add_continuation :: "string option \<Rightarrow> string \<Rightarrow> send_headers \<Rightarrow> send_headers" where
  "add_continuation key line hs =
     (case key of None \<Rightarrow> hs
      | Some k \<Rightarrow> map (\<lambda>(n, v). (n, if n = k then v @ '' '' @ py_strip line else v)) hs)"

fun extract_headers :: "string option \<Rightarrow> send_headers \<Rightarrow> string list \<Rightarrow> send_headers" where
  "extract_headers key hs [] = hs"
| "extract_headers key hs (raw # lines) =
     (let line = rstrip_crlf (py_decode raw);
          name = takeWhile (\<lambda>c. c \<noteq> CHR '':'') line; value = dropWhile (\<lambda>c. c \<noteq> CHR '':'') line;
          k = py_lower (py_strip name)
      in if py_strip line = [] then hs
         else if hd line = CHR '' '' \<or> hd line = CHR 0x09
         then extract_headers key (add_continuation key line hs) lines
         else if value = [] then extract_headers None hs lines
         else if k \<in> set SEND_HEADERS \<and> map_of hs k = None
         then extract_headers (Some k) ((k, py_strip (tl value)) # hs) lines
         else extract_headers None hs lines)"

definition extract_send_headers :: "string list \<Rightarrow> string \<Rightarrow> string option" where
  "extract_send_headers lines = map_of (extract_headers None [] lines)"

definition subject_of :: "(string \<Rightarrow> string option) \<Rightarrow> string" where
  "subject_of hs = (if truthy (hs ''subject'') then or_empty (hs ''subject'') else ''<no subject>'')"

definition quoted_text :: "string \<Rightarrow> string" where
  "quoted_text s = [dquote] @ s @ [dquote]"

definition build_send_description ::
  "string option \<Rightarrow> string \<Rightarrow> string list \<Rightarrow> message_row option \<Rightarrow> string" where
  "build_send_description intent subject recipients original =
     (let to_list = py_join '', '' (if recipients = [] then [''<unknown>''] else recipients);
          base = strip_subject_prefixes (Some subject);
          orig_subject = (case original of Some m \<Rightarrow> or_empty (me_subject m) | None \<Rightarrow> []);
          orig_sender = (case original of Some m \<Rightarrow> or_empty (me_sender m) | None \<Rightarrow> []);
          parts = (if orig_subject \<noteq> [] then [quoted_text orig_subject] else if base \<noteq> [] then [quoted_text base] else [])
                @ (if orig_sender \<noteq> [] then [''from '' @ orig_sender] else [])
      in if intent = Some ''reply'' then
           ''Reply to '' @ (if parts \<noteq> [] then py_join '' '' parts else to_list)
         else if intent = Some ''forward'' then
           ''Forward '' @ quoted_text (if base \<noteq> [] then base else subject) @ '' to '' @ to_list
         else ''Send email to '' @ to_list @ '' '' @ em_dash @ '' Subject: '' @ quoted_text subject)"

section \<open>State\<close>

text \<open>
  \<open>sv_dial k host port\<close>: what the server says in the clear when the connection of turn \<open>k\<close> is opened
  (\<open>None\<close>: it cannot be), all that has arrived by the time of the upgrade; \<open>sv_tls k\<close>: what it says after the
  upgrade (\<open>None\<close>: the handshake fails).
\<close>

record senv =
  sv_penv :: penv
  sv_gate :: gate
  sv_dial :: "nat \<Rightarrow> string \<Rightarrow> nat \<Rightarrow> string option"
  sv_tls :: "nat \<Rightarrow> string option"
  sv_overrun :: "string \<Rightarrow> string"
  sv_mail :: mail_lib

record smtp =
  sm_up :: "string option"
  sm_cred :: "agent_row option"
  sm_sender :: "string option"
  sm_recipients :: "string list"
  sm_abuse :: abuse_state
  sm_world :: world
  sm_sent :: "sent list"
  sm_turn :: nat

type_synonym sm_handler = "string \<Rightarrow> smtp \<Rightarrow> string option \<times> smtp"

abbreviation sm_db :: "smtp \<Rightarrow> db" where
  "sm_db st \<equiv> w_db (sm_world st)"

text \<open>A write: the stream goes on unless the peer had gone, which ends the connection.\<close>

definition post :: "senv \<Rightarrow> sent \<Rightarrow> sm_handler" where
  "post sv x rest st =
     (let st' = st\<lparr>sm_sent := sm_sent st @ [x]\<rparr>
      in (if pe_gone (sv_penv sv) (sm_sent st') then None else Some rest, st'))"

definition tell :: "senv \<Rightarrow> string \<Rightarrow> sm_handler" where
  "tell sv text = post sv (To_client (text @ crlf))"

definition tell_last :: "senv \<Rightarrow> string \<Rightarrow> smtp \<Rightarrow> string option \<times> smtp" where
  "tell_last sv text st = (None, snd (tell sv text [] st))"

text \<open>Going on after a write, and after a complete reply.\<close>

definition on_post :: "senv \<Rightarrow> sent \<Rightarrow> smtp \<Rightarrow> (smtp \<Rightarrow> string option \<times> smtp) \<Rightarrow> string option \<times> smtp" where
  "on_post sv x st k = (case post sv x [] st of (None, st1) \<Rightarrow> (None, st1) | (Some _, st1) \<Rightarrow> k st1)"

definition on_reply ::
  "string \<Rightarrow> smtp \<Rightarrow> (string list \<Rightarrow> string \<Rightarrow> string option \<times> smtp) \<Rightarrow> string option \<times> smtp" where
  "on_reply inp st k = (case read_smtp_response inp of None \<Rightarrow> (None, st) | Some (lines, up) \<Rightarrow> k lines up)"

text \<open>Forward bytes, wait for the reply, and pass it back.\<close>

definition ask_upstream :: "senv \<Rightarrow> string \<Rightarrow> sm_handler" where
  "ask_upstream sv bytes rest st =
     on_post sv (To_upstream bytes) st (\<lambda>st1.
     on_reply (or_empty (sm_up st1)) st1 (\<lambda>lines up.
     post sv (To_client (concat lines)) rest (st1\<lparr>sm_up := Some up\<rparr>)))"

section \<open>Connecting upstream\<close>

definition EHLO_LINE :: string where "EHLO_LINE = ''EHLO nuvrail-proxy'' @ crlf"
definition STARTTLS_LINE :: string where "STARTTLS_LINE = ''STARTTLS'' @ crlf"
definition RSET_LINE :: string where "RSET_LINE = ''RSET'' @ crlf"

text \<open>
  The exchange in the clear, the upgrade, and the \<open>EHLO\<close> after it.  \<open>Some up\<close>: what the reader holds then,
  the bytes left over from the clear before those of the protected stream.
\<close>

definition connect_upstream_starttls :: "senv \<Rightarrow> string \<Rightarrow> nat \<Rightarrow> smtp \<Rightarrow> string option \<times> smtp" where
  "connect_upstream_starttls sv host port st =
     (case sv_dial sv (sm_turn st) host port of
        None \<Rightarrow> (None, st)
      | Some plain \<Rightarrow>
          on_reply plain st (\<lambda>greeting up1.
          on_post sv (To_upstream EHLO_LINE) st (\<lambda>st1.
          on_reply up1 st1 (\<lambda>caps up2.
          on_post sv (To_upstream STARTTLS_LINE) st1 (\<lambda>st2.
          on_reply up2 st2 (\<lambda>resp up3.
            if resp = [] \<or> \<not> py_startswith (hd resp) ''220'' then (None, st2)
            else case sv_tls sv (sm_turn st2) of
              None \<Rightarrow> (None, st2)
            | Some tls \<Rightarrow> on_post sv (To_upstream EHLO_LINE) st2 (\<lambda>st3. (Some (up3 @ tls), st3))))))))"

text \<open>The command that logs the agent's account in upstream.\<close>

definition smtp_login_command :: "env \<Rightarrow> agent_row \<Rightarrow> failure + string" where
  "smtp_login_command env a =
     (if oauth_agent a then
        (case xoauth2_string_of env a of Inl e \<Rightarrow> Inl e | Inr s \<Rightarrow> Inr (''AUTH XOAUTH2 '' @ s @ crlf))
      else
        (case upstream_password_of env a of
           Inl e \<Rightarrow> Inl e
         | Inr p \<Rightarrow> Inr (''AUTH PLAIN '' @ b64encode ([CHR 0x00] @ ag_upstream_user a @ [CHR 0x00] @ p) @ crlf)))"

section \<open>Rejection notices\<close>

definition unnotified :: "nat \<Rightarrow> op_row \<Rightarrow> bool" where
  "unnotified agent r \<longleftrightarrow> op_protocol r = ''smtp'' \<and> op_status r = Rejected_op \<and> op_agent_id r = Some agent
     \<and> \<not> op_rejection_notified r"

text \<open>\<open>ORDER BY decided_at ASC\<close> puts undecided rows first.\<close>

definition notice_rows :: "nat \<Rightarrow> db \<Rightarrow> op_row list" where
  "notice_rows agent d =
     (let rs = filter (unnotified agent) (db_ops d)
      in take 10 (filter (\<lambda>r. op_decided_at r = None) rs
          @ sort_key (\<lambda>r. the_default 0 (op_decided_at r)) (filter (\<lambda>r. op_decided_at r \<noteq> None) rs)))"

definition notice :: "op_row \<Rightarrow> string" where
  "notice r = ''214 [NUVRAIL] REJECTED '' @ op_id r @ '': '' @ op_description r @ crlf"

definition mark_notified :: "string list \<Rightarrow> db \<Rightarrow> db" where
  "mark_notified ids d =
     d\<lparr>db_ops := upd (\<lambda>r. op_id r \<in> set ids) (\<lambda>r. r\<lparr>op_rejection_notified := True\<rparr>) (db_ops d)\<rparr>"

text \<open>When the agent has gone the rows stay unmarked; the failure is swallowed either way.\<close>

definition send_rejection_notices :: "senv \<Rightarrow> nat \<Rightarrow> smtp \<Rightarrow> smtp" where
  "send_rejection_notices sv agent st =
     (let rs = notice_rows agent (sm_db st);
          st1 = st\<lparr>sm_sent := sm_sent st @ map (To_client \<circ> notice) rs\<rparr>
      in if rs = [] then st
         else if pe_gone (sv_penv sv) (sm_sent st1) then st1
         else st1\<lparr>sm_world := (sm_world st1)\<lparr>w_db := mark_notified (map op_id rs) (sm_db st1)\<rparr>\<rparr>)"

section \<open>AUTH\<close>

definition open_upstream :: "senv \<Rightarrow> agent_row \<Rightarrow> sm_handler" where
  "open_upstream sv a rest st =
     (let host = (if truthy (ag_upstream_smtp_host a) then or_empty (ag_upstream_smtp_host a) else ag_upstream_host a);
          port = ag_upstream_smtp_port a
      in case connect_upstream_starttls sv host port st of
           (None, st1) \<Rightarrow>
             tell_last sv (''421 4.4.1 Upstream SMTP server temporarily unreachable ('' @ host @ '':'' @ str_of_nat port
               @ '') '' @ em_dash @ '' try again later'') st1
         | (Some up, st1) \<Rightarrow>
             on_reply up st1 (\<lambda>caps up1.
               case smtp_login_command (pe_env (sv_penv sv)) a of
                 Inl (Token_failed e) \<Rightarrow> tell_last sv ''535 5.7.8 Upstream OAuth2 authentication failed'' st1
               | Inl e \<Rightarrow> (None, st1)
               | Inr command \<Rightarrow>
                   on_post sv (To_upstream command) st1 (\<lambda>st2.
                   on_reply up1 st2 (\<lambda>resp up2.
                     if resp = [] \<or> \<not> py_startswith (hd resp) ''235''
                     then tell_last sv ''535 5.7.8 Upstream authentication failed'' st2
                     else case tell sv ''235 2.7.0 Authentication succeeded'' rest
                                 (st2\<lparr>sm_up := Some up2, sm_cred := Some a\<rparr>) of
                       (None, st3) \<Rightarrow> (None, st3)
                     | (Some r, st3) \<Rightarrow> (Some r, send_rejection_notices sv (ag_id a) st3)))))"

definition attempt :: "senv \<Rightarrow> string \<Rightarrow> string \<Rightarrow> sm_handler" where
  "attempt sv user pw rest st =
     (case try_login (sv_gate sv) (2 * sm_turn st) user pw (sm_db st) (sm_abuse st) of
        (Blocked_for retry, ab) \<Rightarrow>
          tell_last sv (''454 4.7.0 Too many auth attempts. Retry in '' @ str_of_int retry @ ''s'') (st\<lparr>sm_abuse := ab\<rparr>)
      | (Denied, ab) \<Rightarrow>
          tell_last sv ''535 5.7.8 Authentication credentials invalid'' (st\<lparr>sm_abuse := ab\<rparr>)
      | (Admitted a, ab) \<Rightarrow> open_upstream sv a rest (st\<lparr>sm_abuse := ab\<rparr>))"

definition or_blank :: "(string \<times> string) option \<Rightarrow> string \<times> string" where
  "or_blank p = (case p of Some x \<Rightarrow> x | None \<Rightarrow> ([], []))"

text \<open>A challenge, and the line the agent answers it with.\<close>

definition challenge :: "senv \<Rightarrow> string \<Rightarrow> string \<Rightarrow> smtp \<Rightarrow> (string \<Rightarrow> string \<Rightarrow> smtp \<Rightarrow> string option \<times> smtp) \<Rightarrow> string option \<times> smtp" where
  "challenge sv text rest st k =
     (case tell sv text rest st of
        (None, st1) \<Rightarrow> (None, st1)
      | (Some _, st1) \<Rightarrow>
          (case read_line rest of None \<Rightarrow> (None, st1) | Some (line, rest') \<Rightarrow> k (py_strip line) rest' st1))"

definition handle_auth :: "senv \<Rightarrow> string list \<Rightarrow> sm_handler" where
  "handle_auth sv ws rest st =
     (let mech = (case ws of m # _ \<Rightarrow> py_upper m | [] \<Rightarrow> [])
      in if mech = ''PLAIN'' then
           (case tl ws of
              payload # _ \<Rightarrow> (case or_blank (decode_sasl_plain payload) of (u, p) \<Rightarrow> attempt sv u p rest st)
            | [] \<Rightarrow> challenge sv ''334 '' rest st (\<lambda>payload rest1 st1.
                (case or_blank (decode_sasl_plain_bytes payload) of (u, p) \<Rightarrow> attempt sv u p rest1 st1)))
         else if mech = ''LOGIN'' then
           challenge sv (''334 '' @ b64encode ''Username:'') rest st (\<lambda>user64 rest1 st1.
           challenge sv (''334 '' @ b64encode ''Password:'') rest1 st1 (\<lambda>pass64 rest2 st2.
             (case (b64_scan 0 0 0 user64, b64_scan 0 0 0 pass64) of
                (Some u, Some p) \<Rightarrow> attempt sv (py_decode u) (py_decode p) rest2 st2
              | _ \<Rightarrow> attempt sv [] [] rest2 st2)))
         else tell sv (''504 5.5.4 Authentication mechanism not supported '' @ em_dash @ '' try AUTH PLAIN'') rest st)"

section \<open>The envelope\<close>

definition MAIL_FROM_RE :: "rx list" where
  "MAIL_FROM_RE = rx_ilit ''MAIL FROM:'' @ [Many is_space] @ rx_lit ''<'' @ [Cap 1 [Many (rx_not ''>'')]] @ rx_lit ''>''"

definition RCPT_TO_RE :: "rx list" where
  "RCPT_TO_RE = rx_ilit ''RCPT TO:'' @ [Many is_space] @ rx_lit ''<'' @ [Cap 1 [Many (rx_not ''>'')]] @ rx_lit ''>''"

text \<open>The sender is noted, but the server is told the account's own address.\<close>

definition handle_mail :: "senv \<Rightarrow> string \<Rightarrow> string \<Rightarrow> sm_handler" where
  "handle_mail sv bytes line rest st =
     (let st1 = (case re_search MAIL_FROM_RE line of Some g \<Rightarrow> st\<lparr>sm_sender := Some (rx_group g 1)\<rparr> | None \<Rightarrow> st)
      in ask_upstream sv (case sm_cred st1 of
           Some a \<Rightarrow> ''MAIL FROM:<'' @ ag_upstream_user a @ ''>'' @ crlf | None \<Rightarrow> bytes) rest st1)"

definition handle_rcpt :: "senv \<Rightarrow> string \<Rightarrow> string \<Rightarrow> sm_handler" where
  "handle_rcpt sv bytes line rest st =
     (let st1 = (case re_search RCPT_TO_RE line of
                   Some g \<Rightarrow> st\<lparr>sm_recipients := sm_recipients st @ [rx_group g 1]\<rparr> | None \<Rightarrow> st)
      in ask_upstream sv bytes rest st1)"

section \<open>DATA\<close>

text \<open>The lines of the message up to the lone dot, or to the end of the stream.\<close>

function read_body :: "string \<Rightarrow> (string list \<times> string) option" where
  "read_body inp =
     (case read_line inp of
        None \<Rightarrow> None
      | Some (line, rest) \<Rightarrow>
          if line = [] \<or> line = CHR ''.'' # crlf \<or> line = [CHR ''.'', CHR 0x0A] then Some ([], rest)
          else map_option (apfst (Cons line)) (read_body rest))"
  by pat_completeness auto
termination by (relation "measure length") (auto dest!: read_line_split)

declare read_body.simps [simp del]

definition parent_ids :: "(string \<Rightarrow> string option) \<Rightarrow> string list" where
  "parent_ids hs =
     (let ids = extract_message_ids (hs ''in-reply-to'')
      in if ids \<noteq> [] then ids else extract_message_ids (hs ''references''))"

definition original_of :: "(string \<Rightarrow> string option) \<Rightarrow> agent_row option \<Rightarrow> db \<Rightarrow> message_row option" where
  "original_of hs cred d =
     (case (parent_ids hs, cred) of
        (i # is, Some a) \<Rightarrow> find_message_by_message_id (last (i # is)) (Some (ag_user_id a)) d
      | _ \<Rightarrow> None)"

definition build_envelope ::
  "mail_lib \<Rightarrow> smtp \<Rightarrow> (string \<Rightarrow> string option) \<Rightarrow> message_row option \<Rightarrow> string list \<Rightarrow> envelope" where
  "build_envelope ml st hs original lines =
     (let body = py_decode (concat lines); rendered = render_body ml body
      in \<lparr>env_from = or_empty (sm_sender st), env_to = sm_recipients st, env_subject = subject_of hs,
          env_body = Some body, env_body_rendered = Some rendered, env_body_preview = Some (utf8_take 200 rendered),
          env_in_reply_to = (if truthy (hs ''in-reply-to'') then hs ''in-reply-to'' else None),
          env_original = map_option (\<lambda>m. (me_subject m, me_sender m)) original\<rparr>)"

definition send_request :: "mail_lib \<Rightarrow> smtp \<Rightarrow> string list \<Rightarrow> op_request" where
  "send_request ml st lines =
     (let hs = extract_send_headers lines; original = original_of hs (sm_cred st) (sm_db st);
          intent = derive_send_intent (Some (subject_of hs)) (hs ''in-reply-to'') (hs ''references'') (original \<noteq> None)
      in \<lparr>rq_op_type = ''smtp_send'', rq_protocol = ''smtp'',
          rq_description = build_send_description (map_option fst intent) (subject_of hs) (sm_recipients st) original,
          rq_agent_id = map_option ag_id (sm_cred st), rq_imap_command = None,
          rq_smtp_envelope = Some (build_envelope ml st hs original lines), rq_message_ids = None,
          rq_folder_from = None, rq_folder_to = None, rq_flags_add = None, rq_flags_remove = None,
          rq_snapshot = None, rq_is_urgent = None, rq_batch_id = None, rq_append_message = None,
          rq_intent_label = map_option fst intent, rq_intent_confidence = map_option snd intent\<rparr>)"

definition smtp_draw :: "senv \<Rightarrow> smtp \<Rightarrow> draw" where
  "smtp_draw sv st = pe_draw (sv_penv sv) (sm_turn st)"

text \<open>Staging; the failure is answered like a success, without the id.\<close>

definition stage_send :: "senv \<Rightarrow> string list \<Rightarrow> smtp \<Rightarrow> string \<times> smtp" where
  "stage_send sv lines st =
     (case create_operation (pe_env (sv_penv sv)) (pe_decide (sv_penv sv)) (dr_clk (smtp_draw sv st))
             (dr_op_id (smtp_draw sv st)) (send_request (sv_mail sv) st lines) (sm_world st) of
        (r, w) \<Rightarrow>
          (''250 OK [STAGED] Send queued for approval '' @ em_dash @ '' ID: ''
             @ (case r of Inr (i, _) \<Rightarrow> i | Inl e \<Rightarrow> ''pending''), st\<lparr>sm_world := w\<rparr>))"

text \<open>The transaction upstream is reset; whatever goes wrong with that is only logged.\<close>

definition reset_upstream :: "senv \<Rightarrow> smtp \<Rightarrow> smtp" where
  "reset_upstream sv st =
     (case post sv (To_upstream RSET_LINE) [] st of
        (None, st1) \<Rightarrow> st1
      | (Some _, st1) \<Rightarrow>
          st1\<lparr>sm_up := Some (case read_smtp_response (or_empty (sm_up st1)) of
             None \<Rightarrow> sv_overrun sv (or_empty (sm_up st1)) | Some (lines, up) \<Rightarrow> up)\<rparr>)"

definition handle_data :: "senv \<Rightarrow> sm_handler" where
  "handle_data sv rest st =
     (case tell sv ''354 Start mail input; end with <CRLF>.<CRLF>'' rest st of
        (None, st1) \<Rightarrow> (None, st1)
      | (Some _, st1) \<Rightarrow>
          (case read_body rest of
             None \<Rightarrow> (None, st1)
           | Some (lines, rest') \<Rightarrow>
               (case stage_send sv lines st1 of
                  (text, st2) \<Rightarrow>
                    (case tell sv text rest' st2 of
                       (None, st3) \<Rightarrow> (None, st3)
                     | (Some r, st3) \<Rightarrow> (Some r, (reset_upstream sv st3)\<lparr>sm_sender := None, sm_recipients := []\<rparr>)))))"

section \<open>Commands\<close>

definition SMTP_PASSTHROUGH_COMMANDS :: "string list" where
  "SMTP_PASSTHROUGH_COMMANDS = [''NOOP'', ''RSET'', ''HELP'', ''VRFY'']"

definition EHLO_RESPONSE :: string where
  "EHLO_RESPONSE = ''250-Nuvrail proxy'' @ crlf @ ''250-AUTH PLAIN LOGIN'' @ crlf @ ''250-SIZE 52428800'' @ crlf
     @ ''250 8BITMIME''"

definition smtp_command :: "senv \<Rightarrow> string \<Rightarrow> sm_handler" where
  "smtp_command sv bytes rest st =
     (let line = rstrip_crlf (py_decode bytes); ws = py_split line;
          cmd = (case ws of w # _ \<Rightarrow> py_upper w | [] \<Rightarrow> [])
      in if has_bare_cr_or_nul bytes then tell sv ''500 5.5.2 Nuvrail: bare CR or NUL in command line'' rest st
         else if cmd = ''EHLO'' \<or> cmd = ''HELO'' then tell sv EHLO_RESPONSE rest st
         else if cmd = ''AUTH'' then handle_auth sv (tl ws) rest st
         else if sm_up st = None then tell sv ''530 5.7.0 Authentication required'' rest st
         else if cmd = ''MAIL'' then handle_mail sv bytes line rest st
         else if cmd = ''RCPT'' then handle_rcpt sv bytes line rest st
         else if cmd = ''DATA'' then handle_data sv rest st
         else if cmd = ''QUIT'' then (None, snd (ask_upstream sv bytes rest st))
         else if cmd \<notin> set SMTP_PASSTHROUGH_COMMANDS
         then tell sv (''502 5.5.1 Nuvrail: '' @ (if cmd = [] then ''empty command'' else cmd)
                @ '' is not permitted for agents'') rest st
         else ask_upstream sv bytes rest st)"

section \<open>The connection\<close>

definition smtp_turn :: "smtp \<Rightarrow> smtp" where
  "smtp_turn st = st\<lparr>sm_turn := Suc (sm_turn st)\<rparr>"

definition smtp_start :: "abuse_state \<Rightarrow> world \<Rightarrow> smtp" where
  "smtp_start ab w = \<lparr>sm_up = None, sm_cred = None, sm_sender = None, sm_recipients = [], sm_abuse = ab,
     sm_world = w, sm_sent = [To_client (''220 Nuvrail SMTP proxy ready'' @ crlf)], sm_turn = 0\<rparr>"

section \<open>Every handler leaves a tail of the stream\<close>

definition tail_of :: "string \<Rightarrow> string option \<times> smtp \<Rightarrow> bool" where
  "tail_of inp r \<longleftrightarrow> (case fst r of None \<Rightarrow> True | Some rest \<Rightarrow> \<exists>x. inp = x @ rest)"

lemma tail_ends [simp]: "tail_of inp (None, st)" and tail_all [simp]: "tail_of inp (Some inp, st)"
  by (simp_all add: tail_of_def)

lemma tail_last [simp]: "tail_of inp (tell_last sv text st)"
  by (simp add: tell_last_def)

lemma tail_post [simp]: "tail_of rest (post sv x rest st)"
  by (simp add: post_def Let_def tail_of_def)

lemma tail_tell [simp]: "tail_of rest (tell sv text rest st)"
  by (simp add: tell_def)

lemma tail_shorter: "tail_of rest r \<Longrightarrow> inp = x @ rest \<Longrightarrow> tail_of inp r"
  by (auto simp: tail_of_def split: option.splits)

lemma tail_on_post: "(\<And>st1. tail_of inp (k st1)) \<Longrightarrow> tail_of inp (on_post sv x st k)"
  by (simp add: on_post_def split: prod.split option.split)

lemma tail_on_reply: "(\<And>lines up. tail_of inp (k lines up)) \<Longrightarrow> tail_of inp (on_reply s st k)"
  by (simp add: on_reply_def split: prod.split option.split)

lemma tail_ask [simp]: "tail_of rest (ask_upstream sv bytes rest st)"
  unfolding ask_upstream_def by (intro tail_on_post tail_on_reply tail_post)

lemma tail_open: "tail_of rest (open_upstream sv a rest st)"
proof -
  have "tail_of rest (case tell sv msg rest st2 of (None, st3) \<Rightarrow> (None, st3) | (Some r, st3) \<Rightarrow> (Some r, f st3))"
    for msg st2 f
    using tail_tell [of rest sv msg st2] by (auto simp: tail_of_def split: prod.split option.split)
  then show ?thesis
    unfolding open_upstream_def Let_def
    by (auto intro!: tail_on_reply tail_on_post split: option.split sum.split failure.split prod.split)
qed

lemma tail_attempt: "tail_of rest (attempt sv u p rest st)"
  by (auto simp: attempt_def tail_open split: prod.split admission.split)

lemma tail_challenge:
  assumes "\<And>line rest' st1. tail_of rest' (k line rest' st1)" shows "tail_of rest (challenge sv text rest st k)"
  using assms
  by (auto simp: challenge_def split: prod.split option.split dest!: read_line_split intro: tail_shorter)

lemma tail_auth: "tail_of rest (handle_auth sv ws rest st)"
  unfolding handle_auth_def Let_def
  by (auto intro!: tail_challenge tail_attempt split: list.split prod.split option.split)

lemma read_body_split: "read_body inp = Some (lines, rest) \<Longrightarrow> \<exists>x. inp = x @ rest"
proof (induction "length inp" arbitrary: inp lines rule: less_induct)
  case less
  obtain line r where l: "read_line inp = Some (line, r)"
    using less.prems by (auto simp: read_body.simps [of inp] split: option.splits)
  note inp = read_line_split [OF l]
  show ?case
  proof (cases "line = [] \<or> line = CHR ''.'' # crlf \<or> line = [CHR ''.'', CHR 0x0A]")
    case True
    then have "rest = r" using less.prems l by (simp add: read_body.simps [of inp] split: if_splits)
    then show ?thesis using inp by blast
  next
    case False
    then obtain ls where "read_body r = Some (ls, rest)"
      using less.prems l by (auto simp: read_body.simps [of inp] split: option.splits if_splits prod.splits)
    then show ?thesis using less.hyps [of r ls] inp False by auto
  qed
qed

lemma tell_rest: "tell sv msg rest st = (Some r, st1) \<Longrightarrow> r = rest"
  by (auto simp: tell_def post_def Let_def split: if_splits)

lemma tail_data: "tail_of rest (handle_data sv rest st)"
  unfolding handle_data_def
  by (auto simp: tail_of_def split: prod.split option.split dest!: read_body_split tell_rest)

lemma tail_command: "tail_of rest (smtp_command sv bytes rest st)"
  by (simp add: smtp_command_def Let_def tail_auth tail_data handle_mail_def handle_rcpt_def)

function smtp_session :: "senv \<Rightarrow> string \<Rightarrow> smtp \<Rightarrow> smtp" where
  "smtp_session sv inp st =
     (case read_line inp of
        None \<Rightarrow> st
      | Some (line, rest) \<Rightarrow>
          if line = [] then st
          else case smtp_command sv line rest st of
            (None, st1) \<Rightarrow> st1
          | (Some rest1, st1) \<Rightarrow> smtp_session sv rest1 (smtp_turn st1))"
  by pat_completeness auto
termination
proof (relation "measure (\<lambda>(sv, inp, st). length inp)", goal_cases)
  case (2 sv inp st p line rest r st1 rest1)
  then have "tail_of rest (Some rest1, st1)" using tail_command [of rest sv line st] by simp
  then show ?case using 2 read_line_split [of inp line rest] by (auto simp: tail_of_def)
qed simp

declare smtp_session.simps [simp del]

end
