(* ===== verification/Smtp_Laws.thy ===== *)
theory Smtp_Laws
  imports Smtp_Proxy Proxy_Laws
begin

text \<open>
  What a connection of the SMTP proxy sends, and what it does to the database.
\<close>

section \<open>Steps\<close>

text \<open>\<open>steps P R st st'\<close>: from \<open>st\<close> to \<open>st'\<close> only what \<open>P\<close> allows was sent, and the database moved along \<open>R\<close>.\<close>

definition steps :: "(sent \<Rightarrow> bool) \<Rightarrow> (db \<Rightarrow> db \<Rightarrow> bool) \<Rightarrow> smtp \<Rightarrow> smtp \<Rightarrow> bool" where
  "steps P R st st' \<longleftrightarrow> (\<exists>xs. sm_sent st' = sm_sent st @ xs \<and> list_all P xs) \<and> R (sm_db st) (sm_db st')"

lemma steps_fields [simp]:
  "steps P R (st\<lparr>sm_abuse := ab\<rparr>) st' = steps P R st st'" "steps P R (st\<lparr>sm_up := up\<rparr>) st' = steps P R st st'"
  "steps P R (st\<lparr>sm_cred := c\<rparr>) st' = steps P R st st'" "steps P R (st\<lparr>sm_sender := s\<rparr>) st' = steps P R st st'"
  "steps P R (st\<lparr>sm_recipients := rs\<rparr>) st' = steps P R st st'"
  "steps P R st (st'\<lparr>sm_abuse := ab\<rparr>) = steps P R st st'" "steps P R st (st'\<lparr>sm_up := up\<rparr>) = steps P R st st'"
  "steps P R st (st'\<lparr>sm_cred := c\<rparr>) = steps P R st st'" "steps P R st (st'\<lparr>sm_sender := s\<rparr>) = steps P R st st'"
  "steps P R st (st'\<lparr>sm_recipients := rs\<rparr>) = steps P R st st'" "steps P R st (smtp_turn st') = steps P R st st'"
  "steps P R (smtp_turn st) st' = steps P R st st'"
  by (simp_all add: steps_def smtp_turn_def)

text \<open>The lines relayed as they are, and the sender line of an account.\<close>

definition RELAYED_VERBS :: "string list" where
  "RELAYED_VERBS = ''RCPT'' # ''QUIT'' # SMTP_PASSTHROUGH_COMMANDS"

definition read_verb :: "string \<Rightarrow> string" where
  "read_verb bytes = (case py_split (rstrip_crlf (py_decode bytes)) of w # _ \<Rightarrow> py_upper w | [] \<Rightarrow> [])"

definition mail_line :: "string \<Rightarrow> string" where
  "mail_line user = ''MAIL FROM:<'' @ user @ ''>'' @ crlf"

definition relayed :: "string \<Rightarrow> bool" where
  "relayed bytes \<longleftrightarrow> \<not> has_bare_cr_or_nul bytes \<and> read_verb bytes \<in> set RELAYED_VERBS"

text \<open>What the login of an agent sends.\<close>

definition login_allowed :: "senv \<Rightarrow> (sent \<Rightarrow> bool) \<Rightarrow> agent_row \<Rightarrow> bool" where
  "login_allowed sv P a \<longleftrightarrow> P (To_upstream EHLO_LINE) \<and> P (To_upstream STARTTLS_LINE)
     \<and> (\<forall>b. smtp_login_command (pe_env (sv_penv sv)) a = Inr b \<longrightarrow> P (To_upstream b))"

locale smtp_relation =
  fixes sv :: senv and P :: "sent \<Rightarrow> bool" and R :: "db \<Rightarrow> db \<Rightarrow> bool"
  assumes client: "P (To_client b)"
    and refl [simp]: "R d d" and trans: "R d d' \<Longrightarrow> R d' d'' \<Longrightarrow> R d d''"
    and notified: "R d (mark_notified ids d)"
begin

abbreviation leads :: "smtp \<Rightarrow> smtp \<Rightarrow> bool" where
  "leads \<equiv> steps P R"

lemma leads_refl [simp]: "leads st st"
  by (simp add: steps_def)

lemma leads_trans: "leads st st1 \<Longrightarrow> leads st1 st2 \<Longrightarrow> leads st st2"
  by (auto simp: steps_def intro: trans)

lemma posted: "P x \<Longrightarrow> leads st (snd (post sv x rest st))"
  by (simp add: post_def Let_def steps_def)

lemma posted_eq: "post sv x rest st = (r, st1) \<Longrightarrow> P x \<Longrightarrow> leads st st1"
  using posted [of x st rest] by simp

lemma told: "leads st (snd (tell sv msg rest st))" and told_last: "leads st (snd (tell_last sv msg st))"
  by (simp_all add: tell_def tell_last_def posted client)

lemma told_eq: "tell sv msg rest st = (r, st1) \<Longrightarrow> leads st st1"
  using told [of st msg rest] by simp

lemma on_posted:
  assumes "P x" "\<And>st1. st1 = st\<lparr>sm_sent := sm_sent st @ [x]\<rparr> \<Longrightarrow> leads st1 (snd (k st1))"
  shows "leads st (snd (on_post sv x st k))"
proof -
  have "leads st (st\<lparr>sm_sent := sm_sent st @ [x]\<rparr>)" using assms(1) by (simp add: steps_def)
  then show ?thesis using leads_trans assms(2) by (simp add: on_post_def post_def Let_def)
qed

lemma on_replied: "(\<And>lines up. leads st (snd (k lines up))) \<Longrightarrow> leads st (snd (on_reply inp st k))"
  by (simp add: on_reply_def split: prod.split option.split)

lemma asked:
  assumes "P (To_upstream b)" shows "leads st (snd (ask_upstream sv b rest st))"
  unfolding ask_upstream_def
proof (intro on_posted [OF assms] on_replied)
  show "leads st1 (snd (post sv (To_client (concat lines)) rest (st1\<lparr>sm_up := Some up\<rparr>)))" for st1 lines up
    using posted [OF client, of "st1\<lparr>sm_up := Some up\<rparr>" "concat lines" rest] by simp
qed

lemma connected:
  assumes "P (To_upstream EHLO_LINE)" "P (To_upstream STARTTLS_LINE)"
  shows "leads st (snd (connect_upstream_starttls sv host port st))"
  unfolding connect_upstream_starttls_def
  by (auto intro!: on_posted on_replied assms split: option.split)

lemma told_notices: "leads st (send_rejection_notices sv agent st)"
proof -
  have "leads st (st\<lparr>sm_sent := sm_sent st @ map (To_client \<circ> notice) rs\<rparr>)" for rs
    by (simp add: steps_def list.pred_map comp_def client list_all_iff)
  then show ?thesis by (auto simp: send_rejection_notices_def Let_def steps_def notified)
qed

lemma opened:
  assumes "login_allowed sv P a" shows "leads st (snd (open_upstream sv a rest st))"
proof -
  have login: "P (To_upstream EHLO_LINE)" "P (To_upstream STARTTLS_LINE)"
    "smtp_login_command (pe_env (sv_penv sv)) a = Inr b \<Longrightarrow> P (To_upstream b)" for b
    using assms by (auto simp: login_allowed_def)
  have finish: "leads st2 (snd (case tell sv msg rest st2 of (None, st3) \<Rightarrow> (None, st3)
      | (Some r, st3) \<Rightarrow> (Some r, send_rejection_notices sv i st3)))" for st2 msg i
  proof -
    obtain r st3 where t: "tell sv msg rest st2 = (r, st3)" by force
    then show ?thesis using told_eq [OF t] leads_trans [OF told_eq [OF t] told_notices] by (simp split: option.split)
  qed
  define host where "host = (if truthy (ag_upstream_smtp_host a) then or_empty (ag_upstream_smtp_host a) else ag_upstream_host a)"
  obtain c st1 where c: "connect_upstream_starttls sv host (ag_upstream_smtp_port a) st = (c, st1)" by force
  have st1: "leads st st1" using connected [OF login(1,2), of st host "ag_upstream_smtp_port a"] c by simp
  have "leads st1 (snd (open_upstream sv a rest st))"
    unfolding open_upstream_def Let_def host_def [symmetric] c
    using finish
    by (auto intro!: on_replied on_posted told_last login(3) finish [of "st2\<lparr>sm_up := u, sm_cred := v\<rparr>" for st2 u v, simplified]
        split: option.split sum.split failure.split)
  then show ?thesis by (rule leads_trans [OF st1])
qed

lemma attempted:
  assumes "\<And>a ab. try_login (sv_gate sv) (2 * sm_turn st) u p (sm_db st) (sm_abuse st) = (Admitted a, ab)
      \<Longrightarrow> login_allowed sv P a"
  shows "leads st (snd (attempt sv u p rest st))"
proof -
  obtain adm ab where t: "try_login (sv_gate sv) (2 * sm_turn st) u p (sm_db st) (sm_abuse st) = (adm, ab)" by force
  have l: "leads st (snd (tell_last sv msg (st\<lparr>sm_abuse := ab\<rparr>)))" for msg
    using told_last [of "st\<lparr>sm_abuse := ab\<rparr>" msg] by simp
  show ?thesis
  proof (cases adm)
    case (Admitted a)
    then show ?thesis using t opened [OF assms, of a ab "st\<lparr>sm_abuse := ab\<rparr>" rest] by (simp add: attempt_def)
  qed (use t l in \<open>simp_all add: attempt_def\<close>)
qed

text \<open>A challenge changes nothing but what was sent.\<close>

lemma challenged:
  assumes "\<And>line rest' xs. leads (st\<lparr>sm_sent := xs\<rparr>) (snd (k line rest' (st\<lparr>sm_sent := xs\<rparr>)))"
  shows "leads st (snd (challenge sv msg rest st k))"
proof -
  obtain r st1 where t: "tell sv msg rest st = (r, st1)" by force
  have "st1 = st\<lparr>sm_sent := sm_sent st @ [To_client (msg @ crlf)]\<rparr>" using t by (auto simp: tell_def post_def Let_def)
  then show ?thesis
    using t told_eq [OF t] assms leads_trans [OF told_eq [OF t]] by (auto simp: challenge_def split: option.split)
qed

lemma authed:
  assumes "\<And>u p a ab. try_login (sv_gate sv) (2 * sm_turn st) u p (sm_db st) (sm_abuse st) = (Admitted a, ab)
      \<Longrightarrow> login_allowed sv P a"
  shows "leads st (snd (handle_auth sv ws rest st))"
proof -
  have a: "leads (st\<lparr>sm_sent := xs\<rparr>) (snd (attempt sv u p rest' (st\<lparr>sm_sent := xs\<rparr>)))" for xs u p rest'
    by (rule attempted) (use assms in simp)
  have a0: "leads st (snd (attempt sv u p rest' st))" for u p rest' by (rule attempted) (rule assms)
  show ?thesis
    unfolding handle_auth_def Let_def
    by (auto intro!: challenged told a a0 split: list.split prod.split option.split) 
qed

lemma staged_leads:
  assumes "\<And>rq i clk w. rq_agent_id rq = map_option ag_id (sm_cred st)
      \<Longrightarrow> R (w_db w) (w_db (snd (create_operation (pe_env (sv_penv sv)) (pe_decide (sv_penv sv)) clk i rq w)))"
    and "stage_send sv lines st = (msg, st1)"
  shows "leads st st1" "sm_up st1 = sm_up st"
proof -
  have "rq_agent_id (send_request (sv_mail sv) st lines) = map_option ag_id (sm_cred st)"
    by (simp add: send_request_def Let_def)
  then show "leads st st1"
    using assms(1) [of "send_request (sv_mail sv) st lines" "sm_world st"] assms(2)
    by (auto simp: stage_send_def steps_def split_beta)
  show "sm_up st1 = sm_up st" using assms(2) by (auto simp: stage_send_def split: prod.splits)
qed

lemma reset_leads: "P (To_upstream RSET_LINE) \<Longrightarrow> leads st (reset_upstream sv st)"
proof -
  assume p: "P (To_upstream RSET_LINE)"
  obtain r st1 where r: "post sv (To_upstream RSET_LINE) [] st = (r, st1)" by force
  then show ?thesis using posted_eq [OF r p] by (simp add: reset_upstream_def split: option.split)
qed

lemma data_leads:
  assumes staged: "\<And>rq i clk w. rq_agent_id rq = map_option ag_id (sm_cred st)
      \<Longrightarrow> R (w_db w) (w_db (snd (create_operation (pe_env (sv_penv sv)) (pe_decide (sv_penv sv)) clk i rq w)))"
    and "P (To_upstream RSET_LINE)"
  shows "leads st (snd (handle_data sv rest st))"
proof -
  obtain r st1 where t1: "tell sv ''354 Start mail input; end with <CRLF>.<CRLF>'' rest st = (r, st1)" by force
  have cred: "sm_cred st1 = sm_cred st" using t1 by (auto simp: tell_def post_def Let_def)
  have st1: "leads st st1" by (rule told_eq [OF t1])
  have more: "leads st1 (snd (case stage_send sv lines st1 of (msg, st2) \<Rightarrow>
      (case tell sv msg rest' st2 of (None, st3) \<Rightarrow> (None, st3)
       | (Some r, st3) \<Rightarrow> (Some r, (reset_upstream sv st3)\<lparr>sm_sender := None, sm_recipients := []\<rparr>))))" for lines rest'
  proof -
    obtain msg st2 where s: "stage_send sv lines st1 = (msg, st2)" by force
    obtain r2 st3 where t: "tell sv msg rest' st2 = (r2, st3)" by force
    have "leads st1 st2" by (rule staged_leads(1) [OF _ s]) (use staged cred in simp)
    then have "leads st1 st3" using told_eq [OF t] leads_trans by blast
    then show ?thesis using s t leads_trans [OF _ reset_leads [OF assms(2)]] by (simp split: option.split)
  qed
  show ?thesis
    using t1 st1 leads_trans [OF st1 more] by (auto simp: handle_data_def split: option.split prod.split)
qed

lemma commanded:
  assumes login: "\<And>u p a ab. try_login (sv_gate sv) (2 * sm_turn st) u p (sm_db st) (sm_abuse st) = (Admitted a, ab)
      \<Longrightarrow> login_allowed sv P a"
    and staged: "\<And>rq i clk w. sm_up st \<noteq> None \<Longrightarrow> rq_agent_id rq = map_option ag_id (sm_cred st)
      \<Longrightarrow> R (w_db w) (w_db (snd (create_operation (pe_env (sv_penv sv)) (pe_decide (sv_penv sv)) clk i rq w)))"
    and opened_by: "sm_up st \<noteq> None \<Longrightarrow> \<exists>a. sm_cred st = Some a \<and> P (To_upstream (mail_line (ag_upstream_user a)))"
    and reset: "sm_up st \<noteq> None \<Longrightarrow> P (To_upstream RSET_LINE)"
    and relay: "sm_up st \<noteq> None \<Longrightarrow> relayed bytes \<Longrightarrow> P (To_upstream bytes)"
  shows "leads st (snd (smtp_command sv bytes rest st))"
proof -
  define cmd where "cmd = read_verb bytes"
  have shut: ?thesis if "has_bare_cr_or_nul bytes \<or> cmd = ''EHLO'' \<or> cmd = ''HELO'' \<or> cmd = ''AUTH'' \<or> sm_up st = None"
    using that authed [OF login] told unfolding smtp_command_def Let_def read_verb_def [symmetric] cmd_def by auto
  have ask: "leads st (snd (ask_upstream sv bytes rest st))"
    if "sm_up st \<noteq> None" "\<not> has_bare_cr_or_nul bytes" "cmd \<in> set RELAYED_VERBS"
    using that relay asked by (simp add: relayed_def cmd_def)
  show ?thesis
  proof (cases "has_bare_cr_or_nul bytes \<or> cmd = ''EHLO'' \<or> cmd = ''HELO'' \<or> cmd = ''AUTH'' \<or> sm_up st = None")
    case False
    then obtain a where a: "sm_cred st = Some a" "P (To_upstream (mail_line (ag_upstream_user a)))" using opened_by by auto
    have mail: "leads st (snd (handle_mail sv bytes line rest st))" for line
      using asked [OF a(2), of "st\<lparr>sm_sender := s\<rparr>" rest for s] asked [OF a(2), of st rest] a(1)
      by (auto simp: handle_mail_def Let_def mail_line_def split: option.split)
    have rcpt: "leads st (snd (handle_rcpt sv bytes line rest st))" if "cmd = ''RCPT''" for line
    proof -
      have "P (To_upstream bytes)" using that False relay by (simp add: relayed_def cmd_def RELAYED_VERBS_def)
      then show ?thesis
        using asked [of bytes "st\<lparr>sm_recipients := s\<rparr>" rest for s] asked [of bytes st rest]
        by (auto simp: handle_rcpt_def Let_def split: option.split)
    qed
    show ?thesis
      using False mail rcpt ask data_leads [OF staged reset] told
      unfolding smtp_command_def Let_def read_verb_def [symmetric] cmd_def [symmetric]
      by (auto simp: RELAYED_VERBS_def)
  qed (use shut in blast)
qed

end

section \<open>Who is logged in\<close>

definition access :: "smtp \<Rightarrow> agent_row option \<times> string option" where
  "access st = (sm_cred st, sm_up st)"

lemma access_fields [simp]:
  "access (st\<lparr>sm_sent := xs\<rparr>) = access st" "access (st\<lparr>sm_abuse := ab\<rparr>) = access st"
  "access (st\<lparr>sm_world := w\<rparr>) = access st" "access (smtp_turn st) = access st"
  "access (st\<lparr>sm_sender := s\<rparr>) = access st" "access (st\<lparr>sm_recipients := rs\<rparr>) = access st"
  "access (snd (post sv x rest st)) = access st" "access (snd (tell sv msg rest st)) = access st"
  "access (snd (tell_last sv msg st)) = access st" "access (send_rejection_notices sv i st) = access st"
  by (simp_all add: access_def smtp_turn_def post_def tell_def tell_last_def send_rejection_notices_def Let_def)

lemma access_eq:
  "post sv x rest st = (r, st1) \<Longrightarrow> access st1 = access st" "tell sv msg rest st = (r, st1) \<Longrightarrow> access st1 = access st"
  using access_fields(7) [of sv x rest st] access_fields(8) [of sv msg rest st] by auto

lemma access_on_post:
  assumes "\<And>st1. access st1 = access st \<Longrightarrow> Q (access (snd (k st1)))" "Q (access st)"
  shows "Q (access (snd (on_post sv x st k)))"
  using assms access_eq(1) by (auto simp: on_post_def split: prod.split option.split)

lemma access_on_reply:
  assumes "\<And>lines up. Q (access (snd (k lines up)))" "Q (access st)"
  shows "Q (access (snd (on_reply inp st k)))"
  using assms by (auto simp: on_reply_def split: prod.split option.split)

lemma access_connect: "access (snd (connect_upstream_starttls sv host port st)) = access st"
proof -
  have "(\<lambda>x. x = access st) (access (snd (connect_upstream_starttls sv host port st)))"
    unfolding connect_upstream_starttls_def
    by (auto intro!: access_on_post [where Q = "\<lambda>x. x = access st"] access_on_reply [where Q = "\<lambda>x. x = access st"]
        split: option.split)
  then show ?thesis .
qed

lemma access_open: "access (snd (open_upstream sv a rest st)) = access st \<or> sm_cred (snd (open_upstream sv a rest st)) = Some a"
proof -
  define Q where "Q x \<longleftrightarrow> x = access st \<or> fst x = Some a" for x
  define host where "host = (if truthy (ag_upstream_smtp_host a) then or_empty (ag_upstream_smtp_host a) else ag_upstream_host a)"
  obtain c st1 where c: "connect_upstream_starttls sv host (ag_upstream_smtp_port a) st = (c, st1)" by force
  have st1: "access st1 = access st" using access_connect [of sv host "ag_upstream_smtp_port a" st] c by simp
  have same: "Q (access st2)" if "access st2 = access st" for st2 using that by (simp add: Q_def)
  have fin: "Q (access (snd (case tell sv msg rest (st2\<lparr>sm_up := u, sm_cred := Some a\<rparr>) of (None, st3) \<Rightarrow> (None, st3)
      | (Some r, st3) \<Rightarrow> (Some r, send_rejection_notices sv i st3))))" for st2 msg i u
  proof -
    have "access (st2\<lparr>sm_up := u, sm_cred := Some a\<rparr>) = (Some a, u)" by (simp add: access_def)
    then show ?thesis
      using access_eq(2) [of sv msg rest "st2\<lparr>sm_up := u, sm_cred := Some a\<rparr>"]
      by (auto simp: Q_def split: prod.split option.split)
  qed
  have last: "Q (access (snd (tell_last sv msg st2)))" if "access st2 = access st" for st2 msg
    using that by (simp add: Q_def)
  have login: "Q (access (snd (on_post sv x st1 (\<lambda>st2. on_reply up st2 (k st2)))))"
    if "\<And>st2 lines up'. access st2 = access st \<Longrightarrow> Q (access (snd (k st2 lines up')))" for x up k
    using that same st1 by (intro access_on_post [where Q = Q] access_on_reply [where Q = Q]) simp_all
  have "Q (access (snd (open_upstream sv a rest st)))"
  proof (cases c)
    case None
    then show ?thesis unfolding open_upstream_def Let_def host_def [symmetric] c using last [OF st1] by simp
  next
    case (Some up)
    have "Q (access (snd (case smtp_login_command (pe_env (sv_penv sv)) a of
        Inl (Token_failed e) \<Rightarrow> tell_last sv ''535 5.7.8 Upstream OAuth2 authentication failed'' st1
      | Inl e \<Rightarrow> (None, st1)
      | Inr command \<Rightarrow> on_post sv (To_upstream command) st1 (\<lambda>st2. on_reply up1 st2 (k st2)))))"
      if "\<And>st2 lines up'. access st2 = access st \<Longrightarrow> Q (access (snd (k st2 lines up')))" for up1 k
      using login [OF that] last [OF st1] same [OF st1] by (simp split: sum.split failure.split)
    note inner = this
    show ?thesis unfolding open_upstream_def Let_def host_def [symmetric] c Some prod.case option.case
      by (rule access_on_reply [where Q = Q], rule inner) (use last same st1 fin in auto)
  qed
  then show ?thesis by (simp add: access_def Q_def)
qed

text \<open>An admitted login is the only way to a new credential.\<close>

definition admitted :: "senv \<Rightarrow> smtp \<Rightarrow> agent_row \<Rightarrow> bool" where
  "admitted sv st a \<longleftrightarrow>
     (\<exists>u p ab. try_login (sv_gate sv) (2 * sm_turn st) u p (sm_db st) (sm_abuse st) = (Admitted a, ab))"

definition logs_in :: "senv \<Rightarrow> smtp \<Rightarrow> smtp \<Rightarrow> bool" where
  "logs_in sv st st' \<longleftrightarrow> access st' = access st \<or> (\<exists>a. admitted sv st a \<and> sm_cred st' = Some a)"

lemma logs_in_attempt: "logs_in sv st (snd (attempt sv u p rest st))"
proof -
  obtain adm ab where t: "try_login (sv_gate sv) (2 * sm_turn st) u p (sm_db st) (sm_abuse st) = (adm, ab)" by force
  show ?thesis
  proof (cases adm)
    case (Admitted a)
    then have "admitted sv st a" using t unfolding admitted_def by blast
    then show ?thesis using t Admitted access_open [of sv a rest "st\<lparr>sm_abuse := ab\<rparr>"]
      by (auto simp: attempt_def logs_in_def)
  qed (use t in \<open>simp_all add: attempt_def logs_in_def\<close>)
qed

lemma logs_in_sent [simp]: "logs_in sv (st\<lparr>sm_sent := xs\<rparr>) st' = logs_in sv st st'"
  by (simp add: logs_in_def admitted_def)

lemma logs_in_challenge:
  assumes "\<And>line rest' xs. logs_in sv st (snd (k line rest' (st\<lparr>sm_sent := xs\<rparr>)))"
  shows "logs_in sv st (snd (challenge sv msg rest st k))"
proof -
  obtain r st1 where t: "tell sv msg rest st = (r, st1)" by force
  have s: "st1 = st\<lparr>sm_sent := sm_sent st @ [To_client (msg @ crlf)]\<rparr>" using t by (auto simp: tell_def post_def Let_def)
  then have "logs_in sv st st1" by (simp add: logs_in_def)
  then show ?thesis using t assms s by (auto simp: challenge_def split: option.split)
qed

lemma logs_in_challenge_sent:
  assumes "\<And>line rest' ys. logs_in sv st (snd (k line rest' (st\<lparr>sm_sent := ys\<rparr>)))"
  shows "logs_in sv st (snd (challenge sv msg rest (st\<lparr>sm_sent := xs\<rparr>) k))"
  using logs_in_challenge [of sv "st\<lparr>sm_sent := xs\<rparr>" k msg rest] assms by simp

lemma logs_in_auth: "logs_in sv st (snd (handle_auth sv ws rest st))"
proof -
  have "logs_in sv st (snd (attempt sv u p rest' (st\<lparr>sm_sent := xs\<rparr>)))" for u p rest' xs
    using logs_in_attempt [of sv "st\<lparr>sm_sent := xs\<rparr>" u p rest'] by simp
  moreover have "logs_in sv st (snd (tell sv msg rest st))" for msg by (simp add: logs_in_def)
  ultimately show ?thesis
    unfolding handle_auth_def Let_def
    by (auto intro!: logs_in_challenge logs_in_challenge_sent logs_in_attempt split: list.split prod.split option.split)
qed

lemma cred_ask [simp]: "sm_cred (snd (ask_upstream sv b rest st)) = sm_cred st"
  by (auto simp: ask_upstream_def on_post_def on_reply_def post_def Let_def split: option.split prod.split)

lemma cred_data [simp]: "sm_cred (snd (handle_data sv rest st)) = sm_cred st"
  by (auto simp: handle_data_def stage_send_def reset_upstream_def tell_def post_def Let_def
      split: option.split prod.split)

lemma cred_command:
  "logs_in sv st (snd (smtp_command sv bytes rest st)) \<or> (sm_up st \<noteq> None \<and> sm_cred (snd (smtp_command sv bytes rest st)) = sm_cred st)"
proof -
  have l: "logs_in sv st (snd (tell sv msg rest st))" for msg by (simp add: logs_in_def)
  have t: "sm_cred (snd (tell sv msg rest st)) = sm_cred st" for msg using access_fields(8) [of sv msg rest st] by (simp add: access_def)
  have "sm_cred (snd (handle_mail sv bytes line rest st)) = sm_cred st" "sm_cred (snd (handle_rcpt sv bytes line rest st)) = sm_cred st"
    for line by (simp_all add: handle_mail_def handle_rcpt_def Let_def split: option.split)
  then show ?thesis using l t logs_in_auth by (simp add: smtp_command_def Let_def)
qed

section \<open>A whole session\<close>

text \<open>An open session is that of a credential with \<open>A\<close>, in a database that \<open>d0\<close> leads to.\<close>

definition in_session :: "(db \<Rightarrow> db \<Rightarrow> bool) \<Rightarrow> (agent_row \<Rightarrow> bool) \<Rightarrow> db \<Rightarrow> smtp \<Rightarrow> bool" where
  "in_session R A d0 st \<longleftrightarrow> R d0 (sm_db st) \<and> (sm_up st \<noteq> None \<longrightarrow> (\<exists>a. sm_cred st = Some a \<and> A a))"

text \<open>\<open>A\<close>: what is known of an agent that logs in while the database is one that \<open>d0\<close> leads to.\<close>

locale smtp_access = smtp_relation sv P R for sv :: senv and P :: "sent \<Rightarrow> bool" and R :: "db \<Rightarrow> db \<Rightarrow> bool" +
  fixes A :: "agent_row \<Rightarrow> bool" and d0 :: db
  assumes admits: "R d0 d \<Longrightarrow> try_login (sv_gate sv) k user pw d ab = (Admitted a, ab') \<Longrightarrow> A a"
    and login: "A a \<Longrightarrow> login_allowed sv P a"
    and mail: "A a \<Longrightarrow> P (To_upstream (mail_line (ag_upstream_user a)))"
    and reset: "A a \<Longrightarrow> P (To_upstream RSET_LINE)"
    and relay: "A a \<Longrightarrow> relayed bytes \<Longrightarrow> CHR 0x0A \<notin> set (butlast bytes) \<Longrightarrow> P (To_upstream bytes)"
    and staging: "A a \<Longrightarrow> rq_agent_id rq = Some (ag_id a)
      \<Longrightarrow> R (w_db w) (w_db (snd (create_operation (pe_env (sv_penv sv)) (pe_decide (sv_penv sv)) clk i rq w)))"
begin

lemma command_leads:
  assumes "in_session R A d0 st" "CHR 0x0A \<notin> set (butlast bytes)"
  shows "leads st (snd (smtp_command sv bytes rest st))"
proof (rule commanded)
  show "R (w_db w) (w_db (snd (create_operation (pe_env (sv_penv sv)) (pe_decide (sv_penv sv)) clk i rq w)))"
    if "sm_up st \<noteq> None" "rq_agent_id rq = map_option ag_id (sm_cred st)" for rq i clk w
    using that assms(1) staging by (auto simp: in_session_def)
qed (use assms admits login mail reset relay in \<open>auto simp: in_session_def\<close>)

lemma command_in_session:
  assumes "in_session R A d0 st" "CHR 0x0A \<notin> set (butlast bytes)"
  shows "in_session R A d0 (snd (smtp_command sv bytes rest st))"
proof -
  let ?st = "snd (smtp_command sv bytes rest st)"
  have "R d0 (sm_db ?st)"
    using command_leads [OF assms] assms(1) trans by (auto simp: in_session_def steps_def)
  moreover have "A a" if "admitted sv st a" for a
    using that assms(1) admits by (auto simp: admitted_def in_session_def)
  ultimately show ?thesis
    using cred_command [of sv st bytes rest] assms(1) by (auto simp: in_session_def logs_in_def access_def)
qed

lemma turn_in_session [simp]: "in_session R A d0 (smtp_turn st) = in_session R A d0 st"
  by (simp add: in_session_def smtp_turn_def)

lemma session: "in_session R A d0 st \<Longrightarrow> leads st (smtp_session sv inp st)"
proof (induction "length inp" arbitrary: inp st rule: less_induct)
  case less
  show ?case
  proof (cases "read_line inp")
    case (Some lr)
    then obtain line rest where l: "read_line inp = Some (line, rest)" by (cases lr) auto
    obtain r st1 where c: "smtp_command sv line rest st = (r, st1)" by force
    note clean = read_line_one [OF l]
    have one: "leads st st1" "in_session R A d0 st1"
      using command_leads [OF less.prems clean] command_in_session [OF less.prems clean] c by (metis snd_conv)+
    show ?thesis
    proof (cases "line = [] \<or> r = None")
      case False
      then obtain rest1 where r: "r = Some rest1" "line \<noteq> []" by auto
      then have "tail_of rest (Some rest1, st1)" using tail_command [of rest sv line st] c by simp
      then have "length rest1 < length inp" using read_line_split [OF l] r(2) by (auto simp: tail_of_def)
      then have "leads st1 (smtp_session sv rest1 (smtp_turn st1))" using less.hyps [of rest1 "smtp_turn st1"] one(2) by simp
      then show ?thesis using leads_trans [OF one(1)] l c r by (simp add: smtp_session.simps [of sv inp])
    qed (use l c one in \<open>auto simp: smtp_session.simps [of sv inp]\<close>)
  qed (simp add: smtp_session.simps [of sv inp])
qed

end

section \<open>Instances\<close>

text \<open>Everything, of any login: for what concerns the database alone.\<close>

interpretation kept_log: smtp_access sv "\<lambda>x. True" "log_kept (env_digest (pe_env (sv_penv sv)))" "\<lambda>a. True" d0
  for sv :: senv and d0 :: db
  by unfold_locales
    (auto intro: chain.R_trans log_kept_same log_kept_create chain.R_refl simp: mark_notified_def login_allowed_def)

interpretation tracked_ops: smtp_access sv "\<lambda>x. True" tracks "\<lambda>a. True" d0 for sv :: senv and d0 :: db
proof unfold_locales
  have "statuses (mark_notified ids d) = statuses d" for ids d
    by (simp add: statuses_def mark_notified_def map_upd_key)
  then show "tracks d (mark_notified ids d)" for ids d by (simp add: tracks_same)
qed (auto intro: tracks_trans tracks_same tracks_stage simp: statuses_def login_allowed_def)

text \<open>Whoever speaks to the server is live in the accounts as they were, the folder of sent mail aside.\<close>

definition live_at :: "(string \<Rightarrow> string \<Rightarrow> bool) \<Rightarrow> db \<Rightarrow> agent_row \<Rightarrow> bool" where
  "live_at verify d a \<longleftrightarrow> (\<exists>user pw folder. live_login verify user pw d (a\<lparr>ag_sent_folder := folder\<rparr>))"

lemma live_accounts:
  assumes "live_login verify user pw d' a" "accounts d' = accounts d"
  shows "live_at verify d a"
proof -
  have users: "db_users d' = db_users d" and agents: "map (\<lambda>a. a\<lparr>ag_sent_folder := None\<rparr>) (db_agents d')
      = map (\<lambda>a. a\<lparr>ag_sent_folder := None\<rparr>) (db_agents d)"
    using assms(2) by (simp_all add: accounts_def)
  have "a\<lparr>ag_sent_folder := None\<rparr> \<in> (\<lambda>a. a\<lparr>ag_sent_folder := None\<rparr>) ` set (db_agents d')"
    using assms(1) by (simp add: live_login_def)
  then obtain b where b: "b \<in> set (db_agents d)" "a\<lparr>ag_sent_folder := None\<rparr> = b\<lparr>ag_sent_folder := None\<rparr>"
    using arg_cong [OF agents, of set] by auto
  then obtain f where f: "b = a\<lparr>ag_sent_folder := f\<rparr>" by (metis agent_row.surjective agent_row.update_convs(18))
  have "agent_active d' a = agent_active d (a\<lparr>ag_sent_folder := f\<rparr>)" 
    using users by (simp add: agent_active_def user_active_def)
  then have "live_login verify user pw d (a\<lparr>ag_sent_folder := f\<rparr>)"
    using assms(1) b(1) unfolding f by (simp add: live_login_def)
  then show ?thesis unfolding live_at_def by blast
qed

text \<open>The operations added are those of agents with \<open>A\<close>, and the accounts stay.\<close>

definition handed :: "(agent_row \<Rightarrow> bool) \<Rightarrow> db \<Rightarrow> db \<Rightarrow> bool" where
  "handed A d d' \<longleftrightarrow> accounts d' = accounts d
     \<and> (\<exists>ys. stamps d' = stamps d @ ys \<and> list_all (\<lambda>x. \<exists>a. A a \<and> snd x = Some (ag_id a)) ys)"

interpretation same_accounts: db_relation "\<lambda>d d'. accounts d' = accounts d"
  by unfold_locales (auto simp: db_kept_def)

lemma accounts_reverts [simp]: "accounts (insert_pending_reverts rs now d) = accounts d"
  by (induction rs now d rule: insert_pending_reverts.induct) (simp_all add: Let_def accounts_def)

lemma accounts_update [simp]:
  "accounts (insert_audit_event digest e d) = accounts d" "accounts (update_operation_status i st by' err now d) = accounts d"
  "accounts (set_schedule_and_urgency i t u d) = accounts d" "accounts (mark_notified ids d) = accounts d"
  "accounts (d\<lparr>db_ops := rows\<rparr>) = accounts d" "accounts (d\<lparr>db_messages := ms\<rparr>) = accounts d"
  by (simp_all add: accounts_def insert_audit_event_def insert_with_prev_def update_operation_status_def
      set_schedule_and_urgency_def mark_notified_def Let_def)

lemma accounts_roll_back [simp]: "accounts (roll_back i now d) = accounts d"
  by (simp add: roll_back_def split_beta restore_from_snapshot_def split: option.split)

lemma accounts_create: "accounts (w_db (snd (create_operation env decide clk i rq w))) = accounts (w_db w)"
proof (rule same_accounts.within_create)
  show "within (\<lambda>d d'. accounts d' = accounts d) (apply_auto_rule_decision env clk i row dec)" for row dec
  proof (rule same_accounts.within_decision)
    show "within (\<lambda>d d'. accounts d' = accounts d) (execute_operation env clk ''auto_rule'' i r)" for r
      by (rule same_accounts.within_execution)
        (simp_all add: record_execution_failure_def record_rate_exceeded_def record_executed_def)
  qed (simp_all add: apply_reject_def apply_after_def apply_hold_def Let_def)
  show "accounts d = accounts (w_db w)" if "insert_staged env i (clk 20) rq (w_db w) = Some d" for d
    using that by (auto simp: insert_staged_def split: if_splits)
qed

lemma handed_trans: "handed A d d' \<Longrightarrow> handed A d' d'' \<Longrightarrow> handed A d d''"
  by (fastforce simp: handed_def)

lemma handed_create:
  assumes "A a" "rq_agent_id rq = Some (ag_id a)"
  shows "handed A (w_db w) (w_db (snd (create_operation env decide clk i rq w)))"
  using owned_create [of rq w env decide clk i] accounts_create [of env decide clk i rq w] assms
  by (auto simp: handed_def owned_def list_all_iff)

section \<open>What an agent's session may send\<close>

text \<open>The verb as a server reads it, which splits its line at spaces.\<close>

definition smtp_verb :: "string \<Rightarrow> string" where
  "smtp_verb bytes = (case sp_words (line_body bytes) of w # _ \<Rightarrow> py_upper w | [] \<Rightarrow> [])"

definition is_letter :: "char \<Rightarrow> bool" where
  "is_letter c \<longleftrightarrow> 65 \<le> code_pt c \<and> code_pt c \<le> 90"

text \<open>One line, whose verb is a relayed one or no verb at all.\<close>

definition one_relayed_line :: "string \<Rightarrow> bool" where
  "one_relayed_line bytes \<longleftrightarrow> \<not> has_bare_cr_or_nul bytes \<and> CHR 0x0A \<notin> set (butlast bytes)
     \<and> (list_all is_letter (smtp_verb bytes) \<longrightarrow> smtp_verb bytes \<in> set RELAYED_VERBS)"

lemma sp_words_spaces [simp]: "sp_words (replicate n sp @ s) = sp_words s"
  by (induction n) (simp_all add: sp_words_sep [of "[]", simplified])

lemma split_spaces [simp]: "split_ws [] (replicate n sp @ s) = split_ws [] s"
  by (induction n) simp_all

lemma decode_spaces [simp]: "py_decode (replicate n sp @ s) = replicate n sp @ py_decode s"
  by (induction n) (simp_all add: sp_def code_pt_def)

lemma spaces_first:
  obtains n r where "s = replicate n sp @ r" "r = [] \<or> hd r \<noteq> sp"
proof
  have "\<forall>c \<in> set (takeWhile ((=) sp) s). c = sp" by (auto dest: set_takeWhileD)
  then have "replicate (length (takeWhile ((=) sp) s)) sp = takeWhile ((=) sp) s" by (rule replicate_length_same)
  then show "s = replicate (length (takeWhile ((=) sp) s)) sp @ dropWhile ((=) sp) s" by simp
  show "dropWhile ((=) sp) s = [] \<or> hd (dropWhile ((=) sp) s) \<noteq> sp" using hd_dropWhile [of "(=) sp" s] by metis
qed

lemma sp_words_first:
  assumes "r \<noteq> []" "hd r \<noteq> sp"
  obtains w t ws where "r = w @ t" "w \<noteq> []" "t = [] \<or> hd t = sp" "sp_words r = w # ws"
proof (cases "sp \<in> set r")
  case False
  then show ?thesis using that [of r "[]" "[]"] assms by (simp add: sp_words_one)
next
  case True
  then obtain a b where s: "r = a @ sp # b" "sp \<notin> set a" by (meson split_list_first)
  then have "a \<noteq> []" using assms by auto
  then show ?thesis using that [of a "sp # b" "sp_words b"] s by (simp add: sp_words_sep)
qed

text \<open>A first word of letters is the word Python reads first, too.\<close>

lemma first_word_of_letters:
  assumes "sp_words s = w # ws" "list_all is_letter (py_upper w)"
  shows "\<exists>vs. py_split (py_decode s) = w # vs"
proof -
  obtain n r where r: "s = replicate n sp @ r" "r = [] \<or> hd r \<noteq> sp" by (rule spaces_first)
  have words: "sp_words r = w # ws" using assms(1) r(1) by simp
  then have "r \<noteq> []" by (auto simp: sp_words_one)
  then obtain t where t: "r = w @ t" "t = [] \<or> hd t = sp" "w \<noteq> []"
    using r(2) words sp_words_first [of r] by (metis list.inject)
  have letters: "is_letter (upper_char c)" if "c \<in> set w" for c using that assms(2) by (simp add: py_upper_def list_all_iff)
  have asc: "list_all (\<lambda>c. code_pt c < 128) w"
    using assms(2) upper_ascii_word [of w] by (auto simp: list_all_iff is_letter_def)
  have nsp: "\<forall>c \<in> set w. \<not> is_space c"
    using letters by (fastforce simp: is_letter_def upper_char_def is_space_def split: if_splits)
  have split: "split_ws w (py_decode t) = w # split_ws [] (tl (py_decode t))"
    using t(2,3) by (cases t) (auto simp: sp_def code_pt_def is_space_def)
  have "py_decode (w @ t) = w @ py_decode t" using asc by (induction w) simp_all
  then have "py_split (py_decode s) = w # split_ws [] (tl (py_decode t))"
    using split_ws_append_token [OF nsp, of "[]"] split r(1) t(1) by (simp add: py_split_def)
  then show ?thesis by blast
qed

lemma no_words: "sp_words s = [] \<Longrightarrow> py_split (py_decode s) = []"
proof -
  assume none: "sp_words s = []"
  obtain n r where r: "s = replicate n sp @ r" "r = [] \<or> hd r \<noteq> sp" by (rule spaces_first)
  then have "r = []" using none sp_words_first [of r] by force
  then show ?thesis using r(1) split_spaces [of n "[]"] decode_spaces [of n "[]"] by (simp add: py_split_def)
qed

lemma relayed_line:
  assumes "relayed bytes" "CHR 0x0A \<notin> set (butlast bytes)" shows "one_relayed_line bytes"
proof -
  have clean: "\<not> has_bare_cr_or_nul bytes" using assms(1) by (simp add: relayed_def)
  have read: "rstrip_crlf (py_decode bytes) = py_decode (line_body bytes)" by (rule clean_line_raw [OF clean assms(2)])
  have "smtp_verb bytes \<in> set RELAYED_VERBS" if l: "list_all is_letter (smtp_verb bytes)"
  proof (cases "sp_words (line_body bytes)")
    case Nil
    then show ?thesis using assms(1) read no_words [OF Nil]
      by (simp add: relayed_def read_verb_def RELAYED_VERBS_def SMTP_PASSTHROUGH_COMMANDS_def)
  next
    case (Cons w ws)
    then obtain vs where "py_split (py_decode (line_body bytes)) = w # vs"
      using first_word_of_letters [OF Cons] l by (auto simp: smtp_verb_def)
    then show ?thesis using assms(1) read Cons by (simp add: relayed_def read_verb_def smtp_verb_def)
  qed
  then show ?thesis using clean assms(2) by (simp add: one_relayed_line_def)
qed

text \<open>What may be sent when the accounts are those of \<open>d\<close>.\<close>

definition smtp_may_send :: "senv \<Rightarrow> db \<Rightarrow> sent \<Rightarrow> bool" where
  "smtp_may_send sv d x =
     (case x of
        To_client b \<Rightarrow> True
      | To_upstream b \<Rightarrow> \<exists>a. live_at (gt_verify (sv_gate sv)) d a
          \<and> (b \<in> {EHLO_LINE, STARTTLS_LINE, RSET_LINE, mail_line (ag_upstream_user a)}
             \<or> smtp_login_command (pe_env (sv_penv sv)) a = Inr b \<or> one_relayed_line b))"

interpretation served: smtp_access sv "smtp_may_send sv d0" "handed (live_at (gt_verify (sv_gate sv)) d0)"
  "live_at (gt_verify (sv_gate sv)) d0" d0 for sv :: senv and d0 :: db
proof unfold_locales
  let ?A = "live_at (gt_verify (sv_gate sv)) d0"
  show "handed ?A d d''" if "handed ?A d d'" "handed ?A d' d''" for d d' d'' using that by (rule handed_trans)
  show "?A a" if "handed ?A d0 d" "try_login (sv_gate sv) k user pw d ab = (Admitted a, ab')" for d k user pw ab a ab'
    using live_accounts [OF admitted_live [OF that(2)], of d0] that(1) by (simp add: handed_def)
  show "handed ?A d (mark_notified ids d)" for d ids
    by (simp add: handed_def stamps_def mark_notified_def map_upd_key accounts_def)
  show "handed ?A (w_db w) (w_db (snd (create_operation (pe_env (sv_penv sv)) (pe_decide (sv_penv sv)) clk i rq w)))"
    if "?A a" "rq_agent_id rq = Some (ag_id a)" for a rq w clk i
    using that by (rule handed_create)
  show "login_allowed sv (smtp_may_send sv d0) a" if "?A a" for a
    using that by (auto simp: login_allowed_def smtp_may_send_def)
  show "smtp_may_send sv d0 (To_upstream bytes)" if "?A a" "relayed bytes" "CHR 0x0A \<notin> set (butlast bytes)" for a bytes
    using that relayed_line by (auto simp: smtp_may_send_def)
qed (auto simp: smtp_may_send_def handed_def)

lemma start_in_session: "R d d \<Longrightarrow> in_session R A (w_db w) (smtp_start ab w)" if "d = w_db w"
  using that by (simp add: in_session_def smtp_start_def)

text \<open>The credentials that an \<open>AUTH\<close> command presents, in its line or in answer to the challenges.\<close>

definition presented :: "string list \<Rightarrow> string \<Rightarrow> (string \<times> string) option" where
  "presented ws rest =
     (let mech = (case ws of m # _ \<Rightarrow> py_upper m | [] \<Rightarrow> [])
      in if mech = ''PLAIN'' then
           (case tl ws of
              payload # _ \<Rightarrow> decode_sasl_plain payload
            | [] \<Rightarrow> Option.bind (read_line rest) (\<lambda>(line, _). decode_sasl_plain_bytes (py_strip line)))
         else if mech = ''LOGIN'' then
           Option.bind (read_line rest) (\<lambda>(line1, rest1). Option.bind (read_line rest1) (\<lambda>(line2, _).
             (case (b64_scan 0 0 0 (py_strip line1), b64_scan 0 0 0 (py_strip line2)) of
                (Some u, Some p) \<Rightarrow> Some (py_decode u, py_decode p) | _ \<Rightarrow> None)))
         else None)"

definition login_sends :: "senv \<Rightarrow> agent_row \<Rightarrow> sent \<Rightarrow> bool" where
  "login_sends sv a x =
     (case x of
        To_client b \<Rightarrow> True
      | To_upstream b \<Rightarrow> b \<in> {EHLO_LINE, STARTTLS_LINE} \<or> smtp_login_command (pe_env (sv_penv sv)) a = Inr b)"

interpretation login_talk: smtp_relation sv "login_sends sv a" "\<lambda>d d'. True" for sv :: senv and a :: agent_row
  by unfold_locales (simp_all add: login_sends_def)

text \<open>What an attempt with the credentials \<open>c\<close> comes to.\<close>

definition refused_login :: "smtp \<Rightarrow> smtp \<Rightarrow> bool" where
  "refused_login st st' \<longleftrightarrow> (\<exists>ys. sm_sent st' = sm_sent st @ map To_client ys) \<and> access st' = access st"

definition allowed_login :: "senv \<Rightarrow> smtp \<Rightarrow> string \<times> string \<Rightarrow> agent_row \<Rightarrow> bool" where
  "allowed_login sv st c a \<longleftrightarrow> live_login (gt_verify (sv_gate sv)) (fst c) (snd c) (sm_db st) a
     \<and> ad_allowed (fst (start_attempt (gt_config (sv_gate sv)) (gt_ip (sv_gate sv)) (account_name (fst c))
          (gt_clk (sv_gate sv) (2 * sm_turn st)) (sm_abuse st)))"

definition auth_outcome :: "senv \<Rightarrow> smtp \<Rightarrow> (string \<times> string) option \<Rightarrow> smtp \<Rightarrow> bool" where
  "auth_outcome sv st c st' \<longleftrightarrow> refused_login st st'
     \<or> (\<exists>p a. c = Some p \<and> allowed_login sv st p a \<and> steps (login_sends sv a) (\<lambda>d d'. True) st st'
          \<and> (access st' = access st \<or> sm_cred st' = Some a))"

abbreviation told_to :: "string \<Rightarrow> smtp \<Rightarrow> smtp" where
  "told_to msg st \<equiv> st\<lparr>sm_sent := sm_sent st @ [To_client (msg @ crlf)]\<rparr>"

lemma outcome_told:
  assumes "auth_outcome sv (told_to msg st) c st'" shows "auth_outcome sv st c st'"
proof -
  have "refused_login st st'" if "refused_login (told_to msg st) st'"
    using that by (auto simp: refused_login_def intro: exI [of _ "(msg @ crlf) # _"])
  moreover have "steps (login_sends sv a) (\<lambda>d d'. True) st st'"
    if "steps (login_sends sv a) (\<lambda>d d'. True) (told_to msg st) st'" for a
    using that by (auto simp: steps_def login_sends_def)
  ultimately show ?thesis using assms unfolding auth_outcome_def by (auto simp: allowed_login_def)
qed

lemma refused_tell [simp]: "refused_login st (snd (tell sv msg rest st))"
  "refused_login st (snd (tell_last sv msg (st\<lparr>sm_abuse := ab\<rparr>)))" "refused_login st st"
  by (auto simp: refused_login_def tell_last_def tell_def post_def Let_def access_def
      intro: exI [of _ "[_]"] exI [of _ "[]"])

lemma outcome_attempt: "auth_outcome sv st (Some (u, p)) (snd (attempt sv u p rest st))"
proof -
  obtain adm ab where t: "try_login (sv_gate sv) (2 * sm_turn st) u p (sm_db st) (sm_abuse st) = (adm, ab)" by force
  show ?thesis
  proof (cases adm)
    case (Admitted a)
    note ok = t [unfolded Admitted]
    let ?st = "snd (open_upstream sv a rest (st\<lparr>sm_abuse := ab\<rparr>))"
    have "allowed_login sv st (u, p) a"
      using admitted_live [OF ok] admitted_allowed [OF ok] by (simp add: allowed_login_def)
    moreover have "steps (login_sends sv a) (\<lambda>d d'. True) st ?st"
      using login_talk.opened [of sv a a "st\<lparr>sm_abuse := ab\<rparr>" rest] by (simp add: login_allowed_def login_sends_def)
    ultimately show ?thesis
      using access_open [of sv a rest "st\<lparr>sm_abuse := ab\<rparr>"] ok by (auto simp: auth_outcome_def attempt_def)
  qed (use t in \<open>simp_all add: attempt_def auth_outcome_def\<close>)
qed

text \<open>Credentials that cannot be read are tried as empty ones, which are no agent's.\<close>

lemma outcome_blank: "auth_outcome sv st c (snd (attempt sv [] p rest st))"
  by (auto simp: attempt_def try_login_def verify_agent_login_def auth_outcome_def split_beta Let_def
      split: admission.splits if_splits)

lemma outcome_challenge:
  assumes "\<And>line rest'. read_line rest = Some (line, rest')
      \<Longrightarrow> auth_outcome sv (told_to msg st) c (snd (k (py_strip line) rest' (told_to msg st)))"
  shows "auth_outcome sv st c (snd (challenge sv msg rest st k))"
proof (rule outcome_told)
  have t: "tell sv msg rest st = (if pe_gone (sv_penv sv) (sm_sent (told_to msg st)) then None else Some rest, told_to msg st)"
    by (simp add: tell_def post_def Let_def)
  show "auth_outcome sv (told_to msg st) c (snd (challenge sv msg rest st k))"
    using assms by (auto simp: challenge_def t auth_outcome_def split: option.split)
qed

lemma auth_outcomes: "auth_outcome sv st (presented ws rest) (snd (handle_auth sv ws rest st))"
proof -
  have blank: "auth_outcome sv s c (snd (case or_blank c of (u, p) \<Rightarrow> attempt sv u p r s))" for s c r
    using outcome_attempt outcome_blank by (cases c) (auto simp: or_blank_def)
  have both: "auth_outcome sv s (case (x, y) of (Some u, Some p) \<Rightarrow> Some (py_decode u, py_decode p) | _ \<Rightarrow> None)
      (snd (case (x, y) of (Some u, Some p) \<Rightarrow> attempt sv (py_decode u) (py_decode p) r s | _ \<Rightarrow> attempt sv [] [] r s))" for x y r s
    using outcome_attempt outcome_blank by (auto split: option.split)
  have no: "auth_outcome sv s c (snd (tell sv msg r s))" for s c msg r by (simp add: auth_outcome_def)
  have asked: "auth_outcome sv st (Option.bind (read_line rest) (\<lambda>(line1, rest1). Option.bind (read_line rest1) (\<lambda>(line2, _).
        (case (b64_scan 0 0 0 (py_strip line1), b64_scan 0 0 0 (py_strip line2)) of
           (Some u, Some p) \<Rightarrow> Some (py_decode u, py_decode p) | _ \<Rightarrow> None))))
      (snd (challenge sv msg1 rest st (\<lambda>user64 rest1 st1. challenge sv msg2 rest1 st1 (\<lambda>pass64 rest2 st2.
        (case (b64_scan 0 0 0 user64, b64_scan 0 0 0 pass64) of
           (Some u, Some p) \<Rightarrow> attempt sv (py_decode u) (py_decode p) rest2 st2
         | _ \<Rightarrow> attempt sv [] [] rest2 st2)))))" for msg1 msg2
    by (rule outcome_challenge, simp only: Option.bind.simps prod.case,
        rule outcome_challenge, simp only: Option.bind.simps prod.case, rule both [unfolded prod.case])
  consider "ws = []" | m as where "ws = m # as" "py_upper m = ''PLAIN''" | m as where "ws = m # as" "py_upper m = ''LOGIN''"
    | m as where "ws = m # as" "py_upper m \<noteq> ''PLAIN''" "py_upper m \<noteq> ''LOGIN''"
    by (cases ws) auto
  then show ?thesis
  proof cases
    case (2 m as)
    then show ?thesis
      by (cases as) (simp_all add: handle_auth_def presented_def blank outcome_challenge)
  next
    case (3 m as)
    then have m: "(case ws of m # _ \<Rightarrow> py_upper m | [] \<Rightarrow> []) = ''LOGIN''" by simp
    have "(''LOGIN'' = ''PLAIN'') = False" by simp
    then show ?thesis unfolding handle_auth_def presented_def Let_def m if_False simp_thms if_True by (simp only: if_False asked)
  qed (simp_all add: handle_auth_def no)
qed

end
