(* ===== verification/Smtp_Session.thy ===== *)
theory Smtp_Session
  imports Smtp_Laws Proxy_Login
begin

text \<open>
  The guarantees of a connection to the SMTP proxy: who speaks to a mail server, what is said to it, what is
  staged, and what a reviewer reads of it.
\<close>

section \<open>Staging a message\<close>

lemma told_state: "tell sv msg rest st = (r, st1) \<Longrightarrow> st1 = told_to msg st"
  by (auto simp: tell_def post_def Let_def)

lemma reset_fields [simp]:
  "sm_db (reset_upstream sv st) = sm_db st" "sm_sent (reset_upstream sv st) = sm_sent st @ [To_upstream RSET_LINE]"
  by (simp_all add: reset_upstream_def post_def Let_def split: option.split)

text \<open>The row staged for the message of the given lines.\<close>

definition send_row :: "senv \<Rightarrow> string list \<Rightarrow> smtp \<Rightarrow> op_row" where
  "send_row sv lines st = staged_row (dr_op_id (smtp_draw sv st)) (dr_clk (smtp_draw sv st) 20) (send_request (sv_mail sv) st lines)"

lemma send_row_envelope:
  assumes "py_decode (concat lines) \<noteq> []"
  shows "env_recipients (send_row sv lines st) = sm_recipients st" "body_text (send_row sv lines st) = py_decode (concat lines)"
    "op_status (send_row sv lines st) = Pending" "op_agent_id (send_row sv lines st) = map_option ag_id (sm_cred st)"
  using assms
  by (simp_all add: send_row_def staged_row_def send_request_def build_envelope_def env_recipients_def body_text_def
      truthy_def or_empty_def Let_def)

text \<open>Without an automatic decision staging appends one row.\<close>

lemma staged_appends:
  assumes "find_op i (w_db w) = None" "create_operation env (\<lambda>row owner d. Inr None) clk i rq w = (r, w')"
  shows "db_ops (w_db w') = db_ops (w_db w) @ [staged_row i (clk 20) rq]"
proof -
  have "\<not> list_ex (has_op i) (db_ops (w_db w))"
    using assms(1) by (simp add: find_op_def find_None_all list_ex_iff)
  then obtain d where d: "insert_staged env i (clk 20) rq (w_db w) = Some d" by (simp add: insert_staged_def)
  then have "w' = w\<lparr>w_db := d\<rparr>"
    using assms(2) by (simp add: create_operation_def Let_def bindE_def lift_res_def ret_def)
  then show ?thesis using insert_staged_find(2) [OF d] by simp
qed

lemma read_body_lines: "read_body inp = Some (lines, rest) \<Longrightarrow> list_all (\<lambda>l. l \<noteq> []) lines"
proof (induction "length inp" arbitrary: inp lines rule: less_induct)
  case less
  obtain line r where l: "read_line inp = Some (line, r)"
    using less.prems by (auto simp: read_body.simps [of inp] split: option.splits)
  show ?case
  proof (cases "line = [] \<or> line = CHR ''.'' # crlf \<or> line = [CHR ''.'', CHR 0x0A]")
    case False
    then obtain ls where "read_body r = Some (ls, rest)" "lines = line # ls"
      using less.prems l by (auto simp: read_body.simps [of inp] split: option.splits if_splits prod.splits)
    then show ?thesis using less.hyps [of r ls] read_line_split [OF l] False by simp
  qed (use less.prems l in \<open>auto simp: read_body.simps [of inp]\<close>)
qed

lemma send_request_told [simp]: "send_request ml (told_to msg st) lines = send_request ml st lines"
  by (simp add: send_request_def build_envelope_def Let_def)

section \<open>Properties\<close>

text \<open>C36: an \<open>AUTH\<close> command speaks to a mail server, or changes whose session it is, only when the
  credentials it presents, inline or in answer to the challenges, are those of a live agent of a live
  account and the abuse protector lets the attempt through; then only that agent's login is sent.  In every
  other case the agent alone is answered.\<close>

theorem presented_credentials_open_upstream:
  "((\<exists>ys. sm_sent (snd (handle_auth sv ws rest st)) = sm_sent st @ map To_client ys)
      \<and> sm_cred (snd (handle_auth sv ws rest st)) = sm_cred st \<and> sm_up (snd (handle_auth sv ws rest st)) = sm_up st)
   \<or> (\<exists>user pw a xs. presented ws rest = Some (user, pw) \<and> live_login (gt_verify (sv_gate sv)) user pw (sm_db st) a
        \<and> ad_allowed (fst (start_attempt (gt_config (sv_gate sv)) (gt_ip (sv_gate sv)) (account_name user)
             (gt_clk (sv_gate sv) (2 * sm_turn st)) (sm_abuse st)))
        \<and> sm_sent (snd (handle_auth sv ws rest st)) = sm_sent st @ xs \<and> list_all (login_sends sv a) xs
        \<and> (sm_cred (snd (handle_auth sv ws rest st)) = Some a
           \<or> (sm_cred (snd (handle_auth sv ws rest st)) = sm_cred st \<and> sm_up (snd (handle_auth sv ws rest st)) = sm_up st)))"
  (is "?refused \<or> ?opened")
proof -
  let ?st = "snd (handle_auth sv ws rest st)"
  from auth_outcomes [of sv st ws rest] show ?thesis
    unfolding auth_outcome_def
  proof
    assume "refused_login st ?st"
    then have ?refused by (simp add: refused_login_def access_def)
    then show ?thesis ..
  next
    assume "\<exists>p a. presented ws rest = Some p \<and> allowed_login sv st p a \<and> steps (login_sends sv a) (\<lambda>d d'. True) st ?st
        \<and> (access ?st = access st \<or> sm_cred ?st = Some a)"
    then obtain user pw a where a: "presented ws rest = Some (user, pw)" "allowed_login sv st (user, pw) a"
        "steps (login_sends sv a) (\<lambda>d d'. True) st ?st" "access ?st = access st \<or> sm_cred ?st = Some a"
      by (auto simp: split_paired_Ex)
    from a(3) obtain xs where "sm_sent ?st = sm_sent st @ xs" "list_all (login_sends sv a) xs" by (auto simp: steps_def)
    with a have ?opened unfolding allowed_login_def access_def by auto
    then show ?thesis ..
  qed
qed


text \<open>Over a whole SMTP connection a verified audit log stays verified, and every operation that existed
  is still there and has moved only along its lifecycle.\<close>

theorem smtp_session_keeps_history:
  assumes "fst (verify_audit_chain (env_digest (pe_env (sv_penv sv))) (w_db w))"
    and "distinct (op_keys (w_db w))" "find_op i (w_db w) = Some r"
  shows "fst (verify_audit_chain (env_digest (pe_env (sv_penv sv))) (sm_db (smtp_session sv inp (smtp_start ab w))))
    \<and> (\<exists>r'. find_op i (sm_db (smtp_session sv inp (smtp_start ab w))) = Some r' \<and> lifecycle\<^sup>*\<^sup>* (op_status r) (op_status r'))"
proof -
  let ?d = "sm_db (smtp_session sv inp (smtp_start ab w))"
  let ?st = "smtp_start ab w"
  have "steps (\<lambda>x. True) (log_kept (env_digest (pe_env (sv_penv sv)))) ?st (smtp_session sv inp ?st)"
    by (rule kept_log.session [where ?d0.0 = "w_db w"]) (simp add: in_session_def smtp_start_def chain.R_refl)
  then have "log_kept (env_digest (pe_env (sv_penv sv))) (w_db w) ?d" by (simp add: steps_def smtp_start_def)
  moreover have "steps (\<lambda>x. True) tracks ?st (smtp_session sv inp ?st)"
    by (rule tracked_ops.session [where ?d0.0 = "w_db w"]) (simp add: in_session_def smtp_start_def)
  then have "tracks (w_db w) ?d" by (simp add: steps_def smtp_start_def)
  then have "follows (w_db w) ?d" "distinct (op_keys ?d)" using assms(2) by (simp_all add: tracks_def)
  ultimately show ?thesis
    using assms(1) follows_find [OF _ _ assms(3)] unfolding log_kept_def by (metis (full_types))
qed



section \<open>Where the code departs from SMTP\<close>

text \<open>An agent's \<open>RSET\<close> resets the transaction of the mail server but not the proxy's envelope: the next message
  is staged for the recipients of the abandoned one as well.\<close>

lemma reset_keeps_recipients:
  assumes "sm_up st = Some up"
  shows "sm_recipients (snd (smtp_command sv (''RSET'' @ crlf) rest st)) = sm_recipients st
    \<and> To_upstream (''RSET'' @ crlf) \<in> set (sm_sent (snd (smtp_command sv (''RSET'' @ crlf) rest st)))"
proof -
  have w: "py_split (rstrip_crlf (py_decode (''RSET'' @ crlf))) = [''RSET'']" "py_upper ''RSET'' = ''RSET''"
    "\<not> has_bare_cr_or_nul (''RSET'' @ crlf)"
    by code_simp+
  have c: "smtp_command sv (''RSET'' @ crlf) rest st = ask_upstream sv (''RSET'' @ crlf) rest st"
    unfolding smtp_command_def Let_def w(1) list.case w(2) using w(3) assms
    by (simp add: SMTP_PASSTHROUGH_COMMANDS_def)
  show ?thesis unfolding c
    by (simp add: ask_upstream_def on_post_def on_reply_def post_def Let_def split: option.split prod.split)
qed

text \<open>A refused recipient stays in the envelope.\<close>

lemma recipient_kept_whatever_answered:
  assumes "re_search RCPT_TO_RE line = Some g"
  shows "sm_recipients (snd (handle_rcpt sv bytes line rest st)) = sm_recipients st @ [rx_group g 1]"
  using assms by (simp add: handle_rcpt_def ask_upstream_def on_post_def on_reply_def post_def Let_def
      split: option.split prod.split)

text \<open>What the server has sent in the clear after its answer to \<open>STARTTLS\<close> is read as part of the protected
  stream.\<close>

lemma clear_text_survives_upgrade:
  assumes "sv_dial sv (sm_turn st) host port = Some plain" "read_smtp_response plain = Some (greeting, up1)"
    and "read_smtp_response up1 = Some (caps, up2)" "read_smtp_response up2 = Some (resp # resps, up3)"
    and "py_startswith resp ''220''" "sv_tls sv (sm_turn st) = Some tls" "pe_gone (sv_penv sv) = (\<lambda>xs. False)"
  shows "fst (connect_upstream_starttls sv host port st) = Some (up3 @ tls)"
  using assms by (simp add: connect_upstream_starttls_def on_post_def on_reply_def post_def Let_def)

text \<open>A message cut short by a lost connection is a message, and doubled dots stay doubled.\<close>

lemma body_ends_with_stream: "read_body [] = Some ([], [])"
  by (simp add: read_body.simps [of "[]"] read_line_def STREAM_LIMIT_def)

lemma cut_message_staged:
  assumes "CHR 0x0A \<notin> set l" "length l < 1000" "l \<noteq> ''.''"
  shows "read_body (l @ crlf) = Some ([l @ crlf], [])"
proof -
  have "l @ crlf \<noteq> CHR ''.'' # crlf" "l @ crlf \<noteq> [CHR ''.'', CHR 0x0A]" "l @ crlf \<noteq> []"
    using assms(3) by (auto simp: crlf_def append_eq_Cons_conv)
  then show ?thesis
    using read_line_crlf [OF assms(1,2), of "[]"] by (subst read_body.simps) (simp add: body_ends_with_stream)
qed

lemma doubled_dot_kept:
  "read_body ((CHR ''.'' # CHR ''.'' # l) @ crlf @ ''.'' @ crlf) = Some ([CHR ''.'' # CHR ''.'' # l @ crlf], [])"
  if "CHR 0x0A \<notin> set l" "length l < 900"
proof -
  have "read_line ((CHR ''.'' # CHR ''.'' # l) @ crlf @ ''.'' @ crlf) = Some ((CHR ''.'' # CHR ''.'' # l) @ crlf, ''.'' @ crlf)"
    by (rule read_line_crlf) (use that in simp_all)
  moreover have "read_line (''.'' @ crlf) = Some (''.'' @ crlf, [])" using read_line_crlf [of "''.''" "[]"] by simp
  then have "read_body (''.'' @ crlf) = Some ([], [])" by (subst read_body.simps) simp
  ultimately show ?thesis by (subst read_body.simps) (simp add: crlf_def)
qed

text \<open>A message that could not be staged is answered as if it had been.\<close>

lemma failed_staging_answered_ok:
  assumes "create_operation (pe_env (sv_penv sv)) (pe_decide (sv_penv sv)) (dr_clk (smtp_draw sv st))
    (dr_op_id (smtp_draw sv st)) (send_request (sv_mail sv) st lines) (sm_world st) = (Inl e, w)"
  shows "fst (stage_send sv lines st) = ''250 OK [STAGED] Send queued for approval '' @ em_dash @ '' ID: pending''"
  using assms by (simp add: stage_send_def)

section \<open>Samples\<close>

definition sample_mail_lib :: mail_lib where
  "sample_mail_lib = \<lparr>ml_parse = (\<lambda>s. Some (True,
       [\<lparr>mp_type = ''text/html'', mp_disposition = [], mp_filename = [], mp_charset = None, mp_payload = Some ''<p>hi</p>''\<rparr>,
        \<lparr>mp_type = ''text/plain'', mp_disposition = [], mp_filename = [], mp_charset = None, mp_payload = Some ''hello''\<rparr>])),
     ml_decode = (\<lambda>c b. Some b), ml_unescape = id\<rparr>"

definition sample_senv :: senv where
  "sample_senv = \<lparr>sv_penv = sample_penv, sv_gate = le_gate sample_lenv, sv_dial = (\<lambda>k host port. None),
     sv_tls = (\<lambda>k. None), sv_overrun = (\<lambda>s. []), sv_mail = sample_mail_lib\<rparr>"

definition sample_smtp :: smtp where
  "sample_smtp = (smtp_start fresh_abuse_state (sample_world\<lparr>w_db := sample_auth_db\<rparr>))\<lparr>sm_up := Some [],
     sm_cred := Some sample_agent, sm_recipients := [''c@d.example'']\<rparr>"

lemma smtp_session_keeps_history_witness:
  "\<exists>r'. find_op ''op_1'' (sm_db (smtp_session sample_senv (''EHLO x'' @ crlf @ ''DATA'' @ crlf)
       (smtp_start fresh_abuse_state (sample_world\<lparr>w_db := sample_pending_db\<rparr>)))) = Some r'
     \<and> lifecycle\<^sup>*\<^sup>* (op_status sample_expiring) (op_status r')"
proof -
  have "find_op ''op_1'' sample_pending_db = Some sample_expiring" "distinct (op_keys sample_pending_db)"
    "fst (verify_audit_chain (env_digest (pe_env (sv_penv sample_senv))) sample_pending_db)"
    by (simp_all add: sample_pending_simps find_op_def has_op_def sample_pending_db_def sample_auth_db_def
        verify_audit_chain_def verify_rows_def empty_db_def sample_penv_def sample_senv_def)
  with smtp_session_keeps_history [of sample_senv "sample_world\<lparr>w_db := sample_pending_db\<rparr>" "''op_1''" sample_expiring
      "''EHLO x'' @ crlf @ ''DATA'' @ crlf" fresh_abuse_state]
  show ?thesis by simp
qed



end
