(* ===== verification/Json.thy ===== *)
theory Json
  imports Audit_Log
begin

text \<open>
  The part of Python's \<open>json\<close> module the gateway uses: \<open>json.loads\<close> of a text, as a value, and the compact
  \<open>json.dumps\<close> of a flat object.  A number with a fraction or an exponent is kept as mantissa and power of ten.
\<close>

section \<open>Values\<close>

datatype json =
    J_null
  | J_bool bool
  | J_int int
  | J_dec int int
  | J_special string
  | J_str string
  | J_list "json list"
  | J_obj "(string \<times> json) list"

text \<open>\<open>bool(v)\<close>, and \<open>v == n\<close> for an integer: \<open>True\<close> is 1, and \<open>1.0\<close> is 1.\<close>

fun json_truthy :: "json \<Rightarrow> bool" where
  "json_truthy J_null = False"
| "json_truthy (J_bool b) = b"
| "json_truthy (J_int n) = (n \<noteq> 0)"
| "json_truthy (J_dec m e) = (m \<noteq> 0)"
| "json_truthy (J_special s) = True"
| "json_truthy (J_str s) = (s \<noteq> [])"
| "json_truthy (J_list vs) = (vs \<noteq> [])"
| "json_truthy (J_obj kvs) = (kvs \<noteq> [])"

fun json_is_int :: "int \<Rightarrow> json \<Rightarrow> bool" where
  "json_is_int k (J_int n) = (n = k)"
| "json_is_int k (J_bool b) = ((if b then 1 else 0) = k)"
| "json_is_int k (J_dec m e) = (if e \<ge> 0 then m * 10 ^ nat e = k else m = k * 10 ^ nat (- e))"
| "json_is_int k _ = False"

text \<open>\<open>d.get(k)\<close>: of two equal keys the later one stays.\<close>

definition json_get :: "string \<Rightarrow> (string \<times> json) list \<Rightarrow> json option" where
  "json_get k kvs = map_of (rev kvs) k"

section \<open>Text\<close>

definition json_space :: "char \<Rightarrow> bool" where
  "json_space c \<longleftrightarrow> code_pt c \<in> {32, 9, 10, 13}"

abbreviation json_ws :: "string \<Rightarrow> string" where
  "json_ws \<equiv> dropWhile json_space"

definition hex_digit :: "char \<Rightarrow> nat option" where
  "hex_digit c =
     (let n = code_pt c in
      if 48 \<le> n \<and> n \<le> 57 then Some (n - 48)
      else if 97 \<le> n \<and> n \<le> 102 then Some (n - 87)
      else if 65 \<le> n \<and> n \<le> 70 then Some (n - 55) else None)"

definition hex4 :: "string \<Rightarrow> (nat \<times> string) option" where
  "hex4 s =
     (case s of
        a # b # c # d # t \<Rightarrow>
          (case (hex_digit a, hex_digit b, hex_digit c, hex_digit d) of
             (Some w, Some x, Some y, Some z) \<Rightarrow> Some (((w * 16 + x) * 16 + y) * 16 + z, t)
           | _ \<Rightarrow> None)
      | _ \<Rightarrow> None)"

text \<open>A code point in UTF-8; a lone surrogate keeps the three bytes of its number.\<close>

definition utf8_of :: "nat \<Rightarrow> string" where
  "utf8_of n =
     (if n < 128 then [char_of n]
      else if n < 2048 then [char_of (192 + n div 64), char_of (128 + n mod 64)]
      else if n < 65536
      then [char_of (224 + n div 4096), char_of (128 + n div 64 mod 64), char_of (128 + n mod 64)]
      else [char_of (240 + n div 262144), char_of (128 + n div 4096 mod 64),
            char_of (128 + n div 64 mod 64), char_of (128 + n mod 64)])"

text \<open>The character after \<open>\u\<close>, a low surrogate taken with the high one before it.\<close>

definition json_unicode :: "string \<Rightarrow> (string \<times> string) option" where
  "json_unicode s =
     (case hex4 s of
        None \<Rightarrow> None
      | Some (n, r) \<Rightarrow>
          (if 55296 \<le> n \<and> n \<le> 56319 \<and> py_startswith r (bslash # ''u'')
           then (case hex4 (drop 2 r) of
                   Some (m, r') \<Rightarrow>
                     (if 56320 \<le> m \<and> m \<le> 57343
                      then Some (utf8_of (65536 + (n - 55296) * 1024 + (m - 56320)), r')
                      else Some (utf8_of n, r))
                 | None \<Rightarrow> Some (utf8_of n, r))
           else Some (utf8_of n, r)))"

definition json_unescape :: "char \<Rightarrow> char option" where
  "json_unescape c =
     (if c = dquote \<or> c = bslash \<or> c = CHR ''/'' then Some c
      else if c = CHR ''b'' then Some (char_of (8::nat)) else if c = CHR ''f'' then Some (char_of (12::nat))
      else if c = CHR ''n'' then Some (char_of (10::nat)) else if c = CHR ''r'' then Some (char_of (13::nat))
      else if c = CHR ''t'' then Some (char_of (9::nat)) else None)"

lemma hex4_shorter: "hex4 s = Some (n, r) \<Longrightarrow> length r < length s"
  by (auto simp: hex4_def split: list.splits option.splits)

lemma json_unicode_shorter: "json_unicode s = Some (w, r) \<Longrightarrow> length r < length s"
  by (auto simp: json_unicode_def split: option.splits if_splits dest!: hex4_shorter)

text \<open>The rest of a string after its opening quote.\<close>

function json_text :: "string \<Rightarrow> (string \<times> string) option" where
  "json_text [] = None"
| "json_text (c # s) =
     (if c = dquote then Some ([], s)
      else if c = bslash then
        (case s of
           [] \<Rightarrow> None
         | e # t \<Rightarrow>
             (if e = CHR ''u''
              then (case json_unicode t of
                      None \<Rightarrow> None
                    | Some (w, r) \<Rightarrow> map_option (\<lambda>(v, q). (w @ v, q)) (json_text r))
              else (case json_unescape e of
                      None \<Rightarrow> None
                    | Some x \<Rightarrow> map_option (\<lambda>(v, q). (x # v, q)) (json_text t))))
      else if code_pt c < 32 then None
      else map_option (\<lambda>(v, q). (c # v, q)) (json_text s))"
  by pat_completeness auto
termination by (relation "measure length") (auto dest: json_unicode_shorter)

section \<open>Numbers\<close>

definition json_fraction :: "string \<Rightarrow> string \<times> string" where
  "json_fraction s =
     (let ds = (if py_startswith s ''.'' then takeWhile is_digit (tl s) else [])
      in (ds, if ds = [] then s else drop (Suc (length ds)) s))"

definition json_exponent :: "string \<Rightarrow> int option \<times> string" where
  "json_exponent s =
     (let ex = (if py_startswith s ''e'' \<or> py_startswith s ''E'' then tl s else []);
          sgn = (if py_startswith ex ''-'' \<or> py_startswith ex ''+'' then 1 else 0);
          ds = takeWhile is_digit (drop sgn ex)
      in if ds = [] then (None, s)
         else (Some (if py_startswith ex ''-'' then - int (nat_of_str ds) else int (nat_of_str ds)),
               drop (Suc (sgn + length ds)) s))"

definition json_number :: "string \<Rightarrow> (json \<times> string) option" where
  "json_number s =
     (let neg = py_startswith s ''-''; s1 = (if neg then tl s else s);
          ip = (if py_startswith s1 ''0'' then ''0'' else takeWhile is_digit s1);
          (frac, r2) = json_fraction (drop (length ip) s1);
          (pow, r3) = json_exponent r2;
          m = (if neg then - int (nat_of_str (ip @ frac)) else int (nat_of_str (ip @ frac)))
      in if ip = [] then None
         else Some (if frac = [] \<and> pow = None then J_int m else J_dec m (the_default 0 pow - int (length frac)), r3))"

definition json_words :: "(string \<times> json) list" where
  "json_words =
     [(''null'', J_null), (''true'', J_bool True), (''false'', J_bool False), (''NaN'', J_special ''NaN''),
      (''Infinity'', J_special ''Infinity''), (''-Infinity'', J_special ''-Infinity'')]"

definition json_atom :: "string \<Rightarrow> (json \<times> string) option" where
  "json_atom s =
     (case List.find (\<lambda>(w, v). py_startswith s w) json_words of
        Some (w, v) \<Rightarrow> Some (v, drop (length w) s)
      | None \<Rightarrow> json_number s)"

section \<open>Documents\<close>

text \<open>The fuel bounds the calls; \<open>2 * length s + 2\<close> is always enough (\<open>json_fuel\<close>).\<close>

fun json_value :: "nat \<Rightarrow> string \<Rightarrow> (json \<times> string) option"
  and json_members :: "nat \<Rightarrow> string \<Rightarrow> ((string \<times> json) list \<times> string) option"
  and json_elems :: "nat \<Rightarrow> string \<Rightarrow> (json list \<times> string) option" where
  "json_value 0 s = None"
| "json_value (Suc n) s =
     (if py_startswith s [dquote] then map_option (\<lambda>(t, r). (J_str t, r)) (json_text (tl s))
      else if py_startswith s ''{'' then
        (if py_startswith (json_ws (tl s)) ''}'' then Some (J_obj [], tl (json_ws (tl s)))
         else map_option (\<lambda>(kvs, r). (J_obj kvs, r)) (json_members n (json_ws (tl s))))
      else if py_startswith s ''['' then
        (if py_startswith (json_ws (tl s)) '']'' then Some (J_list [], tl (json_ws (tl s)))
         else map_option (\<lambda>(vs, r). (J_list vs, r)) (json_elems n (json_ws (tl s))))
      else json_atom s)"
| "json_members 0 s = None"
| "json_members (Suc n) s =
     (if \<not> py_startswith s [dquote] then None
      else case json_text (tl s) of
        None \<Rightarrow> None
      | Some (k, r) \<Rightarrow>
          (if \<not> py_startswith (json_ws r) '':'' then None
           else case json_value n (json_ws (tl (json_ws r))) of
             None \<Rightarrow> None
           | Some (v, r2) \<Rightarrow>
               (if py_startswith (json_ws r2) ''}'' then Some ([(k, v)], tl (json_ws r2))
                else if py_startswith (json_ws r2) '',''
                then map_option (\<lambda>(kvs, q). ((k, v) # kvs, q)) (json_members n (json_ws (tl (json_ws r2))))
                else None)))"
| "json_elems 0 s = None"
| "json_elems (Suc n) s =
     (case json_value n s of
        None \<Rightarrow> None
      | Some (v, r) \<Rightarrow>
          (if py_startswith (json_ws r) '']'' then Some ([v], tl (json_ws r))
           else if py_startswith (json_ws r) '',''
           then map_option (\<lambda>(vs, q). (v # vs, q)) (json_elems n (json_ws (tl (json_ws r))))
           else None))"

text \<open>\<open>None\<close>: \<open>JSONDecodeError\<close>.\<close>

definition json_loads :: "string \<Rightarrow> json option" where
  "json_loads s =
     (case json_value (2 * length s + 2) (json_ws s) of
        Some (v, r) \<Rightarrow> if json_ws r = [] then Some v else None
      | None \<Rightarrow> None)"

section \<open>Printing\<close>

text \<open>The code points of a text in UTF-8, and a text as \<open>json.dumps\<close> writes it: in ASCII.\<close>

fun code_points :: "string \<Rightarrow> nat list" where
  "code_points [] = []"
| "code_points (a # s) =
     (let n = code_pt a; k = (\<lambda>i. code_pt (s ! i) mod 64) in
      if n < 128 then n # code_points s
      else if n < 224 \<and> length s \<ge> 1 then (n mod 32 * 64 + k 0) # code_points (drop 1 s)
      else if n < 240 \<and> length s \<ge> 2 then ((n mod 16 * 64 + k 0) * 64 + k 1) # code_points (drop 2 s)
      else if length s \<ge> 3 then (((n mod 8 * 64 + k 0) * 64 + k 1) * 64 + k 2) # code_points (drop 3 s)
      else [])"

definition hex_word :: "nat \<Rightarrow> string" where
  "hex_word n = [hex_char (n div 4096 mod 16), hex_char (n div 256 mod 16), hex_char (n div 16 mod 16), hex_char (n mod 16)]"

definition json_escape :: "nat \<Rightarrow> string" where
  "json_escape n =
     (if n < 127 then json_char (char_of n)
      else if n < 65536 then bslash # ''u'' @ hex_word n
      else bslash # ''u'' @ hex_word (55296 + (n - 65536) div 1024)
         @ bslash # ''u'' @ hex_word (56320 + (n - 65536) mod 1024))"

definition json_dump_str :: "string \<Rightarrow> string" where
  "json_dump_str s = dquote # concat (map json_escape (code_points s)) @ [dquote]"

text \<open>\<open>json.dumps(d, separators=(",", ":"))\<close>, the values given as printed.\<close>

definition json_compact :: "(string \<times> string) list \<Rightarrow> string" where
  "json_compact kvs = ''{'' @ py_join '','' (map (\<lambda>(k, v). json_dump_str k @ '':'' @ v) kvs) @ ''}''"

section \<open>Laws\<close>

lemma ws_shorter: "length (json_ws s) \<le> length s"
  by (rule length_dropWhile_le)

lemma startswith_len: "py_startswith s w \<Longrightarrow> length w \<le> length s"
  by (auto simp: py_startswith_def dest: arg_cong [where f = length])

lemma json_text_shorter: "json_text s = Some (v, r) \<Longrightarrow> length r < length s"
  by (induction s arbitrary: v r rule: json_text.induct)
    (fastforce split: if_splits list.splits option.splits dest: json_unicode_shorter)+

lemma json_fraction_len: "json_fraction s = (f, r) \<Longrightarrow> length r \<le> length s"
  by (auto simp: json_fraction_def Let_def split: if_splits)

lemma json_exponent_len: "json_exponent s = (p, r) \<Longrightarrow> length r \<le> length s"
  by (auto simp: json_exponent_def Let_def split: if_splits)

lemma json_number_shorter:
  assumes "json_number s = Some (v, r)"
  shows "length r < length s"
proof -
  define s1 where "s1 = (if py_startswith s ''-'' then tl s else s)"
  define ip where "ip = (if py_startswith s1 ''0'' then ''0'' else takeWhile is_digit s1)"
  obtain f r2 where f: "json_fraction (drop (length ip) s1) = (f, r2)" by fastforce
  obtain p r3 where p: "json_exponent r2 = (p, r3)" by fastforce
  have "ip \<noteq> [] \<and> r3 = r"
    using assms unfolding json_number_def Let_def s1_def [symmetric] ip_def [symmetric]
    by (simp add: f p split: if_splits)
  moreover have "length r3 \<le> length s1 - length ip"
    using json_fraction_len [OF f] json_exponent_len [OF p] by simp
  moreover have "length ip \<le> length s1"
    by (auto simp: ip_def length_takeWhile_le dest: startswith_len)
  moreover have "length s1 \<le> length s" by (simp add: s1_def)
  ultimately show ?thesis by (cases ip) auto
qed

lemma json_atom_shorter: "json_atom s = Some (v, r) \<Longrightarrow> length r < length s"
  by (auto simp: json_atom_def json_words_def split: option.splits if_splits
      dest!: json_number_shorter startswith_len)

lemma tl_shorter: "py_startswith s [c] \<Longrightarrow> length (tl s) < length s"
  by (cases s) (auto simp: py_startswith_def)

lemma tl_ws_shorter: "py_startswith s [c] \<Longrightarrow> length (json_ws (tl s)) < length s"
  using tl_shorter ws_shorter [of "tl s"] by fastforce

lemma ws_tl_shorter: "py_startswith (json_ws s) [c] \<Longrightarrow> length (tl (json_ws s)) < length s"
  using tl_shorter [of "json_ws s" c] ws_shorter [of s] by linarith

lemma json_value_shorter:
  "json_value n s = Some (v, r) \<Longrightarrow> length r < length s"
  "json_members n s = Some (kvs, r) \<Longrightarrow> length r < length s"
  "json_elems n s = Some (vs, r) \<Longrightarrow> length r < length s"
proof (induction n s and n s and n s arbitrary: v r and kvs r and vs r
    rule: json_value_json_members_json_elems.induct)
  case (2 n s)
  show ?case
  proof -
    have "length r < length (tl (json_ws (tl s)))  \<or> r = tl (json_ws (tl s)) \<or> length r < length (json_ws (tl s))"
      if "py_startswith s ''{'' \<or> py_startswith s ''[''" "\<not> py_startswith s [dquote]"
      using 2 that by (auto split: if_splits)
    moreover have "length (json_ws (tl s)) < length s" "length (tl (json_ws (tl s))) < length s"
      if "py_startswith s ''{'' \<or> py_startswith s ''[''"
      using that by (auto dest: tl_ws_shorter)
    moreover have "length r < length s" if "py_startswith s [dquote]"
      using 2(3) that by (auto dest!: json_text_shorter tl_shorter)
    moreover have "length r < length s"
      if "\<not> (py_startswith s ''{'' \<or> py_startswith s ''[''  \<or> py_startswith s [dquote])"
      using 2(3) that by (auto dest: json_atom_shorter)
    ultimately show ?thesis by fastforce
  qed
next
  case (4 n s)
  from "4.prems" obtain k q w q2 where
    *: "py_startswith s [dquote]" "json_text (tl s) = Some (k, q)" "py_startswith (json_ws q) '':''"
      "json_value n (json_ws (tl (json_ws q))) = Some (w, q2)"
    and c: "(py_startswith (json_ws q2) ''}'' \<and> r = tl (json_ws q2))
      \<or> (\<not> py_startswith (json_ws q2) ''}'' \<and> py_startswith (json_ws q2) '',''
          \<and> (\<exists>kvs'. json_members n (json_ws (tl (json_ws q2))) = Some (kvs', r)))"
    by (auto split: if_splits option.splits)
  have "length q2 < length (json_ws (tl (json_ws q)))" using "4.IH"(1) * by simp
  moreover have "length q < length s" using json_text_shorter [OF *(2)] tl_shorter [OF *(1)] by simp
  moreover have "length (json_ws (tl (json_ws q))) < length q" using *(3) ws_tl_shorter ws_shorter le_less_trans by blast
  moreover have "length r \<le> length q2"
    using c
  proof
    assume "py_startswith (json_ws q2) ''}'' \<and> r = tl (json_ws q2)"
    then show ?thesis using ws_tl_shorter by fastforce
  next
    assume "\<not> py_startswith (json_ws q2) ''}'' \<and> py_startswith (json_ws q2) '',''
          \<and> (\<exists>kvs'. json_members n (json_ws (tl (json_ws q2))) = Some (kvs', r))"
    then obtain kvs' where "length r < length (json_ws (tl (json_ws q2)))" "py_startswith (json_ws q2) '',''"
      using "4.IH"(2) [OF _ *(2) refl _ *(4) refl] * by auto
    then show ?thesis using ws_tl_shorter [of q2 "CHR '',''"] ws_shorter [of "tl (json_ws q2)"] by linarith
  qed
  ultimately show ?case by linarith
next
  case (6 n s)
  from "6.prems" obtain w q where *: "json_value n s = Some (w, q)"
    and c: "(py_startswith (json_ws q) '']'' \<and> r = tl (json_ws q))
      \<or> (\<not> py_startswith (json_ws q) '']'' \<and> py_startswith (json_ws q) '',''
          \<and> (\<exists>vs'. json_elems n (json_ws (tl (json_ws q))) = Some (vs', r)))"
    by (auto split: if_splits option.splits)
  have "length q < length s" using "6.IH"(1) * by simp
  moreover have "length r \<le> length q"
    using c
  proof
    assume "py_startswith (json_ws q) '']'' \<and> r = tl (json_ws q)"
    then show ?thesis using ws_tl_shorter by fastforce
  next
    assume "\<not> py_startswith (json_ws q) '']'' \<and> py_startswith (json_ws q) '',''
          \<and> (\<exists>vs'. json_elems n (json_ws (tl (json_ws q))) = Some (vs', r))"
    then obtain vs' where "length r < length (json_ws (tl (json_ws q)))" "py_startswith (json_ws q) '',''"
      using "6.IH"(2) [OF * refl] by auto
    then show ?thesis using ws_tl_shorter [of q "CHR '',''"] ws_shorter [of "tl (json_ws q)"] by linarith
  qed
  ultimately show ?case by linarith
qed simp_all

text \<open>More fuel than the text has room for changes nothing.\<close>

lemma json_fuel_step:
  "2 * length s + 1 \<le> n \<Longrightarrow> json_value (Suc n) s = json_value n s"
  "2 * length s + 1 \<le> n \<Longrightarrow> json_members (Suc n) s = json_members n s"
  "2 * length s + 2 \<le> n \<Longrightarrow> json_elems (Suc n) s = json_elems n s"
proof (induction n s and n s and n s rule: json_value_json_members_json_elems.induct)
  case (2 n s)
  have room: "2 * length (json_ws (tl s)) + 2 \<le> n" if "py_startswith s [c]" for c
    using tl_ws_shorter [OF that] "2.prems" by simp
  have mem: "json_members (Suc n) (json_ws (tl s)) = json_members n (json_ws (tl s))"
    if "\<not> py_startswith s [dquote]" "py_startswith s ''{''" "\<not> py_startswith (json_ws (tl s)) ''}''"
    using "2.IH"(1) [OF that] room [OF that(2)] by simp
  have el: "json_elems (Suc n) (json_ws (tl s)) = json_elems n (json_ws (tl s))"
    if "\<not> py_startswith s [dquote]" "\<not> py_startswith s ''{''" "py_startswith s ''[''" "\<not> py_startswith (json_ws (tl s)) '']''"
    using "2.IH"(2) [OF that] room [OF that(3)] by simp
  show ?case
    unfolding json_value.simps(2) [where s = s] using mem el by (simp del: json_members.simps json_elems.simps)
next
  case (4 n s)
  show ?case
  proof (cases "py_startswith s [dquote] \<and> json_text (tl s) \<noteq> None")
    case True
    then obtain k q where k: "py_startswith s [dquote]" "json_text (tl s) = Some (k, q)" by auto
    have q: "length q < length s" using json_text_shorter [OF k(2)] tl_shorter [OF k(1)] by simp
    show ?thesis
    proof (cases "py_startswith (json_ws q) '':''")
      case True
      let ?t = "json_ws (tl (json_ws q))"
      have t: "length ?t < length q" using ws_tl_shorter [OF True] ws_shorter [of "tl (json_ws q)"] by simp
      have v: "json_value (Suc n) ?t = json_value n ?t"
        using "4.IH"(1) [OF _ k(2) refl] k(1) True t q "4.prems" by simp
      have m: "json_members (Suc n) (json_ws (tl (json_ws q2))) = json_members n (json_ws (tl (json_ws q2)))"
        if "json_value n ?t = Some (w, q2)" "\<not> py_startswith (json_ws q2) ''}''" "py_startswith (json_ws q2) '',''" for w q2
      proof -
        have "length (json_ws (tl (json_ws q2))) < length q2"
          using ws_tl_shorter [OF that(3)] ws_shorter [of "tl (json_ws q2)"] by simp
        moreover have "length q2 < length ?t" using json_value_shorter(1) [OF that(1)] .
        ultimately show ?thesis
          using "4.IH"(2) [OF _ k(2) refl _ that(1) refl that(2,3)] k(1) True t q "4.prems" by simp
      qed
      show ?thesis
        unfolding json_members.simps(2) [where s = s] using k True v m
        by (simp del: json_members.simps json_value.simps split: option.split)
    qed (use k in \<open>simp del: json_value.simps\<close>)
  qed (cases "json_text (tl s)"; auto simp del: json_value.simps)
next
  case (6 n s)
  have v: "json_value (Suc n) s = json_value n s" using "6.IH"(1) "6.prems" by simp
  have m: "json_elems (Suc n) (json_ws (tl (json_ws q))) = json_elems n (json_ws (tl (json_ws q)))"
    if "json_value n s = Some (w, q)" "\<not> py_startswith (json_ws q) '']''" "py_startswith (json_ws q) '',''" for w q
    using "6.IH"(2) [OF that(1) refl that(2,3)] json_value_shorter(1) [OF that(1)] ws_tl_shorter [OF that(3)]
      ws_shorter [of "tl (json_ws q)"] "6.prems" by simp
  show ?case
    unfolding json_elems.simps(2) [where s = s] using v m by (simp del: json_elems.simps json_value.simps split: option.split)
qed simp_all

lemma json_fuel: "2 * length s + 1 \<le> n \<Longrightarrow> json_value n s = json_value (2 * length s + 1) s"
proof (induction n rule: dec_induct)
  case (step n)
  then show ?case using json_fuel_step(1) by simp
qed simp

section \<open>Plain text\<close>

text \<open>Printable ASCII without quotes and backslashes is printed as it is, and read back.\<close>

definition json_plain :: "char \<Rightarrow> bool" where
  "json_plain c \<longleftrightarrow> 32 \<le> code_pt c \<and> code_pt c < 127 \<and> c \<noteq> dquote \<and> c \<noteq> bslash"

lemma code_points_plain: "list_all json_plain s \<Longrightarrow> code_points s = map code_pt s"
  by (induction s) (auto simp: json_plain_def Let_def)

lemma json_escape_plain: "json_plain c \<Longrightarrow> json_escape (code_pt c) = [c]"
  by (auto simp: json_plain_def json_escape_def json_char_def Let_def)

lemma json_dump_plain: "list_all json_plain s \<Longrightarrow> json_dump_str s = dquote # s @ [dquote]"
proof -
  assume *: "list_all json_plain s"
  then have "concat (map json_escape (map code_pt s)) = s"
    by (induction s) (simp_all add: json_escape_plain)
  with * show ?thesis by (simp add: json_dump_str_def code_points_plain)
qed

lemma json_text_plain: "list_all json_plain s \<Longrightarrow> json_text (s @ dquote # r) = Some (s, r)"
  by (induction s) (auto simp: json_plain_def)

end
