(* ===== verification/Secrets.thy ===== *)
theory Secrets
  imports Json Utf8 Upstream
begin

text \<open>
  Upstream credentials at rest (\<open>gateway/credentials.py\<close>) and the secret managers behind them
  (\<open>gateway/secret_store.py\<close>): the master key, the v1 envelope with the ciphertext, the v2 envelope with
  a reference to an external secret, the cache in front of a manager, and the teardown of an agent's secrets.
\<close>

section \<open>State and environment\<close>

datatype secret_call =
    Put_secret string string "(string \<times> string) list" string
  | Get_secret string string
  | Drop_secret string string
  | Revoke_grant string

text \<open>
  \<open>va_master\<close>, \<open>va_caches\<close>: the process's key and its stores, each with its cache; \<open>va_keyfile\<close>: the text of
  \<open>master.key\<close>; \<open>va_calls\<close>: the calls made to the managers, oldest first; \<open>va_ticks\<close>: how often the clock or
  the random source has been read.
\<close>

record vault =
  va_master :: "string option"
  va_keyfile :: "string option"
  va_caches :: "string \<rightharpoonup> (string \<times> string \<times> int) list"
  va_calls :: "secret_call list"
  va_ticks :: nat

text \<open>
  \<open>ke_seal key nonce text\<close>, \<open>ke_open key nonce ct\<close>: AES-256-GCM, \<open>None\<close> when the library raises;
  \<open>ke_put h b name tags text\<close>, \<open>ke_get h b r\<close>, \<open>ke_drop h b r\<close>: what the manager \<open>b\<close> answers after the calls
  \<open>h\<close>: the reference of a new secret, the text behind a reference, and whether a deletion goes through;
  \<open>ke_ttl\<close>: the cache's time to live, \<open>None\<close> when its variable is no number.
\<close>

record keyring =
  ke_vars :: "string \<rightharpoonup> string"
  ke_rand :: "nat \<Rightarrow> nat \<Rightarrow> string"
  ke_mono :: "nat \<Rightarrow> int"
  ke_ttl :: "int option"
  ke_seal :: "string \<Rightarrow> string \<Rightarrow> string \<Rightarrow> string option"
  ke_open :: "string \<Rightarrow> string \<Rightarrow> string \<Rightarrow> string option"
  ke_put :: "secret_call list \<Rightarrow> string \<Rightarrow> string \<Rightarrow> (string \<times> string) list \<Rightarrow> string \<Rightarrow> string option"
  ke_get :: "secret_call list \<Rightarrow> string \<Rightarrow> string \<Rightarrow> string option"
  ke_drop :: "secret_call list \<Rightarrow> string \<Rightarrow> string \<Rightarrow> bool"

text \<open>\<open>None\<close>: an exception.\<close>

type_synonym 'a vop = "vault \<Rightarrow> 'a option \<times> vault"

definition vret :: "'a \<Rightarrow> 'a vop" where "vret x v = (Some x, v)"

definition vfail :: "'a vop" where "vfail v = (None, v)"

definition vbind :: "'a vop \<Rightarrow> ('a \<Rightarrow> 'b vop) \<Rightarrow> 'b vop" where
  "vbind m f v = (case m v of (None, v') \<Rightarrow> (None, v') | (Some x, v') \<Rightarrow> f x v')"

definition vlift :: "'a option \<Rightarrow> 'a vop" where "vlift x v = (x, v)"

text \<open>\<open>try: ... except Exception: pass\<close>.\<close>

definition vtry :: "'a vop \<Rightarrow> unit vop" where "vtry m v = (Some (), snd (m v))"

definition tick :: "(nat \<Rightarrow> 'a) \<Rightarrow> 'a vop" where
  "tick f v = (Some (f (va_ticks v)), v\<lparr>va_ticks := Suc (va_ticks v)\<rparr>)"

definition called :: "secret_call \<Rightarrow> unit vop" where
  "called c v = (Some (), v\<lparr>va_calls := va_calls v @ [c]\<rparr>)"

section \<open>Hexadecimal\<close>

definition hex_text :: "string \<Rightarrow> string" where
  "hex_text s = hexdigest (map code_pt s)"

text \<open>\<open>bytes.fromhex\<close> skips white space between bytes.\<close>

fun from_hex :: "string \<Rightarrow> string option" where
  "from_hex [] = Some []"
| "from_hex [c] = (if is_space c \<and> code_pt c < 28 \<or> code_pt c = 32 then Some [] else None)"
| "from_hex (c # d # t) =
     (if is_space c \<and> code_pt c < 28 \<or> code_pt c = 32 then from_hex (d # t)
      else case (hex_digit c, hex_digit d) of
        (Some x, Some y) \<Rightarrow> map_option (Cons (char_of (16 * x + y))) (from_hex t)
      | _ \<Rightarrow> None)"

section \<open>The master key\<close>

definition env_or :: "keyring \<Rightarrow> string \<Rightarrow> string \<Rightarrow> string" where
  "env_or env name dflt = the_default dflt (ke_vars env name)"

definition cached_key :: "string option \<Rightarrow> string vop" where
  "cached_key k v = (case k of None \<Rightarrow> (None, v) | Some key \<Rightarrow> (Some key, v\<lparr>va_master := Some key\<rparr>))"

definition get_master_key :: "keyring \<Rightarrow> string vop" where
  "get_master_key env v =
     (let env_val = py_strip (env_or env ''NUVRAIL_MASTER_KEY'' []) in
      case va_master v of
        Some key \<Rightarrow> (Some key, v)
      | None \<Rightarrow>
          if env_val \<noteq> [] then
            (if utf8_length env_val \<noteq> 64 then (None, v) else cached_key (from_hex env_val) v)
          else case va_keyfile v of
            Some txt \<Rightarrow> cached_key (from_hex (py_strip txt)) v
          | None \<Rightarrow>
              vbind (tick (ke_rand env 32))
                (\<lambda>key v. (Some key, v\<lparr>va_keyfile := Some (hex_text key), va_master := Some key\<rparr>)) v)"

section \<open>Envelopes\<close>

definition encrypt_credential :: "keyring \<Rightarrow> string \<Rightarrow> string vop" where
  "encrypt_credential env plaintext =
     vbind (get_master_key env) (\<lambda>key. vbind (tick (ke_rand env 12)) (\<lambda>nonce.
       vbind (vlift (ke_seal env key nonce plaintext)) (\<lambda>ct.
         vret (json_compact [(''v'', ''1''), (''iv'', json_dump_str (hex_text nonce)), (''ct'', json_dump_str (hex_text ct))]))))"

text \<open>The text \<open>{"v":\<close> every envelope starts with.\<close>

definition envelope_head :: string where
  "envelope_head = [CHR ''{'', dquote, CHR ''v'', dquote, CHR '':'']"

definition parse_envelope :: "string \<Rightarrow> (string \<times> json) list option" where
  "parse_envelope stored =
     (if \<not> py_startswith stored envelope_head then None
      else case json_loads stored of
        Some (J_obj kvs) \<Rightarrow> (if json_get ''v'' kvs = None then None else Some kvs)
      | _ \<Rightarrow> None)"

definition version_is :: "int \<Rightarrow> (string \<times> json) list \<Rightarrow> bool" where
  "version_is n kvs = (case json_get ''v'' kvs of Some x \<Rightarrow> json_is_int n x | None \<Rightarrow> False)"

definition is_encrypted :: "string \<Rightarrow> bool" where
  "is_encrypted value =
     (if \<not> py_startswith value envelope_head then False
      else case json_loads value of
        Some (J_obj kvs) \<Rightarrow> version_is 1 kvs \<and> json_get ''iv'' kvs \<noteq> None \<and> json_get ''ct'' kvs \<noteq> None
      | _ \<Rightarrow> False)"

definition get_truthy :: "string \<Rightarrow> (string \<times> json) list \<Rightarrow> bool" where
  "get_truthy k kvs = (case json_get k kvs of Some x \<Rightarrow> json_truthy x | None \<Rightarrow> False)"

definition is_reference :: "string \<Rightarrow> bool" where
  "is_reference stored =
     (case parse_envelope stored of
        Some kvs \<Rightarrow> version_is 2 kvs \<and> get_truthy ''backend'' kvs \<and> json_get ''ref'' kvs \<noteq> None
      | None \<Rightarrow> False)"

definition hex_field :: "string \<Rightarrow> (string \<times> json) list \<Rightarrow> string option" where
  "hex_field k kvs = (case json_get k kvs of Some (J_str s) \<Rightarrow> from_hex s | _ \<Rightarrow> None)"

definition utf8_strict :: "string \<Rightarrow> string option" where
  "utf8_strict s = (if py_decode s = s then Some s else None)"

definition aes_decrypt_envelope :: "keyring \<Rightarrow> (string \<times> json) list \<Rightarrow> string vop" where
  "aes_decrypt_envelope env kvs =
     vbind (vlift (hex_field ''iv'' kvs)) (\<lambda>nonce. vbind (vlift (hex_field ''ct'' kvs)) (\<lambda>ct.
       vbind (get_master_key env) (\<lambda>key. vbind (vlift (ke_open env key nonce ct)) (\<lambda>p. vlift (utf8_strict p)))))"

definition decrypt_credential :: "keyring \<Rightarrow> string \<Rightarrow> string vop" where
  "decrypt_credential env stored =
     (if \<not> is_encrypted stored then vret stored
      else case json_loads stored of Some (J_obj kvs) \<Rightarrow> aes_decrypt_envelope env kvs | _ \<Rightarrow> vfail)"

section \<open>Secret managers\<close>

definition LOCAL_BACKEND :: string where "LOCAL_BACKEND = ''local''"
definition AWS_BACKEND :: string where "AWS_BACKEND = ''aws-sm''"
definition GCP_BACKEND :: string where "GCP_BACKEND = ''gcp-sm''"

definition or_else :: "string \<Rightarrow> string \<Rightarrow> string" where
  "or_else s dflt = (if s = [] then dflt else s)"

definition env_name :: "keyring \<Rightarrow> string" where
  "env_name env = py_lower (or_else (py_strip (env_or env ''NUVRAIL_ENV'' ''dev'')) ''dev'')"

definition common_tags :: "keyring \<Rightarrow> string \<Rightarrow> nat option \<Rightarrow> (string \<times> string) list" where
  "common_tags env field owner =
     [(''app'', ''nuvrail''), (''env'', env_name env), (''field'', field)]
     @ (case owner of None \<Rightarrow> [] | Some u \<Rightarrow> [(''owner_user_id'', str_of_nat u)])"

definition aws_name :: "keyring \<Rightarrow> string \<Rightarrow> string" where
  "aws_name env secret_id =
     rstrip_if (\<lambda>c. c = CHR ''/'') (env_or env ''NUVRAIL_AWS_SECRET_PREFIX'' (''nuvrail/'' @ env_name env))
       @ ''/'' @ secret_id"

definition gcp_name :: "keyring \<Rightarrow> string \<Rightarrow> string" where
  "gcp_name env secret_id =
     rstrip_if (\<lambda>c. c = CHR ''-'') (env_or env ''NUVRAIL_GCP_SECRET_PREFIX'' (''nuvrail-'' @ env_name env))
       @ ''-'' @ secret_id"

fun before :: "string \<Rightarrow> string \<Rightarrow> string" where
  "before w [] = []"
| "before w (c # s) = (if py_startswith (c # s) w then [] else c # before w s)"

text \<open>GCP deletes the secret a version belongs to.\<close>

definition drop_target :: "string \<Rightarrow> string \<Rightarrow> string" where
  "drop_target b ref = (if b = GCP_BACKEND then before ''/versions/'' ref else ref)"

text \<open>Whether the backend can be built from the environment.\<close>

definition build_store :: "keyring \<Rightarrow> string \<Rightarrow> bool" where
  "build_store env b \<longleftrightarrow>
     ke_ttl env \<noteq> None \<and> py_int (env_or env ''NUVRAIL_SECRET_CACHE_MAX'' ''1024'') \<noteq> None
     \<and> (if b = AWS_BACKEND then py_int (env_or env ''NUVRAIL_SECRET_RECOVERY_WINDOW_DAYS'' ''7'') \<noteq> None
        else b = GCP_BACKEND \<and> env_or env ''NUVRAIL_GCP_PROJECT'' [] \<noteq> [])"

definition max_entries :: "keyring \<Rightarrow> int" where
  "max_entries env = the_default 0 (py_int (env_or env ''NUVRAIL_SECRET_CACHE_MAX'' ''1024''))"

section \<open>The cache\<close>

definition cache_fresh :: "string \<Rightarrow> int \<Rightarrow> (string \<times> string \<times> int) list \<Rightarrow> string option" where
  "cache_fresh ref now c =
     (case map_of c ref of Some (s, expires) \<Rightarrow> if expires > now then Some s else None | None \<Rightarrow> None)"

text \<open>A dict keeps its insertion order; a present key keeps its place.\<close>

definition dict_set :: "'k \<Rightarrow> 'v \<Rightarrow> ('k \<times> 'v) list \<Rightarrow> ('k \<times> 'v) list" where
  "dict_set k x d = (if k \<in> fst ` set d then map (\<lambda>p. if fst p = k then (k, x) else p) d else d @ [(k, x)])"

definition dict_pop :: "'k \<Rightarrow> ('k \<times> 'v) list \<Rightarrow> ('k \<times> 'v) list" where
  "dict_pop k d = filter (\<lambda>p. fst p \<noteq> k) d"

text \<open>Expired entries go first, then the oldest; with no room at all the loop runs out of entries and raises.\<close>

definition make_room :: "int \<Rightarrow> int \<Rightarrow> (string \<times> string \<times> int) list \<Rightarrow> (string \<times> string \<times> int) list option" where
  "make_room cap now c =
     (if int (length c) < cap then Some c
      else let c1 = filter (\<lambda>p. snd (snd p) > now) c in
        (if int (length c1) < cap then Some c1
         else if cap \<le> 0 then None
         else Some (drop (Suc (length c1) - nat cap) c1)))"

definition cache_store :: "int \<Rightarrow> int \<Rightarrow> string \<Rightarrow> string \<Rightarrow> int \<Rightarrow> (string \<times> string \<times> int) list
    \<Rightarrow> (string \<times> string \<times> int) list option" where
  "cache_store cap ttl ref value now c = map_option (dict_set ref (value, now + ttl)) (make_room cap now c)"

definition cache_of :: "string \<Rightarrow> vault \<Rightarrow> (string \<times> string \<times> int) list" where
  "cache_of b v = the_default [] (va_caches v b)"

definition set_cache :: "string \<Rightarrow> (string \<times> string \<times> int) list \<Rightarrow> unit vop" where
  "set_cache b c v = (Some (), v\<lparr>va_caches := (va_caches v)(b \<mapsto> c)\<rparr>)"

definition store_entry :: "keyring \<Rightarrow> string \<Rightarrow> string \<Rightarrow> string \<Rightarrow> int \<Rightarrow> unit vop" where
  "store_entry env b ref value now v =
     (case cache_store (max_entries env) (the_default 0 (ke_ttl env)) ref value now (cache_of b v) of
        None \<Rightarrow> (None, v) | Some c \<Rightarrow> set_cache b c v)"

definition ask :: "(secret_call list \<Rightarrow> 'a option) \<Rightarrow> secret_call \<Rightarrow> 'a vop" where
  "ask f c v = vbind (called c) (\<lambda>_. vlift (f (va_calls v))) v"

text \<open>A read takes the cache's answer, or the manager's, kept from the moment it was asked for.\<close>

definition store_get :: "keyring \<Rightarrow> string \<Rightarrow> string \<Rightarrow> string vop" where
  "store_get env b ref =
     vbind (tick (ke_mono env)) (\<lambda>now v.
       case cache_fresh ref now (cache_of b v) of
         Some s \<Rightarrow> (Some s, v)
       | None \<Rightarrow>
           vbind (tick (ke_mono env)) (\<lambda>now v.
             case cache_fresh ref now (cache_of b v) of
               Some s \<Rightarrow> (Some s, v)
             | None \<Rightarrow>
                 vbind (ask (\<lambda>h. ke_get env h b ref) (Get_secret b ref)) (\<lambda>value.
                   vbind (store_entry env b ref value now) (\<lambda>_. vret value)) v) v)"

definition store_put :: "keyring \<Rightarrow> string \<Rightarrow> string \<Rightarrow> nat option \<Rightarrow> string \<Rightarrow> string \<Rightarrow> string vop" where
  "store_put env b field owner secret_id plaintext =
     (let name = (if b = AWS_BACKEND then aws_name env secret_id else gcp_name env secret_id);
          tags = common_tags env field owner
      in vbind (ask (\<lambda>h. ke_put env h b name tags plaintext) (Put_secret b name tags plaintext)) (\<lambda>ref.
           vbind (tick (ke_mono env)) (\<lambda>now.
             vbind (store_entry env b ref plaintext now) (\<lambda>_. vret ref))))"

definition store_delete :: "keyring \<Rightarrow> string \<Rightarrow> string \<Rightarrow> unit vop" where
  "store_delete env b ref v =
     vbind (set_cache b (dict_pop ref (cache_of b v))) (\<lambda>_.
       ask (\<lambda>h. if ke_drop env h b (drop_target b ref) then Some () else None)
         (Drop_secret b (drop_target b ref))) v"

section \<open>Credentials on any backend\<close>

definition configured_backend :: "keyring \<Rightarrow> string" where
  "configured_backend env =
     py_lower (or_else (py_strip (env_or env ''NUVRAIL_SECRET_BACKEND'' LOCAL_BACKEND)) LOCAL_BACKEND)"

text \<open>\<open>Some None\<close>: the local backend, which has no store.\<close>

definition get_secret_store :: "keyring \<Rightarrow> string \<Rightarrow> string option vop" where
  "get_secret_store env backend v =
     (let b = py_lower (or_else backend (configured_backend env)) in
      if b = LOCAL_BACKEND then (Some None, v)
      else if va_caches v b \<noteq> None then (Some (Some b), v)
      else if build_store env b then (Some (Some b), v\<lparr>va_caches := (va_caches v)(b \<mapsto> [])\<rparr>)
      else (None, v))"

text \<open>The backend an envelope names: an absent or false one stands for the configured one.\<close>

definition envelope_store :: "keyring \<Rightarrow> (string \<times> json) list \<Rightarrow> string option vop" where
  "envelope_store env kvs =
     (case json_get ''backend'' kvs of
        Some (J_str b) \<Rightarrow> get_secret_store env b
      | Some x \<Rightarrow> if json_truthy x then vfail else get_secret_store env []
      | None \<Rightarrow> get_secret_store env [])"

text \<open>A reference that is no text is turned down by the manager's client.\<close>

definition envelope_ref :: "(string \<times> json) list \<Rightarrow> string vop" where
  "envelope_ref kvs = vlift (case json_get ''ref'' kvs of Some (J_str r) \<Rightarrow> Some r | _ \<Rightarrow> None)"

definition store_credential :: "keyring \<Rightarrow> string \<Rightarrow> string \<Rightarrow> nat option \<Rightarrow> string vop" where
  "store_credential env plaintext field owner =
     (let b = configured_backend env in
      if b = LOCAL_BACKEND then encrypt_credential env plaintext
      else vbind (get_secret_store env b) (\<lambda>_. vbind (tick (ke_rand env 16)) (\<lambda>u.
        vbind (store_put env b field owner (hex_text u) plaintext) (\<lambda>ref.
          vret (json_compact [(''v'', ''2''), (''backend'', json_dump_str b), (''ref'', json_dump_str ref)])))))"

definition fetch_credential :: "keyring \<Rightarrow> string \<Rightarrow> string vop" where
  "fetch_credential env stored =
     (case parse_envelope stored of
        None \<Rightarrow> vret stored
      | Some kvs \<Rightarrow>
          if version_is 1 kvs then aes_decrypt_envelope env kvs
          else if version_is 2 kvs then
            vbind (envelope_store env kvs) (\<lambda>b. case b of
                None \<Rightarrow> vfail
              | Some b \<Rightarrow> vbind (envelope_ref kvs) (store_get env b))
          else vfail)"

definition delete_credential :: "keyring \<Rightarrow> string option \<Rightarrow> unit vop" where
  "delete_credential env stored =
     (case stored of
        None \<Rightarrow> vret ()
      | Some s \<Rightarrow>
          (case parse_envelope s of
             None \<Rightarrow> vret ()
           | Some kvs \<Rightarrow>
               if \<not> version_is 2 kvs then vret ()
               else vbind (envelope_store env kvs) (\<lambda>b. case b of
                   None \<Rightarrow> vret ()
                 | Some b \<Rightarrow> vbind (envelope_ref kvs) (store_delete env b))))"

section \<open>Teardown\<close>

definition revoke_google_refresh_token :: "string \<Rightarrow> unit vop" where
  "revoke_google_refresh_token tok = (if tok = [] then vret () else called (Revoke_grant tok))"

definition UPSTREAM_SECRET_FIELDS :: "(agent_row \<Rightarrow> string option) list" where
  "UPSTREAM_SECRET_FIELDS =
     [ag_upstream_password, ag_oauth2_refresh_token, ag_oauth2_access_token, ag_oauth2_client_secret]"

fun delete_each :: "keyring \<Rightarrow> string option list \<Rightarrow> unit vop" where
  "delete_each env [] = vret ()"
| "delete_each env (f # fs) =
     vbind (if truthy f then vtry (delete_credential env f) else vret ()) (\<lambda>_. delete_each env fs)"

definition purge_agent_upstream_secrets :: "keyring \<Rightarrow> agent_row \<Rightarrow> unit vop" where
  "purge_agent_upstream_secrets env a =
     vbind (if ag_oauth2_provider a = Some ''google'' \<and> truthy (ag_oauth2_refresh_token a)
            then vtry (vbind (fetch_credential env (or_empty (ag_oauth2_refresh_token a))) revoke_google_refresh_token)
            else vret ())
       (\<lambda>_. delete_each env (map (\<lambda>f. f a) UPSTREAM_SECRET_FIELDS))"

section \<open>Envelopes are read back\<close>

lemma code_pt_hex_char: "n < 16 \<Longrightarrow> code_pt (hex_char n) = (if n < 10 then 48 + n else 87 + n)"
  by (auto simp: hex_char_def)

lemma hex_digit_char: "n < 16 \<Longrightarrow> hex_digit (hex_char n) = Some n"
  by (auto simp: hex_digit_def code_pt_hex_char Let_def)

lemma hex_char_plain:
  assumes "n < 16"
  shows "json_plain (hex_char n) \<and> \<not> is_space (hex_char n)"
proof -
  have "code_pt dquote = 34" "code_pt bslash = 92" by (simp_all add: code_pt_def)
  with code_pt_hex_char [OF assms] assms show ?thesis
    by (auto simp: json_plain_def is_space_def split: if_splits)
qed

lemma code_pt_div: "code_pt c div 16 < 16"
  using code_pt_less [of c] by (simp add: less_mult_imp_div_less)

lemma hex_text_simps: "hex_text [] = []" "hex_text (c # s) = hex_char (code_pt c div 16) # hex_char (code_pt c mod 16) # hex_text s"
proof -
  have "code_pt c div 16 < 16" by (rule code_pt_div)
  then show "hex_text [] = []" "hex_text (c # s) = hex_char (code_pt c div 16) # hex_char (code_pt c mod 16) # hex_text s"
    by (simp_all add: hex_text_def hexdigest_def)
qed

lemma from_hex_text: "from_hex (hex_text s) = Some s"
proof (induction s)
  case (Cons c s)
  have "code_pt c div 16 < 16" by (rule code_pt_div)
  moreover have "\<not> is_space (hex_char (code_pt c div 16))" "code_pt (hex_char (code_pt c div 16)) \<noteq> 32"
    using hex_char_plain [OF calculation] by (auto simp: is_space_def)
  ultimately show ?case
    using Cons by (simp add: hex_text_simps hex_digit_char char_of_code_pt)
qed (simp add: hex_text_simps)

lemma hex_text_plain: "list_all json_plain (hex_text s) \<and> list_all (\<lambda>c. \<not> is_space c) (hex_text s)"
proof (induction s)
  case (Cons c s)
  have "code_pt c div 16 < 16" by (rule code_pt_div)
  then show ?case using Cons hex_char_plain by (simp add: hex_text_simps)
qed (simp add: hex_text_simps)

lemma strip_hex_text: "py_strip (hex_text s) = hex_text s"
proof -
  have "dropWhile is_space t = t" if "list_all (\<lambda>c. \<not> is_space c) t" for t
    using that by (cases t) auto
  then show ?thesis
    using hex_text_plain [of s] by (simp add: strip_if_def lstrip_if_def rstrip_if_def list_all_rev)
qed

lemma startswith_simps [simp]:
  "py_startswith (c # s) [d] \<longleftrightarrow> c = d" "\<not> py_startswith [] [d]"
  by (auto simp: py_startswith_def)

lemma json_space_marks [simp]:
  "\<not> json_space dquote" "\<not> json_space CHR '':''" "\<not> json_space CHR '',''" "\<not> json_space CHR ''}''"
  "\<not> json_space CHR ''{''" "\<not> json_space CHR ''1''" "\<not> json_space CHR ''2''"
  by (simp_all add: json_space_def code_pt_def)

text \<open>A printed value that is read back, whatever follows it in an object.\<close>

definition reads_back :: "string \<Rightarrow> json \<Rightarrow> bool" where
  "reads_back t v \<longleftrightarrow> (\<forall>n r. r \<noteq> [] \<and> hd r \<in> {CHR '','', CHR ''}''} \<longrightarrow> json_ws (t @ r) = t @ r \<and> json_value (Suc n) (t @ r) = Some (v, r))"

lemma reads_back_str: "list_all json_plain x \<Longrightarrow> reads_back (json_dump_str x) (J_str x)"
  by (simp add: reads_back_def json_dump_plain json_text_plain)

lemma json_number_digit:
  assumes "is_digit w" "w \<noteq> CHR ''0''" "w \<noteq> CHR ''-''" "\<not> is_digit x" "x \<noteq> CHR ''.''" "x \<noteq> CHR ''e''" "x \<noteq> CHR ''E''"
  shows "json_number (w # x # r) = Some (J_int (int (nat_of_str [w])), x # r)"
proof -
  have "json_fraction (x # r) = ([], x # r)" using assms by (simp add: json_fraction_def)
  moreover have "json_exponent (x # r) = (None, x # r)" using assms by (simp add: json_exponent_def)
  ultimately show ?thesis using assms by (simp add: json_number_def Let_def)
qed

lemma reads_back_version: "reads_back ''1'' (J_int 1)" "reads_back ''2'' (J_int 2)"
proof -
  have d: "is_digit CHR ''1''" "is_digit CHR ''2''" "\<not> is_digit CHR '',''" "\<not> is_digit CHR ''}''"
    by (simp_all add: is_digit_def code_pt_def)
  have n: "nat_of_str ''1'' = 1" "nat_of_str ''2'' = 2" by code_simp+
  have atom: "json_atom (w # q) = json_number (w # q)" if "is_digit w" for w q
  proof -
    have "w \<noteq> CHR ''n'' \<and> w \<noteq> CHR ''t'' \<and> w \<noteq> CHR ''f'' \<and> w \<noteq> CHR ''N'' \<and> w \<noteq> CHR ''I'' \<and> w \<noteq> CHR ''-''"
      using that by (auto simp: is_digit_def code_pt_def)
    then show ?thesis by (simp add: json_atom_def json_words_def py_startswith_def)
  qed
  have "json_value (Suc n) (w # r) = Some (J_int (int (nat_of_str [w])), r)"
    if w: "w \<in> {CHR ''1'', CHR ''2''}" and r: "r \<noteq> []" "hd r \<in> {CHR '','', CHR ''}''}" for n w r
  proof -
    obtain x q where "r = x # q" "x \<in> {CHR '','', CHR ''}''}" using r by (cases r) auto
    moreover from this have "json_number (w # r) = Some (J_int (int (nat_of_str [w])), r)"
      using w d by (auto simp: json_number_digit)
    moreover have "is_digit w" using w d by auto
    ultimately show ?thesis using w by (auto simp: atom)
  qed
  then show "reads_back ''1'' (J_int 1)" "reads_back ''2'' (J_int 2)"
    using n by (auto simp: reads_back_def simp del: json_value.simps)
qed

lemma members_read_back:
  assumes "kvs \<noteq> []" "\<forall>(k, t, v) \<in> set kvs. list_all json_plain k \<and> reads_back t v" "length kvs < n"
  shows "json_members n (py_join '','' (map (\<lambda>(k, t, v). json_dump_str k @ '':'' @ t) kvs) @ ''}'')
    = Some (map (\<lambda>(k, t, v). (k, v)) kvs, [])"
  using assms
proof (induction kvs arbitrary: n)
  case (Cons e kvs)
  obtain k t v where e: "e = (k, t, v)" by (cases e)
  obtain m where n: "n = Suc (Suc m)" using Cons.prems(3) by (cases n; cases "n - 1") auto
  have k: "list_all json_plain k" and t: "reads_back t v" using Cons.prems(2) by (auto simp: e)
  show ?case
  proof (cases "kvs = []")
    case True
    have "json_ws (t @ ''}'') = t @ ''}''" "json_value (Suc m) (t @ ''}'') = Some (v, ''}'')"
      using t by (simp_all add: reads_back_def)
    then show ?thesis
      using k by (simp add: True e n json_dump_plain json_text_plain del: json_value.simps)
  next
    case False
    let ?rest = "py_join '','' (map (\<lambda>(k, t, v). json_dump_str k @ '':'' @ t) kvs) @ ''}''"
    have "json_members (Suc m) ?rest = Some (map (\<lambda>(k, t, v). (k, v)) kvs, [])"
      using Cons.IH [of "Suc m"] Cons.prems False n by simp
    moreover obtain q where q: "?rest = dquote # q"
      using False by (cases kvs; cases "tl kvs") (auto simp: json_dump_str_def)
    moreover have "json_ws (t @ '','' @ ?rest) = t @ '','' @ ?rest"
      "json_value (Suc m) (t @ '','' @ ?rest) = Some (v, '','' @ ?rest)"
      using t by (simp_all add: reads_back_def)
    moreover have "py_join '','' (map (\<lambda>(k, t, v). json_dump_str k @ '':'' @ t) (e # kvs)) @ ''}''
        = dquote # k @ dquote # '':'' @ t @ '','' @ ?rest"
      using False k by (cases kvs) (auto simp: e json_dump_plain)
    ultimately show ?thesis
      using k by (simp add: e n json_text_plain del: json_value.simps)
  qed
qed simp

lemma join_length: "length xs \<le> Suc (length (py_join '','' xs))"
  by (induction xs rule: induct_list012) auto

lemma compact_read_back:
  assumes "kvs \<noteq> []" "\<forall>(k, t, v) \<in> set kvs. list_all json_plain k \<and> reads_back t v"
  shows "json_loads (json_compact (map (\<lambda>(k, t, v). (k, t)) kvs)) = Some (J_obj (map (\<lambda>(k, t, v). (k, v)) kvs))"
proof -
  let ?body = "py_join '','' (map (\<lambda>(k, t, v). json_dump_str k @ '':'' @ t) kvs)"
  have c: "json_compact (map (\<lambda>(k, t, v). (k, t)) kvs) = CHR ''{'' # ?body @ ''}''"
    by (simp add: json_compact_def comp_def case_prod_unfold)
  obtain q where q: "?body = dquote # q" using assms(1) by (cases kvs; cases "tl kvs") (auto simp: json_dump_str_def)
  have len: "length kvs < Suc (2 * length (?body @ ''}''))"
    using join_length [of "map (\<lambda>(k, t, v). json_dump_str k @ '':'' @ t) kvs"] by simp
  then have "json_members (Suc (2 * length (?body @ ''}'') + 2)) (?body @ ''}'') = Some (map (\<lambda>(k, t, v). (k, v)) kvs, [])"
    by (intro members_read_back assms) simp
  then show ?thesis
    unfolding c json_loads_def using q by (simp del: json_members.simps)
qed

lemma compact_head:
  assumes "kvs = (''v'', t) # kvs'"
  shows "py_startswith (json_compact kvs) envelope_head"
proof -
  have "json_dump_str ''v'' = [dquote, CHR ''v'', dquote]"
    using json_dump_plain [of "''v''"] by (simp add: json_plain_def code_pt_def)
  then show ?thesis
    using assms by (cases kvs') (auto simp: json_compact_def envelope_head_def py_startswith_def)
qed

lemma plain_letters [simp]:
  "json_plain CHR ''a''" "json_plain CHR ''b''" "json_plain CHR ''c''" "json_plain CHR ''d''" "json_plain CHR ''e''" "json_plain CHR ''f''" "json_plain CHR ''i''" "json_plain CHR ''k''" "json_plain CHR ''n''" "json_plain CHR ''r''" "json_plain CHR ''t''" "json_plain CHR ''v''"
  by (simp_all add: json_plain_def code_pt_def)

lemma parse_v1:
  "parse_envelope (json_compact [(''v'', ''1''), (''iv'', json_dump_str (hex_text n)), (''ct'', json_dump_str (hex_text c))])
    = Some [(''v'', J_int 1), (''iv'', J_str (hex_text n)), (''ct'', J_str (hex_text c))]"
  using compact_read_back [of "[(''v'', ''1'', J_int 1), (''iv'', json_dump_str (hex_text n), J_str (hex_text n)),
      (''ct'', json_dump_str (hex_text c), J_str (hex_text c))]"] compact_head [OF refl]
  by (simp add: parse_envelope_def reads_back_str reads_back_version hex_text_plain json_get_def)

lemma parse_v2:
  assumes "list_all json_plain b" "list_all json_plain r"
  shows "parse_envelope (json_compact [(''v'', ''2''), (''backend'', json_dump_str b), (''ref'', json_dump_str r)])
    = Some [(''v'', J_int 2), (''backend'', J_str b), (''ref'', J_str r)]"
  using compact_read_back [of "[(''v'', ''2'', J_int 2), (''backend'', json_dump_str b, J_str b),
      (''ref'', json_dump_str r, J_str r)]"] compact_head [OF refl] assms
  by (simp add: parse_envelope_def reads_back_str reads_back_version json_get_def)

section \<open>The process and its restart\<close>

text \<open>A new process finds the key file, but neither the cached key nor any cached secret.\<close>

definition restart :: "vault \<Rightarrow> vault" where
  "restart v = v\<lparr>va_master := None, va_caches := Map.empty\<rparr>"

text \<open>The cached key is the one a new process would load.\<close>

definition key_backed :: "keyring \<Rightarrow> vault \<Rightarrow> bool" where
  "key_backed env v \<longleftrightarrow>
     (case va_master v of None \<Rightarrow> True
      | Some k \<Rightarrow> fst (get_master_key env (v\<lparr>va_master := None\<rparr>)) = Some k
          \<and> (py_strip (env_or env ''NUVRAIL_MASTER_KEY'' []) = [] \<longrightarrow> va_keyfile v \<noteq> None))"

lemma get_master_key_backed:
  assumes "get_master_key env v = (Some k, v')" "key_backed env v"
  shows "va_master v' = Some k \<and> key_backed env v' \<and> va_caches v' = va_caches v \<and> va_calls v' = va_calls v"
  using assms
  by (cases "va_master v"; cases "va_keyfile v")
    (auto simp: get_master_key_def key_backed_def cached_key_def vbind_def tick_def Let_def from_hex_text strip_hex_text
      split: option.splits if_splits)

definition vault_ok :: "keyring \<Rightarrow> vault \<Rightarrow> bool" where
  "vault_ok env v \<longleftrightarrow> key_backed env v \<and> (\<forall>b. va_caches v b \<noteq> None \<longrightarrow> build_store env b)"

lemmas vop_defs = vret_def vfail_def vbind_def vlift_def tick_def called_def

lemma get_master_key_again: "va_master v = Some k \<Longrightarrow> get_master_key env v = (Some k, v)"
  by (simp add: get_master_key_def)

lemma get_master_key_restart:
  assumes "key_backed env v" "va_master v = Some k" "va_master w = None" "va_keyfile w = va_keyfile v"
  shows "fst (get_master_key env w) = Some k"
  using assms
  by (auto simp: key_backed_def get_master_key_def cached_key_def vbind_def tick_def Let_def
      split: option.splits if_splits)

lemma make_room_some:
  assumes "0 < cap"
  obtains c' where "make_room cap now c = Some c'"
  using assms by (cases "make_room cap now c") (auto simp: make_room_def Let_def split: if_splits)

lemma make_room_length: "make_room cap now c = Some c' \<Longrightarrow> int (length c') < cap"
  by (auto simp: make_room_def Let_def split: if_splits)

lemma dict_set_get: "map_of (dict_set k x d) k = Some x"
proof -
  have "map_of (map (\<lambda>p. if fst p = k then (k, x) else p) d) k = Some x" if "k \<in> fst ` set d"
    using that by (induction d) auto
  moreover have "map_of d k = None" if "k \<notin> fst ` set d" using that by (simp add: map_of_eq_None_iff)
  ultimately show ?thesis by (simp add: dict_set_def map_add_def)
qed

lemma store_get_value:
  assumes "\<And>s e. map_of (cache_of b v) r = Some (s, e) \<Longrightarrow> s = p" "ke_get env (va_calls v) b r = Some p"
    "0 < max_entries env"
  shows "fst (store_get env b r v) = Some p"
proof -
  obtain c' where "make_room (max_entries env) (ke_mono env (Suc (va_ticks v))) (cache_of b v) = Some c'"
    using assms(3) by (rule make_room_some)
  then show ?thesis
    using assms by (auto simp: store_get_def vop_defs cache_fresh_def cache_of_def ask_def store_entry_def
        cache_store_def set_cache_def split: option.splits)
qed

lemma dict_set_length: "length (dict_set k x d) \<le> Suc (length d)"
  by (simp add: dict_set_def)

text \<open>What a successful write leaves behind.\<close>

lemma store_put_effect:
  assumes "store_put env b field owner sid p v = (Some r, v')"
  shows "\<exists>name tags c e. ke_put env (va_calls v) b name tags p = Some r
    \<and> va_calls v' = va_calls v @ [Put_secret b name tags p] \<and> va_caches v' = (va_caches v)(b \<mapsto> c)
    \<and> map_of c r = Some (p, e) \<and> int (length c) \<le> max_entries env \<and> 0 < max_entries env"
proof -
  define name where "name = (if b = AWS_BACKEND then aws_name env sid else gcp_name env sid)"
  obtain c1 now where put: "ke_put env (va_calls v) b name (common_tags env field owner) p = Some r"
    and room: "make_room (max_entries env) now (cache_of b v) = Some c1"
    and v': "va_calls v' = va_calls v @ [Put_secret b name (common_tags env field owner) p]"
      "va_caches v' = (va_caches v)(b \<mapsto> dict_set r (p, now + the_default 0 (ke_ttl env)) c1)"
    using assms unfolding store_put_def Let_def name_def [symmetric]
    by (auto simp: vop_defs ask_def store_entry_def cache_store_def set_cache_def cache_of_def
        split: option.splits)
  have "int (length (dict_set r (p, now + the_default 0 (ke_ttl env)) c1)) \<le> max_entries env"
    using make_room_length [OF room] dict_set_length [of r "(p, now + the_default 0 (ke_ttl env))" c1] by linarith
  moreover have "0 < max_entries env" using make_room_length [OF room] by simp
  ultimately show ?thesis using put v' dict_set_get by (intro exI conjI)
qed

lemma configured_lower: "py_lower (or_else (configured_backend env) x) = configured_backend env"
  by (simp add: configured_backend_def or_else_def LOCAL_BACKEND_def py_lower_def comp_def)

lemma backend_plain: "build_store env b \<Longrightarrow> list_all json_plain b"
  by (auto simp: build_store_def AWS_BACKEND_def GCP_BACKEND_def json_plain_def code_pt_def split: if_splits)

text \<open>C16: a credential written to any backend is read back, by the same process and by a new one: the database
  keeps an envelope that the local key, or the secret manager it names, turns back into the text that was stored.
  Assumed are that AES-GCM opens what it sealed with the same key and nonce, that a manager returns the secret it
  has just been given and that its references are printable.\<close>

theorem credential_roundtrip:
  assumes "\<And>k n p c. ke_seal env k n p = Some c \<Longrightarrow> ke_open env k n c = Some p"
    and "\<And>h b name tags p r. ke_put env h b name tags p = Some r \<Longrightarrow>
      list_all json_plain r \<and> ke_get env (h @ [Put_secret b name tags p]) b r = Some p"
    and "py_decode plaintext = plaintext" "vault_ok env v"
    and "store_credential env plaintext field owner v = (Some stored, v')"
  shows "fst (fetch_credential env stored v') = Some plaintext
    \<and> fst (fetch_credential env stored (restart v')) = Some plaintext"
proof (cases "configured_backend env = LOCAL_BACKEND")
  case True
  then obtain key v1 ct where key: "get_master_key env v = (Some key, v1)"
    and ct: "ke_seal env key (ke_rand env 12 (va_ticks v1)) plaintext = Some ct"
    and v': "v' = v1\<lparr>va_ticks := Suc (va_ticks v1)\<rparr>"
    and st: "stored = json_compact [(''v'', ''1''), (''iv'', json_dump_str (hex_text (ke_rand env 12 (va_ticks v1)))),
      (''ct'', json_dump_str (hex_text ct))]"
    using assms(5) by (auto simp: store_credential_def encrypt_credential_def vop_defs split: option.splits prod.splits)
  have m: "va_master v1 = Some key" "key_backed env v1"
    using get_master_key_backed [OF key] assms(4) by (auto simp: vault_ok_def)
  have "fst (fetch_credential env stored w) = Some plaintext" if found: "fst (get_master_key env w) = Some key" for w
  proof -
    obtain w' where "get_master_key env w = (Some key, w')" using found by (metis prod.collapse)
    then show ?thesis
      unfolding fetch_credential_def st parse_v1
      by (simp add: version_is_def json_get_def aes_decrypt_envelope_def hex_field_def from_hex_text vop_defs
          assms(1) [OF ct] utf8_strict_def assms(3))
  qed
  moreover have "get_master_key env v' = (Some key, v')" using m by (simp add: v' get_master_key_again)
  moreover have "fst (get_master_key env (restart v')) = Some key"
    by (rule get_master_key_restart [OF m(2) m(1)]) (simp_all add: restart_def v')
  ultimately show ?thesis by simp
next
  case False
  define b where "b = configured_backend env"
  have low: "py_lower (or_else b x) = b" for x by (simp add: b_def configured_lower)
  obtain v1 where v1: "get_secret_store env b v = (Some (Some b), v1)"
    using assms(5) False
    by (auto simp: store_credential_def b_def vop_defs get_secret_store_def configured_lower Let_def
        split: option.splits prod.splits if_splits)
  have b: "build_store env b" "va_caches v1 b \<noteq> None"
    using v1 assms(4) by (auto simp: get_secret_store_def low vault_ok_def split: if_splits)
  obtain u ref where put: "store_put env b field owner u plaintext (v1\<lparr>va_ticks := Suc (va_ticks v1)\<rparr>) = (Some ref, v')"
    and st: "stored = json_compact [(''v'', ''2''), (''backend'', json_dump_str b), (''ref'', json_dump_str ref)]"
    using assms(5) False v1 by (auto simp: store_credential_def b_def [symmetric] vop_defs Let_def split: option.splits prod.splits)
  obtain name tags c e where
    new: "ke_put env (va_calls v1) b name tags plaintext = Some ref"
    and v': "va_calls v' = va_calls v1 @ [Put_secret b name tags plaintext]" "va_caches v' = (va_caches v1)(b \<mapsto> c)"
    and c: "map_of c ref = Some (plaintext, e)" "0 < max_entries env"
    using store_put_effect [OF put] by auto
  have "fst (fetch_credential env stored w) = Some plaintext"
    if w: "va_calls w = va_calls v'" "map_of (cache_of b w) ref = Some (plaintext, e) \<or> va_caches w = Map.empty" for w
  proof -
    obtain w1 where w1: "get_secret_store env b w = (Some (Some b), w1)" "va_calls w1 = va_calls w"
      "cache_of b w1 = cache_of b w"
      using b w False by (cases "va_caches w b") (auto simp: get_secret_store_def low b_def [symmetric] cache_of_def the_default_def)
    have "fst (store_get env b ref w1) = Some plaintext"
      by (rule store_get_value) (use w w1 c v' assms(2) [OF new] in \<open>auto simp: cache_of_def the_default_def\<close>)
    then show ?thesis
      using w1 assms(2) [OF new] backend_plain [OF b(1)]
      by (simp add: fetch_credential_def st parse_v2 version_is_def json_get_def envelope_store_def envelope_ref_def
          vbind_def vlift_def)
  qed
  from this [of v'] this [of "restart v'"] show ?thesis
    using c v' by (simp add: restart_def cache_of_def the_default_def)
qed

definition sample_keyring :: keyring where
  "sample_keyring =
     \<lparr>ke_vars = [''NUVRAIL_SECRET_BACKEND'' \<mapsto> ''aws-sm''], ke_rand = (\<lambda>n t. replicate n (CHR ''r'')),
      ke_mono = int, ke_ttl = Some 300, ke_seal = (\<lambda>k n p. Some p), ke_open = (\<lambda>k n c. Some c),
      ke_put = (\<lambda>h b name tags p. if list_all json_plain name then Some name else None),
      ke_get = (\<lambda>h b r. case rev h of Put_secret _ _ _ p # _ \<Rightarrow> Some p | _ \<Rightarrow> None),
      ke_drop = (\<lambda>h b r. True)\<rparr>"

definition fresh_vault :: vault where
  "fresh_vault = \<lparr>va_master = None, va_keyfile = None, va_caches = Map.empty, va_calls = [], va_ticks = 0\<rparr>"

lemma credential_roundtrip_witness:
  "fst (fetch_credential sample_keyring
     (the (fst (store_credential sample_keyring ''pw'' ''upstream_password'' (Some 1) fresh_vault)))
     (restart (snd (store_credential sample_keyring ''pw'' ''upstream_password'' (Some 1) fresh_vault)))) = Some ''pw''"
proof -
  let ?r = "store_credential sample_keyring ''pw'' ''upstream_password'' (Some 1) fresh_vault"
  have "fst ?r \<noteq> None" by code_simp
  then have r: "?r = (Some (the (fst ?r)), snd ?r)" by (metis option.collapse prod.collapse)
  have dec: "py_decode ''pw'' = ''pw''" by code_simp
  have ok: "vault_ok sample_keyring fresh_vault" by (simp add: vault_ok_def key_backed_def fresh_vault_def)
  show ?thesis
    by (rule conjunct2 [OF credential_roundtrip [OF _ _ dec ok r]])
      (simp_all add: sample_keyring_def split: if_splits)
qed

text \<open>A read answers with an unexpired entry of the cache or asks the manager, and the cache never outgrows its bound.\<close>

lemma cache_store_length: "cache_store cap ttl r x now c = Some c' \<Longrightarrow> int (length c') \<le> cap"
proof -
  assume "cache_store cap ttl r x now c = Some c'"
  then obtain c1 where "make_room cap now c = Some c1" "c' = dict_set r (x, now + ttl) c1"
    by (auto simp: cache_store_def)
  then show ?thesis
    using make_room_length [of cap now c c1] dict_set_length [of r "(x, now + ttl)" c1] by auto
qed

lemma cache_freshD: "cache_fresh r t c = Some s \<Longrightarrow> \<exists>e. map_of c r = Some (s, e) \<and> t < e"
  by (auto simp: cache_fresh_def split: option.splits if_splits)

lemma store_get_source:
  assumes "store_get env b r v = (Some s, v')"
  shows "(va_calls v' = va_calls v \<and> (\<exists>e t. map_of (cache_of b v) r = Some (s, e) \<and> t < e
      \<and> t \<in> {ke_mono env (va_ticks v), ke_mono env (Suc (va_ticks v))}))
    \<or> (va_calls v' = va_calls v @ [Get_secret b r] \<and> ke_get env (va_calls v) b r = Some s
      \<and> int (length (cache_of b v')) \<le> max_entries env)"
proof -
  let ?t1 = "ke_mono env (va_ticks v)" and ?t2 = "ke_mono env (Suc (va_ticks v))" and ?c = "cache_of b v"
  consider "cache_fresh r ?t1 ?c = Some s \<and> va_calls v' = va_calls v"
    | "cache_fresh r ?t2 ?c = Some s \<and> va_calls v' = va_calls v"
    | c' where "ke_get env (va_calls v) b r = Some s"
      "cache_store (max_entries env) (the_default 0 (ke_ttl env)) r s ?t2 ?c = Some c'"
      "va_calls v' = va_calls v @ [Get_secret b r]" "cache_of b v' = c'"
    using assms
    by (cases "cache_fresh r ?t1 ?c"; cases "cache_fresh r ?t2 ?c")
      (auto simp: store_get_def vop_defs ask_def store_entry_def set_cache_def cache_of_def the_default_def
        split: option.splits)
  then show ?thesis
  proof cases
    case 3
    then show ?thesis using cache_store_length by blast
  qed (use cache_freshD in blast)+
qed

end
