(* ===== verification/Accounts.thy ===== *)
theory Accounts
  imports Secrets Controls Operations
begin

text \<open>
  The account routes of the REST API (\<open>api/routes/auth.py\<close>, \<open>api/routes/account.py\<close>, \<open>api/routes/push.py\<close>):
  registration, sessions, passwords, agent credentials, push subscriptions, deletion, and the data export;
  and the teardown of an agent's upstream secrets (\<open>gateway/credentials.py\<close>).
\<close>

section \<open>The deployment\<close>

text \<open>
  \<open>si_digest\<close>: SHA-256 in hexadecimal; \<open>si_chain\<close>: SHA-256 as bytes; \<open>si_bcrypt rounds k\<close>: the \<open>k\<close>-th salted hash,
  \<open>None\<close> when bcrypt raises; \<open>si_verify\<close>: its check, \<open>None\<close> when the stored text is no hash; \<open>si_keys\<close>: the
  secret backends; \<open>si_imap\<close>: what a trial login at a mail server meets; \<open>si_quota\<close>: the refusal of one more
  agent by the plan in force (\<open>gateway/entitlements.py\<close> never refuses in the open core).
\<close>

datatype api_error = Http nat string | Json_error nat string string | Unhandled

text \<open>The exceptions of \<open>imaplib\<close> and of the network; \<open>Imap_error\<close> is the plain \<open>IMAP4.error\<close>.\<close>

datatype imap_exc =
    Timed_out | Cert_invalid | Ssl_failed | Imap_abort | Imap_error | Os_failed | Other_exc

record imap_trial =
  tr_connect :: "imap_exc option"
  tr_login :: "imap_exc option"
  tr_select :: "imap_exc + string"

record site =
  si_digest :: "string \<Rightarrow> string"
  si_chain :: "string \<Rightarrow> nat list"
  si_bcrypt :: "nat \<Rightarrow> nat \<Rightarrow> string \<Rightarrow> string option"
  si_verify :: "string \<Rightarrow> string \<Rightarrow> bool option"
  si_vars :: "string \<rightharpoonup> string"
  si_abuse :: abuse_config
  si_keys :: keyring
  si_imap :: "string \<Rightarrow> nat \<Rightarrow> string \<Rightarrow> string \<Rightarrow> imap_trial"
  si_quota :: "user_row \<Rightarrow> nat \<Rightarrow> api_error option"

text \<open>What a request reads and writes: the database, the protector, the throttle of \<open>api/auth.py\<close>, the secrets.\<close>

record api =
  ap_db :: db
  ap_abuse :: abuse_state
  ap_seen :: "nat \<rightharpoonup> int"
  ap_vault :: vault

type_synonym 'a handler = "api \<Rightarrow> (api_error + 'a) \<times> api"

definition use_vault :: "'a vop \<Rightarrow> ('a \<Rightarrow> 'b handler) \<Rightarrow> 'b handler" where
  "use_vault m k st =
     (case m (ap_vault st) of
        (None, v) \<Rightarrow> (Inl Unhandled, st\<lparr>ap_vault := v\<rparr>)
      | (Some x, v) \<Rightarrow> k x (st\<lparr>ap_vault := v\<rparr>))"

abbreviation set_users :: "(user_row list \<Rightarrow> user_row list) \<Rightarrow> api \<Rightarrow> api" where
  "set_users f st \<equiv> st\<lparr>ap_db := (ap_db st)\<lparr>db_users := f (db_users (ap_db st))\<rparr>\<rparr>"

section \<open>Users\<close>

definition user_with_email :: "string \<Rightarrow> db \<Rightarrow> user_row option" where
  "user_with_email email d = List.find (\<lambda>u. us_email u = email) (db_users d)"

definition new_user :: "string \<Rightarrow> string option \<Rightarrow> string \<Rightarrow> string \<Rightarrow> int \<Rightarrow> nat \<Rightarrow> user_row" where
  "new_user email name pw_hash tok now i =
     \<lparr>us_id = i, us_email = email, us_display_name = name, us_hashed_password = pw_hash, us_api_token = Some tok,
      us_api_token_created_at = Some now, us_api_token_last_used_at = None, us_reset_token = None,
      us_reset_token_expires_at = None, us_created_at = now, us_deleted_at = None, us_suspended_at = None\<rparr>"

text \<open>\<open>INSERT\<close>: both the e-mail address and the token digest are unique columns.\<close>

definition insert_user :: "string \<Rightarrow> string option \<Rightarrow> string \<Rightarrow> string \<Rightarrow> int \<Rightarrow> db \<Rightarrow> (nat \<times> db) option" where
  "insert_user email name pw_hash tok now d =
     (if list_ex (\<lambda>u. us_email u = email \<or> us_api_token u = Some tok) (db_users d) then None
      else let i = Suc (db_user_seq d)
        in Some (i, d\<lparr>db_users := db_users d @ [new_user email name pw_hash tok now i], db_user_seq := i\<rparr>))"

record user_create =
  uc_email :: string
  uc_password :: string
  uc_display_name :: "string option"
  uc_invite_code :: "string option"

text \<open>A refusal leaves the transaction, and with it the redeemed code, uncommitted.\<close>

definition register :: "site \<Rightarrow> user_create \<Rightarrow> int \<Rightarrow> nat \<Rightarrow> nat list \<Rightarrow> (nat \<times> string) handler" where
  "register sv rq now k raw st =
     (case current_signup_mode (si_vars sv) of
        None \<Rightarrow> (Inl Unhandled, st)
      | Some mode \<Rightarrow>
          if mode = ''closed'' then (Inl (Http 403 ''Public registration is disabled on this deployment.''), st)
          else case si_bcrypt sv 12 k (uc_password rq) of
            None \<Rightarrow> (Inl Unhandled, st)
          | Some pw_hash \<Rightarrow>
              let tok = generate_token raw; code = py_strip (or_empty (uc_invite_code rq)) in
              if mode = ''invite'' \<and> code = []
              then (Inl (Http 403 ''An invite code is required to register on this deployment.''), st)
              else if user_with_email (uc_email rq) (ap_db st) \<noteq> None
              then (Inl (Http 409 ''already registered''), st)
              else
                let (spent, d1) = (if mode = ''invite'' then redeem_invite_code (si_digest sv code) (uc_email rq) now (ap_db st)
                                   else (True, ap_db st))
                in if \<not> spent then (Inl (Http 403 ''Invalid or already-used invite code.''), st)
                   else case insert_user (uc_email rq) (uc_display_name rq) pw_hash (si_digest sv tok) now d1 of
                     None \<Rightarrow> (Inl Unhandled, st)
                   | Some (i, d2) \<Rightarrow> (Inr (i, tok), st\<lparr>ap_db := d2\<rparr>))"

text \<open>A new bearer token replaces the old one; a digest another account has is refused by the database.\<close>

definition set_api_token :: "nat \<Rightarrow> string \<Rightarrow> (user_row \<Rightarrow> user_row) \<Rightarrow> db \<Rightarrow> db option" where
  "set_api_token i tok f d =
     (if list_ex (\<lambda>u. us_id u \<noteq> i \<and> us_api_token u = Some tok) (db_users d) then None
      else Some (d\<lparr>db_users := upd (\<lambda>u. us_id u = i) (\<lambda>u. f (u\<lparr>us_api_token := Some tok\<rparr>)) (db_users d)\<rparr>))"

definition login_refused :: "site \<Rightarrow> string \<Rightarrow> string \<Rightarrow> int \<Rightarrow> api \<Rightarrow> (api_error + 'a) \<times> api" where
  "login_refused sv ip email now st =
     (case record_failure (si_abuse sv) ip email now (ap_abuse st) of
        ((locked, retry), ab) \<Rightarrow>
          (Inl (if locked then Http 429 ''temporary_lockout'' else Http 401 ''Invalid email or password''),
           st\<lparr>ap_abuse := ab\<rparr>))"

definition login :: "site \<Rightarrow> string \<Rightarrow> string \<Rightarrow> string \<Rightarrow> (nat \<Rightarrow> int) \<Rightarrow> nat list \<Rightarrow> (nat \<times> string) handler" where
  "login sv ip email pw clk raw st =
     (let (dec, ab) = start_attempt (si_abuse sv) ip email (clk 0) (ap_abuse st);
          st1 = st\<lparr>ap_abuse := ab\<rparr>; tok = generate_token raw
      in if \<not> ad_allowed dec then (Inl (Http 429 (ad_reason dec)), st1)
         else case user_with_email email (ap_db st) of
           None \<Rightarrow> login_refused sv ip email (clk 1) st1
         | Some u \<Rightarrow>
             (case si_verify sv pw (us_hashed_password u) of
                None \<Rightarrow> (Inl Unhandled, st1)
              | Some False \<Rightarrow> login_refused sv ip email (clk 1) st1
              | Some True \<Rightarrow>
                  let st2 = st1\<lparr>ap_abuse := record_success ip email ab\<rparr> in
                  (case set_api_token (us_id u) (si_digest sv tok) (\<lambda>v. v\<lparr>us_api_token_created_at := Some (clk 2)\<rparr>)
                          (ap_db st2) of
                     None \<Rightarrow> (Inl Unhandled, st2)
                   | Some d \<Rightarrow> (Inr (us_id u, tok), st2\<lparr>ap_db := d\<rparr>))))"

section \<open>Requests with a bearer token\<close>

text \<open>The row of the caller is read before the handler runs; a refusal answers 401, a suspension 403.\<close>

definition authed :: "site \<Rightarrow> (string \<times> string) option \<Rightarrow> int \<Rightarrow> (user_row \<Rightarrow> 'a handler) \<Rightarrow> 'a handler" where
  "authed sv header now k st =
     (case get_current_user (si_digest sv) header now (ap_seen st) (ap_db st) of
        (Inl e, seen, d) \<Rightarrow> (Inl (if e = Account_suspended then Http 403 ''Account is suspended'' else Http 401 []), st)
      | (Inr u, seen, d) \<Rightarrow> k u (st\<lparr>ap_seen := seen, ap_db := d\<rparr>))"

definition current_profile :: "user_row \<Rightarrow> (nat \<times> string \<times> string option \<times> int) handler" where
  "current_profile u st = (Inr (us_id u, us_email u, us_display_name u, us_created_at u), st)"

definition get_token_info :: "user_row \<Rightarrow> (int option \<times> int option) handler" where
  "get_token_info u st = (Inr (us_api_token_created_at u, us_api_token_last_used_at u), st)"

definition rotate_token :: "site \<Rightarrow> int \<Rightarrow> nat list \<Rightarrow> user_row \<Rightarrow> string handler" where
  "rotate_token sv now raw u st =
     (case set_api_token (us_id u) (si_digest sv (generate_token raw))
             (\<lambda>v. v\<lparr>us_api_token_created_at := Some now, us_api_token_last_used_at := None\<rparr>) (ap_db st) of
        None \<Rightarrow> (Inl Unhandled, st) | Some d \<Rightarrow> (Inr (generate_token raw), st\<lparr>ap_db := d\<rparr>))"

definition logout :: "user_row \<Rightarrow> unit handler" where
  "logout u st = (Inr (), set_users (upd (\<lambda>v. us_id v = us_id u) (\<lambda>v. v\<lparr>us_api_token := None\<rparr>)) st)"

definition MIN_PASSWORD :: nat where "MIN_PASSWORD = 12"

definition change_password :: "site \<Rightarrow> nat \<Rightarrow> string \<Rightarrow> string \<Rightarrow> user_row \<Rightarrow> unit handler" where
  "change_password sv k current new u st =
     (if utf8_length new < MIN_PASSWORD then (Inl (Http 422 ''New password must be at least 12 characters.''), st)
      else case si_verify sv current (us_hashed_password u) of
        None \<Rightarrow> (Inl Unhandled, st)
      | Some False \<Rightarrow> (Inl (Http 400 ''Current password is incorrect.''), st)
      | Some True \<Rightarrow>
          (case si_bcrypt sv 12 k new of
             None \<Rightarrow> (Inl Unhandled, st)
           | Some h \<Rightarrow>
               (Inr (), set_users (upd (\<lambda>v. us_id v = us_id u) (\<lambda>v. v\<lparr>us_hashed_password := h\<rparr>)) st)))"

section \<open>Password reset\<close>

definition RESET_TOKEN_TTL_SECONDS :: int where "RESET_TOKEN_TTL_SECONDS = 3600"

text \<open>The token is only ever written to the log, when the deployment asks for it.\<close>

definition reset_request :: "site \<Rightarrow> string \<Rightarrow> int \<Rightarrow> nat list \<Rightarrow> unit handler" where
  "reset_request sv email now raw st =
     (case user_with_email email (ap_db st) of
        None \<Rightarrow> (Inr (), st)
      | Some u \<Rightarrow>
          (Inr (), set_users (upd (\<lambda>v. us_id v = us_id u) (\<lambda>v. v\<lparr>us_reset_token := Some (si_digest sv (generate_token raw)),
             us_reset_token_expires_at := Some (now + RESET_TOKEN_TTL_SECONDS)\<rparr>)) st))"

definition reset_valid :: "string \<Rightarrow> int \<Rightarrow> user_row \<Rightarrow> bool" where
  "reset_valid h now u \<longleftrightarrow> us_reset_token u = Some h
     \<and> (case us_reset_token_expires_at u of None \<Rightarrow> False | Some t \<Rightarrow> t > now)"

definition reset_password :: "site \<Rightarrow> nat \<Rightarrow> string \<Rightarrow> string \<Rightarrow> int \<Rightarrow> unit handler" where
  "reset_password sv k tok new now st =
     (if utf8_length new < MIN_PASSWORD then (Inl (Http 422 ''New password must be at least 12 characters.''), st)
      else case List.find (reset_valid (si_digest sv tok) now) (db_users (ap_db st)) of
        None \<Rightarrow> (Inl (Http 400 ''Reset token is invalid or has expired.''), st)
      | Some u \<Rightarrow>
          (case si_bcrypt sv 12 k new of
             None \<Rightarrow> (Inl Unhandled, st)
           | Some h \<Rightarrow> (Inr (), set_users (upd (\<lambda>v. us_id v = us_id u) (\<lambda>v. v\<lparr>us_hashed_password := h,
               us_reset_token := None, us_reset_token_expires_at := None\<rparr>)) st)))"

section \<open>Agents\<close>

record agent_create =
  ac_label :: "string option"
  ac_upstream_host :: string
  ac_upstream_smtp_host :: "string option"
  ac_upstream_imap_port :: nat
  ac_upstream_smtp_port :: nat
  ac_upstream_user :: string
  ac_upstream_password :: "string option"
  ac_oauth2_provider :: "string option"
  ac_oauth2_client_id :: "string option"
  ac_oauth2_client_secret :: "string option"
  ac_oauth2_refresh_token :: "string option"

fun mentions :: "string \<Rightarrow> string \<Rightarrow> bool" where
  "mentions w [] \<longleftrightarrow> w = []"
| "mentions w (c # s) \<longleftrightarrow> py_startswith (c # s) w \<or> mentions w s"

definition build_auth_failure_detail :: "string \<Rightarrow> string" where
  "build_auth_failure_detail host =
     (if list_ex (\<lambda>k. mentions k (py_lower host)) [''gmail.com'', ''icloud.com'', ''me.com'', ''mac.com'']
      then ''IMAP authentication failed. Wrong username or password. For Gmail/iCloud, use an app-specific password.''
      else ''IMAP authentication failed. Wrong username or password.'')"

text \<open>The first exception of the trial login, in the order the calls are made.\<close>

definition verify_imap_connection_sync :: "imap_trial \<Rightarrow> imap_exc option" where
  "verify_imap_connection_sync tr =
     (case tr_connect tr of Some e \<Rightarrow> Some e
      | None \<Rightarrow> (case tr_login tr of Some e \<Rightarrow> Some e
        | None \<Rightarrow> (case tr_select tr of Inl e \<Rightarrow> Some e
          | Inr answer \<Rightarrow> if py_upper answer \<noteq> ''OK'' then Some Imap_error else None)))"

definition verify_imap_connection :: "site \<Rightarrow> string \<Rightarrow> nat \<Rightarrow> string \<Rightarrow> string \<Rightarrow> api_error option" where
  "verify_imap_connection sv host port user pw =
     (case verify_imap_connection_sync (si_imap sv host port user pw) of
        None \<Rightarrow> None
      | Some e \<Rightarrow> Some (case e of
          Timed_out \<Rightarrow> Json_error 422 ''imap_timeout'' ''Timed out while verifying IMAP connection (10s limit).''
        | Cert_invalid \<Rightarrow> Json_error 422 ''imap_tls_verify_failed'' (''TLS certificate verification failed for '' @ host
            @ ''. If this server uses a private CA, set SSL_CERT_FILE to its CA bundle.'')
        | Ssl_failed \<Rightarrow> Json_error 422 ''imap_ssl_error'' ''IMAP SSL/TLS handshake failed. Check host and IMAP SSL port.''
        | Imap_abort \<Rightarrow> Json_error 422 ''imap_connection_failed'' ''Unable to reach IMAP server. Check host and port.''
        | Imap_error \<Rightarrow> Json_error 422 ''imap_auth_failed'' (build_auth_failure_detail host)
        | Os_failed \<Rightarrow> Json_error 422 ''imap_connection_failed'' ''Unable to reach IMAP server. Check host and port.''
        | Other_exc \<Rightarrow> Unhandled))"

text \<open>The \<open>INSERT\<close> of a credential; \<open>agent_username\<close> is unique.\<close>

definition insert_agent :: "(nat \<Rightarrow> agent_row) \<Rightarrow> db \<Rightarrow> (nat \<times> db) option" where
  "insert_agent row d =
     (let i = Suc (db_agent_seq d) in
      if list_ex (\<lambda>a. ag_agent_username a = ag_agent_username (row i)) (db_agents d) then None
      else Some (i, d\<lparr>db_agents := db_agents d @ [row i], db_agent_seq := i\<rparr>))"

definition store_if :: "site \<Rightarrow> string option \<Rightarrow> string \<Rightarrow> nat \<Rightarrow> string option vop" where
  "store_if sv x field uid =
     (if truthy x then vbind (store_credential (si_keys sv) (or_empty x) field (Some uid)) (\<lambda>r. vret (Some r)) else vret None)"

definition check_auth_mode :: "agent_create \<Rightarrow> api_error option" where
  "check_auth_mode rq =
     (let using_oauth2 = truthy (ac_oauth2_provider rq); using_password = truthy (ac_upstream_password rq);
          missing = map fst (filter (\<lambda>(f, x). \<not> truthy x)
            [(''oauth2_client_id'', ac_oauth2_client_id rq), (''oauth2_client_secret'', ac_oauth2_client_secret rq),
             (''oauth2_refresh_token'', ac_oauth2_refresh_token rq)])
      in if using_oauth2 \<and> using_password
         then Some (Json_error 422 ''conflicting_auth'' ''Provide either upstream_password or oauth2_* fields, not both.'')
         else if \<not> using_oauth2 \<and> \<not> using_password
         then Some (Json_error 422 ''missing_auth'' ''Provide either upstream_password or oauth2_provider + oauth2_client_id + oauth2_client_secret + oauth2_refresh_token.'')
         else if using_oauth2 \<and> missing \<noteq> []
         then Some (Json_error 422 ''incomplete_oauth2'' (''oauth2_provider set but missing required fields: '' @ py_join '', '' missing))
         else if using_oauth2 \<and> ac_oauth2_provider rq \<noteq> Some ''google''
         then Some (Json_error 422 ''unsupported_oauth2_provider'' ''Supported providers: google'')
         else None)"

definition new_agent :: "agent_create \<Rightarrow> int \<Rightarrow> string \<Rightarrow> string \<Rightarrow> nat \<Rightarrow> string option \<Rightarrow> string option
    \<Rightarrow> string option \<Rightarrow> nat \<Rightarrow> agent_row" where
  "new_agent rq now username pw_hash uid pw cs rt i =
     \<lparr>ag_id = i, ag_user_id = uid,
        ag_label = (if truthy (ac_label rq) then or_empty (ac_label rq) else ''default''),
        ag_agent_username = username, ag_hashed_token = pw_hash,
        ag_upstream_host = ac_upstream_host rq, ag_upstream_smtp_host = ac_upstream_smtp_host rq,
        ag_upstream_imap_port = ac_upstream_imap_port rq, ag_upstream_smtp_port = ac_upstream_smtp_port rq,
        ag_upstream_user = ac_upstream_user rq, ag_upstream_password = pw,
        ag_oauth2_provider = ac_oauth2_provider rq, ag_oauth2_refresh_token = rt,
        ag_oauth2_client_id = ac_oauth2_client_id rq, ag_oauth2_client_secret = cs,
        ag_oauth2_access_token = None, ag_oauth2_access_token_expires_at = None, ag_sent_folder = None,
        ag_created_at = now, ag_revoked_at = None\<rparr>"

text \<open>The secrets are stored first; a failing \<open>INSERT\<close> removes those it leaves unreferenced, and is raised again.\<close>

definition persist_agent ::
  "site \<Rightarrow> agent_create \<Rightarrow> int \<Rightarrow> string \<Rightarrow> string \<Rightarrow> string \<Rightarrow> nat \<Rightarrow> (nat \<times> string \<times> string) handler" where
  "persist_agent sv rq now username tok pw_hash uid =
     use_vault (store_if sv (ac_upstream_password rq) ''upstream_password'' uid) (\<lambda>pw.
     use_vault (store_if sv (ac_oauth2_client_secret rq) ''oauth2_client_secret'' uid) (\<lambda>cs.
     use_vault (store_if sv (ac_oauth2_refresh_token rq) ''oauth2_refresh_token'' uid) (\<lambda>rt st.
       case insert_agent (new_agent rq now username pw_hash uid pw cs rt) (ap_db st) of
         None \<Rightarrow> use_vault (delete_each (si_keys sv) [pw, cs, rt]) (\<lambda>_ st. (Inl Unhandled, st)) st
       | Some (i, d) \<Rightarrow> (Inr (i, username, tok), st\<lparr>ap_db := d\<rparr>))))"

definition create_agent ::
  "site \<Rightarrow> agent_create \<Rightarrow> int \<Rightarrow> nat \<Rightarrow> string \<Rightarrow> nat list \<Rightarrow> user_row \<Rightarrow> (nat \<times> string \<times> string) handler" where
  "create_agent sv rq now k name_hex raw u st =
     (case check_auth_mode rq of Some e \<Rightarrow> (Inl e, st)
      | None \<Rightarrow>
          let agent_count = length (filter (\<lambda>a. ag_user_id a = us_id u \<and> ag_revoked_at a = None) (db_agents (ap_db st)));
              username = ''nuvrail_'' @ hex_text name_hex; tok = generate_token raw
          in case si_quota sv u agent_count of Some e \<Rightarrow> (Inl e, st)
          | None \<Rightarrow>
            (case (if truthy (ac_upstream_password rq)
                   then verify_imap_connection sv (ac_upstream_host rq) (ac_upstream_imap_port rq) (ac_upstream_user rq)
                     (or_empty (ac_upstream_password rq))
                   else None) of Some e \<Rightarrow> (Inl e, st)
             | None \<Rightarrow>
               (case si_bcrypt sv 10 k tok of None \<Rightarrow> (Inl Unhandled, st)
                | Some pw_hash \<Rightarrow> persist_agent sv rq now username tok pw_hash (us_id u) st)))"

text \<open>The last activity of an agent is the creation of its newest operation.\<close>

definition last_activity :: "db \<Rightarrow> nat \<Rightarrow> int option" where
  "last_activity d i =
     (case map op_created_at (filter (\<lambda>r. op_agent_id r = Some i) (db_ops d)) of
        [] \<Rightarrow> None | ts \<Rightarrow> Some (Max (set ts)))"

definition list_agents :: "user_row \<Rightarrow> (agent_row \<times> int option) list handler" where
  "list_agents u st =
     (Inr (map (\<lambda>a. (a, last_activity (ap_db st) (ag_id a)))
        (sort_key ag_created_at (filter (\<lambda>a. ag_user_id a = us_id u) (db_agents (ap_db st))))), st)"

definition without_secrets :: "agent_row \<Rightarrow> agent_row" where
  "without_secrets a = a\<lparr>ag_upstream_password := None, ag_oauth2_refresh_token := None,
     ag_oauth2_access_token := None, ag_oauth2_client_secret := None\<rparr>"

abbreviation set_agents :: "(agent_row list \<Rightarrow> agent_row list) \<Rightarrow> api \<Rightarrow> api" where
  "set_agents f st \<equiv> st\<lparr>ap_db := (ap_db st)\<lparr>db_agents := f (db_agents (ap_db st))\<rparr>\<rparr>"

definition revoke_agent :: "site \<Rightarrow> nat \<Rightarrow> int \<Rightarrow> user_row \<Rightarrow> unit handler" where
  "revoke_agent sv i now u st =
     (case List.find (\<lambda>a. ag_id a = i) (db_agents (ap_db st)) of
        None \<Rightarrow> (Inl (Http 404 ''not found''), st)
      | Some a \<Rightarrow>
          if ag_user_id a \<noteq> us_id u then (Inl (Http 403 ''Not your credential''), st)
          else use_vault (purge_agent_upstream_secrets (si_keys sv) a) (\<lambda>_ st.
            (Inr (), set_agents (upd (\<lambda>a. ag_id a = i) (\<lambda>a. (without_secrets a)\<lparr>ag_revoked_at := Some now\<rparr>)) st)) st)"

section \<open>Push subscriptions\<close>

text \<open>An endpoint registered again belongs to whoever registered it last.\<close>

definition subscribe :: "string \<Rightarrow> string \<Rightarrow> string \<Rightarrow> int \<Rightarrow> user_row \<Rightarrow> unit handler" where
  "subscribe endpoint p256dh auth now u st =
     (let d = ap_db st in
      (Inr (), st\<lparr>ap_db :=
        (if list_ex (\<lambda>p. pu_endpoint p = endpoint) (db_push d)
         then d\<lparr>db_push := upd (\<lambda>p. pu_endpoint p = endpoint)
                (\<lambda>p. p\<lparr>pu_user_id := Some (us_id u), pu_p256dh := p256dh, pu_auth := auth\<rparr>) (db_push d)\<rparr>
         else d\<lparr>db_push := db_push d @ [\<lparr>pu_id = Suc (db_push_seq d), pu_user_id = Some (us_id u),
                pu_endpoint = endpoint, pu_p256dh = p256dh, pu_auth = auth, pu_created_at = now\<rparr>],
                db_push_seq := Suc (db_push_seq d)\<rparr>)\<rparr>))"

definition unsubscribe :: "string \<Rightarrow> user_row \<Rightarrow> unit handler" where
  "unsubscribe endpoint u st =
     (Inr (), st\<lparr>ap_db := (ap_db st)\<lparr>db_push :=
        filter (\<lambda>p. \<not> (pu_endpoint p = endpoint \<and> pu_user_id p = Some (us_id u))) (db_push (ap_db st))\<rparr>\<rparr>)"

section \<open>Deletion of the account\<close>

definition tombstone_email :: "nat \<Rightarrow> string" where
  "tombstone_email i = ''deleted+'' @ str_of_nat i @ ''@nuvrail.invalid''"

fun purge_each :: "keyring \<Rightarrow> agent_row list \<Rightarrow> unit vop" where
  "purge_each env [] = vret ()"
| "purge_each env (a # as) = vbind (purge_agent_upstream_secrets env a) (\<lambda>_. purge_each env as)"

definition account_event :: "string \<Rightarrow> int \<Rightarrow> nat \<Rightarrow> audit_event" where
  "account_event name now i =
     \<lparr>ev_timestamp = now, ev_event = name, ev_actor = Some ''human'', ev_operation_id = None, ev_agent_id = None,
      ev_op_type = None, ev_detail = None, ev_user_id = Some i, ev_intent_label = None\<rparr>"

definition own_agents :: "nat \<Rightarrow> db \<Rightarrow> agent_row list" where
  "own_agents i d = filter (\<lambda>a. ag_user_id a = i) (db_agents d)"

text \<open>One transaction: a refused statement undoes it, but not the calls to the secret managers made meanwhile.\<close>

definition erase_account :: "(string \<Rightarrow> nat list) \<Rightarrow> nat \<Rightarrow> int \<Rightarrow> db \<Rightarrow> db option" where
  "erase_account chain i now d =
     (let mine = (\<lambda>a. a \<in> set (map ag_id (own_agents i d)));
          d1 = d\<lparr>db_push := filter (\<lambda>p. pu_user_id p \<noteq> Some i) (db_push d),
                db_agents := upd (\<lambda>a. mine (ag_id a))
                  (\<lambda>a. (without_secrets a)\<lparr>ag_revoked_at := Some now, ag_hashed_token := []\<rparr>) (db_agents d)\<rparr>
      in if list_ex (\<lambda>u. us_id u \<noteq> i \<and> us_email u = tombstone_email i) (db_users d) then None
         else Some (insert_audit_event chain (account_event ''account_deleted'' now i)
           (d1\<lparr>db_users := upd (\<lambda>u. us_id u = i) (\<lambda>u. u\<lparr>us_email := tombstone_email i, us_display_name := None,
                  us_hashed_password := [], us_api_token := None, us_reset_token := None,
                  us_reset_token_expires_at := None, us_deleted_at := Some now\<rparr>) (db_users d),
               db_ops := upd (\<lambda>r. (case op_agent_id r of None \<Rightarrow> False | Some a \<Rightarrow> mine a) \<and> op_status r = Pending)
                  (\<lambda>r. r\<lparr>op_status := Cancelled, op_decided_at := Some now, op_decided_by := Some ''system''\<rparr>) (db_ops d)\<rparr>)))"

definition delete_account :: "site \<Rightarrow> string \<Rightarrow> int \<Rightarrow> user_row \<Rightarrow> unit handler" where
  "delete_account sv pw now u st =
     (case si_verify sv pw (us_hashed_password u) of
        None \<Rightarrow> (Inl Unhandled, st)
      | Some False \<Rightarrow> (Inl (Http 400 ''Password is incorrect.''), st)
      | Some True \<Rightarrow>
          use_vault (purge_each (si_keys sv) (own_agents (us_id u) (ap_db st))) (\<lambda>_ st.
            case erase_account (si_chain sv) (us_id u) now (ap_db st) of
              None \<Rightarrow> (Inl Unhandled, st)
            | Some d \<Rightarrow> (Inr (), st\<lparr>ap_db := d\<rparr>)) st)"

section \<open>Export\<close>

record export =
  ex_agents :: "agent_row list"
  ex_operations :: "op_row list"
  ex_audit :: "audit_row list"
  ex_messages :: "(string \<times> message_row) list"
  ex_push :: "push_row list"
  ex_rules :: "rule_row list"
  ex_chain_head :: "string option"

text \<open>The rows exported, before the choice of columns; the chain head is read after the export's own event.\<close>

definition export_account_data :: "site \<Rightarrow> int \<Rightarrow> user_row \<Rightarrow> export handler" where
  "export_account_data sv now u st =
     (let d = ap_db st; i = us_id u; agents = sort_key ag_created_at (own_agents i d);
          msgs = concat (map (\<lambda>f. map (Pair (fo_name f)) (sort_key me_uid (filter (\<lambda>m. me_folder_id m = fo_id f) (db_messages d))))
             (filter (\<lambda>f. fo_user_id f = Some i) (db_folders d)));
          d' = insert_audit_event (si_chain sv) (account_event ''export_requested'' now i) d
      in (Inr \<lparr>ex_agents = agents,
            ex_operations = sort_key op_created_at (filter (\<lambda>r. case op_agent_id r of None \<Rightarrow> False
                | Some a \<Rightarrow> a \<in> set (map ag_id agents)) (db_ops d)),
            ex_audit = sort_key au_timestamp (filter (\<lambda>r. au_user_id r = Some i) (db_audit d)),
            ex_messages = concat (map (\<lambda>n. filter (\<lambda>m. fst m = n) msgs) (sorted_strs (remdups (map fst msgs)))),
            ex_push = sort_key pu_created_at (filter (\<lambda>p. pu_user_id p = Some i) (db_push d)),
            ex_rules = sort_key (\<lambda>r. - ru_priority r) (sort_key ru_created_at
                (filter (\<lambda>r. ru_user_id r = Some i) (db_rules d))),
            ex_chain_head = get_chain_head d'\<rparr>, st\<lparr>ap_db := d'\<rparr>))"

end
