(* ===== verification/Account_Laws.thy ===== *)
theory Account_Laws
  imports Accounts
begin

text \<open>
  Laws of the account routes: requests as steps on the shared state, what each keeps of the accounts' tables,
  the separation of tenants, and what a deletion ends.
\<close>

section \<open>Requests as steps\<close>

datatype account_op =
    Rotate_token "nat list"
  | Logout
  | Change_password nat string string
  | Create_agent agent_create nat string "nat list"
  | List_agents
  | Revoke_agent nat
  | Subscribe string string string
  | Unsubscribe string
  | Delete_account string
  | Export_data

fun account_step :: "site \<Rightarrow> int \<Rightarrow> account_op \<Rightarrow> user_row \<Rightarrow> api \<Rightarrow> api" where
  "account_step sv now (Rotate_token raw) u st = snd (rotate_token sv now raw u st)"
| "account_step sv now Logout u st = snd (logout u st)"
| "account_step sv now (Change_password k cur new) u st = snd (change_password sv k cur new u st)"
| "account_step sv now (Create_agent rq k name raw) u st = snd (create_agent sv rq now k name raw u st)"
| "account_step sv now List_agents u st = snd (list_agents u st)"
| "account_step sv now (Revoke_agent i) u st = snd (revoke_agent sv i now u st)"
| "account_step sv now (Subscribe e p a) u st = snd (subscribe e p a now u st)"
| "account_step sv now (Unsubscribe e) u st = snd (unsubscribe e u st)"
| "account_step sv now (Delete_account pw) u st = snd (delete_account sv pw now u st)"
| "account_step sv now Export_data u st = snd (export_account_data sv now u st)"

datatype request =
    Register user_create nat "nat list"
  | Login string string string "nat \<Rightarrow> int" "nat list"
  | Reset_request string "nat list"
  | Reset_password nat string string
  | With_token "(string \<times> string) option" account_op

fun serve :: "site \<Rightarrow> int \<times> request \<Rightarrow> api \<Rightarrow> api" where
  "serve sv (now, Register rq k raw) st = snd (register sv rq now k raw st)"
| "serve sv (now, Login ip email pw clk raw) st = snd (login sv ip email pw clk raw st)"
| "serve sv (now, Reset_request email raw) st = snd (reset_request sv email now raw st)"
| "serve sv (now, Reset_password k tok new) st = snd (reset_password sv k tok new now st)"
| "serve sv (now, With_token header op) st =
     snd (authed sv header now (\<lambda>u st. (Inr (), account_step sv now op u st)) st)"

section \<open>What a request changes\<close>

text \<open>Every request changes the database by a few kinds of step, each of which leaves most tables alone.\<close>

lemma use_vault_db:
  "(\<And>x st'. ap_db st' = ap_db st \<Longrightarrow> P (ap_db (snd (k x st')))) \<Longrightarrow> P (ap_db st) \<Longrightarrow> P (ap_db (snd (use_vault m k st)))"
  by (auto simp: use_vault_def split: option.split prod.split)

lemma insert_audit_other [simp]:
  "db_users (insert_audit_event h e d) = db_users d" "db_agents (insert_audit_event h e d) = db_agents d"
  "db_ops (insert_audit_event h e d) = db_ops d" "db_folders (insert_audit_event h e d) = db_folders d"
  "db_messages (insert_audit_event h e d) = db_messages d" "db_reverts (insert_audit_event h e d) = db_reverts d"
  "db_invites (insert_audit_event h e d) = db_invites d" "db_push (insert_audit_event h e d) = db_push d"
  "db_rules (insert_audit_event h e d) = db_rules d" "db_user_seq (insert_audit_event h e d) = db_user_seq d"
  "db_agent_seq (insert_audit_event h e d) = db_agent_seq d"
  by (simp_all add: insert_audit_event_def insert_with_prev_def Let_def)

lemma insert_agent_some:
  "insert_agent row d = Some (i, d') \<longleftrightarrow> i = Suc (db_agent_seq d)
     \<and> ag_agent_username (row i) \<notin> ag_agent_username ` set (db_agents d)
     \<and> d' = d\<lparr>db_agents := db_agents d @ [row i], db_agent_seq := i\<rparr>"
  by (auto simp: insert_agent_def Let_def list_ex_iff image_iff; metis)

text \<open>The new database of \<open>create_agent\<close>: one more agent of the caller, or none.\<close>

definition one_more_agent :: "nat \<Rightarrow> db \<Rightarrow> db \<Rightarrow> bool" where
  "one_more_agent u d d' \<longleftrightarrow>
     (\<exists>a. ag_user_id a = u \<and> ag_id a = Suc (db_agent_seq d)
        \<and> ag_agent_username a \<notin> ag_agent_username ` set (db_agents d)
        \<and> d' = d\<lparr>db_agents := db_agents d @ [a], db_agent_seq := ag_id a\<rparr>)"

lemma insert_agent_one_more:
  assumes "insert_agent row d = Some (i, d')" "\<And>i. ag_user_id (row i) = u \<and> ag_id (row i) = i"
  shows "one_more_agent u d d'"
  using assms(1) assms(2) [of "Suc (db_agent_seq d)"]
  unfolding insert_agent_some one_more_agent_def by (intro exI [of _ "row i"]) auto

lemma use_vault_end: "ap_db (snd (use_vault m (\<lambda>x st. (e, st)) st)) = ap_db st"
  by (simp add: use_vault_def split: option.split prod.split)

lemma insert_agent_handler:
  assumes "\<And>i. ag_user_id (row i) = u \<and> ag_id (row i) = i"
  shows "ap_db (snd (case insert_agent row (ap_db st) of
      None \<Rightarrow> use_vault m (\<lambda>_ st. (Inl Unhandled, st)) st
    | Some (i, d) \<Rightarrow> (Inr (g i), st\<lparr>ap_db := d\<rparr>))) = ap_db st
    \<or> one_more_agent u (ap_db st) (ap_db (snd (case insert_agent row (ap_db st) of
      None \<Rightarrow> use_vault m (\<lambda>_ st. (Inl Unhandled, st)) st
    | Some (i, d) \<Rightarrow> (Inr (g i), st\<lparr>ap_db := d\<rparr>))))"
proof (cases "insert_agent row (ap_db st)")
  case (Some p)
  then show ?thesis using insert_agent_one_more [of row "ap_db st" "fst p" "snd p" u] assms by (cases p) simp
qed (simp add: use_vault_end)

lemma persist_agent_db:
  "ap_db (snd (persist_agent sv rq now name tok h u st)) = ap_db st
   \<or> one_more_agent u (ap_db st) (ap_db (snd (persist_agent sv rq now name tok h u st)))"
proof -
  let ?P = "\<lambda>d. d = ap_db st \<or> one_more_agent u (ap_db st) d"
  have "?P (ap_db (snd (persist_agent sv rq now name tok h u st)))"
    unfolding persist_agent_def
  proof (rule use_vault_db [where P = ?P], rule use_vault_db [where P = ?P], rule use_vault_db [where P = ?P])
    fix pw cs rt and st1 st2 st3 :: api
    assume "ap_db st1 = ap_db st" "ap_db st2 = ap_db st1" "ap_db st3 = ap_db st2"
    then have eq: "ap_db st = ap_db st3" by simp
    show "?P (ap_db (snd (case insert_agent (new_agent rq now name h u pw cs rt) (ap_db st3) of
         None \<Rightarrow> use_vault (delete_each (si_keys sv) [pw, cs, rt]) (\<lambda>_ st. (Inl Unhandled, st)) st3
       | Some (i, d) \<Rightarrow> (Inr (i, name, tok), st3\<lparr>ap_db := d\<rparr>))))"
      unfolding eq by (rule insert_agent_handler) (simp add: new_agent_def)
  qed simp_all
  then show ?thesis .
qed

lemma create_agent_db:
  "ap_db (snd (create_agent sv rq now k name raw u st)) = ap_db st
   \<or> one_more_agent (us_id u) (ap_db st) (ap_db (snd (create_agent sv rq now k name raw u st)))"
  using persist_agent_db by (auto simp: create_agent_def Let_def split: option.split)

text \<open>A change of the caller's own row that keeps its identity.\<close>

definition own_row_change :: "nat \<Rightarrow> db \<Rightarrow> db \<Rightarrow> bool" where
  "own_row_change i d d' \<longleftrightarrow>
     (\<exists>f. (\<forall>r. us_id (f r) = us_id r \<and> us_email (f r) = us_email r \<and> us_deleted_at (f r) = us_deleted_at r
           \<and> (us_api_token (f r) \<noteq> us_api_token r \<longrightarrow> us_api_token (f r) = None
              \<or> (\<forall>v \<in> set (db_users d). us_api_token v = us_api_token (f r) \<longrightarrow> us_id v = i)))
        \<and> d' = d\<lparr>db_users := upd (\<lambda>r. us_id r = i) f (db_users d)\<rparr>)"

lemma own_row_changeI:
  assumes "d' = d\<lparr>db_users := upd (\<lambda>r. us_id r = i) f (db_users d)\<rparr>"
    and "\<And>r. us_id (f r) = us_id r \<and> us_email (f r) = us_email r \<and> us_deleted_at (f r) = us_deleted_at r"
    and "\<And>r. us_api_token (f r) = us_api_token r \<or> us_api_token (f r) = None
      \<or> (\<forall>v \<in> set (db_users d). us_api_token v = us_api_token (f r) \<longrightarrow> us_id v = i)"
  shows "own_row_change i d d'"
  unfolding own_row_change_def using assms by (intro exI [of _ f]) metis

lemma set_api_token_own:
  assumes "set_api_token i tok f d = Some d'"
    and "\<And>r. us_id (f r) = us_id r \<and> us_email (f r) = us_email r \<and> us_deleted_at (f r) = us_deleted_at r
      \<and> us_api_token (f r) = us_api_token r"
  shows "own_row_change i d d'"
proof (rule own_row_changeI [where f = "\<lambda>r. f (r\<lparr>us_api_token := Some tok\<rparr>)"])
  show "d' = d\<lparr>db_users := upd (\<lambda>r. us_id r = i) (\<lambda>r. f (r\<lparr>us_api_token := Some tok\<rparr>)) (db_users d)\<rparr>"
    using assms(1) by (simp add: set_api_token_def split: if_splits)
qed (use assms in \<open>auto simp: set_api_token_def list_ex_iff split: if_splits\<close>)

lemma own_row_change_refl: "own_row_change i d d"
  by (rule own_row_changeI [where f = "\<lambda>r. r"]) (auto simp: upd_def)

lemma touch_own: "own_row_change i d (snd (touch_last_used_at i now seen d))"
  by (auto simp: touch_last_used_at_def own_row_change_refl intro!: own_row_changeI)

text \<open>What one request of a signed-in account does to the database.\<close>

text \<open>The push subscriptions of others are not added to or changed; the caller may claim one of their endpoints.\<close>

definition push_change :: "nat \<Rightarrow> db \<Rightarrow> db \<Rightarrow> bool" where
  "push_change i d d' \<longleftrightarrow> (\<exists>ps n. d' = d\<lparr>db_push := ps, db_push_seq := n\<rparr>
     \<and> {p \<in> set ps. pu_user_id p \<noteq> Some i} \<subseteq> set (db_push d))"

lemma push_changeI:
  assumes "{p \<in> set ps. pu_user_id p \<noteq> Some i} \<subseteq> set (db_push d)"
  shows "push_change i d (d\<lparr>db_push := ps\<rparr>)" "push_change i d (d\<lparr>db_push := ps, db_push_seq := n\<rparr>)"
proof -
  have "d\<lparr>db_push := ps\<rparr> = d\<lparr>db_push := ps, db_push_seq := db_push_seq d\<rparr>" by simp
  then show "push_change i d (d\<lparr>db_push := ps\<rparr>)" unfolding push_change_def using assms by blast
qed (use assms in \<open>auto simp: push_change_def\<close>)

definition agent_revoked :: "nat \<Rightarrow> int \<Rightarrow> db \<Rightarrow> db \<Rightarrow> bool" where
  "agent_revoked u now d d' \<longleftrightarrow>
     (\<exists>a \<in> set (db_agents d). ag_user_id a = u
        \<and> d' = d\<lparr>db_agents := upd (\<lambda>r. ag_id r = ag_id a) (\<lambda>r. (without_secrets r)\<lparr>ag_revoked_at := Some now\<rparr>) (db_agents d)\<rparr>)"

lemma account_step_db:
  fixes sv now op u st
  defines "d \<equiv> ap_db st" and "d' \<equiv> ap_db (account_step sv now op u st)"
  shows "d' = d \<or> own_row_change (us_id u) d d' \<or> one_more_agent (us_id u) d d' \<or> agent_revoked (us_id u) now d d'
    \<or> push_change (us_id u) d d' \<or> erase_account (si_chain sv) (us_id u) now d = Some d'
    \<or> (\<exists>e. d' = insert_audit_event (si_chain sv) e d)"
proof (cases op)
  case (Rotate_token raw)
  then show ?thesis
    using set_api_token_own by (fastforce simp: d_def d'_def rotate_token_def split: option.splits)
next
  case Logout
  then show ?thesis by (auto simp: d_def d'_def logout_def intro!: own_row_changeI)
next
  case (Change_password k cur new)
  then show ?thesis
    by (auto simp: d_def d'_def change_password_def intro!: own_row_changeI split: option.split bool.split)
next
  case (Create_agent rq k name raw)
  then show ?thesis using create_agent_db [of sv rq now k name raw u st] by (auto simp: d_def d'_def)
next
  case (Revoke_agent i)
  then show ?thesis
    by (auto simp: d_def d'_def revoke_agent_def use_vault_def agent_revoked_def dest!: find_Some_in
        split: option.splits prod.splits)
next
  case (Subscribe e p a)
  then show ?thesis by (auto simp: d_def d'_def subscribe_def Let_def set_upd intro!: push_changeI)
next
  case (Unsubscribe e)
  then show ?thesis by (auto simp: d_def d'_def unsubscribe_def intro!: push_changeI)
next
  case (Delete_account pw)
  then show ?thesis
    by (auto simp: d_def d'_def delete_account_def use_vault_def split: option.splits prod.splits bool.splits)
next
  case Export_data
  then show ?thesis by (auto simp: d_def d'_def export_account_data_def Let_def)
qed (simp add: d_def d'_def list_agents_def)

section \<open>The accounts' tables stay well-formed\<close>

text \<open>A token digest is held by one account.\<close>

definition one_holder :: "user_row list \<Rightarrow> bool" where
  "one_holder rows \<longleftrightarrow> (\<forall>u \<in> set rows. \<forall>v \<in> set rows.
     us_api_token u \<noteq> None \<and> us_api_token u = us_api_token v \<longrightarrow> us_id u = us_id v)"

definition users_wf :: "nat \<Rightarrow> user_row list \<Rightarrow> bool" where
  "users_wf n rows \<longleftrightarrow> distinct (map us_id rows) \<and> (\<forall>i \<in> us_id ` set rows. i \<le> n)
     \<and> distinct (map us_email rows) \<and> one_holder rows"

definition agents_wf :: "nat \<Rightarrow> nat set \<Rightarrow> agent_row list \<Rightarrow> bool" where
  "agents_wf n owners rows \<longleftrightarrow> distinct (map ag_id rows) \<and> (\<forall>i \<in> ag_id ` set rows. i \<le> n)
     \<and> distinct (map ag_agent_username rows) \<and> ag_user_id ` set rows \<subseteq> owners"

definition accounts_wf :: "db \<Rightarrow> bool" where
  "accounts_wf d \<longleftrightarrow> users_wf (db_user_seq d) (db_users d)
     \<and> agents_wf (db_agent_seq d) (us_id ` set (db_users d)) (db_agents d)"

lemma keys_upd:
  assumes "\<And>r. k (f r) = k r"
  shows "map k (upd P f rows) = map k rows" "k ` set (upd P f rows) = k ` set rows"
proof -
  show *: "map k (upd P f rows) = map k rows" using assms by (intro map_upd_key) simp
  show "k ` set (upd P f rows) = k ` set rows" using arg_cong [OF *, of set] by simp
qed

lemma one_holder_upd:
  assumes "one_holder rows" "\<And>r. us_id (f r) = us_id r"
    and tok: "\<And>r. us_api_token (f r) = us_api_token r \<or> us_api_token (f r) = None
      \<or> (\<forall>v \<in> set rows. us_api_token v = us_api_token (f r) \<longrightarrow> us_id v = i)"
  shows "one_holder (upd (\<lambda>r. us_id r = i) f rows)"
  unfolding one_holder_def
proof (intro ballI impI)
  fix u v
  assume *: "u \<in> set (upd (\<lambda>r. us_id r = i) f rows)" "v \<in> set (upd (\<lambda>r. us_id r = i) f rows)"
    "us_api_token u \<noteq> None \<and> us_api_token u = us_api_token v"
  have orig: "(w \<in> set rows \<and> us_id w \<noteq> i) \<or> (us_id w = i \<and> (\<exists>r \<in> set rows. us_id r = i \<and> w = f r))"
    if "w \<in> set (upd (\<lambda>r. us_id r = i) f rows)" for w
    using that assms(2) by (auto simp: set_upd split: if_splits)
  have "us_id y = i"
    if "r \<in> set rows" "us_id r = i" "y \<in> set rows" "us_api_token y = us_api_token (f r)" "us_api_token y \<noteq> None" for r y
    using tok [of r] that assms(1) unfolding one_holder_def by metis
  then show "us_id u = us_id v"
    using orig [OF *(1)] orig [OF *(2)] *(3) assms(1) unfolding one_holder_def by metis
qed

lemma users_wf_upd:
  assumes "users_wf n rows" "\<And>r. us_id (f r) = us_id r" "\<And>r. us_email (f r) = us_email r"
    and "\<And>r. us_api_token (f r) = us_api_token r \<or> us_api_token (f r) = None
      \<or> (\<forall>v \<in> set rows. us_api_token v = us_api_token (f r) \<longrightarrow> us_id v = i)"
  shows "users_wf n (upd (\<lambda>r. us_id r = i) f rows)"
  using assms(1) one_holder_upd [of rows f i] assms(2-4)
  by (simp add: users_wf_def keys_upd)

lemma wf_own_row:
  assumes "accounts_wf d" "own_row_change i d d'"
  shows "accounts_wf d'"
proof -
  obtain f where f: "\<And>r. us_id (f r) = us_id r" "\<And>r. us_email (f r) = us_email r"
    and tok: "\<And>r. us_api_token (f r) = us_api_token r \<or> us_api_token (f r) = None
      \<or> (\<forall>v \<in> set (db_users d). us_api_token v = us_api_token (f r) \<longrightarrow> us_id v = i)"
    and d': "d' = d\<lparr>db_users := upd (\<lambda>r. us_id r = i) f (db_users d)\<rparr>"
    using assms(2) unfolding own_row_change_def by metis
  show ?thesis
    using assms(1) users_wf_upd [of "db_user_seq d" "db_users d" f i] f tok
    by (simp add: accounts_wf_def d' keys_upd)
qed

lemma wf_agents_upd:
  assumes "accounts_wf d" "\<And>r. ag_id (f r) = ag_id r \<and> ag_agent_username (f r) = ag_agent_username r \<and> ag_user_id (f r) = ag_user_id r"
  shows "accounts_wf (d\<lparr>db_agents := upd P f (db_agents d)\<rparr>)"
  using assms by (simp add: accounts_wf_def agents_wf_def keys_upd)

lemma wf_one_more:
  assumes "accounts_wf d" "u \<in> us_id ` set (db_users d)" "one_more_agent u d d'"
  shows "accounts_wf d'"
proof -
  obtain a where a: "ag_user_id a = u" "ag_id a = Suc (db_agent_seq d)"
      "ag_agent_username a \<notin> ag_agent_username ` set (db_agents d)"
    and d': "d' = d\<lparr>db_agents := db_agents d @ [a], db_agent_seq := ag_id a\<rparr>"
    using assms(3) unfolding one_more_agent_def by blast
  have "\<forall>i \<in> ag_id ` set (db_agents d). i \<le> db_agent_seq d" using assms(1) by (simp add: accounts_wf_def agents_wf_def)
  then have "ag_id a \<notin> ag_id ` set (db_agents d)" "\<forall>i \<in> ag_id ` set (db_agents d). i \<le> Suc (db_agent_seq d)"
    using a(2) by force+
  then show ?thesis using assms(1,2) a by (simp add: accounts_wf_def agents_wf_def d')
qed

lemma wf_revoked: "accounts_wf d \<Longrightarrow> agent_revoked u now d d' \<Longrightarrow> accounts_wf d'"
  by (auto simp: agent_revoked_def without_secrets_def intro!: wf_agents_upd)

lemma wf_push: "accounts_wf d \<Longrightarrow> push_change i d d' \<Longrightarrow> accounts_wf d'"
  by (auto simp: accounts_wf_def push_change_def)

lemma wf_audit [simp]: "accounts_wf (insert_audit_event h e d) \<longleftrightarrow> accounts_wf d"
  by (simp add: accounts_wf_def)

text \<open>The tables after an erasure.\<close>

definition erased_user :: "nat \<Rightarrow> int \<Rightarrow> user_row \<Rightarrow> user_row" where
  "erased_user i now r = r\<lparr>us_email := tombstone_email i, us_display_name := None, us_hashed_password := [],
     us_api_token := None, us_reset_token := None, us_reset_token_expires_at := None, us_deleted_at := Some now\<rparr>"

definition closed_agent :: "int \<Rightarrow> agent_row \<Rightarrow> agent_row" where
  "closed_agent now a = (without_secrets a)\<lparr>ag_revoked_at := Some now, ag_hashed_token := []\<rparr>"

definition own_pending :: "nat \<Rightarrow> db \<Rightarrow> op_row \<Rightarrow> bool" where
  "own_pending i d r \<longleftrightarrow> (case op_agent_id r of None \<Rightarrow> False | Some a \<Rightarrow> a \<in> ag_id ` set (own_agents i d))
     \<and> op_status r = Pending"

definition cancelled_op :: "int \<Rightarrow> op_row \<Rightarrow> op_row" where
  "cancelled_op now r = r\<lparr>op_status := Cancelled, op_decided_at := Some now, op_decided_by := Some ''system''\<rparr>"

lemma erase_account_tables:
  assumes "erase_account chain i now d = Some d'"
  shows "db_users d' = upd (\<lambda>u. us_id u = i) (erased_user i now) (db_users d)"
    "db_agents d' = upd (\<lambda>a. ag_id a \<in> ag_id ` set (own_agents i d)) (closed_agent now) (db_agents d)"
    "db_ops d' = upd (own_pending i d) (cancelled_op now) (db_ops d)"
    "db_push d' = filter (\<lambda>p. pu_user_id p \<noteq> Some i) (db_push d)"
    "db_folders d' = db_folders d" "db_messages d' = db_messages d" "db_reverts d' = db_reverts d"
    "db_rules d' = db_rules d" "db_user_seq d' = db_user_seq d" "db_agent_seq d' = db_agent_seq d"
    "\<exists>r. db_audit d' = db_audit d @ [r]"
    "\<forall>u \<in> set (db_users d). us_id u \<noteq> i \<longrightarrow> us_email u \<noteq> tombstone_email i"
proof -
  have eq: "(\<lambda>u. erased_user i now u) = (\<lambda>r. r\<lparr>us_email := tombstone_email i, us_display_name := None, us_hashed_password := [],
     us_api_token := None, us_reset_token := None, us_reset_token_expires_at := None, us_deleted_at := Some now\<rparr>)"
    "closed_agent now = (\<lambda>a. (without_secrets a)\<lparr>ag_revoked_at := Some now, ag_hashed_token := []\<rparr>)"
    "own_pending i d = (\<lambda>r. (case op_agent_id r of None \<Rightarrow> False | Some a \<Rightarrow> a \<in> ag_id ` set (own_agents i d)) \<and> op_status r = Pending)"
    "cancelled_op now = (\<lambda>r. r\<lparr>op_status := Cancelled, op_decided_at := Some now, op_decided_by := Some ''system''\<rparr>)"
    by (auto simp: erased_user_def closed_agent_def own_pending_def cancelled_op_def)
  note * = assms [unfolded erase_account_def Let_def set_map, folded eq]
  show "db_users d' = upd (\<lambda>u. us_id u = i) (erased_user i now) (db_users d)"
    "db_agents d' = upd (\<lambda>a. ag_id a \<in> ag_id ` set (own_agents i d)) (closed_agent now) (db_agents d)"
    "db_ops d' = upd (own_pending i d) (cancelled_op now) (db_ops d)"
    "db_push d' = filter (\<lambda>p. pu_user_id p \<noteq> Some i) (db_push d)"
    "db_folders d' = db_folders d" "db_messages d' = db_messages d" "db_reverts d' = db_reverts d"
    "db_rules d' = db_rules d" "db_user_seq d' = db_user_seq d" "db_agent_seq d' = db_agent_seq d"
    "\<exists>r. db_audit d' = db_audit d @ [r]"
    "\<forall>u \<in> set (db_users d). us_id u \<noteq> i \<longrightarrow> us_email u \<noteq> tombstone_email i"
    using * by (auto simp: list_ex_iff insert_audit_event_def insert_with_prev_def Let_def split: if_splits)
qed

lemma distinct_upd_key:
  assumes "distinct (map k rows)" "distinct (map us_id rows)" "\<And>r. k (f r) = e"
    "\<forall>r \<in> set rows. us_id r \<noteq> i \<longrightarrow> k r \<noteq> e"
  shows "distinct (map k (upd (\<lambda>r. us_id r = i) f rows))"
  using assms
proof (induction rows)
  case (Cons a rows)
  show ?case
  proof (cases "us_id a = i")
    case True
    then have none: "\<forall>r \<in> set rows. us_id r \<noteq> i" using Cons.prems(2) by (auto simp: image_iff)
    then have "upd (\<lambda>r. us_id r = i) f rows = rows" by (rule upd_none)
    moreover have "e \<notin> k ` set rows" using none Cons.prems(4) by auto
    ultimately show ?thesis using True Cons.prems by simp
  next
    case False
    then have "k a \<noteq> e" using Cons.prems(4) by simp
    then have "k a \<notin> k ` set (upd (\<lambda>r. us_id r = i) f rows)"
      using Cons.prems(1,3) by (auto simp: set_upd)
    then show ?thesis using Cons False by simp
  qed
qed simp

lemma wf_erase:
  assumes "accounts_wf d" "erase_account chain i now d = Some d'"
  shows "accounts_wf d'"
proof -
  note t = erase_account_tables [OF assms(2)]
  have "users_wf (db_user_seq d') (db_users d')"
    using assms(1) t(12) one_holder_upd [of "db_users d" "erased_user i now" i]
      distinct_upd_key [where k = us_email and rows = "db_users d" and f = "erased_user i now" and i = i]
    by (simp add: accounts_wf_def users_wf_def t(1,9) keys_upd erased_user_def)
  moreover have "agents_wf (db_agent_seq d') (us_id ` set (db_users d')) (db_agents d')"
    using assms(1)
    by (simp add: accounts_wf_def agents_wf_def t(1,2,10) keys_upd erased_user_def closed_agent_def without_secrets_def)
  ultimately show ?thesis by (simp add: accounts_wf_def)
qed

text \<open>A registration adds one account, with a new number, address and token.\<close>

definition registered :: "db \<Rightarrow> db \<Rightarrow> bool" where
  "registered d d' \<longleftrightarrow> (\<exists>r. us_id r = Suc (db_user_seq d) \<and> us_email r \<notin> us_email ` set (db_users d)
     \<and> us_api_token r \<notin> us_api_token ` set (db_users d) \<and> us_deleted_at r = None
     \<and> db_users d' = db_users d @ [r] \<and> db_user_seq d' = us_id r
     \<and> db_agents d' = db_agents d \<and> db_agent_seq d' = db_agent_seq d)"

lemma insert_user_registered:
  "insert_user email name h tok now d = Some (i, d') \<Longrightarrow> registered d d'"
  by (auto simp: insert_user_def registered_def new_user_def list_ex_iff Let_def split: if_splits) (metis)+

lemma registered_redeemed: "registered (snd (redeem_invite_code c e now d)) d' \<longleftrightarrow> registered d d'"
  by (simp add: redeem_invite_code_def registered_def)

lemma register_db:
  "ap_db (snd (register sv rq now k raw st)) = ap_db st \<or> registered (ap_db st) (ap_db (snd (register sv rq now k raw st)))"
proof -
  define d1 where "d1 = (if current_signup_mode (si_vars sv) = Some ''invite''
    then redeem_invite_code (si_digest sv (py_strip (or_empty (uc_invite_code rq)))) (uc_email rq) now (ap_db st)
    else (True, ap_db st))"
  have "registered (ap_db st) d'" if "insert_user e n h t now (snd d1) = Some (i, d')" for e n h t i d'
    using insert_user_registered [OF that] by (auto simp: d1_def registered_redeemed split: if_splits)
  then show ?thesis
    unfolding register_def Let_def
    by (cases "current_signup_mode (si_vars sv)"; cases d1)
      (auto simp: d1_def split: option.splits if_splits prod.splits)
qed

lemma wf_registered:
  assumes "accounts_wf d" "registered d d'"
  shows "accounts_wf d'"
proof -
  obtain r where r: "us_id r = Suc (db_user_seq d)" "us_email r \<notin> us_email ` set (db_users d)"
    "us_api_token r \<notin> us_api_token ` set (db_users d)"
    and d': "db_users d' = db_users d @ [r]" "db_user_seq d' = us_id r" "db_agents d' = db_agents d"
      "db_agent_seq d' = db_agent_seq d"
    using assms(2) unfolding registered_def by blast
  have "\<forall>i \<in> us_id ` set (db_users d). i \<le> db_user_seq d" using assms(1) by (simp add: accounts_wf_def users_wf_def)
  then have "us_id r \<notin> us_id ` set (db_users d)" "\<forall>i \<in> us_id ` set (db_users d). i \<le> Suc (db_user_seq d)"
    using r(1) by force+
  moreover have "one_holder (db_users d)" using assms(1) by (simp add: accounts_wf_def users_wf_def)
  then have "one_holder (db_users d @ [r])"
    using r(3) unfolding one_holder_def set_append by (auto simp: image_iff)
  ultimately show ?thesis
    using assms(1) r(1,2) d' by (auto simp: accounts_wf_def users_wf_def agents_wf_def)
qed

lemma login_db: "\<exists>i. own_row_change i (ap_db st) (ap_db (snd (login sv ip email pw clk raw st)))"
proof (cases "user_with_email email (ap_db st)")
  case (Some u)
  have "own_row_change (us_id u) (ap_db st) (ap_db (snd (login sv ip email pw clk raw st)))"
    using own_row_change_refl Some
    by (auto simp: login_def login_refused_def Let_def split: option.splits prod.splits bool.splits
        intro: set_api_token_own)
  then show ?thesis ..
qed (auto simp: login_def login_refused_def Let_def own_row_change_refl split: prod.splits)

lemma reset_db:
  "\<exists>i. own_row_change i (ap_db st) (ap_db (snd (reset_request sv email now raw st)))"
  "\<exists>i. own_row_change i (ap_db st) (ap_db (snd (reset_password sv k tok new now st)))"
proof -
  show "\<exists>i. own_row_change i (ap_db st) (ap_db (snd (reset_request sv email now raw st)))"
  proof (cases "user_with_email email (ap_db st)")
    case (Some u)
    have "own_row_change (us_id u) (ap_db st) (ap_db (snd (reset_request sv email now raw st)))"
      using Some by (auto simp: reset_request_def intro!: own_row_changeI)
    then show ?thesis ..
  qed (auto simp: reset_request_def own_row_change_refl)
  show "\<exists>i. own_row_change i (ap_db st) (ap_db (snd (reset_password sv k tok new now st)))"
  proof (cases "List.find (reset_valid (si_digest sv tok) now) (db_users (ap_db st))")
    case (Some u)
    have "own_row_change (us_id u) (ap_db st) (ap_db (snd (reset_password sv k tok new now st)))"
      using Some own_row_change_refl
      by (auto simp: reset_password_def intro!: own_row_changeI split: option.split)
    then show ?thesis ..
  qed (auto simp: reset_password_def own_row_change_refl)
qed

lemma get_current_user_some:
  assumes "get_current_user digest header now seen d = (Inr u, seen', d')"
  shows "u \<in> set (db_users d) \<and> us_deleted_at u = None \<and> us_suspended_at u = None \<and> own_row_change (us_id u) d d'"
  using assms touch_own [of "us_id u" d now seen]
  by (auto simp: get_current_user_def get_user_by_token_def dest!: find_Some_in split: option.splits if_splits prod.splits)

text \<open>The steps a request makes on the database, one of them made for a signed-in account.\<close>

definition for_account :: "(string \<Rightarrow> nat list) \<Rightarrow> nat \<Rightarrow> int \<Rightarrow> db \<Rightarrow> db \<Rightarrow> bool" where
  "for_account chain i now d d' \<longleftrightarrow> d' = d \<or> own_row_change i d d' \<or> one_more_agent i d d' \<or> agent_revoked i now d d'
    \<or> push_change i d d' \<or> erase_account chain i now d = Some d' \<or> (\<exists>e. d' = insert_audit_event chain e d)"

lemma serve_db:
  fixes sv rq st
  defines "d \<equiv> ap_db st" and "d' \<equiv> ap_db (serve sv rq st)"
  shows "d' = d \<or> registered d d' \<or> (\<exists>i. own_row_change i d d')
    \<or> (\<exists>d1 i. i \<in> us_id ` set (db_users d) \<and> own_row_change i d d1 \<and> for_account (si_chain sv) i (fst rq) d1 d')"
proof (cases rq)
  case (Pair now r)
  show ?thesis
  proof (cases r)
    case (Register rq k raw)
    then show ?thesis using register_db [of sv rq now k raw st] by (auto simp: Pair d_def d'_def)
  next
    case (Login ip email pw clk raw)
    then show ?thesis using login_db [of st sv ip email pw clk raw] by (simp add: Pair d_def d'_def)
  next
    case (Reset_request email raw)
    then show ?thesis using reset_db(1) [of st sv email now raw] by (simp add: Pair d_def d'_def)
  next
    case (Reset_password k tok new)
    then show ?thesis using reset_db(2) [of st sv k tok new now] by (simp add: Pair d_def d'_def)
  next
    case (With_token header op)
    show ?thesis
    proof (cases "get_current_user (si_digest sv) header now (ap_seen st) (ap_db st)")
      case (fields res seen' d1)
      show ?thesis
      proof (cases res)
        case (Inr u)
        note g = get_current_user_some [OF fields [unfolded Inr]]
        have "d' = ap_db (account_step sv now op u (st\<lparr>ap_seen := seen', ap_db := d1\<rparr>))"
          by (simp add: d'_def Pair With_token authed_def fields Inr)
        then have "for_account (si_chain sv) (us_id u) now d1 d'"
          using account_step_db [of sv now op u "st\<lparr>ap_seen := seen', ap_db := d1\<rparr>"] by (simp add: for_account_def)
        then show ?thesis using g by (auto simp: Pair d_def)
      qed (simp add: d'_def d_def Pair With_token authed_def fields)
    qed
  qed
qed

lemma wf_for_account:
  assumes "accounts_wf d" "i \<in> us_id ` set (db_users d)" "for_account chain i now d d'"
  shows "accounts_wf d'"
  using assms(3) unfolding for_account_def
proof (elim disjE exE)
  assume "d' = d" then show ?thesis using assms(1) by simp
next
  assume "own_row_change i d d'" then show ?thesis using assms(1) wf_own_row by blast
next
  assume "one_more_agent i d d'" then show ?thesis using assms(1,2) wf_one_more by blast
next
  assume "agent_revoked i now d d'" then show ?thesis using assms(1) wf_revoked by blast
next
  assume "push_change i d d'" then show ?thesis using assms(1) wf_push by blast
next
  assume "erase_account chain i now d = Some d'" then show ?thesis using assms(1) wf_erase by blast
next
  fix e assume "d' = insert_audit_event chain e d" then show ?thesis using assms(1) by simp
qed

lemma own_row_ids: "own_row_change i d d' \<Longrightarrow> us_id ` set (db_users d') = us_id ` set (db_users d)"
proof -
  assume "own_row_change i d d'"
  then obtain f where "\<And>r. us_id (f r) = us_id r" "d' = d\<lparr>db_users := upd (\<lambda>r. us_id r = i) f (db_users d)\<rparr>"
    unfolding own_row_change_def by metis
  then show ?thesis by (simp add: keys_upd)
qed


section \<open>Tenants are kept apart\<close>

definition others_kept :: "nat \<Rightarrow> db \<Rightarrow> db \<Rightarrow> bool" where
  "others_kept i d d' \<longleftrightarrow>
     filter (\<lambda>u. us_id u \<noteq> i) (db_users d') = filter (\<lambda>u. us_id u \<noteq> i) (db_users d)
     \<and> filter (\<lambda>a. ag_user_id a \<noteq> i) (db_agents d') = filter (\<lambda>a. ag_user_id a \<noteq> i) (db_agents d)
     \<and> filter (\<lambda>r. \<not> op_owned d i r) (db_ops d') = filter (\<lambda>r. \<not> op_owned d i r) (db_ops d)
     \<and> {p \<in> set (db_push d'). pu_user_id p \<noteq> Some i} \<subseteq> set (db_push d)
     \<and> db_folders d' = db_folders d \<and> db_messages d' = db_messages d \<and> db_reverts d' = db_reverts d
     \<and> db_rules d' = db_rules d \<and> db_invites d' = db_invites d \<and> (\<exists>rows. db_audit d' = db_audit d @ rows)"

lemma filter_upd_other:
  assumes "\<And>r. r \<in> set rows \<Longrightarrow> P r \<Longrightarrow> \<not> Q r \<and> \<not> Q (f r)"
  shows "filter Q (upd P f rows) = filter Q rows"
  using assms by (induction rows) auto

lemma own_agent_ids:
  assumes "accounts_wf d" "r \<in> set (db_agents d)" "ag_id r \<in> ag_id ` set (own_agents i d)"
  shows "ag_user_id r = i"
proof -
  obtain a where a: "a \<in> set (db_agents d)" "ag_user_id a = i" "ag_id a = ag_id r"
    using assms(3) by (auto simp: own_agents_def)
  have "distinct (map ag_id (db_agents d))" using assms(1) by (simp add: accounts_wf_def agents_wf_def)
  then have "a = r" using a assms(2) by (auto simp: distinct_map inj_on_def)
  with a show ?thesis by simp
qed

lemma op_owned_ids: "op_owned d i r \<longleftrightarrow> (case op_agent_id r of None \<Rightarrow> False | Some a \<Rightarrow> a \<in> ag_id ` set (own_agents i d))"
  by (auto simp: op_owned_def own_agents_def list_ex_iff image_iff split: option.split)

lemma for_account_others:
  assumes "accounts_wf d" "for_account chain i now d d'"
  shows "others_kept i d d'"
  using assms(2) unfolding for_account_def
proof (elim disjE exE)
  assume "d' = d" then show ?thesis by (auto simp: others_kept_def)
next
  assume "own_row_change i d d'"
  then obtain f where "\<And>r. us_id (f r) = us_id r" "d' = d\<lparr>db_users := upd (\<lambda>r. us_id r = i) f (db_users d)\<rparr>"
    unfolding own_row_change_def by metis
  then show ?thesis by (auto simp: others_kept_def intro: filter_upd_other)
next
  assume "one_more_agent i d d'" then show ?thesis by (auto simp: one_more_agent_def others_kept_def)
next
  assume "agent_revoked i now d d'"
  then obtain a where a: "a \<in> set (db_agents d)" "ag_user_id a = i"
    and d': "d' = d\<lparr>db_agents := upd (\<lambda>r. ag_id r = ag_id a) (\<lambda>r. (without_secrets r)\<lparr>ag_revoked_at := Some now\<rparr>) (db_agents d)\<rparr>"
    unfolding agent_revoked_def by blast
  have "ag_user_id r = i" if "r \<in> set (db_agents d)" "ag_id r = ag_id a" for r
    using own_agent_ids [OF assms(1) that(1)] a that(2) by (auto simp: own_agents_def)
  then show ?thesis by (auto simp: others_kept_def d' without_secrets_def intro!: filter_upd_other)
next
  assume "push_change i d d'" then show ?thesis by (auto simp: push_change_def others_kept_def)
next
  assume e: "erase_account chain i now d = Some d'"
  note t = erase_account_tables [OF e]
  have "db_invites d' = db_invites d" using e by (auto simp: erase_account_def Let_def split: if_splits)
  moreover have "filter (\<lambda>r. \<not> op_owned d i r) (db_ops d') = filter (\<lambda>r. \<not> op_owned d i r) (db_ops d)"
    unfolding t(3) by (rule filter_upd_other) (auto simp: own_pending_def op_owned_ids cancelled_op_def split: option.splits)
  moreover have "filter (\<lambda>a. ag_user_id a \<noteq> i) (db_agents d') = filter (\<lambda>a. ag_user_id a \<noteq> i) (db_agents d)"
    unfolding t(2) using own_agent_ids [OF assms(1)]
    by (intro filter_upd_other) (auto simp: closed_agent_def without_secrets_def)
  moreover have "filter (\<lambda>u. us_id u \<noteq> i) (db_users d') = filter (\<lambda>u. us_id u \<noteq> i) (db_users d)"
    unfolding t(1) by (rule filter_upd_other) (auto simp: erased_user_def)
  ultimately show ?thesis using t(4-8,11) by (auto simp: others_kept_def)
next
  fix e assume "d' = insert_audit_event chain e d"
  then show ?thesis by (auto simp: others_kept_def insert_audit_event_def insert_with_prev_def Let_def)
qed

lemma op_owned_users [simp]: "op_owned (d\<lparr>db_users := us\<rparr>) i r \<longleftrightarrow> op_owned d i r"
  by (simp add: op_owned_def split: option.split)

lemma others_kept_own: "own_row_change i d d1 \<Longrightarrow> others_kept i d1 d' \<Longrightarrow> others_kept i d d'"
proof -
  assume "own_row_change i d d1" and k: "others_kept i d1 d'"
  then obtain f where f: "\<And>r. us_id (f r) = us_id r" and d1: "d1 = d\<lparr>db_users := upd (\<lambda>r. us_id r = i) f (db_users d)\<rparr>"
    unfolding own_row_change_def by metis
  have "filter (\<lambda>u. us_id u \<noteq> i) (db_users d1) = filter (\<lambda>u. us_id u \<noteq> i) (db_users d)"
    unfolding d1 by (simp, rule filter_upd_other) (simp add: f)
  with k show ?thesis by (auto simp: others_kept_def d1)
qed


section \<open>A deleted account\<close>

text \<open>The account's number has been given out, and every row with that number is deleted.\<close>

definition account_closed :: "nat \<Rightarrow> db \<Rightarrow> bool" where
  "account_closed i d \<longleftrightarrow> i \<le> db_user_seq d \<and> (\<forall>u \<in> set (db_users d). us_id u = i \<longrightarrow> us_deleted_at u \<noteq> None)"

lemma closed_own_row: "account_closed i d \<Longrightarrow> own_row_change j d d' \<Longrightarrow> account_closed i d'"
  unfolding account_closed_def own_row_change_def by (auto simp: set_upd)

lemma closed_registered: "account_closed i d \<Longrightarrow> registered d d' \<Longrightarrow> account_closed i d'"
  by (auto simp: account_closed_def registered_def)

lemma closed_for_account:
  assumes "account_closed i d" "for_account chain j now d d'"
  shows "account_closed i d'"
  using assms(2) unfolding for_account_def
proof (elim disjE exE)
  assume "own_row_change j d d'" then show ?thesis by (rule closed_own_row [OF assms(1)])
next
  assume "erase_account chain j now d = Some d'"
  note t = erase_account_tables [OF this]
  show ?thesis using assms(1) by (auto simp: account_closed_def t(1,9) set_upd erased_user_def split: if_splits)
qed (use assms(1) in \<open>auto simp: account_closed_def one_more_agent_def agent_revoked_def push_change_def\<close>)

lemma closed_serve: "account_closed i (ap_db st) \<Longrightarrow> account_closed i (ap_db (serve sv rq st))"
  using serve_db [of sv rq st]
proof (elim disjE exE conjE)
  fix d1 j
  assume "account_closed i (ap_db st)" "own_row_change j (ap_db st) d1"
    "for_account (si_chain sv) j (fst rq) d1 (ap_db (serve sv rq st))"
  then show ?thesis using closed_for_account closed_own_row by metis
next
  fix j assume "account_closed i (ap_db st)" "own_row_change j (ap_db st) (ap_db (serve sv rq st))"
  then show ?thesis by (rule closed_own_row)
next
  assume "account_closed i (ap_db st)" "registered (ap_db st) (ap_db (serve sv rq st))"
  then show ?thesis by (rule closed_registered)
qed simp

lemma closed_fold: "account_closed i (ap_db st) \<Longrightarrow> account_closed i (ap_db (fold (serve sv) rqs st))"
  by (induction rqs arbitrary: st) (simp_all add: closed_serve)

text \<open>A closed account authenticates nobody: no bearer token identifies it, none of its agents logs in or acts.\<close>

definition locked_out :: "nat \<Rightarrow> db \<Rightarrow> bool" where
  "locked_out i d \<longleftrightarrow>
     (\<forall>digest header now seen u. fst (get_current_user digest header now seen d) = Inr u \<longrightarrow> us_id u \<noteq> i)
     \<and> (\<forall>check name tok a. verify_agent_login check name tok d = Some a \<longrightarrow> ag_user_id a \<noteq> i)
     \<and> (\<forall>k a. get_agent_credential k True d = Some a \<longrightarrow> ag_user_id a \<noteq> i)"

lemma closed_locked_out:
  assumes "account_closed i d"
  shows "locked_out i d"
proof -
  have "us_id u \<noteq> i" if "fst (get_current_user digest header now seen d) = Inr u" for digest header now seen u
    using that get_current_user_some [of digest header now seen d u] assms
    unfolding account_closed_def by (metis prod.collapse)
  moreover have "\<not> user_active d i"
    using assms by (auto simp: account_closed_def user_active_def list_ex_iff)
  then have act: "ag_user_id a \<noteq> i" if "agent_active d a" for a using that by (auto simp: agent_active_def)
  have "agent_active d a" if "verify_agent_login check name tok d = Some a" for check name tok a
    using that by (auto simp: verify_agent_login_def split: if_splits option.splits dest!: find_Some_in)
  moreover have "agent_active d a" if "get_agent_credential k True d = Some a" for k a
    using that by (auto simp: get_agent_credential_def split: option.splits dest!: find_Some_in)
  ultimately show ?thesis using act unfolding locked_out_def by metis
qed

text \<open>What the deletion itself leaves: no live or secret-bearing agent, no pending operation, no push subscription.\<close>

definition account_emptied :: "nat \<Rightarrow> db \<Rightarrow> bool" where
  "account_emptied i d \<longleftrightarrow>
     (\<forall>a \<in> set (db_agents d). ag_user_id a = i \<longrightarrow> ag_revoked_at a \<noteq> None \<and> ag_hashed_token a = []
        \<and> ag_upstream_password a = None \<and> ag_oauth2_refresh_token a = None
        \<and> ag_oauth2_access_token a = None \<and> ag_oauth2_client_secret a = None)
     \<and> (\<forall>r \<in> set (db_ops d). op_owned d i r \<longrightarrow> op_status r \<noteq> Pending)
     \<and> (\<forall>p \<in> set (db_push d). pu_user_id p \<noteq> Some i)
     \<and> (\<forall>u \<in> set (db_users d). us_id u = i \<longrightarrow> us_email u = tombstone_email i \<and> us_display_name u = None
        \<and> us_hashed_password u = [] \<and> us_api_token u = None \<and> us_reset_token u = None)"

lemma own_agents_after:
  assumes "erase_account chain i now d = Some d'"
  shows "own_agents i d' = map (closed_agent now) (own_agents i d)"
proof -
  have "own_agents i d' = upd (\<lambda>a. ag_id a \<in> ag_id ` set (own_agents i d)) (closed_agent now) (own_agents i d)"
    unfolding own_agents_def [of i d'] erase_account_tables(2) [OF assms]
    by (simp add: own_agents_def filter_upd_key closed_agent_def without_secrets_def)
  also have "\<dots> = map (closed_agent now) (own_agents i d)" by (auto simp: upd_def)
  finally show ?thesis .
qed

lemma erase_empties:
  assumes "erase_account chain i now d = Some d'"
  shows "account_emptied i d'"
proof -
  note t = erase_account_tables [OF assms]
  have "ag_revoked_at a \<noteq> None \<and> ag_hashed_token a = [] \<and> ag_upstream_password a = None \<and> ag_oauth2_refresh_token a = None
      \<and> ag_oauth2_access_token a = None \<and> ag_oauth2_client_secret a = None"
    if "a \<in> set (db_agents d')" "ag_user_id a = i" for a
  proof -
    have "a \<in> set (own_agents i d')" using that by (simp add: own_agents_def)
    then show ?thesis unfolding own_agents_after [OF assms] by (auto simp: closed_agent_def without_secrets_def)
  qed
  moreover have "op_owned d' i r = op_owned d i r" for r
    unfolding op_owned_ids own_agents_after [OF assms]
    by (simp add: image_image closed_agent_def without_secrets_def split: option.split)
  then have "op_status r \<noteq> Pending" if "r \<in> set (db_ops d')" "op_owned d' i r" for r
    using that by (auto simp: t(3) set_upd own_pending_def op_owned_ids cancelled_op_def split: if_splits option.splits)
  moreover have "us_email u = tombstone_email i \<and> us_display_name u = None \<and> us_hashed_password u = []
      \<and> us_api_token u = None \<and> us_reset_token u = None" if mine: "u \<in> set (db_users d')" "us_id u = i" for u
  proof -
    obtain r where "u = erased_user i now r" using mine by (auto simp: t(1) set_upd split: if_splits)
    then show ?thesis by (simp add: erased_user_def)
  qed
  ultimately show ?thesis by (auto simp: account_emptied_def t(4))
qed

text \<open>C12: a deleted account is over.  The deletion revokes its agents, clears their tokens and stored secrets,
  cancels its pending operations, drops its push subscriptions and replaces what identifies the person; and from
  then on, whatever requests follow, no bearer token identifies the account and none of its agents logs in or
  has an operation executed.\<close>

theorem deleted_account_is_over:
  assumes "accounts_wf (ap_db st)" "u \<in> set (db_users (ap_db st))"
    and "delete_account sv pw now u st = (Inr (), st')"
  shows "account_emptied (us_id u) (ap_db st') \<and> locked_out (us_id u) (ap_db (fold (serve sv) rqs st'))"
proof -
  have e: "erase_account (si_chain sv) (us_id u) now (ap_db st) = Some (ap_db st')"
    using assms(3) by (auto simp: delete_account_def use_vault_def split: option.splits prod.splits bool.splits)
  note t = erase_account_tables [OF e]
  have "us_id u \<le> db_user_seq (ap_db st)" using assms(1,2) by (auto simp: accounts_wf_def users_wf_def)
  then have "account_closed (us_id u) (ap_db st')"
    by (auto simp: account_closed_def t(1,9) set_upd erased_user_def split: if_splits)
  then show ?thesis using erase_empties [OF e] closed_locked_out closed_fold by blast
qed

section \<open>Observations\<close>

text \<open>
  An address is not checked on registration.  Whoever holds the address another account's tombstone would get
  keeps that account from being deleted: the statement is refused and the database stays as it was, although the
  account's upstream secrets are gone by then.
\<close>

lemma tombstone_squatted:
  assumes "v \<in> set (db_users (ap_db st))" "us_id v \<noteq> us_id u" "us_email v = tombstone_email (us_id u)"
  shows "fst (delete_account sv pw now u st) \<noteq> Inr () \<and> ap_db (snd (delete_account sv pw now u st)) = ap_db st"
proof -
  have "erase_account (si_chain sv) (us_id u) now (ap_db st) = None"
    using assms by (auto simp: erase_account_def Let_def list_ex_iff)
  then show ?thesis by (auto simp: delete_account_def use_vault_def split: option.split prod.split bool.split)
qed

text \<open>A password reset leaves the bearer token of the account as it is.\<close>

lemma reset_keeps_token:
  "map us_api_token (db_users (ap_db (snd (reset_password sv k tok new now st)))) = map us_api_token (db_users (ap_db st))"
  by (auto simp: reset_password_def split: option.split intro!: map_upd_key)

section \<open>Concrete instances\<close>

definition sample_site :: site where
  "sample_site =
     \<lparr>si_digest = id, si_chain = (\<lambda>s. [length s]), si_bcrypt = (\<lambda>n k p. Some p), si_verify = (\<lambda>p h. Some (p = h)),
      si_vars = Map.empty, si_abuse = sample_abuse_config, si_keys = sample_keyring,
      si_imap = (\<lambda>h p u w. \<lparr>tr_connect = None, tr_login = None, tr_select = Inr ''OK''\<rparr>), si_quota = (\<lambda>u n. None)\<rparr>"

definition sample_api :: api where
  "sample_api = \<lparr>ap_db = sample_auth_db\<lparr>db_user_seq := 1, db_agent_seq := 1\<rparr>, ap_abuse = fresh_abuse_state,
     ap_seen = Map.empty, ap_vault = fresh_vault\<rparr>"

lemma sample_api_wf: "accounts_wf (ap_db sample_api)"
  by (simp add: accounts_wf_def users_wf_def agents_wf_def one_holder_def sample_api_def sample_auth_db_def sample_user_def
      sample_agent_def empty_db_def)

lemma sample_user_id: "us_id sample_user = 1"
  by (simp add: sample_user_def)

lemma sample_user_in: "sample_user \<in> set (db_users (ap_db sample_api))"
  by (simp add: sample_api_def sample_auth_db_def)



lemma deleted_account_is_over_witness:
  "locked_out 1 (ap_db (fold (serve sample_site) [(9, Reset_request ''deleted+1@nuvrail.invalid'' [1])]
     (snd (delete_account sample_site ''h'' 5 sample_user sample_api))))"
proof -
  have "fst (delete_account sample_site ''h'' 5 sample_user sample_api) = Inr ()" by code_simp
  then have "delete_account sample_site ''h'' 5 sample_user sample_api
      = (Inr (), snd (delete_account sample_site ''h'' 5 sample_user sample_api))"
    by (metis prod.collapse)
  from deleted_account_is_over [OF sample_api_wf _ this] show ?thesis
    using sample_user_in unfolding sample_user_id by blast
qed

end
