(* ===== verification/Audit_Routes.thy ===== *)
theory Audit_Routes
  imports Account_Laws Json
begin

text \<open>
  The audit log as its owner reads it (\<open>api/routes/audit.py\<close>): the filtered and paged list, the list of one agent, the
  export, a single entry and the verification summary.  Each reads the log joined with the operations and agents; a
  row of the join is an \<open>audit_entry\<close>.
\<close>

section \<open>Joined rows\<close>

record audit_entry =
  en_id :: nat
  en_timestamp :: int
  en_operation_id :: "string option"
  en_event :: string
  en_actor :: "string option"
  en_agent_id :: "nat option"
  en_agent_label :: "string option"
  en_detail :: "(string \<times> json) list option"
  en_op_description :: "string option"
  en_op_type :: "string option"
  en_op_protocol :: "string option"
  en_op_status :: "status option"
  en_undo_expires_at :: "int option"
  en_intent_label :: "string option"

definition coalesce :: "'a option \<Rightarrow> 'a option \<Rightarrow> 'a option" where
  "coalesce x y = (case x of Some v \<Rightarrow> Some v | None \<Rightarrow> y)"

text \<open>The three left joins: on keys, so each gives one row or none.\<close>

definition joined_op :: "db \<Rightarrow> audit_row \<Rightarrow> op_row option" where
  "joined_op d a = Option.bind (au_operation_id a) (\<lambda>i. List.find (\<lambda>r. op_id r = i) (db_ops d))"

definition agent_with_id :: "db \<Rightarrow> nat option \<Rightarrow> agent_row option" where
  "agent_with_id d x = Option.bind x (\<lambda>i. List.find (\<lambda>g. ag_id g = i) (db_agents d))"

definition joined_agent :: "db \<Rightarrow> audit_row \<Rightarrow> agent_row option" where
  "joined_agent d a = agent_with_id d (au_agent_id a)"

definition joined_op_agent :: "db \<Rightarrow> audit_row \<Rightarrow> agent_row option" where
  "joined_op_agent d a = agent_with_id d (Option.bind (joined_op d a) op_agent_id)"

text \<open>
  The stored detail is parsed again; a text that is no JSON is dropped, one that is no object is refused by the response
  model, and the request fails.
\<close>

definition parse_detail :: "detail option \<Rightarrow> (string \<times> json) list option option" where
  "parse_detail x =
     (case x of
        None \<Rightarrow> Some None
      | Some t \<Rightarrow>
          (case json_loads (detail_text t) of
             None \<Rightarrow> Some None
           | Some J_null \<Rightarrow> Some None
           | Some (J_obj kvs) \<Rightarrow> Some (Some kvs)
           | Some _ \<Rightarrow> None))"

definition row_to_entry :: "db \<Rightarrow> audit_row \<Rightarrow> audit_entry option" where
  "row_to_entry d a =
     map_option (\<lambda>kvs.
       \<lparr>en_id = au_id a, en_timestamp = au_timestamp a, en_operation_id = au_operation_id a, en_event = au_event a,
        en_actor = au_actor a, en_agent_id = coalesce (au_agent_id a) (Option.bind (joined_op d a) op_agent_id),
        en_agent_label = coalesce (map_option ag_label (joined_agent d a)) (map_option ag_label (joined_op_agent d a)),
        en_detail = kvs, en_op_description = map_option op_description (joined_op d a),
        en_op_type = map_option op_type (joined_op d a), en_op_protocol = map_option op_protocol (joined_op d a),
        en_op_status = map_option op_status (joined_op d a),
        en_undo_expires_at = Option.bind (joined_op d a) op_undo_expires_at,
        en_intent_label = coalesce (au_intent_label a) (Option.bind (joined_op d a) op_intent_label)\<rparr>)
     (parse_detail (au_detail a))"

fun rows_to_entries :: "db \<Rightarrow> audit_row list \<Rightarrow> audit_entry list option" where
  "rows_to_entries d [] = Some []"
| "rows_to_entries d (a # rows) =
     Option.bind (row_to_entry d a) (\<lambda>e. map_option ((#) e) (rows_to_entries d rows))"

section \<open>Conditions\<close>

definition own_entry :: "db \<Rightarrow> nat \<Rightarrow> audit_row \<Rightarrow> bool" where
  "own_entry d u a \<longleftrightarrow> map_option ag_user_id (joined_agent d a) = Some u
     \<or> (au_agent_id a = None \<and> joined_op d a \<noteq> None
        \<and> list_ex (\<lambda>op2. au_operation_id a = Some (op_id op2)
            \<and> list_ex (\<lambda>ac2. op_agent_id op2 = Some (ag_id ac2) \<and> ag_user_id ac2 = u) (db_agents d)) (db_ops d))"

definition of_agent :: "db \<Rightarrow> nat \<Rightarrow> audit_row \<Rightarrow> bool" where
  "of_agent d i a \<longleftrightarrow> au_agent_id a = Some i \<or> (au_agent_id a = None \<and> Option.bind (joined_op d a) op_agent_id = Some i)"

text \<open>SQL's \<open>LIKE\<close>: \<open>%\<close> is any text, \<open>_\<close> any one character; ASCII letters match in either case.\<close>

definition next_char :: "string \<Rightarrow> string" where
  "next_char s = dropWhile continuation (tl s)"

lemma next_char_shorter [termination_simp]: "s \<noteq> [] \<Longrightarrow> length (next_char s) < length s"
  using length_dropWhile_le [of continuation "tl s"] by (cases s) (auto simp: next_char_def)

function sql_like :: "string \<Rightarrow> string \<Rightarrow> bool" where
  "sql_like [] s = (s = [])"
| "sql_like (p # ps) s =
     (if p = CHR ''%'' then sql_like ps s \<or> (if s = [] then False else sql_like (p # ps) (next_char s))
      else if s = [] then False
      else if p = CHR ''_'' then sql_like ps (next_char s)
      else lower_char p = lower_char (hd s) \<and> sql_like ps (tl s))"
  by pat_completeness auto
termination by (relation "measure (\<lambda>(p, s). length p + length s)") (auto dest: next_char_shorter)

record audit_filter =
  fi_event :: "string option"
  fi_actor :: "string option"
  fi_agent_id :: "nat option"
  fi_op_type :: "string option"
  fi_intent :: "string option"
  fi_since :: "int option"
  fi_until :: "int option"
  fi_search :: "string option"

definition no_filter :: audit_filter where
  "no_filter = \<lparr>fi_event = None, fi_actor = None, fi_agent_id = None, fi_op_type = None, fi_intent = None,
     fi_since = None, fi_until = None, fi_search = None\<rparr>"

definition given :: "'a option \<Rightarrow> ('a \<Rightarrow> bool) \<Rightarrow> bool" where
  "given x P = (case x of None \<Rightarrow> True | Some v \<Rightarrow> P v)"

definition passes :: "db \<Rightarrow> nat \<Rightarrow> audit_filter \<Rightarrow> audit_row \<Rightarrow> bool" where
  "passes d u f a \<longleftrightarrow> own_entry d u a
     \<and> given (fi_event f) (\<lambda>v. au_event a = v)
     \<and> given (fi_actor f) (\<lambda>v. au_actor a = Some v)
     \<and> given (fi_agent_id f) (\<lambda>v. of_agent d v a)
     \<and> given (fi_op_type f) (\<lambda>v. coalesce (au_op_type a) (map_option op_type (joined_op d a)) = Some v)
     \<and> given (fi_intent f) (\<lambda>v. coalesce (au_intent_label a) (Option.bind (joined_op d a) op_intent_label) = Some v)
     \<and> given (fi_since f) (\<lambda>v. v \<le> au_timestamp a)
     \<and> given (fi_until f) (\<lambda>v. au_timestamp a \<le> v)
     \<and> given (fi_search f) (\<lambda>v. py_strip v \<noteq> [] \<longrightarrow>
         (case joined_op d a of None \<Rightarrow> False | Some r \<Rightarrow> sql_like (''%'' @ py_strip v @ ''%'') (op_description r)))"

section \<open>Routes\<close>

definition bad_page :: "int \<Rightarrow> int \<Rightarrow> bool" where
  "bad_page lim off \<longleftrightarrow> lim < 1 \<or> 500 < lim \<or> off < 0"

definition page_of :: "db \<Rightarrow> (audit_row \<Rightarrow> bool) \<Rightarrow> int \<Rightarrow> int \<Rightarrow> api_error + (audit_entry list \<times> nat)" where
  "page_of d P lim off =
     (let rows = rev (filter P (db_audit d))
      in case rows_to_entries d (take (nat lim) (drop (nat off) rows)) of
        None \<Rightarrow> Inl Unhandled
      | Some es \<Rightarrow> Inr (es, length rows))"

definition list_audit :: "int \<Rightarrow> int \<Rightarrow> audit_filter \<Rightarrow> nat \<Rightarrow> db \<Rightarrow> api_error + (audit_entry list \<times> nat)" where
  "list_audit lim off f u d =
     (if bad_page lim off \<or> fi_agent_id f = Some 0 then Inl (Http 422 ''invalid query'')
      else page_of d (passes d u f) lim off)"

definition agent_scope :: "db \<Rightarrow> nat \<Rightarrow> nat \<Rightarrow> audit_row \<Rightarrow> bool" where
  "agent_scope d i u a \<longleftrightarrow> of_agent d i a
     \<and> (map_option ag_user_id (joined_agent d a) = Some u \<or> map_option ag_user_id (joined_op_agent d a) = Some u
        \<or> (au_agent_id a = None \<and> Option.bind (joined_op d a) op_agent_id = None))"

definition get_agent_audit :: "nat \<Rightarrow> int \<Rightarrow> int \<Rightarrow> nat \<Rightarrow> db \<Rightarrow> api_error + (audit_entry list \<times> nat)" where
  "get_agent_audit i lim off u d =
     (if bad_page lim off then Inl (Http 422 ''invalid query'')
      else if \<not> list_ex (\<lambda>g. ag_id g = i \<and> ag_user_id g = u \<and> ag_revoked_at g = None) (db_agents d)
      then Inl (Http 404 (''Agent '' @ str_of_nat i @ '' not found''))
      else page_of d (agent_scope d i u) lim off)"

definition export_audit :: "nat option \<Rightarrow> nat \<Rightarrow> db \<Rightarrow> api_error + (audit_entry list \<times> nat)" where
  "export_audit i u d =
     (if i = Some 0 then Inl (Http 422 ''invalid query'')
      else case rows_to_entries d (filter (\<lambda>a. own_entry d u a \<and> given i (\<lambda>v. of_agent d v a)) (db_audit d)) of
        None \<Rightarrow> Inl Unhandled
      | Some es \<Rightarrow> Inr (es, length es))"

definition get_audit_entry :: "nat \<Rightarrow> nat \<Rightarrow> db \<Rightarrow> api_error + audit_entry" where
  "get_audit_entry i u d =
     (case List.find (\<lambda>a. au_id a = i \<and> own_entry d u a) (db_audit d) of
        None \<Rightarrow> Inl (Http 404 (''Audit entry '' @ str_of_nat i @ '' not found''))
      | Some a \<Rightarrow> (case row_to_entry d a of None \<Rightarrow> Inl Unhandled | Some e \<Rightarrow> Inr e))"

record verification_summary =
  vs_ok :: bool
  vs_chain_ok :: bool
  vs_broken_count :: nat
  vs_chain_head :: "string option"
  vs_anchor_ok :: bool
  vs_anchoring_enabled :: bool
  vs_last_anchored_at :: "int option"
  vs_verified_at :: int

definition verify_audit :: "(string \<Rightarrow> nat list) \<Rightarrow> anchor option list \<Rightarrow> int \<Rightarrow> db \<Rightarrow> verification_summary" where
  "verify_audit digest sink now d =
     (let (ok, errors) = verify_audit_chain digest d; anchor_ok = verify_against_anchor sink d; last = read_last_anchor sink
      in \<lparr>vs_ok = (ok \<and> anchor_ok), vs_chain_ok = ok, vs_broken_count = length errors, vs_chain_head = get_chain_head d,
          vs_anchor_ok = anchor_ok, vs_anchoring_enabled = (last \<noteq> None),
          vs_last_anchored_at = map_option an_anchored_at last, vs_verified_at = now\<rparr>)"

section \<open>Laws\<close>

lemma rows_to_entries_rel: "rows_to_entries d rows = Some es \<longleftrightarrow> list_all2 (\<lambda>a e. row_to_entry d a = Some e) rows es"
proof (induction rows arbitrary: es)
  case (Cons a rows)
  then show ?case by (cases es) (auto simp: bind_eq_Some_conv)
qed auto

lemma rows_to_entries_in:
  assumes "rows_to_entries d rows = Some es" "e \<in> set es"
  shows "\<exists>a \<in> set rows. row_to_entry d a = Some e"
  using assms by (auto simp: rows_to_entries_rel list_all2_conv_all_nth in_set_conv_nth) (metis nth_mem)

lemma joined_agent_in: "joined_agent d a = Some g \<Longrightarrow> g \<in> set (db_agents d) \<and> au_agent_id a = Some (ag_id g)"
  by (auto simp: joined_agent_def agent_with_id_def bind_eq_Some_conv dest: find_Some_in)

lemma joined_op_agent_in:
  "joined_op_agent d a = Some g \<Longrightarrow> g \<in> set (db_agents d) \<and> Option.bind (joined_op d a) op_agent_id = Some (ag_id g)"
  by (auto simp: joined_op_agent_def agent_with_id_def bind_eq_Some_conv dest: find_Some_in)

definition own_view :: "nat \<Rightarrow> db \<Rightarrow> audit_entry \<Rightarrow> bool" where
  "own_view u d e \<longleftrightarrow>
     list_ex (\<lambda>g. en_agent_id e = Some (ag_id g) \<and> en_agent_label e = Some (ag_label g)) (own_agents u d)"

definition keys_unique :: "db \<Rightarrow> bool" where
  "keys_unique d \<longleftrightarrow> accounts_wf d \<and> distinct (map op_id (db_ops d)) \<and> distinct (map au_id (db_audit d))"

lemma agent_of_key:
  assumes "accounts_wf d" "g \<in> set (db_agents d)"
  shows "agent_with_id d (Some (ag_id g)) = Some g"
  using assms find_distinct_key [of ag_id "db_agents d" g] by (simp add: agent_with_id_def accounts_wf_def agents_wf_def)

text \<open>A row of the caller's: by its own agent, or without one by its operation's.\<close>

lemma own_entry_cases:
  assumes "keys_unique d" "own_entry d u a"
  shows "(\<exists>g. joined_agent d a = Some g \<and> ag_user_id g = u)
    \<or> (au_agent_id a = None \<and> (\<exists>g. joined_op_agent d a = Some g \<and> ag_user_id g = u))"
  using assms(2) unfolding own_entry_def
proof
  assume "au_agent_id a = None \<and> joined_op d a \<noteq> None
        \<and> list_ex (\<lambda>op2. au_operation_id a = Some (op_id op2)
            \<and> list_ex (\<lambda>ac2. op_agent_id op2 = Some (ag_id ac2) \<and> ag_user_id ac2 = u) (db_agents d)) (db_ops d)"
  then obtain r g where r: "au_agent_id a = None" "r \<in> set (db_ops d)" "au_operation_id a = Some (op_id r)"
    "g \<in> set (db_agents d)" "op_agent_id r = Some (ag_id g)" "ag_user_id g = u"
    by (auto simp: list_ex_iff)
  have "joined_op d a = Some r"
    using assms(1) r find_distinct_key [of op_id "db_ops d" r] by (simp add: joined_op_def keys_unique_def)
  then have "joined_op_agent d a = Some g"
    using assms(1) r agent_of_key by (simp add: joined_op_agent_def keys_unique_def)
  then show ?thesis using r by blast
qed auto

lemma entry_agent:
  assumes "row_to_entry d a = Some e"
  shows "joined_agent d a = Some g \<Longrightarrow> en_agent_id e = Some (ag_id g) \<and> en_agent_label e = Some (ag_label g)"
    "au_agent_id a = None \<Longrightarrow> joined_op_agent d a = Some g \<Longrightarrow>
      en_agent_id e = Some (ag_id g) \<and> en_agent_label e = Some (ag_label g)"
proof -
  have e: "en_agent_id e = coalesce (au_agent_id a) (Option.bind (joined_op d a) op_agent_id)"
    "en_agent_label e = coalesce (map_option ag_label (joined_agent d a)) (map_option ag_label (joined_op_agent d a))"
    using assms by (auto simp: row_to_entry_def)
  show "joined_agent d a = Some g \<Longrightarrow> en_agent_id e = Some (ag_id g) \<and> en_agent_label e = Some (ag_label g)"
    using joined_agent_in [of d a g] by (simp add: e coalesce_def)
  assume n: "au_agent_id a = None" "joined_op_agent d a = Some g"
  then have "joined_agent d a = None" by (simp add: joined_agent_def agent_with_id_def)
  then show "en_agent_id e = Some (ag_id g) \<and> en_agent_label e = Some (ag_label g)"
    using n joined_op_agent_in [OF n(2)] by (simp add: e coalesce_def)
qed

lemma own_entry_view:
  assumes "keys_unique d" "own_entry d u a" "row_to_entry d a = Some e"
  shows "own_view u d e"
  using own_entry_cases [OF assms(1,2)] entry_agent [OF assms(3)] joined_agent_in joined_op_agent_in
  unfolding own_view_def list_ex_iff own_agents_def by fastforce

text \<open>For an agent of the caller's the two scopes agree.\<close>

lemma own_agent_scope:
  assumes "keys_unique d" "g \<in> set (db_agents d)" "ag_user_id g = u"
  shows "agent_scope d (ag_id g) u a \<longleftrightarrow> own_entry d u a \<and> of_agent d (ag_id g) a"
proof (cases "of_agent d (ag_id g) a")
  case True
  have g: "agent_with_id d (Some (ag_id g)) = Some g" using assms agent_of_key by (simp add: keys_unique_def)
  show ?thesis
  proof (cases "au_agent_id a")
    case None
    then have b: "Option.bind (joined_op d a) op_agent_id = Some (ag_id g)" using True by (simp add: of_agent_def)
    then have "joined_op_agent d a = Some g" by (simp add: joined_op_agent_def g)
    moreover obtain r where "joined_op d a = Some r" "op_agent_id r = Some (ag_id g)" using b by (auto simp: bind_eq_Some_conv)
    moreover have "r \<in> set (db_ops d) \<and> au_operation_id a = Some (op_id r)"
      using \<open>joined_op d a = Some r\<close> by (auto simp: joined_op_def bind_eq_Some_conv dest: find_Some_in)
    ultimately show ?thesis using True None assms(2,3) by (auto simp: agent_scope_def own_entry_def list_ex_iff)
  next
    case (Some i)
    then have "joined_agent d a = Some g" using True g by (simp add: of_agent_def joined_agent_def)
    then show ?thesis using True assms(3) by (simp add: agent_scope_def own_entry_def)
  qed
qed (simp add: agent_scope_def)

definition audit_read :: "nat \<Rightarrow> db \<Rightarrow> audit_entry list \<Rightarrow> bool" where
  "audit_read u d es \<longleftrightarrow> (\<exists>n lim off f. list_audit lim off f u d = Inr (es, n))
     \<or> (\<exists>n i lim off. get_agent_audit i lim off u d = Inr (es, n))
     \<or> (\<exists>n i. export_audit i u d = Inr (es, n))
     \<or> (\<exists>i e. get_audit_entry i u d = Inr e \<and> es = [e])"

lemma page_views:
  assumes "keys_unique d" "page_of d P lim off = Inr (es, n)" "\<And>a. P a \<Longrightarrow> own_entry d u a"
  shows "list_all (own_view u d) es"
proof -
  have "rows_to_entries d (take (nat lim) (drop (nat off) (rev (filter P (db_audit d))))) = Some es"
    using assms(2) by (simp add: page_of_def Let_def split: option.splits)
  then show ?thesis
    unfolding list_all_iff using own_entry_view [OF assms(1) assms(3)]
    by (fastforce dest!: rows_to_entries_in in_set_takeD in_set_dropD)
qed

text \<open>C13: 
  C0: Whatever route an account reads the audit log by, and with whatever filters, every entry it is shown carries one of
  its own agents and that agent's label: no entry of another tenant is ever returned.
\<close>

theorem audit_within_tenant:
  assumes "keys_unique d" "audit_read u d es"
  shows "list_all (own_view u d) es"
  using assms(2) unfolding audit_read_def
proof (elim disjE exE conjE)
  fix n lim off f assume "list_audit lim off f u d = Inr (es, n)"
  then have "page_of d (passes d u f) lim off = Inr (es, n)" by (simp add: list_audit_def split: if_splits)
  then show ?thesis by (rule page_views [OF assms(1)]) (simp add: passes_def)
next
  fix n i lim off assume r: "get_agent_audit i lim off u d = Inr (es, n)"
  then obtain g where g: "g \<in> set (db_agents d)" "ag_id g = i" "ag_user_id g = u"
    by (auto simp: get_agent_audit_def list_ex_iff split: if_splits)
  show ?thesis
    by (rule page_views [OF assms(1), where n = n and lim = lim and off = off and P = "agent_scope d i u"])
      (use r own_agent_scope [OF assms(1) g(1,3)] g(2) in \<open>simp_all add: get_agent_audit_def split: if_splits\<close>)
next
  fix n i assume "export_audit i u d = Inr (es, n)"
  then show ?thesis
    using own_entry_view [OF assms(1)]
    by (auto simp: export_audit_def list_all_iff split: if_splits option.splits dest!: rows_to_entries_in)
next
  fix i e assume "get_audit_entry i u d = Inr e" "es = [e]"
  then show ?thesis
    using own_entry_view [OF assms(1)] by (auto simp: get_audit_entry_def split: option.splits dest!: find_Some_in)
qed

lemma row_entry_id: "row_to_entry d a = Some e \<Longrightarrow> en_id e = au_id a"
  by (auto simp: row_to_entry_def)

lemma find_own_entry:
  assumes "keys_unique d" "a \<in> set (db_audit d)" "own_entry d u a"
  shows "List.find (\<lambda>x. au_id x = au_id a \<and> own_entry d u x) (db_audit d) = Some a"
proof -
  have "distinct (map au_id (filter (own_entry d u) (db_audit d)))"
    using assms(1) by (simp add: keys_unique_def distinct_map_filter)
  then have "List.find (\<lambda>x. au_id x = au_id a) (filter (own_entry d u) (db_audit d)) = Some a"
    using assms(2,3) by (intro find_distinct_key) auto
  moreover have "List.find P (filter Q xs) = List.find (\<lambda>x. P x \<and> Q x) xs" for P Q and xs :: "audit_row list"
    by (induction xs) auto
  ultimately show ?thesis by simp
qed

text \<open>C37: 
  C0: The reads of the audit log agree. The pages of the list are the export newest first, cut at the offset and the
  limit, with the export's total; every exported entry is what its id is looked up to; and the log of an active
  agent of the caller's is the list filtered by that agent.
\<close>

theorem audit_reads_agree:
  assumes "keys_unique d" "export_audit i u d = Inr (es, n)" "\<not> bad_page lim off"
  shows "list_audit lim off (no_filter\<lparr>fi_agent_id := i\<rparr>) u d = Inr (take (nat lim) (drop (nat off) (rev es)), n)
    \<and> list_all (\<lambda>e. get_audit_entry (en_id e) u d = Inr e) es
    \<and> (\<forall>g \<in> set (own_agents u d). i = Some (ag_id g) \<and> ag_revoked_at g = None \<longrightarrow>
         get_agent_audit (ag_id g) lim off u d = list_audit lim off (no_filter\<lparr>fi_agent_id := i\<rparr>) u d)"
proof (intro conjI ballI impI)
  let ?P = "\<lambda>a. own_entry d u a \<and> given i (\<lambda>v. of_agent d v a)"
  have i: "i \<noteq> Some 0" and rel: "list_all2 (\<lambda>a e. row_to_entry d a = Some e) (filter ?P (db_audit d)) es" and n: "n = length es"
    using assms(2) by (auto simp: export_audit_def rows_to_entries_rel split: if_splits option.splits)
  have P: "passes d u (no_filter\<lparr>fi_agent_id := i\<rparr>) = ?P"
    by (auto simp: passes_def no_filter_def given_def fun_eq_iff)
  have "rows_to_entries d (take (nat lim) (drop (nat off) (rev (filter ?P (db_audit d)))))
      = Some (take (nat lim) (drop (nat off) (rev es)))"
    using rel by (simp add: rows_to_entries_rel list_all2_takeI list_all2_dropI del: rev_filter)
  then show list: "list_audit lim off (no_filter\<lparr>fi_agent_id := i\<rparr>) u d = Inr (take (nat lim) (drop (nat off) (rev es)), n)"
    using assms(3) i list_all2_lengthD [OF rel]
    by (simp add: list_audit_def page_of_def Let_def P n)
  show "list_all (\<lambda>e. get_audit_entry (en_id e) u d = Inr e) es"
    unfolding list_all_iff
  proof
    fix e assume "e \<in> set es"
    then obtain a where "a \<in> set (filter ?P (db_audit d))" "row_to_entry d a = Some e"
      using rows_to_entries_in rel [folded rows_to_entries_rel] by blast
    then show "get_audit_entry (en_id e) u d = Inr e"
      using find_own_entry [OF assms(1)] by (simp add: get_audit_entry_def row_entry_id)
  qed
  fix g assume "g \<in> set (own_agents u d)" and g: "i = Some (ag_id g) \<and> ag_revoked_at g = None"
  then have own: "g \<in> set (db_agents d)" "ag_user_id g = u" by (simp_all add: own_agents_def)
  then have "list_ex (\<lambda>x. ag_id x = ag_id g \<and> ag_user_id x = u \<and> ag_revoked_at x = None) (db_agents d)"
    using g by (auto simp: list_ex_iff)
  then have "get_agent_audit (ag_id g) lim off u d = page_of d ?P lim off"
    using assms(3) g ext [of "agent_scope d (ag_id g) u", OF own_agent_scope [OF assms(1) own]]
    by (simp add: get_agent_audit_def given_def)
  moreover have "list_audit lim off (no_filter\<lparr>fi_agent_id := i\<rparr>) u d = page_of d ?P lim off"
    using assms(3) i by (simp add: list_audit_def P)
  ultimately show "get_agent_audit (ag_id g) lim off u d = list_audit lim off (no_filter\<lparr>fi_agent_id := i\<rparr>) u d"
    by simp
qed

text \<open>Observation: an event of the account itself has neither an agent nor an operation, and is shown to nobody.\<close>

lemma account_events_hidden: "\<not> own_entry d u (event_row k h (account_event name now u))"
  by (simp add: own_entry_def event_row_def account_event_def joined_agent_def agent_with_id_def joined_op_def)

text \<open>Observation: the search text is a pattern, so an underscore in it matches anything.\<close>

lemma search_is_pattern: "sql_like ''%a_b%'' ''Move aXb'' \<and> \<not> sql_like ''%a_b%'' ''Move ab''"
  by code_simp

section \<open>Concrete instances\<close>

definition sample_audit_db :: db where
  "sample_audit_db = (ap_db sample_api)\<lparr>db_audit :=
     [event_row 1 [] (sample_event 3) , event_row 2 [] (account_event ''login'' 4 1)]\<rparr>"

lemma sample_audit_wf: "keys_unique sample_audit_db"
  using sample_api_wf
  by (simp add: keys_unique_def accounts_wf_def sample_audit_db_def sample_api_def sample_auth_db_def empty_db_def event_row_def)

lemma sample_export: "\<exists>es. export_audit None 1 sample_audit_db = Inr (es, 1)"
proof -
  have "case export_audit None 1 sample_audit_db of Inr (es, n) \<Rightarrow> n = 1 | Inl e \<Rightarrow> False" by code_simp
  then show ?thesis by (auto split: sum.splits prod.splits)
qed

lemma audit_within_tenant_witness:
  "\<exists>es. export_audit None 1 sample_audit_db = Inr (es, 1) \<and> list_all (own_view 1 sample_audit_db) es"
  using sample_export audit_within_tenant [OF sample_audit_wf, where u = 1] unfolding audit_read_def by blast

lemma audit_reads_agree_witness:
  "\<exists>es. list_audit 50 0 (no_filter\<lparr>fi_agent_id := None\<rparr>) 1 sample_audit_db = Inr (take 50 (rev es), 1)"
proof -
  obtain es where "export_audit None 1 sample_audit_db = Inr (es, 1)" using sample_export by blast
  from audit_reads_agree [OF sample_audit_wf this, where lim = 50 and off = 0] show ?thesis
    by (auto simp: bad_page_def)
qed

end
