(* ===== verification/Retention.thy ===== *)
theory Retention
  imports Account_Laws
begin

text \<open>
  The hard purge of the accounts deleted long ago (\<open>gateway/retention.py\<close>), on the tables of the accounts: which
  accounts are due, what goes with one, and a pass over a batch of them.
\<close>

section \<open>The retention purge\<close>

definition RETENTION_BATCH_SIZE :: nat where "RETENTION_BATCH_SIZE = 100"

definition purge_due :: "int \<Rightarrow> user_row \<Rightarrow> bool" where
  "purge_due cutoff u \<longleftrightarrow> (case us_deleted_at u of None \<Rightarrow> False | Some t \<Rightarrow> t \<le> cutoff)"

text \<open>\<open>window\<close>: the retention time in seconds.\<close>

definition find_purgeable_users :: "int \<Rightarrow> int \<Rightarrow> db \<Rightarrow> nat list" where
  "find_purgeable_users window now d =
     map us_id (take RETENTION_BATCH_SIZE
       (sort_key (\<lambda>u. the_default 0 (us_deleted_at u)) (filter (purge_due (now - window)) (db_users d))))"

text \<open>The deletions of one account's transaction, children before parents.\<close>

definition purge_rows :: "nat \<Rightarrow> db \<Rightarrow> db" where
  "purge_rows i d =
     (let agent_ids = map ag_id (own_agents i d);
          op_ids = map op_id (filter (\<lambda>r. case op_agent_id r of None \<Rightarrow> False | Some a \<Rightarrow> a \<in> set agent_ids) (db_ops d));
          d1 = d\<lparr>db_reverts := filter (\<lambda>r. rv_operation_id r \<notin> set op_ids) (db_reverts d)\<rparr>;
          d2 = d1\<lparr>db_ops := filter (\<lambda>r. op_id r \<notin> set op_ids) (db_ops d1)\<rparr>;
          d3 = d2\<lparr>db_audit := filter (\<lambda>r. au_user_id r \<noteq> Some i) (db_audit d2)\<rparr>;
          d4 = d3\<lparr>db_rules := filter (\<lambda>r. ru_user_id r \<noteq> Some i) (db_rules d3)\<rparr>;
          d5 = d4\<lparr>db_push := filter (\<lambda>p. pu_user_id p \<noteq> Some i) (db_push d4)\<rparr>;
          folder_ids = map fo_id (filter (\<lambda>f. fo_user_id f = Some i) (db_folders d5));
          d6 = d5\<lparr>db_messages := filter (\<lambda>m. me_folder_id m \<notin> set folder_ids) (db_messages d5)\<rparr>;
          d7 = d6\<lparr>db_folders := filter (\<lambda>f. fo_user_id f \<noteq> Some i) (db_folders d6)\<rparr>;
          d8 = d7\<lparr>db_agents := filter (\<lambda>a. ag_user_id a \<noteq> i) (db_agents d7)\<rparr>
      in d8\<lparr>db_users := filter (\<lambda>u. us_id u \<noteq> i) (db_users d8)\<rparr>)"

definition purge_user :: "keyring \<Rightarrow> nat \<Rightarrow> api \<Rightarrow> api" where
  "purge_user env i st =
     st\<lparr>ap_vault := snd (purge_each env (own_agents i (ap_db st)) (ap_vault st)), ap_db := purge_rows i (ap_db st)\<rparr>"

definition purge_expired_deleted_users :: "keyring \<Rightarrow> int \<Rightarrow> int \<Rightarrow> api \<Rightarrow> nat \<times> api" where
  "purge_expired_deleted_users env window now st =
     (let ids = find_purgeable_users window now (ap_db st) in (length ids, fold (purge_user env) ids st))"

section \<open>What a purge removes\<close>

text \<open>Everything that belongs to one of a set of accounts.\<close>

definition in_agents :: "nat set \<Rightarrow> db \<Rightarrow> op_row \<Rightarrow> bool" where
  "in_agents I d r \<longleftrightarrow> (case op_agent_id r of None \<Rightarrow> False
     | Some a \<Rightarrow> \<exists>g \<in> set (db_agents d). ag_id g = a \<and> ag_user_id g \<in> I)"

definition ops_of :: "nat set \<Rightarrow> db \<Rightarrow> string set" where
  "ops_of I d = op_id ` {r \<in> set (db_ops d). in_agents I d r}"

definition folders_of :: "nat set \<Rightarrow> db \<Rightarrow> nat set" where
  "folders_of I d = fo_id ` {f \<in> set (db_folders d). fo_user_id f \<in> Some ` I}"

definition without_accounts :: "nat set \<Rightarrow> db \<Rightarrow> db" where
  "without_accounts I d =
     d\<lparr>db_reverts := filter (\<lambda>r. rv_operation_id r \<notin> ops_of I d) (db_reverts d),
       db_ops := filter (\<lambda>r. op_id r \<notin> ops_of I d) (db_ops d),
       db_audit := filter (\<lambda>r. au_user_id r \<notin> Some ` I) (db_audit d),
       db_rules := filter (\<lambda>r. ru_user_id r \<notin> Some ` I) (db_rules d),
       db_push := filter (\<lambda>p. pu_user_id p \<notin> Some ` I) (db_push d),
       db_messages := filter (\<lambda>m. me_folder_id m \<notin> folders_of I d) (db_messages d),
       db_folders := filter (\<lambda>f. fo_user_id f \<notin> Some ` I) (db_folders d),
       db_agents := filter (\<lambda>a. ag_user_id a \<notin> I) (db_agents d),
       db_users := filter (\<lambda>u. us_id u \<notin> I) (db_users d)\<rparr>"

lemma purge_rows_one: "purge_rows i d = without_accounts {i} d"
proof -
  have "op_id ` {r \<in> set (db_ops d). case op_agent_id r of None \<Rightarrow> False | Some a \<Rightarrow> a \<in> set (map ag_id (own_agents i d))}
      = ops_of {i} d"
    by (auto simp: ops_of_def in_agents_def own_agents_def image_iff split: option.splits)
  moreover have "fo_id ` {f \<in> set (db_folders d). fo_user_id f = Some i} = folders_of {i} d"
    by (auto simp: folders_of_def)
  ultimately show ?thesis by (simp add: purge_rows_def without_accounts_def Let_def)
qed

lemma ops_of_compose: "ops_of I d \<union> ops_of J (without_accounts I d) = ops_of (I \<union> J) d"
proof -
  have "in_agents (I \<union> J) d r \<longleftrightarrow> in_agents I d r \<or> in_agents J (without_accounts I d) r" for r
    by (auto simp: in_agents_def without_accounts_def split: option.split)
  moreover have "db_ops (without_accounts I d) = filter (\<lambda>r. op_id r \<notin> ops_of I d) (db_ops d)"
    by (simp add: without_accounts_def)
  ultimately show ?thesis by (auto simp: ops_of_def)
qed

lemma folders_of_compose: "folders_of I d \<union> folders_of J (without_accounts I d) = folders_of (I \<union> J) d"
  by (auto simp: folders_of_def without_accounts_def)

lemma purges_compose: "without_accounts J (without_accounts I d) = without_accounts (I \<union> J) d"
proof -
  note o = ops_of_compose [of I d J] and f = folders_of_compose [of I d J]
  have "without_accounts (I \<union> J) d = d\<lparr>
       db_reverts := filter (\<lambda>r. rv_operation_id r \<notin> ops_of J (without_accounts I d)) (db_reverts (without_accounts I d)),
       db_ops := filter (\<lambda>r. op_id r \<notin> ops_of J (without_accounts I d)) (db_ops (without_accounts I d)),
       db_audit := filter (\<lambda>r. au_user_id r \<notin> Some ` J) (db_audit (without_accounts I d)),
       db_rules := filter (\<lambda>r. ru_user_id r \<notin> Some ` J) (db_rules (without_accounts I d)),
       db_push := filter (\<lambda>p. pu_user_id p \<notin> Some ` J) (db_push (without_accounts I d)),
       db_messages := filter (\<lambda>m. me_folder_id m \<notin> folders_of J (without_accounts I d)) (db_messages (without_accounts I d)),
       db_folders := filter (\<lambda>f. fo_user_id f \<notin> Some ` J) (db_folders (without_accounts I d)),
       db_agents := filter (\<lambda>a. ag_user_id a \<notin> J) (db_agents (without_accounts I d)),
       db_users := filter (\<lambda>u. us_id u \<notin> J) (db_users (without_accounts I d))\<rparr>"
    unfolding without_accounts_def [of "I \<union> J" d] o [symmetric] f [symmetric]
    by (simp add: without_accounts_def [of I d] image_Un conj_commute)
  then show ?thesis by (simp add: without_accounts_def)
qed

lemma without_none: "without_accounts {} d = d"
proof -
  have "\<not> in_agents {} d r" for r by (simp add: in_agents_def split: option.split)
  then have "ops_of {} d = {}" by (simp add: ops_of_def)
  then show ?thesis by (simp add: without_accounts_def folders_of_def)
qed

lemma purge_fold: "ap_db (fold (purge_user env) ids st) = without_accounts (set ids) (ap_db st)"
  by (induction ids arbitrary: st) (simp_all add: without_none purge_user_def purge_rows_one purges_compose)

text \<open>The rows of an account, of the tables that name the owner and of those that reach it over another table.\<close>

definition account_gone :: "nat \<Rightarrow> db \<Rightarrow> db \<Rightarrow> bool" where
  "account_gone i d d' \<longleftrightarrow>
     (\<forall>u \<in> set (db_users d'). us_id u \<noteq> i) \<and> (\<forall>a \<in> set (db_agents d'). ag_user_id a \<noteq> i)
     \<and> (\<forall>r \<in> set (db_ops d'). \<not> op_owned d i r) \<and> (\<forall>r \<in> set (db_reverts d'). rv_operation_id r \<notin> ops_of {i} d)
     \<and> (\<forall>r \<in> set (db_audit d'). au_user_id r \<noteq> Some i) \<and> (\<forall>r \<in> set (db_rules d'). ru_user_id r \<noteq> Some i)
     \<and> (\<forall>p \<in> set (db_push d'). pu_user_id p \<noteq> Some i) \<and> (\<forall>f \<in> set (db_folders d'). fo_user_id f \<noteq> Some i)
     \<and> (\<forall>m \<in> set (db_messages d'). folder_owner d (me_folder_id m) \<noteq> Some (Some i))"

definition account_kept :: "nat \<Rightarrow> db \<Rightarrow> db \<Rightarrow> bool" where
  "account_kept i d d' \<longleftrightarrow>
     filter (\<lambda>u. us_id u = i) (db_users d') = filter (\<lambda>u. us_id u = i) (db_users d)
     \<and> filter (\<lambda>a. ag_user_id a = i) (db_agents d') = filter (\<lambda>a. ag_user_id a = i) (db_agents d)
     \<and> filter (op_owned d i) (db_ops d') = filter (op_owned d i) (db_ops d)
     \<and> filter (\<lambda>r. au_user_id r = Some i) (db_audit d') = filter (\<lambda>r. au_user_id r = Some i) (db_audit d)
     \<and> filter (\<lambda>r. ru_user_id r = Some i) (db_rules d') = filter (\<lambda>r. ru_user_id r = Some i) (db_rules d)
     \<and> filter (\<lambda>p. pu_user_id p = Some i) (db_push d') = filter (\<lambda>p. pu_user_id p = Some i) (db_push d)
     \<and> filter (\<lambda>f. fo_user_id f = Some i) (db_folders d') = filter (\<lambda>f. fo_user_id f = Some i) (db_folders d)
     \<and> filter (\<lambda>m. folder_owner d (me_folder_id m) = Some (Some i)) (db_messages d')
       = filter (\<lambda>m. folder_owner d (me_folder_id m) = Some (Some i)) (db_messages d)"

lemma op_owned_in_agents: "op_owned d i r \<longleftrightarrow> in_agents {i} d r"
  by (auto simp: op_owned_def in_agents_def list_ex_iff split: option.split)

lemma folder_owner_in:
  assumes "folder_owner d k = Some (Some i)"
  shows "k \<in> folders_of {i} d"
  using assms by (auto simp: folder_owner_def folders_of_def dest!: find_Some_in)

lemma removed_is_gone:
  assumes "i \<in> I"
  shows "account_gone i d (without_accounts I d)"
proof -
  have "in_agents I d r" if "in_agents {i} d r" for r
    using that assms by (auto simp: in_agents_def split: option.splits)
  then have sub: "ops_of {i} d \<subseteq> ops_of I d" "folders_of {i} d \<subseteq> folders_of I d"
    using assms by (auto simp: ops_of_def folders_of_def)
  have "op_id r \<in> ops_of I d" if "op_owned d i r" "r \<in> set (db_ops d)" for r
    using that sub(1) by (auto simp: ops_of_def op_owned_in_agents)
  then show ?thesis
    using assms sub by (auto simp: account_gone_def without_accounts_def dest: folder_owner_in)
qed

lemma other_is_kept:
  assumes "i \<notin> I" "distinct (map ag_id (db_agents d))" "distinct (map op_id (db_ops d))" "distinct (map fo_id (db_folders d))"
  shows "account_kept i d (without_accounts I d)"
proof -
  have ops: "op_id r \<notin> ops_of I d" if own: "op_owned d i r" "r \<in> set (db_ops d)" for r
  proof
    assume "op_id r \<in> ops_of I d"
    then obtain r' where "r' \<in> set (db_ops d)" "op_id r' = op_id r" "in_agents I d r'" by (auto simp: ops_of_def)
    moreover from this have "r' = r" using assms(3) own(2) by (auto simp: distinct_map inj_on_def)
    ultimately obtain k g g' where "op_agent_id r = Some k" "g \<in> set (db_agents d)" "ag_id g = k" "ag_user_id g \<in> I"
      "g' \<in> set (db_agents d)" "ag_id g' = k" "ag_user_id g' = i"
      using own(1) by (auto simp: op_owned_in_agents in_agents_def split: option.splits)
    moreover from this have "g = g'" using assms(2) by (auto simp: distinct_map inj_on_def)
    ultimately show False using assms(1) by simp
  qed
  have msgs: "k \<notin> folders_of I d" if "folder_owner d k = Some (Some i)" for k
  proof
    assume "k \<in> folders_of I d"
    then obtain f where "f \<in> set (db_folders d)" "fo_id f = k" "fo_user_id f \<in> Some ` I" by (auto simp: folders_of_def)
    moreover from this have "List.find (\<lambda>x. fo_id x = k) (db_folders d) = Some f" using find_distinct_key [OF assms(4)] by auto
    ultimately show False using that assms(1) by (auto simp: folder_owner_def)
  qed
  show ?thesis
    using assms(1) ops msgs
    by (auto simp: account_kept_def without_accounts_def filter_filter intro!: filter_cong)
qed

section \<open>The purge erases what is due, and only that\<close>

lemma purgeable_due: "set (find_purgeable_users window now d) \<subseteq> us_id ` {u \<in> set (db_users d). purge_due (now - window) u}"
  by (auto simp: find_purgeable_users_def dest!: in_set_takeD)

lemma purgeable_all:
  assumes "length (filter (purge_due (now - window)) (db_users d)) \<le> RETENTION_BATCH_SIZE"
  shows "set (find_purgeable_users window now d) = us_id ` {u \<in> set (db_users d). purge_due (now - window) u}"
  using assms by (auto simp: find_purgeable_users_def)


definition sample_deleted :: api where
  "sample_deleted = sample_api\<lparr>ap_db := (ap_db sample_api)\<lparr>db_users := [sample_user\<lparr>us_deleted_at := Some 5\<rparr>]\<rparr>\<rparr>"


section \<open>Observations\<close>

text \<open>
  An audit entry that names an operation but no user outlives the account: the entries about staging, decisions
  and execution carry no user.
\<close>

lemma purge_leaves_operation_entries:
  assumes "r \<in> set (db_audit d)" "au_user_id r = None"
  shows "r \<in> set (db_audit (purge_rows i d))"
  using assms by (simp add: purge_rows_one without_accounts_def)

text \<open>The entries removed leave a gap in the hash chain, which the next verification reports as tampering.\<close>

definition three_entries :: db where
  "three_entries = insert_audit_event sample_digest (sample_event 7)
     (insert_audit_event sample_digest (account_event ''account_deleted'' 5 1)
       (insert_audit_event sample_digest (sample_event 3) empty_db))"

lemma purge_breaks_chain:
  "fst (verify_audit_chain sample_digest three_entries) \<and> \<not> fst (verify_audit_chain sample_digest (purge_rows 1 three_entries))"
  by code_simp

end
