(* ===== verification/Scrubber.thy ===== *)
theory Scrubber
  imports Audit_Log Operations
begin

text \<open>
  The body scrubber (\<open>gateway/scrubber.py\<close>): settled operations lose the message text they were staged with
  once it is old enough; and the heartbeats of the background loops (\<open>gateway/loop_health.py\<close>).
\<close>

section \<open>Scrubbing\<close>

definition TERMINAL_STATUSES :: "status list" where
  "TERMINAL_STATUSES = [Approved, Rejected_op, Executed, Failed, Expired]"

definition SCRUB_BATCH_SIZE :: nat where "SCRUB_BATCH_SIZE = 200"

definition settled_at :: "op_row \<Rightarrow> int" where
  "settled_at r = the_default (op_created_at r) (op_decided_at r)"

definition scrubbable :: "int \<Rightarrow> op_row \<Rightarrow> bool" where
  "scrubbable cutoff r \<longleftrightarrow> op_status r \<in> set TERMINAL_STATUSES
     \<and> (op_smtp_envelope r \<noteq> None \<or> op_append_message r \<noteq> None) \<and> op_body_scrubbed_at r = None
     \<and> settled_at r \<le> cutoff"

definition find_scrubable_operations :: "int \<Rightarrow> db \<Rightarrow> op_row list" where
  "find_scrubable_operations cutoff d =
     take SCRUB_BATCH_SIZE (sort_key settled_at (filter (scrubbable cutoff) (db_ops d)))"

definition scrub_envelope :: "envelope \<Rightarrow> envelope" where
  "scrub_envelope e = e\<lparr>env_body_preview := None, env_body := None, env_body_rendered := None\<rparr>"

definition scrub_event :: "int \<Rightarrow> op_row \<Rightarrow> audit_event" where
  "scrub_event now r =
     \<lparr>ev_timestamp = now, ev_event = ''body_scrubbed'', ev_actor = Some ''system'', ev_operation_id = Some (op_id r),
      ev_agent_id = op_agent_id r, ev_op_type = Some (op_type r), ev_detail = None, ev_user_id = None,
      ev_intent_label = op_intent_label r\<rparr>"

text \<open>The envelope written back is the one read with the batch.\<close>

definition scrub_row :: "int \<Rightarrow> envelope option \<Rightarrow> op_row \<Rightarrow> op_row" where
  "scrub_row now env r =
     r\<lparr>op_smtp_envelope := map_option scrub_envelope env, op_append_message := None, op_body_scrubbed_at := Some now\<rparr>"

definition scrub_one :: "(string \<Rightarrow> nat list) \<Rightarrow> int \<Rightarrow> op_row \<Rightarrow> db \<Rightarrow> db" where
  "scrub_one chain now r d =
     insert_audit_event chain (scrub_event now r)
       (d\<lparr>db_ops := upd (has_op (op_id r)) (scrub_row now (op_smtp_envelope r)) (db_ops d)\<rparr>)"

text \<open>\<open>clk k\<close>: the clock when the \<open>k\<close>-th operation of the batch is scrubbed.\<close>

fun scrub_all :: "(string \<Rightarrow> nat list) \<Rightarrow> (nat \<Rightarrow> int) \<Rightarrow> nat \<Rightarrow> op_row list \<Rightarrow> db \<Rightarrow> db" where
  "scrub_all chain clk k [] d = d"
| "scrub_all chain clk k (r # rs) d = scrub_all chain clk (Suc k) rs (scrub_one chain (clk k) r d)"

definition scrub_expired_body_previews ::
  "(string \<Rightarrow> nat list) \<Rightarrow> int \<Rightarrow> int \<Rightarrow> (nat \<Rightarrow> int) \<Rightarrow> db \<Rightarrow> nat \<times> db" where
  "scrub_expired_body_previews chain window now clk d =
     (let ops = find_scrubable_operations (now - window) d in (length ops, scrub_all chain clk 0 ops d))"

section \<open>Heartbeats\<close>

record heartbeat =
  hb_interval_seconds :: int
  hb_last_run_at :: "int option"
  hb_last_success_at :: "int option"
  hb_last_ok :: bool
  hb_last_detail :: "string option"
  hb_runs :: nat

definition DEFAULT_STALE_FACTOR :: int where "DEFAULT_STALE_FACTOR = 3"
definition MIN_STALE_SECONDS :: int where "MIN_STALE_SECONDS = 120"

definition record_heartbeat ::
  "string \<Rightarrow> int \<Rightarrow> bool \<Rightarrow> string option \<Rightarrow> int \<Rightarrow> (string \<rightharpoonup> heartbeat) \<Rightarrow> (string \<rightharpoonup> heartbeat)" where
  "record_heartbeat name interval okay detail ts hbs =
     (let hb = (case hbs name of Some hb \<Rightarrow> hb
           | None \<Rightarrow> \<lparr>hb_interval_seconds = interval, hb_last_run_at = None, hb_last_success_at = None,
                     hb_last_ok = True, hb_last_detail = None, hb_runs = 0\<rparr>);
          hb' = hb\<lparr>hb_interval_seconds := interval, hb_last_run_at := Some ts, hb_last_ok := okay,
                   hb_last_detail := detail, hb_runs := Suc (hb_runs hb)\<rparr>
      in hbs(name \<mapsto> (if okay then hb'\<lparr>hb_last_success_at := Some ts\<rparr> else hb')))"

definition stale_deadline :: "int \<Rightarrow> int \<Rightarrow> int" where
  "stale_deadline interval factor = max MIN_STALE_SECONDS (interval * factor)"

definition heartbeat_age :: "int \<Rightarrow> heartbeat \<Rightarrow> int option" where
  "heartbeat_age ts hb =
     map_option (\<lambda>t. ts - t)
       (case hb_last_success_at hb of Some t \<Rightarrow> Some t | None \<Rightarrow> hb_last_run_at hb)"

definition heartbeat_stale :: "int \<Rightarrow> int \<Rightarrow> heartbeat \<Rightarrow> bool" where
  "heartbeat_stale ts factor hb =
     (case heartbeat_age ts hb of None \<Rightarrow> True | Some age \<Rightarrow> age > stale_deadline (hb_interval_seconds hb) factor)"

text \<open>The names of the registered loops, in order, and the verdict over all of them.\<close>

definition get_loop_health :: "int \<Rightarrow> int \<Rightarrow> string list \<Rightarrow> (string \<rightharpoonup> heartbeat) \<Rightarrow> bool \<times> (string \<times> heartbeat \<times> bool) list" where
  "get_loop_health ts factor names hbs =
     (let loops = List.map_filter (\<lambda>n. map_option (\<lambda>hb. (n, hb, heartbeat_stale ts factor hb)) (hbs n)) names
      in (\<not> list_ex (\<lambda>(n, hb, stale). stale \<or> \<not> hb_last_ok hb) loops, loops))"

section \<open>What scrubbing removes\<close>

definition bodiless :: "op_row \<Rightarrow> bool" where
  "bodiless r \<longleftrightarrow> op_append_message r = None
     \<and> (case op_smtp_envelope r of None \<Rightarrow> True
        | Some e \<Rightarrow> env_body e = None \<and> env_body_preview e = None \<and> env_body_rendered e = None)"

lemma scrub_row_bodiless: "bodiless (scrub_row now e r)"
  by (cases e) (auto simp: bodiless_def scrub_row_def scrub_envelope_def)

text \<open>What a scrubbed row keeps: everything but the bodies and the time of scrubbing.\<close>

definition same_but_body :: "op_row \<Rightarrow> op_row \<Rightarrow> bool" where
  "same_but_body r r' \<longleftrightarrow>
     r' = r \<or> (\<exists>now. r' = scrub_row now (op_smtp_envelope r) r)"

lemma audit_ops: "db_ops (insert_audit_event chain e d) = db_ops d"
  by (simp add: insert_audit_event_def insert_with_prev_def Let_def)

text \<open>A batch of rows of a table with unique ids: each of them is scrubbed once, the others stay.\<close>

lemma scrub_all_rows:
  assumes "distinct (map op_id (db_ops d))" "set rs \<subseteq> set (db_ops d)" "distinct (map op_id rs)"
  shows "\<exists>t. db_ops (scrub_all chain clk k rs d)
    = map (\<lambda>r. if op_id r \<in> op_id ` set rs then scrub_row (t (op_id r)) (op_smtp_envelope r) r else r) (db_ops d)"
  using assms
proof (induction rs arbitrary: d k)
  case (Cons q rs)
  let ?d = "scrub_one chain (clk k) q d"
  have q: "q \<in> set (db_ops d)" using Cons.prems(2) by simp
  have one: "db_ops ?d = map (\<lambda>r. if op_id r = op_id q then scrub_row (clk k) (op_smtp_envelope r) r else r) (db_ops d)"
  proof -
    have "r = q" if "r \<in> set (db_ops d)" "op_id r = op_id q" for r
      using that q Cons.prems(1) by (auto simp: distinct_map inj_on_def)
    then show ?thesis by (auto simp: scrub_one_def audit_ops upd_def has_op_def)
  qed
  have ids: "map op_id (db_ops ?d) = map op_id (db_ops d)"
    unfolding one by (simp add: scrub_row_def comp_def)
  moreover have "set rs \<subseteq> set (db_ops ?d)"
  proof
    fix r assume r: "r \<in> set rs"
    then have "op_id r \<noteq> op_id q" using Cons.prems(3) by (metis distinct.simps(2) image_eqI list.set_map list.simps(9))
    then show "r \<in> set (db_ops ?d)" unfolding one using r Cons.prems(2) by force
  qed
  ultimately obtain t where t: "db_ops (scrub_all chain clk (Suc k) rs ?d)
      = map (\<lambda>r. if op_id r \<in> op_id ` set rs then scrub_row (t (op_id r)) (op_smtp_envelope r) r else r) (db_ops ?d)"
    using Cons.IH [of ?d "Suc k"] Cons.prems(1,3) by (metis distinct.simps(2) list.simps(9))
  have "op_id q \<notin> op_id ` set rs" using Cons.prems(3) by simp
  then have "db_ops (scrub_all chain clk k (q # rs) d)
      = map (\<lambda>r. if op_id r \<in> op_id ` set (q # rs)
          then scrub_row ((t(op_id q := clk k)) (op_id r)) (op_smtp_envelope r) r else r) (db_ops d)"
    by (simp add: t one comp_def) (auto simp: scrub_row_def)
  then show ?case by blast
qed (simp add: image_iff)



section \<open>Observations\<close>

text \<open>Operations that were cancelled or undone are settled too, and keep their text for good.\<close>

lemma cancelled_keeps_body: "op_status r = Cancelled \<or> op_status r = Reverted \<Longrightarrow> \<not> scrubbable cutoff r"
  by (auto simp: scrubbable_def TERMINAL_STATUSES_def)

text \<open>A loop that has a heartbeat but neither run nor success counts as stale; one with no entry is not listed.\<close>

lemma no_run_is_stale: "hb_last_run_at hb = None \<Longrightarrow> hb_last_success_at hb = None \<Longrightarrow> heartbeat_stale ts factor hb"
  by (simp add: heartbeat_stale_def heartbeat_age_def)

end
