(* ===== verification/OAuth2_Tokens.thy ===== *)
theory OAuth2_Tokens
  imports Secrets Agent_Login
begin

text \<open>
  Access tokens for OAuth2 mailboxes (\<open>gateway/oauth2_tokens.py\<close>): the cache of the process, the exchange of
  the long-lived refresh token at the provider, and the check of the answer.
\<close>

section \<open>State and environment\<close>

text \<open>
  \<open>te_post n url form\<close>: what the provider answers to the request made at the \<open>n\<close>-th tick: status and body, or
  \<open>None\<close> when the HTTP client raises; \<open>te_clock n\<close>: the wall clock in seconds; \<open>te_str v\<close>: Python's \<open>str\<close> of a
  decoded value that is no text.
\<close>

record token_env =
  te_keys :: keyring
  te_post :: "nat \<Rightarrow> string \<Rightarrow> (string \<times> string) list \<Rightarrow> (nat \<times> string) option"
  te_clock :: "nat \<Rightarrow> int"
  te_str :: "json \<Rightarrow> string"

record token_state =
  to_cache :: "nat \<rightharpoonup> string \<times> json \<times> int"
  to_vault :: vault

text \<open>The module's own error, and any other exception.\<close>

datatype token_error = OAuth2_error string | Escaped

type_synonym 'a top = "token_state \<Rightarrow> (token_error + 'a) \<times> token_state"

definition tret :: "'a \<Rightarrow> 'a top" where "tret x st = (Inr x, st)"

definition terr :: "token_error \<Rightarrow> 'a top" where "terr e st = (Inl e, st)"

definition tbind :: "'a top \<Rightarrow> ('a \<Rightarrow> 'b top) \<Rightarrow> 'b top" where
  "tbind m f st = (case m st of (Inl e, st') \<Rightarrow> (Inl e, st') | (Inr x, st') \<Rightarrow> f x st')"

definition tvault :: "'a vop \<Rightarrow> 'a top" where
  "tvault m st = (case m (to_vault st) of (None, v) \<Rightarrow> (Inl Escaped, st\<lparr>to_vault := v\<rparr>)
     | (Some x, v) \<Rightarrow> (Inr x, st\<lparr>to_vault := v\<rparr>))"

section \<open>The exchange\<close>

definition GOOGLE_TOKEN_ENDPOINT :: string where
  "GOOGLE_TOKEN_ENDPOINT = ''https://oauth2.googleapis.com/token''"

definition MICROSOFT_TOKEN_ENDPOINT :: string where
  "MICROSOFT_TOKEN_ENDPOINT = ''https://login.microsoftonline.com/common/oauth2/v2.0/token''"

definition MICROSOFT_SCOPE :: string where
  "MICROSOFT_SCOPE = ''offline_access openid email https://outlook.office.com/IMAP.AccessAsUser.All https://outlook.office.com/SMTP.Send''"

definition EXPIRY_BUFFER_SECONDS :: int where "EXPIRY_BUFFER_SECONDS = 120"

text \<open>\<open>int(v)\<close> of a decoded value; a decimal loses its fraction.\<close>

fun json_to_int :: "json \<Rightarrow> int option" where
  "json_to_int (J_int n) = Some n"
| "json_to_int (J_bool b) = Some (if b then 1 else 0)"
| "json_to_int (J_dec m e) =
     Some (if e \<ge> 0 then m * 10 ^ nat e
       else if m \<ge> 0 then m div 10 ^ nat (- e) else - ((- m) div 10 ^ nat (- e)))"
| "json_to_int (J_str s) = py_int s"
| "json_to_int _ = None"

text \<open>A refusal is reported with its status; the body is only searched for the provider's error code.\<close>

definition refused_exchange :: "string \<Rightarrow> nat \<Rightarrow> string \<Rightarrow> token_error" where
  "refused_exchange who status body =
     (case json_loads body of
        None \<Rightarrow> OAuth2_error (who @ '' token refresh failed: HTTP '' @ str_of_nat status)
      | Some (J_obj _) \<Rightarrow> OAuth2_error (who @ '' token refresh failed: HTTP '' @ str_of_nat status)
      | Some _ \<Rightarrow> Escaped)"

definition read_exchange :: "token_env \<Rightarrow> string \<Rightarrow> string \<Rightarrow> (json \<times> int) top" where
  "read_exchange te who body =
     (case json_loads body of
        None \<Rightarrow> terr (OAuth2_error (who @ '' token endpoint returned non-JSON''))
      | Some (J_obj kvs) \<Rightarrow>
          (case json_get ''access_token'' kvs of
             None \<Rightarrow> terr (OAuth2_error (who @ '' token endpoint response missing 'access_token' (details redacted)''))
           | Some tok \<Rightarrow>
               if \<not> json_truthy tok
               then terr (OAuth2_error (who @ '' token endpoint response missing 'access_token' (details redacted)''))
               else (case json_to_int (the_default (J_int 3600) (json_get ''expires_in'' kvs)) of
                   None \<Rightarrow> terr Escaped
                 | Some expires_in \<Rightarrow> tbind (tvault (tick (te_clock te))) (\<lambda>now. tret (tok, now + expires_in))))
      | Some _ \<Rightarrow> terr Escaped)"

definition refresh_token_at ::
  "token_env \<Rightarrow> string \<Rightarrow> string \<Rightarrow> (string \<times> string) list \<Rightarrow> (json \<times> int) top" where
  "refresh_token_at te who url form =
     tbind (tvault (tick (\<lambda>n. te_post te n url form))) (\<lambda>answer.
       case answer of
         None \<Rightarrow> terr Escaped
       | Some (status, body) \<Rightarrow>
           if status \<noteq> 200 then terr (refused_exchange who status body) else read_exchange te who body)"

definition refresh_form :: "string \<Rightarrow> string \<Rightarrow> string \<Rightarrow> (string \<times> string) list" where
  "refresh_form client_id client_secret refresh_token =
     [(''client_id'', client_id), (''client_secret'', client_secret), (''refresh_token'', refresh_token),
      (''grant_type'', ''refresh_token'')]"

definition refresh_google_token :: "token_env \<Rightarrow> string \<Rightarrow> string \<Rightarrow> string \<Rightarrow> (json \<times> int) top" where
  "refresh_google_token te client_id client_secret refresh_token =
     refresh_token_at te ''Google'' GOOGLE_TOKEN_ENDPOINT (refresh_form client_id client_secret refresh_token)"

definition refresh_microsoft_token :: "token_env \<Rightarrow> string \<Rightarrow> string \<Rightarrow> string \<Rightarrow> (json \<times> int) top" where
  "refresh_microsoft_token te client_id client_secret refresh_token =
     refresh_token_at te ''Microsoft'' MICROSOFT_TOKEN_ENDPOINT
       (refresh_form client_id client_secret refresh_token @ [(''scope'', MICROSOFT_SCOPE)])"

section \<open>The token of an agent\<close>

definition fresh_cached :: "nat \<Rightarrow> int \<Rightarrow> token_state \<Rightarrow> (string \<times> json) option" where
  "fresh_cached i now st =
     (case to_cache st i of
        Some (email, tok, expires) \<Rightarrow> if expires - now > EXPIRY_BUFFER_SECONDS then Some (email, tok) else None
      | None \<Rightarrow> None)"

definition check_oauth_row :: "agent_row option \<Rightarrow> token_error + agent_row" where
  "check_oauth_row row =
     (case row of
        None \<Rightarrow> Inl (OAuth2_error ''not found'')
      | Some a \<Rightarrow>
          if \<not> truthy (ag_oauth2_provider a) then Inl (OAuth2_error ''no oauth2_provider configured'')
          else if \<not> truthy (ag_oauth2_refresh_token a) then Inl (OAuth2_error ''oauth2_refresh_token not configured'')
          else if \<not> truthy (ag_oauth2_client_id a) then Inl (OAuth2_error ''oauth2_client_id not configured'')
          else if \<not> truthy (ag_oauth2_client_secret a) then Inl (OAuth2_error ''oauth2_client_secret not configured'')
          else Inr a)"

definition refresh_for :: "token_env \<Rightarrow> agent_row \<Rightarrow> string \<Rightarrow> string \<Rightarrow> (json \<times> int) top" where
  "refresh_for te a refresh_token client_secret =
     (if ag_oauth2_provider a = Some ''google''
      then refresh_google_token te (or_empty (ag_oauth2_client_id a)) client_secret refresh_token
      else if ag_oauth2_provider a = Some ''microsoft''
      then refresh_microsoft_token te (or_empty (ag_oauth2_client_id a)) client_secret refresh_token
      else terr (OAuth2_error ''Unsupported oauth2_provider''))"

text \<open>The secrets are resolved and the exchange is made under the agent's lock; only then is the cache written.\<close>

definition renew_token :: "token_env \<Rightarrow> nat \<Rightarrow> agent_row \<Rightarrow> (string \<times> json) top" where
  "renew_token te i a =
     tbind (tvault (fetch_credential (te_keys te) (or_empty (ag_oauth2_refresh_token a)))) (\<lambda>refresh_token.
     tbind (tvault (fetch_credential (te_keys te) (or_empty (ag_oauth2_client_secret a)))) (\<lambda>client_secret.
     tbind (refresh_for te a refresh_token client_secret) (\<lambda>(tok, expires) st.
       (Inr (ag_upstream_user a, tok), st\<lparr>to_cache := (to_cache st)(i \<mapsto> (ag_upstream_user a, tok, expires))\<rparr>))))"

definition get_access_token :: "token_env \<Rightarrow> nat \<Rightarrow> db \<Rightarrow> (string \<times> json) top" where
  "get_access_token te i d =
     tbind (tvault (tick (te_clock te))) (\<lambda>now st.
       case fresh_cached i now st of
         Some r \<Rightarrow> (Inr r, st)
       | None \<Rightarrow>
           tbind (tvault (tick (te_clock te))) (\<lambda>now st.
             case fresh_cached i now st of
               Some r \<Rightarrow> (Inr r, st)
             | None \<Rightarrow>
                 (case check_oauth_row (List.find (\<lambda>a. ag_id a = i) (db_agents d)) of
                    Inl e \<Rightarrow> (Inl e, st)
                  | Inr a \<Rightarrow> renew_token te i a st)) st)"

fun token_text :: "token_env \<Rightarrow> json \<Rightarrow> string" where
  "token_text te (J_str s) = s"
| "token_text te v = te_str te v"

definition get_xoauth2_string :: "token_env \<Rightarrow> nat \<Rightarrow> db \<Rightarrow> string top" where
  "get_xoauth2_string te i d =
     tbind (get_access_token te i d) (\<lambda>(email, tok).
       case build_xoauth2_string email (token_text te tok) of None \<Rightarrow> terr Escaped | Some s \<Rightarrow> tret s)"

section \<open>Laws\<close>

lemma tvault_cache: "to_cache (snd (tvault m st)) = to_cache st"
  by (simp add: tvault_def split: prod.split option.split)

lemma tbind_cache:
  "to_cache (snd (m st)) = c \<Longrightarrow> (\<And>x st'. to_cache st' = c \<Longrightarrow> to_cache (snd (f x st')) = c)
    \<Longrightarrow> to_cache (snd (tbind m f st)) = c"
  by (cases "m st"; cases "fst (m st)") (auto simp: tbind_def)

lemma case_cache:
  "to_cache (snd ((case x of Some y \<Rightarrow> f y | None \<Rightarrow> g) st)) = (case x of Some y \<Rightarrow> to_cache (snd (f y st)) | None \<Rightarrow> to_cache (snd (g st)))"
  by (simp split: option.split)

lemma read_exchange_cache: "to_cache (snd (read_exchange te who body st)) = to_cache st"
proof -
  have "to_cache (snd (tbind (tvault (tick (te_clock te))) (\<lambda>now. tret (tok, now + n)) st)) = to_cache st"
    for tok :: json and n
    by (rule tbind_cache) (simp_all add: tvault_cache tret_def)
  then show ?thesis by (simp add: read_exchange_def terr_def split: option.split json.split)
qed

lemma refresh_cache: "to_cache (snd (refresh_for te a r s st)) = to_cache st"
proof -
  have "to_cache (snd (refresh_token_at te who url form st)) = to_cache st"
    for who url form
    unfolding refresh_token_at_def
    by (rule tbind_cache) (simp_all add: tvault_cache read_exchange_cache terr_def split: option.split prod.split)
  then show ?thesis by (simp add: refresh_for_def refresh_google_token_def refresh_microsoft_token_def terr_def)
qed

lemma tbind_cases:
  "tbind m f st = (r, st') \<longleftrightarrow> (\<exists>e. m st = (Inl e, st') \<and> r = Inl e) \<or> (\<exists>x st1. m st = (Inr x, st1) \<and> f x st1 = (r, st'))"
  by (cases "m st"; cases "fst (m st)") (auto simp: tbind_def)

lemma tvault_some: "tvault m st = (r, st') \<Longrightarrow> to_cache st' = to_cache st"
  using tvault_cache [of m st] by simp

lemma refresh_some: "refresh_for te a r s st = (x, st') \<Longrightarrow> to_cache st' = to_cache st"
  using refresh_cache [of te a r s st] by simp

lemma renew_token_cache:
  assumes "renew_token te i a st = (r, st')"
  shows "case r of Inl e \<Rightarrow> to_cache st' = to_cache st
    | Inr (email, tok) \<Rightarrow> email = ag_upstream_user a \<and> (\<exists>x. to_cache st' = (to_cache st)(i \<mapsto> (email, tok, x)))"
  using assms unfolding renew_token_def tbind_cases
  by (elim disjE exE conjE) (auto dest!: tvault_some refresh_some split: prod.splits)


section \<open>Observations\<close>

text \<open>
  The module promises its own error on every failure; a provider that cannot be reached, an answer that is JSON
  but no object, and a lifetime that is no number raise something else.
\<close>

lemma unreachable_escapes:
  assumes "te_post te (va_ticks (to_vault st)) url form = None"
  shows "fst (refresh_token_at te who url form st) = Inl Escaped"
  using assms by (simp add: refresh_token_at_def tbind_def tvault_def tick_def terr_def)

lemma odd_answer_escapes: "fst (read_exchange te who ''[]'' st) = Inl Escaped"
proof -
  have "json_loads ''[]'' = Some (J_list [])" by code_simp
  then show ?thesis by (simp add: read_exchange_def terr_def)
qed

end
