(* ===== verification/OAuth2_Flow.thy ===== *)
theory OAuth2_Flow
  imports Account_Laws OAuth2_Tokens
begin

text \<open>
  The sign-in with a mail provider in the browser (\<open>api/routes/oauth2.py\<close>): the start of a flow, the provider's
  callback, which creates the agent, and the one-time pick-up of the result by the user who started it.
\<close>

section \<open>Providers\<close>

record provider_config =
  pc_key :: string
  pc_auth_endpoint :: string
  pc_token_endpoint :: string
  pc_scope :: string
  pc_client_id_env :: string
  pc_client_secret_env :: string
  pc_redirect_env :: string
  pc_redirect_default :: string
  pc_imap_host :: string
  pc_smtp_host :: string
  pc_imap_port :: nat
  pc_smtp_port :: nat
  pc_default_label :: string
  pc_extra_auth_params :: "(string \<times> string) list"

definition env_get :: "(string \<rightharpoonup> string) \<Rightarrow> string \<Rightarrow> string \<Rightarrow> string" where
  "env_get vars k dflt = (case vars k of Some v \<Rightarrow> v | None \<Rightarrow> dflt)"

definition ms_tenant :: "(string \<rightharpoonup> string) \<Rightarrow> string" where
  "ms_tenant vars = or_else (py_strip (env_get vars ''MICROSOFT_TENANT'' ''common'')) ''common''"

definition google_config :: provider_config where
  "google_config =
     \<lparr>pc_key = ''google'', pc_auth_endpoint = ''https://accounts.google.com/o/oauth2/v2/auth'',
      pc_token_endpoint = GOOGLE_TOKEN_ENDPOINT, pc_scope = ''https://mail.google.com/ openid email'',
      pc_client_id_env = ''GOOGLE_CLIENT_ID'', pc_client_secret_env = ''GOOGLE_CLIENT_SECRET'',
      pc_redirect_env = ''GOOGLE_REDIRECT_URI'',
      pc_redirect_default = ''http://localhost:8080/api/v1/oauth2/google/callback'',
      pc_imap_host = ''imap.gmail.com'', pc_smtp_host = ''smtp.gmail.com'', pc_imap_port = 993, pc_smtp_port = 587,
      pc_default_label = ''gmail'',
      pc_extra_auth_params = [(''access_type'', ''offline''), (''prompt'', ''consent'')]\<rparr>"

definition microsoft_config :: "(string \<rightharpoonup> string) \<Rightarrow> provider_config" where
  "microsoft_config vars =
     \<lparr>pc_key = ''microsoft'',
      pc_auth_endpoint = ''https://login.microsoftonline.com/'' @ ms_tenant vars @ ''/oauth2/v2.0/authorize'',
      pc_token_endpoint = ''https://login.microsoftonline.com/'' @ ms_tenant vars @ ''/oauth2/v2.0/token'',
      pc_scope = MICROSOFT_SCOPE,
      pc_client_id_env = ''MICROSOFT_CLIENT_ID'', pc_client_secret_env = ''MICROSOFT_CLIENT_SECRET'',
      pc_redirect_env = ''MICROSOFT_REDIRECT_URI'',
      pc_redirect_default = ''http://localhost:8080/api/v1/oauth2/microsoft/callback'',
      pc_imap_host = ''outlook.office365.com'', pc_smtp_host = ''smtp.office365.com'', pc_imap_port = 993,
      pc_smtp_port = 587, pc_default_label = ''outlook'', pc_extra_auth_params = [(''prompt'', ''consent'')]\<rparr>"

definition provider_or_404 :: "(string \<rightharpoonup> string) \<Rightarrow> string \<Rightarrow> provider_config option" where
  "provider_or_404 vars provider =
     (if provider = ''google'' then Some google_config
      else if provider = ''microsoft'' then Some (microsoft_config vars) else None)"

definition get_oauth2_env :: "(string \<rightharpoonup> string) \<Rightarrow> provider_config \<Rightarrow> (string \<times> string) option" where
  "get_oauth2_env vars cfg =
     (let cid = py_strip (env_get vars (pc_client_id_env cfg) []); cs = py_strip (env_get vars (pc_client_secret_env cfg) [])
      in if cid = [] \<or> cs = [] then None else Some (cid, cs))"

definition get_redirect_uri :: "(string \<rightharpoonup> string) \<Rightarrow> provider_config \<Rightarrow> string" where
  "get_redirect_uri vars cfg = env_get vars (pc_redirect_env cfg) (pc_redirect_default cfg)"

section \<open>Identity claims\<close>

text \<open>The payload of a token; \<open>Some []\<close> stands for \<open>{}\<close>, \<open>None\<close> for a document that is no object.\<close>

definition decode_jwt_payload :: "json \<Rightarrow> (string \<times> json) list option" where
  "decode_jwt_payload jwt =
     (case jwt of
        J_str s \<Rightarrow>
          (case py_split_on (CHR ''.'') s of
             [h, p, sig] \<Rightarrow>
               (case b64decode (p @ replicate (4 - utf8_length p mod 4) (CHR ''='')) of
                  None \<Rightarrow> Some []
                | Some raw \<Rightarrow>
                    (case utf8_strict raw of
                       None \<Rightarrow> Some []
                     | Some txt \<Rightarrow> (case json_loads txt of None \<Rightarrow> Some [] | Some (J_obj kvs) \<Rightarrow> Some kvs | Some _ \<Rightarrow> None)))
           | _ \<Rightarrow> Some [])
      | _ \<Rightarrow> Some [])"

text \<open>\<open>a or b or ... or ""\<close>.\<close>

fun first_truthy :: "json option list \<Rightarrow> json" where
  "first_truthy [] = J_str []"
| "first_truthy (x # xs) = (case x of Some v \<Rightarrow> if json_truthy v then v else first_truthy xs | None \<Rightarrow> first_truthy xs)"

definition email_from_response :: "string \<Rightarrow> json \<Rightarrow> json option" where
  "email_from_response key id_token =
     map_option (\<lambda>claims.
         if key = ''google'' then the_default (J_str []) (json_get ''email'' claims)
         else first_truthy (map (\<lambda>k. json_get k claims) [''email'', ''preferred_username'', ''upn'']))
       (decode_jwt_payload id_token)"

text \<open>
  What the text column holds for a bound value: \<open>real v\<close> is SQLite's rendering of a float; NULL is refused, as are an
  integer beyond 64 bits and a value the driver has no type for.
\<close>

definition column_text :: "(json \<Rightarrow> string option) \<Rightarrow> json \<Rightarrow> string option" where
  "column_text real v =
     (case v of
        J_str s \<Rightarrow> Some s
      | J_bool b \<Rightarrow> Some (if b then ''1'' else ''0'')
      | J_int n \<Rightarrow> if - (2 ^ 63) \<le> n \<and> n < 2 ^ 63 then Some (str_of_int n) else None
      | J_dec m e \<Rightarrow> real v
      | J_special w \<Rightarrow> real v
      | _ \<Rightarrow> None)"

section \<open>State\<close>

record pending_flow =
  pe_user_id :: nat
  pe_label :: string
  pe_provider :: string
  pe_created_at :: int

datatype sign_in = Signed_in string string string json | Sign_in_error string

text \<open>\<open>fl_started\<close>, \<open>fl_delivered\<close>: the flows started and the results handed out, with the user, kept as a
  record for the laws.\<close>

record flow =
  fl_pending :: "string \<rightharpoonup> pending_flow"
  fl_results :: "string \<rightharpoonup> nat \<times> sign_in"
  fl_api :: api
  fl_started :: "(nat \<times> string) list"
  fl_delivered :: "((nat \<times> string) \<times> sign_in) list"

text \<open>
  \<open>fe_post n url form\<close>: the answer to the \<open>n\<close>-th exchange, \<open>None\<close> when the client raises; \<open>fe_exc n\<close>: the text of
  an exception raised by a library; \<open>fe_token n\<close>: \<open>secrets.token_urlsafe(32)\<close>; \<open>fe_raw n\<close>: eight random bytes;
  \<open>fe_str\<close>: \<open>str\<close> of a value that is no string; \<open>fe_real\<close>: a float in a text column.
\<close>

record flow_env =
  fe_site :: site
  fe_post :: "nat \<Rightarrow> string \<Rightarrow> (string \<times> string) list \<Rightarrow> (nat \<times> string) option"
  fe_exc :: "nat \<Rightarrow> string"
  fe_token :: "nat \<Rightarrow> string"
  fe_raw :: "nat \<Rightarrow> string"
  fe_str :: "json \<Rightarrow> string"
  fe_real :: "json \<Rightarrow> string option"

definition STATE_TTL :: int where "STATE_TTL = 300"

definition prune_expired :: "int \<Rightarrow> (string \<rightharpoonup> pending_flow) \<Rightarrow> (string \<rightharpoonup> pending_flow)" where
  "prune_expired now p =
     (\<lambda>s. case p s of Some e \<Rightarrow> if pe_created_at e < now - STATE_TTL then None else Some e | None \<Rightarrow> None)"

section \<open>URLs\<close>

definition hex_upper :: "nat \<Rightarrow> char" where "hex_upper n = upper_char (hex_char n)"

definition url_plain :: "char \<Rightarrow> bool" where
  "url_plain c \<longleftrightarrow> is_digit c \<or> (65 \<le> code_pt c \<and> code_pt c \<le> 90) \<or> (97 \<le> code_pt c \<and> code_pt c \<le> 122)
     \<or> c = CHR ''_'' \<or> c = CHR ''.'' \<or> c = CHR ''-'' \<or> c = CHR ''~''"

definition url_quote :: "bool \<Rightarrow> string \<Rightarrow> string" where
  "url_quote form s = concat (map (\<lambda>c.
     if url_plain c \<or> (\<not> form \<and> c = CHR ''/'') then [c] else if form \<and> c = sp then ''+''
     else [CHR ''%'', hex_upper (code_pt c div 16), hex_upper (code_pt c mod 16)]) s)"

definition urlencode :: "(string \<times> string) list \<Rightarrow> string" where
  "urlencode kvs = py_join ''&'' (map (\<lambda>(k, v). url_quote True k @ ''='' @ url_quote True v) kvs)"

section \<open>Start\<close>

definition oauth2_start ::
  "flow_env \<Rightarrow> string \<Rightarrow> string option \<Rightarrow> string \<Rightarrow> int \<Rightarrow> nat \<Rightarrow> flow \<Rightarrow> (api_error + string \<times> string) \<times> flow" where
  "oauth2_start fe provider label state now uid fl =
     (let vars = si_vars (fe_site fe) in
      case provider_or_404 vars provider of
        None \<Rightarrow> (Inl (Json_error 404 ''oauth2_unknown_provider'' []), fl)
      | Some cfg \<Rightarrow>
          (case get_oauth2_env vars cfg of
             None \<Rightarrow> (Inl (Json_error 503 ''oauth2_not_configured'' []), fl)
           | Some (client_id, _) \<Rightarrow>
               (Inr (pc_auth_endpoint cfg @ ''?'' @ urlencode ([(''client_id'', client_id),
                   (''redirect_uri'', get_redirect_uri vars cfg), (''response_type'', ''code''), (''scope'', pc_scope cfg),
                   (''state'', state)] @ pc_extra_auth_params cfg), state),
                fl\<lparr>fl_pending := (prune_expired now (fl_pending fl))(state \<mapsto>
                     \<lparr>pe_user_id = uid, pe_label = (if truthy label then or_empty label else pc_default_label cfg),
                      pe_provider = pc_key cfg, pe_created_at = now\<rparr>),
                   fl_started := fl_started fl @ [(uid, state)]\<rparr>)))"

section \<open>Callback\<close>

definition shown :: "flow_env \<Rightarrow> json option \<Rightarrow> string" where
  "shown fe v = (case v of None \<Rightarrow> ''None'' | Some (J_str s) \<Rightarrow> s | Some w \<Rightarrow> fe_str fe w)"

definition em_dash :: string where "em_dash = [sp, char_of (226 :: nat), char_of (128 :: nat), char_of (148 :: nat), sp]"

text \<open>The tokens of a code exchange, or the text of the exception.\<close>

definition exchange_code ::
  "flow_env \<Rightarrow> nat \<Rightarrow> provider_config \<Rightarrow> string \<Rightarrow> string \<Rightarrow> string \<Rightarrow> string \<Rightarrow> string + (json \<times> json)" where
  "exchange_code fe n cfg code client_id client_secret redirect_uri =
     (case fe_post fe n (pc_token_endpoint cfg) [(''code'', code), (''client_id'', client_id),
          (''client_secret'', client_secret), (''redirect_uri'', redirect_uri),
          (''grant_type'', ''authorization_code''), (''scope'', pc_scope cfg)] of
        None \<Rightarrow> Inl (fe_exc fe n)
      | Some (status, body) \<Rightarrow>
          if status \<noteq> 200 then
            (case json_loads body of
               None \<Rightarrow> Inl (pc_key cfg @ '' token exchange failed: HTTP '' @ str_of_nat status)
             | Some (J_obj kvs) \<Rightarrow> Inl (pc_key cfg @ '' token exchange failed: '' @ shown fe (json_get ''error'' kvs)
                 @ em_dash @ shown fe (json_get ''error_description'' kvs))
             | Some _ \<Rightarrow> Inl (fe_exc fe n))
          else (case json_loads body of
              Some (J_obj kvs) \<Rightarrow>
                (case json_get ''refresh_token'' kvs of
                   Some r \<Rightarrow>
                     if json_truthy r then Inr (r, the_default (J_str []) (json_get ''id_token'' kvs))
                     else Inl (pc_key cfg @ '' did not return a refresh_token. Ensure the OAuth2 client requests offline access and forces consent.'')
                 | None \<Rightarrow> Inl (pc_key cfg @ '' did not return a refresh_token. Ensure the OAuth2 client requests offline access and forces consent.''))
            | _ \<Rightarrow> Inl (fe_exc fe n)))"

definition oauth_agent_row ::
  "provider_config \<Rightarrow> pending_flow \<Rightarrow> string \<Rightarrow> string \<Rightarrow> string \<Rightarrow> string \<Rightarrow> string \<Rightarrow> string \<Rightarrow> int \<Rightarrow> nat \<Rightarrow> agent_row" where
  "oauth_agent_row cfg p username pw_hash upstream_user client_id cs rt now i =
     \<lparr>ag_id = i, ag_user_id = pe_user_id p, ag_label = pe_label p, ag_agent_username = username,
      ag_hashed_token = pw_hash, ag_upstream_host = pc_imap_host cfg, ag_upstream_smtp_host = Some (pc_smtp_host cfg),
      ag_upstream_imap_port = pc_imap_port cfg, ag_upstream_smtp_port = pc_smtp_port cfg,
      ag_upstream_user = upstream_user, ag_upstream_password = None, ag_oauth2_provider = Some (pc_key cfg),
      ag_oauth2_refresh_token = Some rt, ag_oauth2_client_id = Some client_id, ag_oauth2_client_secret = Some cs,
      ag_oauth2_access_token = None, ag_oauth2_access_token_expires_at = None, ag_sent_folder = None,
      ag_created_at = now, ag_revoked_at = None\<rparr>"

text \<open>
  The secrets created are only remembered once both are stored; a later failure removes them, and whatever is
  raised becomes the error the user is shown.
\<close>

definition finish_sign_in ::
  "flow_env \<Rightarrow> nat \<Rightarrow> provider_config \<Rightarrow> pending_flow \<Rightarrow> string \<Rightarrow> string \<Rightarrow> string \<Rightarrow> int \<Rightarrow> api \<Rightarrow> sign_in \<times> api" where
  "finish_sign_in fe n cfg p code client_id client_secret now st =
     (let sv = fe_site fe; ke = si_keys sv; oops = Sign_in_error (fe_exc fe n); tok = fe_token fe n;
          username = ''nuvrail_'' @ hex_text (fe_raw fe n)
      in case exchange_code fe n cfg code client_id client_secret (get_redirect_uri (si_vars sv) cfg) of
        Inl msg \<Rightarrow> (Sign_in_error msg, st)
      | Inr (refresh_token, id_token) \<Rightarrow>
          (case email_from_response (pc_key cfg) id_token of
             None \<Rightarrow> (oops, st)
           | Some email \<Rightarrow>
               (case si_bcrypt sv 10 n tok of
                  None \<Rightarrow> (oops, st)
                | Some pw_hash \<Rightarrow>
                    (case store_credential ke client_secret ''oauth2_client_secret'' (Some (pe_user_id p)) (ap_vault st) of
                       (None, v) \<Rightarrow> (oops, st\<lparr>ap_vault := v\<rparr>)
                     | (Some cs, v) \<Rightarrow>
                         (case (case refresh_token of
                                  J_str r \<Rightarrow> store_credential ke r ''oauth2_refresh_token'' (Some (pe_user_id p)) v
                                | _ \<Rightarrow> (None, v)) of
                            (None, v) \<Rightarrow> (oops, st\<lparr>ap_vault := v\<rparr>)
                          | (Some rt, v) \<Rightarrow>
                              (case Option.bind (column_text (fe_real fe) email)
                                  (\<lambda>who. map_option (Pair who) (insert_agent (oauth_agent_row cfg p username pw_hash who client_id cs rt now) (ap_db st))) of
                                 None \<Rightarrow> (oops, st\<lparr>ap_vault := snd (delete_each ke [Some cs, Some rt] v)\<rparr>)
                               | Some (who, _, d) \<Rightarrow>
                                   (Signed_in username tok (pe_label p) email, st\<lparr>ap_vault := v, ap_db := d\<rparr>)))))))"

definition frontend_callback :: string where "frontend_callback = ''/#/oauth2/callback''"

definition oauth2_callback ::
  "flow_env \<Rightarrow> nat \<Rightarrow> string \<Rightarrow> string option \<Rightarrow> string option \<Rightarrow> string option \<Rightarrow> int \<Rightarrow> flow \<Rightarrow> (api_error + string) \<times> flow" where
  "oauth2_callback fe n provider code state err now fl =
     (let vars = si_vars (fe_site fe); s = or_empty state;
          bad = frontend_callback @ ''?'' @ urlencode [(''state'', s), (''error'', ''invalid_state'')];
          back = frontend_callback @ ''?state='' @ url_quote False s
      in case provider_or_404 vars provider of
        None \<Rightarrow> (Inl (Json_error 404 ''oauth2_unknown_provider'' []), fl)
      | Some cfg \<Rightarrow>
          (case (if s = [] then None else fl_pending fl s) of
             None \<Rightarrow> (Inr bad, fl)
           | Some p \<Rightarrow>
               (let fl1 = fl\<lparr>fl_pending := (fl_pending fl)(s := None)\<rparr>;
                    answer = (\<lambda>r fl. (Inr back, fl\<lparr>fl_results := (fl_results fl)(s \<mapsto> (pe_user_id p, r))\<rparr>))
                in if pe_provider p \<noteq> pc_key cfg then (Inr bad, fl1)
                   else if truthy err \<or> \<not> truthy code
                   then answer (Sign_in_error (if truthy err then or_empty err else ''no_code'')) fl1
                   else case get_oauth2_env vars cfg of
                     None \<Rightarrow> answer (Sign_in_error ''oauth2_not_configured'') fl1
                   | Some (client_id, client_secret) \<Rightarrow>
                       (case finish_sign_in fe n cfg p (or_empty code) client_id client_secret now (fl_api fl1) of
                          (r, st) \<Rightarrow> answer r (fl1\<lparr>fl_api := st\<rparr>)))))"

section \<open>Result\<close>

definition oauth2_result :: "flow_env \<Rightarrow> string \<Rightarrow> string \<Rightarrow> nat \<Rightarrow> flow \<Rightarrow> (api_error + sign_in) \<times> flow" where
  "oauth2_result fe provider state uid fl =
     (case provider_or_404 (si_vars (fe_site fe)) provider of
        None \<Rightarrow> (Inl (Json_error 404 ''oauth2_unknown_provider'' []), fl)
      | Some _ \<Rightarrow>
          (case fl_results fl state of
             None \<Rightarrow> (Inl (Json_error 404 ''oauth2_state_not_found'' []), fl)
           | Some (owner, r) \<Rightarrow>
               if owner \<noteq> uid then (Inl (Json_error 404 ''oauth2_state_not_found'' []), fl)
               else (Inr r, fl\<lparr>fl_results := (fl_results fl)(state := None), fl_delivered := fl_delivered fl @ [((uid, state), r)]\<rparr>)))"

section \<open>Laws\<close>

text \<open>The events of a server: the steps of the flows, and any other request (\<open>serve\<close>) in between.\<close>

datatype flow_event =
    Start string "string option" string int nat
  | Callback nat string "string option" "string option" "string option" int
  | Fetch_result string string nat
  | Other_request int request

fun flow_step :: "flow_env \<Rightarrow> flow_event \<Rightarrow> flow \<Rightarrow> flow" where
  "flow_step fe (Start provider label state now uid) fl = snd (oauth2_start fe provider label state now uid fl)"
| "flow_step fe (Callback n provider code state err now) fl = snd (oauth2_callback fe n provider code state err now fl)"
| "flow_step fe (Fetch_result provider state uid) fl = snd (oauth2_result fe provider state uid fl)"
| "flow_step fe (Other_request now rq) fl = fl\<lparr>fl_api := serve (fe_site fe) (now, rq) (fl_api fl)\<rparr>"

definition idle_flow :: "api \<Rightarrow> flow" where
  "idle_flow st = \<lparr>fl_pending = Map.empty, fl_results = Map.empty, fl_api = st, fl_started = [], fl_delivered = []\<rparr>"

subsection \<open>Agents are kept\<close>

definition row_kept :: "agent_row \<Rightarrow> agent_row \<Rightarrow> bool" where
  "row_kept a b \<longleftrightarrow> ag_user_id b = ag_user_id a \<and> ag_agent_username b = ag_agent_username a
     \<and> (ag_revoked_at b \<noteq> None \<or> ag_revoked_at b = ag_revoked_at a \<and> ag_hashed_token b = ag_hashed_token a)"

definition agents_kept :: "db \<Rightarrow> db \<Rightarrow> bool" where
  "agents_kept d d' \<longleftrightarrow> (\<forall>a \<in> set (db_agents d). \<exists>b \<in> set (db_agents d'). row_kept a b)"

lemma row_kept_refl [simp]: "row_kept a a"
  by (simp add: row_kept_def)

lemma row_kept_trans: "row_kept a b \<Longrightarrow> row_kept b c \<Longrightarrow> row_kept a c"
  by (auto simp: row_kept_def)

lemma agents_keptI: "db_agents d' = db_agents d @ xs \<Longrightarrow> agents_kept d d'"
  by (force simp: agents_kept_def)

lemma agents_kept_same: "db_agents d' = db_agents d \<Longrightarrow> agents_kept d d'"
  by (rule agents_keptI [where xs = "[]"]) simp

lemma agents_kept_upd:
  assumes "db_agents d' = upd P f (db_agents d)" "\<And>a. row_kept a (f a)"
  shows "agents_kept d d'"
  unfolding agents_kept_def
proof
  fix a assume "a \<in> set (db_agents d)"
  then show "\<exists>b \<in> set (db_agents d'). row_kept a b"
    using assms(2) [of a] by (intro bexI [of _ "if P a then f a else a"]) (auto simp: assms(1) upd_def)
qed

lemma agents_kept_trans: "agents_kept d e \<Longrightarrow> agents_kept e f \<Longrightarrow> agents_kept d f"
  unfolding agents_kept_def by (meson row_kept_trans)

lemma without_secrets_kept:
  "row_kept a ((without_secrets a)\<lparr>ag_revoked_at := Some now\<rparr>)" "row_kept a (closed_agent now a)"
  by (simp_all add: row_kept_def without_secrets_def closed_agent_def)

lemma for_account_keeps: "for_account chain i now d d' \<Longrightarrow> agents_kept d d'"
  unfolding for_account_def
proof (elim disjE exE)
  assume "agent_revoked i now d d'"
  then show ?thesis
    unfolding agent_revoked_def using agents_kept_upd without_secrets_kept(1) by fastforce
next
  assume "erase_account chain i now d = Some d'"
  then show ?thesis using agents_kept_upd erase_account_tables(2) without_secrets_kept(2) by metis
qed (auto simp: own_row_change_def one_more_agent_def push_change_def intro: agents_kept_same agents_keptI)

lemma serve_keeps: "agents_kept (ap_db st) (ap_db (serve sv rq st))"
  using serve_db [of sv rq st]
proof (elim disjE exE conjE)
  fix d1 i
  assume "own_row_change i (ap_db st) d1" "for_account (si_chain sv) i (fst rq) d1 (ap_db (serve sv rq st))"
  moreover from this have "agents_kept (ap_db st) d1"
    by (auto simp: own_row_change_def intro: agents_kept_same)
  ultimately show ?thesis using agents_kept_trans for_account_keeps by metis
qed (auto simp: own_row_change_def registered_def intro: agents_kept_same)

subsection \<open>Results\<close>

text \<open>A sign-in that succeeded names an agent of the user; the token is the agent's as long as it is not revoked.\<close>

definition issued :: "flow_env \<Rightarrow> db \<Rightarrow> nat \<Rightarrow> sign_in \<Rightarrow> bool" where
  "issued fe d u r \<longleftrightarrow>
     (case r of
        Signed_in name tok label who \<Rightarrow>
          (\<exists>a \<in> set (db_agents d). ag_user_id a = u \<and> ag_agent_username a = name
             \<and> (ag_revoked_at a \<noteq> None \<or> (\<exists>k. si_bcrypt (fe_site fe) 10 k tok = Some (ag_hashed_token a))))
      | Sign_in_error e \<Rightarrow> True)"

lemma issued_error [simp]: "issued fe d u (Sign_in_error e)"
  by (simp add: issued_def)

lemma issued_kept:
  assumes "issued fe d u r" "agents_kept d d'"
  shows "issued fe d' u r"
proof (cases r)
  case (Signed_in name tok label who)
  then obtain a where a: "a \<in> set (db_agents d)" "ag_user_id a = u" "ag_agent_username a = name"
    "ag_revoked_at a \<noteq> None \<or> (\<exists>k. si_bcrypt (fe_site fe) 10 k tok = Some (ag_hashed_token a))"
    using assms(1) by (auto simp: issued_def)
  then obtain b where "b \<in> set (db_agents d')" "row_kept a b" using assms(2) by (auto simp: agents_kept_def)
  then show ?thesis using a by (force simp: issued_def Signed_in row_kept_def)
qed simp

lemma new_agent_issued:
  assumes "insert_agent (oauth_agent_row cfg p username h who cid cs rt now) d = Some (i, d')"
    and "si_bcrypt (fe_site fe) 10 k tok = Some h"
  shows "agents_kept d d'" "issued fe d' (pe_user_id p) (Signed_in username tok label v)"
  using assms by (auto simp: insert_agent_some issued_def oauth_agent_row_def intro: agents_keptI)

lemma finish_sign_in_issued:
  fixes fe n cfg p code cid cs now st
  defines "out \<equiv> finish_sign_in fe n cfg p code cid cs now st"
  shows "agents_kept (ap_db st) (ap_db (snd out)) \<and> issued fe (ap_db (snd out)) (pe_user_id p) (fst out)"
  unfolding out_def finish_sign_in_def Let_def
  by (auto simp: agents_kept_same bind_eq_Some_conv new_agent_issued split: sum.split option.split prod.split)

definition held :: "nat \<Rightarrow> string \<Rightarrow> flow \<Rightarrow> nat" where
  "held u s fl = of_bool (map_option pe_user_id (fl_pending fl s) = Some u) + of_bool (map_option fst (fl_results fl s) = Some u)
     + count_list (map fst (fl_delivered fl)) (u, s)"

definition flow_ok :: "flow_env \<Rightarrow> flow \<Rightarrow> bool" where
  "flow_ok fe fl \<longleftrightarrow> (\<forall>u s. held u s fl \<le> count_list (fl_started fl) (u, s))
     \<and> (\<forall>u r. (u, r) \<in> ran (fl_results fl) \<longrightarrow> issued fe (ap_db (fl_api fl)) u r)
     \<and> (\<forall>x \<in> set (fl_delivered fl). issued fe (ap_db (fl_api fl)) (fst (fst x)) (snd x))"

lemma flow_okI:
  assumes "flow_ok fe fl"
    and "\<And>u s. held u s fl' + count_list (fl_started fl) (u, s) \<le> held u s fl + count_list (fl_started fl') (u, s)"
    and "agents_kept (ap_db (fl_api fl)) (ap_db (fl_api fl'))"
    and "\<And>u r. (u, r) \<in> ran (fl_results fl') \<Longrightarrow> (u, r) \<in> ran (fl_results fl) \<or> issued fe (ap_db (fl_api fl')) u r"
    and "\<And>x. x \<in> set (fl_delivered fl') \<Longrightarrow> x \<in> set (fl_delivered fl) \<or> issued fe (ap_db (fl_api fl')) (fst (fst x)) (snd x)"
  shows "flow_ok fe fl'"
  unfolding flow_ok_def
proof (intro conjI allI ballI impI)
  fix u s
  have "held u s fl \<le> count_list (fl_started fl) (u, s)" using assms(1) by (simp add: flow_ok_def)
  then show "held u s fl' \<le> count_list (fl_started fl') (u, s)" using assms(2) [of u s] by linarith
next
  fix u r assume "(u, r) \<in> ran (fl_results fl')"
  then show "issued fe (ap_db (fl_api fl')) u r" using assms(1,3,4) issued_kept unfolding flow_ok_def by blast
next
  fix x assume "x \<in> set (fl_delivered fl')"
  then show "issued fe (ap_db (fl_api fl')) (fst (fst x)) (snd x)" using assms(1,3,5) issued_kept unfolding flow_ok_def by blast
qed

lemma start_ok: "flow_ok fe fl \<Longrightarrow> flow_ok fe (snd (oauth2_start fe provider label state now uid fl))"
  by (erule flow_okI)
    (auto simp: oauth2_start_def Let_def held_def prune_expired_def agents_kept_same split: option.split)

lemma result_ok: "flow_ok fe fl \<Longrightarrow> flow_ok fe (snd (oauth2_result fe provider state uid fl))"
proof -
  assume ok: "flow_ok fe fl"
  show ?thesis
  proof (cases "fl_results fl state")
    case (Some p)
    obtain owner r where p: "p = (owner, r)" by fastforce
    have "issued fe (ap_db (fl_api fl)) owner r"
      using ok Some unfolding p flow_ok_def by (blast intro: ranI)
    then show ?thesis
      using ok Some p
      by (intro flow_okI [OF ok])
        (auto simp: oauth2_result_def held_def agents_kept_same ran_def split: option.split if_splits)
  qed (use ok in \<open>simp add: oauth2_result_def split: option.split\<close>)
qed

text \<open>A callback that knows the state turns the pending flow into nothing, or into a result for the same user.\<close>

lemma pending_used:
  assumes "flow_ok fe fl" "fl_pending fl s = Some p" "agents_kept (ap_db (fl_api fl)) (ap_db st)"
  shows "flow_ok fe (fl\<lparr>fl_pending := (fl_pending fl)(s := None), fl_api := st\<rparr>)"
    "issued fe (ap_db st) (pe_user_id p) r \<Longrightarrow>
      flow_ok fe (fl\<lparr>fl_pending := (fl_pending fl)(s := None), fl_api := st, fl_results := (fl_results fl)(s \<mapsto> (pe_user_id p, r))\<rparr>)"
  using assms(2,3) by (auto intro!: flow_okI [OF assms(1)] simp: held_def ran_def split: if_splits)

lemma callback_effect:
  fixes fe n provider code state err now fl
  defines "s \<equiv> or_empty state" and "fl' \<equiv> snd (oauth2_callback fe n provider code state err now fl)"
  shows "fl' = fl \<or> (\<exists>p st r. fl_pending fl s = Some p \<and> agents_kept (ap_db (fl_api fl)) (ap_db st)
     \<and> issued fe (ap_db st) (pe_user_id p) r
     \<and> (fl' = fl\<lparr>fl_pending := (fl_pending fl)(s := None), fl_api := st\<rparr>
       \<or> fl' = fl\<lparr>fl_pending := (fl_pending fl)(s := None), fl_api := st, fl_results := (fl_results fl)(s \<mapsto> (pe_user_id p, r))\<rparr>))"
proof (cases "provider_or_404 (si_vars (fe_site fe)) provider")
  case cfg: (Some cfg)
  show ?thesis
  proof (cases "if s = [] then None else fl_pending fl s")
    case (Some p)
    then have p: "s \<noteq> []" "fl_pending fl s = Some p" by (simp_all split: if_splits)
    show ?thesis
    proof (cases "pe_provider p \<noteq> pc_key cfg \<or> truthy err \<or> \<not> truthy code \<or> get_oauth2_env (si_vars (fe_site fe)) cfg = None")
      case True
      then have "fl' = fl\<lparr>fl_pending := (fl_pending fl)(s := None)\<rparr>
          \<or> (\<exists>e. fl' = fl\<lparr>fl_pending := (fl_pending fl)(s := None), fl_results := (fl_results fl)(s \<mapsto> (pe_user_id p, Sign_in_error e))\<rparr>)"
      proof (cases "pe_provider p \<noteq> pc_key cfg \<or> truthy err \<or> \<not> truthy code")
        case True
        then show ?thesis
          using p by (cases "pe_provider p = pc_key cfg")
            (auto simp: fl'_def oauth2_callback_def Let_def cfg s_def [symmetric]
              intro!: exI [of _ "if truthy err then or_empty err else ''no_code''"])
      next
        case False
        then show ?thesis
          using p \<open>_ \<or> _\<close> by (auto simp: fl'_def oauth2_callback_def Let_def cfg s_def [symmetric])
      qed
      moreover have "fl\<lparr>fl_pending := (fl_pending fl)(s := None), fl_api := fl_api fl\<rparr> = fl\<lparr>fl_pending := (fl_pending fl)(s := None)\<rparr>"
        "fl\<lparr>fl_pending := (fl_pending fl)(s := None), fl_api := fl_api fl, fl_results := m\<rparr>
           = fl\<lparr>fl_pending := (fl_pending fl)(s := None), fl_results := m\<rparr>" for m
        by (cases fl, simp)+
      ultimately show ?thesis using p(2) agents_kept_same [OF refl] issued_error by metis
    next
      case False
      then obtain cid cs where creds: "get_oauth2_env (si_vars (fe_site fe)) cfg = Some (cid, cs)" by fastforce
      define out where "out = finish_sign_in fe n cfg p (or_empty code) cid cs now (fl_api fl)"
      have "fl' = fl\<lparr>fl_pending := (fl_pending fl)(s := None), fl_api := snd out,
          fl_results := (fl_results fl)(s \<mapsto> (pe_user_id p, fst out))\<rparr>"
        using False p by (cases out) (simp add: fl'_def oauth2_callback_def Let_def cfg s_def [symmetric] creds out_def)
      then show ?thesis using p finish_sign_in_issued unfolding out_def by blast
    qed
  qed (auto simp: fl'_def oauth2_callback_def Let_def cfg s_def)
qed (simp add: fl'_def oauth2_callback_def Let_def)

lemma callback_ok: "flow_ok fe fl \<Longrightarrow> flow_ok fe (snd (oauth2_callback fe n provider code state err now fl))"
  using callback_effect [of fe n provider code state err now fl] pending_used [of fe fl] by metis

lemma flow_step_ok: "flow_ok fe fl \<Longrightarrow> flow_ok fe (flow_step fe e fl)"
proof (cases e)
  case (Other_request now rq)
  assume "flow_ok fe fl"
  then show ?thesis
    by (rule flow_okI) (simp_all add: Other_request held_def serve_keeps del: serve.simps)
qed (simp_all add: start_ok callback_ok result_ok)

lemma idle_flow_ok: "flow_ok fe (idle_flow st)"
  by (simp add: flow_ok_def idle_flow_def held_def)

lemma flow_run_ok: "flow_ok fe fl \<Longrightarrow> flow_ok fe (fold (flow_step fe) evs fl)"
  by (induction evs arbitrary: fl) (simp_all add: flow_step_ok)

text \<open>C15: 
  C0: However flows, callbacks, pick-ups and other requests are interleaved, the result of a sign-in only goes to the
  user who started it, and at most once per start: a leaked or replayed state yields nothing. A result that reports
  success names an agent of that very user, whose stored hash is that of the token handed out unless the agent was
  revoked in between.
\<close>

theorem sign_in_result_to_starter:
  fixes fe evs st
  defines "fl \<equiv> fold (flow_step fe) evs (idle_flow st)"
  shows "count_list (map fst (fl_delivered fl)) (u, s) \<le> count_list (fl_started fl) (u, s)
    \<and> list_all (\<lambda>x. issued fe (ap_db (fl_api fl)) (fst (fst x)) (snd x)) (fl_delivered fl)"
proof -
  have ok: "flow_ok fe fl" unfolding fl_def by (rule flow_run_ok [OF idle_flow_ok])
  then have "held u s fl \<le> count_list (fl_started fl) (u, s)" by (simp add: flow_ok_def)
  then have "count_list (map fst (fl_delivered fl)) (u, s) \<le> count_list (fl_started fl) (u, s)" by (simp add: held_def)
  then show ?thesis using ok by (simp add: flow_ok_def list_all_iff)
qed

text \<open>
  Observation: the payload of a token is base64url, the decoder is the one for plain base64: a \<open>_\<close> or \<open>-\<close> in the
  payload is skipped, and with it the address is lost.
\<close>

lemma base64url_loses_address:
  "email_from_response ''google'' (J_str ''h.eyJlbWFpbCI6ImFAYi5jIiwibiI6ImFiPyJ9.s'') = Some (J_str ''a@b.c'')"
  "email_from_response ''google'' (J_str ''h.eyJuIjoiYWI_IiwiZW1haWwiOiJhQGIuYyJ9.s'') = Some (J_str [])"
  by code_simp+

end
