(* ===== verification/Push.thy ===== *)
theory Push
  imports Accounts
begin

text \<open>
  The notification of a staged operation (\<open>gateway/push.py\<close>): one Web Push message to each subscription of the owner.
  The VAPID keys, the encryption and the call to the push service are parameters.
\<close>

text \<open>\<open>pn_keys\<close>: the key pair exists or could be made; \<open>pn_send n p s\<close>: whether the \<open>n\<close>-th message was taken.\<close>

record push_net =
  pn_keys :: bool
  pn_send :: "nat \<Rightarrow> push_row \<Rightarrow> string \<Rightarrow> bool"

definition get_subscriptions :: "nat option \<Rightarrow> db \<Rightarrow> push_row list" where
  "get_subscriptions user_id d =
     (case user_id of None \<Rightarrow> [] | Some u \<Rightarrow> filter (\<lambda>p. pu_user_id p = Some u) (db_push d))"

definition json_spaced :: "(string \<times> string) list \<Rightarrow> string" where
  "json_spaced kvs = ''{'' @ py_join '', '' (map (\<lambda>(k, v). json_dump_str k @ '': '' @ v) kvs) @ ''}''"

definition action_required :: string where
  "action_required = ''Nuvrail '' @ map char_of [226 :: nat, 128, 148] @ '' Action required''"

definition warning_sign :: string where
  "warning_sign = map char_of [226 :: nat, 154, 160, 239, 184, 143] @ '' ''"

definition push_payload :: "string \<Rightarrow> string \<Rightarrow> bool \<Rightarrow> string" where
  "push_payload operation_id description urgent =
     json_spaced [(''title'', json_dump_str ((if urgent then warning_sign else []) @ action_required)),
       (''body'', json_dump_str description), (''urgent'', if urgent then ''true'' else ''false''),
       (''operation_id'', json_dump_str operation_id), (''url'', json_dump_str ''/'')]"

text \<open>The messages sent, and how many were taken; no failure leaves the function.\<close>

definition notify_staged ::
  "push_net \<Rightarrow> string \<Rightarrow> string \<Rightarrow> bool \<Rightarrow> nat option \<Rightarrow> db \<Rightarrow> (push_row \<times> string) list \<times> nat" where
  "notify_staged net operation_id description urgent user_id d =
     (if \<not> pn_keys net then ([], 0)
      else let msgs = map (\<lambda>p. (p, push_payload operation_id description urgent)) (get_subscriptions user_id d)
        in (msgs, length (filter (\<lambda>(n, p, s). pn_send net n p s) (enumerate 0 msgs))))"

text \<open>Only the owner's subscriptions hear of an operation, each once, and without an owner nobody does.\<close>

lemma notified_owner_only:
  "(p, s) \<in> set (fst (notify_staged net i descr urgent user_id d)) \<Longrightarrow> user_id \<noteq> None \<and> pu_user_id p = user_id \<and> p \<in> set (db_push d)"
  by (auto simp: notify_staged_def get_subscriptions_def Let_def split: if_splits option.splits)

text \<open>A subscription another account has claimed since is not told any more.\<close>

lemma claimed_subscription_moves:
  assumes "us_id u \<noteq> j"
    and "(p, s) \<in> set (fst (notify_staged net i descr urgent (Some j) (ap_db (snd (subscribe endpoint key auth now u st)))))"
  shows "pu_endpoint p \<noteq> endpoint"
proof -
  have p: "pu_user_id p = Some j" "p \<in> set (db_push (ap_db (snd (subscribe endpoint key auth now u st))))"
    using notified_owner_only [OF assms(2)] by simp_all
  show ?thesis
  proof (cases "list_ex (\<lambda>p. pu_endpoint p = endpoint) (db_push (ap_db st))")
    case True
    then have "p \<in> (\<lambda>q. if pu_endpoint q = endpoint
        then q\<lparr>pu_user_id := Some (us_id u), pu_p256dh := key, pu_auth := auth\<rparr> else q) ` set (db_push (ap_db st))"
      using p(2) by (simp add: subscribe_def Let_def upd_def)
    then show ?thesis using p(1) assms(1) by (elim imageE) (simp split: if_splits)
  next
    case False
    with p(2) have "p \<in> set (db_push (ap_db st)) \<or> pu_user_id p = Some (us_id u)"
      by (auto simp: subscribe_def Let_def)
    with False p(1) assms(1) show ?thesis by (auto simp: list_ex_iff)
  qed
qed

end
