(* ===== verification/Spec2Isabelle.thy ===== *)
theory Spec2Isabelle
  imports Prelude Utf8 Regex Imap_Parser Command_Router Response_Parser Provider_Profiles
    Operation_Parser Intent Db_Schema Interfaces State_Db Mirror Audit_Log Rate_Limiter
    Agent_Auth Operations Upstream Execution Execution_Laws
    Undo Staging Batching Lifecycle Controls Proxy_Wire Proxy_Client Proxy_Laws Proxy_Server Server_Laws
    Proxy_Connection Agent_Login Proxy_Login Mime_Render Smtp_Proxy Smtp_Laws Smtp_Session
    Json Secrets Accounts Account_Laws Audit_Routes Retention Scrubber OAuth2_Tokens OAuth2_Flow Push
begin

text \<open>
  A model of nuvrail's gateway (\<open>src/gateway\<close>, \<open>src/api\<close>): two proxies that sit between a mail agent and the IMAP and
  SMTP servers of its user, and the HTTP API of the people who review what the agent proposes. Reads are passed on.
  Every write is answered at once, staged as an operation, shown to the agent as if done, and carried out, refused or
  undone later by a reviewer, a rule, the scheduler or the expiry.

  How the parts work together.  A line of the agent is parsed and classified; a read goes upstream, a write becomes a
  row of \<open>staged_operations\<close> with a snapshot of the mirror rows it touches, and the mirror is changed ahead of the
  server.  The server's responses pass the other pump, which keeps the mirror in step, hides messages with a pending
  move and takes rejected proposals back.  An approval runs the executor against the server; every step appends an
  entry to the hash-chained audit log.  All processes share one SQLite database, the record \<open>db\<close> of \<open>Db_Schema\<close>: a
  list of row records per table.

  Theories, in the order of the data flow, with the code they model:

    \<^item> \<open>Prelude\<close>, \<open>Utf8\<close>, \<open>Regex\<close>, \<open>Json\<close>: Python's string methods, UTF-8, the regular expressions the code uses (a
      backtracking matcher, patterns as data) and its JSON reader and writer; \<open>Interfaces\<close>: the contracts between
      components as locales (\<open>revertible\<close>, \<open>claimable\<close>, \<open>hash_chain\<close>, \<open>window_limit\<close>), interpreted on the definitions
      of the components that provide them (\<open>Mirror\<close>, \<open>Lifecycle\<close>, \<open>Audit_Log\<close>, \<open>Rate_Limiter\<close>).
    \<^item> \<open>Imap_Parser\<close> (\<open>imap_parser.py\<close>), \<open>Command_Router\<close> (\<open>command_router.py\<close>), \<open>Response_Parser\<close>
      (\<open>imap_response_parser.py\<close>), \<open>Provider_Profiles\<close> (\<open>provider_profiles.py\<close>), \<open>Operation_Parser\<close>
      (\<open>operation_parser.py\<close>), \<open>Intent\<close> (\<open>intent.py\<close>): text to commands, verdicts, responses and operations. Laws:
      a printed line parses back, the exact verdict of every command, a
      line passed as a read has no write verb for a server that splits at spaces.
    \<^item> \<open>Db_Schema\<close>, \<open>State_Db\<close>, \<open>Mirror\<close> (\<open>state_db.py\<close>): tables, mailbox mirror, pending reverts, invite codes; the
      mirror's invariant, that its operations keep it, and that a rejected change is taken back exactly.
    \<^item> \<open>Audit_Log\<close> (\<open>audit.py\<close>), \<open>Rate_Limiter\<close> (\<open>send_rate_limiter.py\<close>), \<open>Agent_Auth\<close> (\<open>agent_auth.py\<close>),
      \<open>Controls\<close> (\<open>security_controls.py\<close>, \<open>api/auth.py\<close>, \<open>api/signup.py\<close>): tamper evidence up to a digest collision,
      the send caps and login caps in every window, who counts as signed in.
    \<^item> \<open>Operations\<close>, \<open>Staging\<close> (\<open>staging.py\<close>, \<open>extensions.py\<close>), \<open>Batching\<close> (\<open>batching.py\<close>, \<open>batch_summary.py\<close>),
      \<open>Upstream\<close>, \<open>Execution\<close>, \<open>Execution_Laws\<close> (\<open>execution.py\<close>), \<open>Undo\<close> (\<open>undo.py\<close>), \<open>Lifecycle\<close> (\<open>expiry.py\<close>,
      \<open>scheduler.py\<close>, \<open>api/routes/operations.py\<close>): an operation from proposal to outcome. A run issues calls of the
      client libraries, each answered by the parameter \<open>env_server\<close>; the laws say which calls are made (refinement of
      the one mailbox command an operation stands for, and of its inverse), what is recorded, which status changes are
      possible, and that a deferred operation is claimed once.
    \<^item> \<open>Proxy_Wire\<close>, \<open>Proxy_Client\<close>, \<open>Proxy_Laws\<close>, \<open>Proxy_Server\<close>, \<open>Server_Laws\<close>, \<open>Proxy_Connection\<close>,
      \<open>Agent_Login\<close>, \<open>Proxy_Login\<close> (\<open>proxy.py\<close>): the IMAP proxy. The two pumps are functions on the session state, and
      a connection is the step relation \<open>conn_step\<close> that interleaves them until the first ends; \<open>handle_client\<close> is the
      whole handler. Laws: only single lines with a read verb and one login ever go upstream, every command is
      answered, everything staged is the agent's, a quiet relay is byte for byte the server's, runs end.
    \<^item> \<open>Mime_Render\<close> (\<open>mime_render.py\<close>), \<open>Smtp_Proxy\<close>, \<open>Smtp_Laws\<close>, \<open>Smtp_Session\<close> (\<open>smtp_proxy.py\<close>): the text a
      reviewer reads, every command of the SMTP session, the login with STARTTLS, DATA. Laws: no message is submitted,
      what is staged is what was sent, to the recipients named.
    \<^item> \<open>Secrets\<close> (\<open>credentials.py\<close>, \<open>secret_store.py\<close>), \<open>OAuth2_Tokens\<close> (\<open>oauth2_tokens.py\<close>), \<open>OAuth2_Flow\<close>
      (\<open>api/routes/oauth2.py\<close>): envelopes and references, the cache in front of the secret managers, teardown; access
      tokens; the browser sign-in. Laws: a credential is read back as stored, also after a restart; a token handed out
      is the agent's own and has time left; a sign-in result reaches its starter only, once.
    \<^item> \<open>Accounts\<close>, \<open>Account_Laws\<close> (\<open>api/routes/auth.py\<close>, \<open>account.py\<close>, \<open>push.py\<close>), \<open>Audit_Routes\<close>
      (\<open>api/routes/audit.py\<close>), \<open>Push\<close> (\<open>push.py\<close>), \<open>Retention\<close> (\<open>retention.py\<close>), \<open>Scrubber\<close> (\<open>scrubber.py\<close>,
      \<open>loop_health.py\<close>): the API of the account and the background sweeps. Each handler is a function from the state
      \<open>api\<close> (database, login throttle, token touches, secret store) to an error or a result and the new state; \<open>serve\<close>
      puts them together. Laws: keys stay unique, a request changes rows of its own account only, a deleted account is
      never reached again, the purge removes exactly what belongs to the accounts due, a reader of the audit log sees
      own entries only and the same ones by every route.

  Parameters.  Code outside the repository is an argument: the mail servers and client libraries (\<open>env_server\<close>,
  \<open>env_caps\<close>, \<open>sv_dial\<close>, \<open>sv_tls\<close>, \<open>le_connect\<close>), SHA-256, bcrypt and AES-GCM (\<open>env_digest\<close>, \<open>gt_verify\<close>,
  \<open>si_bcrypt\<close>, \<open>ke_seal\<close>, \<open>ke_open\<close>), the email package (\<open>mail_lib\<close>, \<open>env_parse_email\<close>), the rules plugin
  (\<open>pe_decide\<close>), the plan quota (\<open>si_quota\<close>), the secret managers (\<open>ke_put\<close>, \<open>ke_get\<close>, \<open>ke_drop\<close>), the HTTP client
  (\<open>te_post\<close>, \<open>fe_post\<close>). Clock readings and random draws are functions of a counter, so consecutive readings may
  differ in any way. Where a law needs something of a parameter (that opening undoes sealing, that a manager returns
  what was put) it is a hypothesis, and the witness instantiates the parameter with a function that has it.

  Conventions.  A Python \<open>str\<close> is the list of the bytes of its UTF-8 form; lengths the code counts in characters are
  counted in characters; case mapping and white space are the ASCII ones. JSON columns hold the decoded value. A
  handler, a command line with its literals, a response line or a pass of a background loop is one step: its awaits
  are not interleaved with other steps, except where a law speaks of interleavings (\<open>conn_step\<close>, the claims of the
  scheduler, \<open>flow_step\<close>). The bytes read at a time are successive chunks of the stream, at any cut. Exceptions are
  the left values of sums or \<open>None\<close>; an exception that leaves a handler is \<open>Unhandled\<close>. The text of a log line, and
  of an exception of a library, is left out or a parameter.

  Bounds and fuel.  \<open>STREAM_LIMIT\<close> (asyncio's line limit), \<open>MAX_APPEND_BYTES\<close>, \<open>READ_CHUNK\<close> and \<open>DISCOVERY_MAX_LINES\<close>
  are the constants of the code. The loops recurse on the input left, with termination proofs; the steps of
  any interleaving of the pumps are bounded by the input. The JSON reader is the only function with fuel: each level of nesting and
  each element consumes a character, so \<open>2 * length s + 2\<close> is enough, and \<open>json_fuel\<close> shows that more changes nothing.

  Not modelled.  Connection pragmas, schema creation and migrations of SQLite (\<open>state_db.py\<close>), which change no row the
  model has; the server start, TLS set-up and signal handling of the proxies; the sleeping loops around the sweeps,
  which call the passes modelled here; FastAPI wiring, pydantic field declarations and rate limit decorators
  (\<open>api/main.py\<close>, \<open>api/models.py\<close>, \<open>api/limiter.py\<close>), read-only settings (\<open>config.py\<close>, \<open>features.py\<close>, \<open>health.py\<close>),
  the registry for an entitlements provider that is not in the repository, the key files and the encrypted call of Web
  Push, logging, the command-line scripts, the demonstration clients and the TypeScript user interface.
\<close>

end
